(* ===== verification/Prelude.thy ===== *)
theory Prelude
  imports Complex_Main "HOL-Library.AList"
begin

text \<open>
  Shared vocabulary of the development: Python exceptions and fallible results, Python's
  insertion-ordered dictionaries as association lists with distinct keys (updated with
  \<^const>\<open>AList.update\<close>, which overwrites in place and otherwise appends, and
  \<^const>\<open>AList.delete\<close>), truthiness helpers, and the generic lemmas on these which the
  component theories use.  Points in time and durations (\<open>float\<close> in the source) are exact
  rationals; rounding is not modelled.
\<close>

named_theorems inv_intros \<open>introduction rules for the component invariants\<close>
named_theorems op_defs \<open>defining equations of the components' operations\<close>

section \<open>Errors and results\<close>

datatype py_exc =
    StopIteration
  | ValueError string
  | RuntimeError string
  | TypeError string
  | KeyError
  | TimeoutError
  | CancelledError
  | HistogramError string
  | MetricStateError string
  | TimerStateError string
  | InvalidTimestampError string
  | MaxConnectionsExceeded
  | QueryAuthorizationError
  | QueryTimeoutError
  | HTTPException nat string
  | OtherError string

type_synonym 'a result = "py_exc + 'a"

type_synonym seconds = rat

section \<open>Python truthiness\<close>

text \<open>\<open>x or d\<close> for an optional integer: \<open>None\<close> and \<open>0\<close> are both falsy.\<close>

fun py_or_int :: "int option \<Rightarrow> int \<Rightarrow> int" where
  "py_or_int None d = d"
| "py_or_int (Some n) d = (if n = 0 then d else n)"

text \<open>\<open>s or d\<close> for an optional string.\<close>

fun py_or_str :: "string option \<Rightarrow> string \<Rightarrow> string" where
  "py_or_str None d = d"
| "py_or_str (Some s) d = (if s = [] then d else s)"

text \<open>\<open>round(x, n)\<close>: to the nearest multiple of \<open>10^-n\<close>, ties to the even one.\<close>

definition py_round :: "nat \<Rightarrow> rat \<Rightarrow> rat" where
  "py_round n x =
     (let y = x * 10 ^ n; f = \<lfloor>y\<rfloor>; r = y - of_int f in
      of_int (if r < 1 / 2 \<or> (r = 1 / 2 \<and> even f) then f else f + 1) / 10 ^ n)"

section \<open>Insertion-ordered dictionaries\<close>

type_synonym ('k, 'v) odict = "('k \<times> 'v) list"

abbreviation keys :: "('k, 'v) odict \<Rightarrow> 'k list" where
  "keys d \<equiv> map fst d"

definition wf_odict :: "('k, 'v) odict \<Rightarrow> bool" where
  "wf_odict d \<longleftrightarrow> distinct (keys d)"

text \<open>\<open>OrderedDict.move_to_end(k)\<close> for a present key.\<close>

definition od_move_to_end :: "'k \<Rightarrow> ('k, 'v) odict \<Rightarrow> ('k, 'v) odict" where
  "od_move_to_end k d =
     (case map_of d k of None \<Rightarrow> d | Some v \<Rightarrow> AList.delete k d @ [(k, v)])"

lemma wf_odict_Nil [simp, inv_intros]: "wf_odict []"
  by (simp add: wf_odict_def)

lemma wf_odict_update [simp, inv_intros]: "wf_odict d \<Longrightarrow> wf_odict (AList.update k v d)"
  by (simp add: wf_odict_def AList.distinct_update)

lemma wf_odict_delete [simp, inv_intros]: "wf_odict d \<Longrightarrow> wf_odict (AList.delete k d)"
  by (simp add: wf_odict_def AList.distinct_delete)

lemma keys_delete: "keys (AList.delete k d) = filter (\<lambda>x. x \<noteq> k) (keys d)"
  by (induction d) auto

lemma map_of_delete: "map_of (AList.delete k d) = (map_of d)(k := None)"
  by (rule ext) (simp add: AList.delete_conv')

lemma map_of_update: "map_of (AList.update k v d) = (map_of d)(k \<mapsto> v)"
  by (rule ext) (simp add: AList.update_conv')

lemma update_new: "k \<notin> set (keys d) \<Longrightarrow> AList.update k v d = d @ [(k, v)]"
  by (induction d) auto

lemma keys_update_new: "k \<notin> set (keys d) \<Longrightarrow> keys (AList.update k v d) = keys d @ [k]"
  by (simp add: update_new)

lemma keys_update_old: "k \<in> set (keys d) \<Longrightarrow> keys (AList.update k v d) = keys d"
  by (induction d) auto

lemma length_update:
  "length (AList.update k v d) = (if k \<in> set (keys d) then length d else Suc (length d))"
  by (induction d) auto

lemma filter_neq_distinct_length: "distinct xs \<Longrightarrow> x \<in> set xs \<Longrightarrow>
    length (filter (\<lambda>y. y \<noteq> x) xs) = length xs - 1"
proof (induction xs)
  case (Cons a xs)
  show ?case
  proof (cases "a = x")
    case True
    with Cons.prems have "filter (\<lambda>y. y \<noteq> x) xs = xs" by (auto intro: filter_True)
    with True show ?thesis by simp
  next
    case False
    with Cons show ?thesis using length_pos_if_in_set [of x xs] by auto
  qed
qed simp

lemma length_delete: "wf_odict d \<Longrightarrow>
  length (AList.delete k d) = (if k \<in> set (keys d) then length d - 1 else length d)"
proof -
  assume "wf_odict d"
  then have d: "distinct (keys d)" by (simp add: wf_odict_def)
  have "length (AList.delete k d) = length (filter (\<lambda>x. x \<noteq> k) (keys d))"
    by (metis keys_delete length_map)
  also have "\<dots> = (if k \<in> set (keys d) then length d - 1 else length d)"
  proof (cases "k \<in> set (keys d)")
    case True
    with filter_neq_distinct_length [OF d True] show ?thesis by simp
  next
    case False
    then have "filter (\<lambda>x. x \<noteq> k) (keys d) = keys d" by (auto intro: filter_True)
    with False show ?thesis by (simp del: filter_map)
  qed
  finally show ?thesis .
qed

lemma length_delete_le: "length (AList.delete k d) \<le> length d"
  by (simp add: AList.length_delete_le)

lemma map_of_None_keys: "map_of d k = None \<longleftrightarrow> k \<notin> set (keys d)"
  by (simp add: map_of_eq_None_iff)

lemma map_of_Some_keys: "map_of d k = Some v \<Longrightarrow> k \<in> set (keys d)"
  by (metis map_of_None_keys option.distinct(1))

lemma keys_move_to_end: "k \<in> set (keys d) \<Longrightarrow>
    keys (od_move_to_end k d) = filter (\<lambda>x. x \<noteq> k) (keys d) @ [k]"
  by (auto simp: od_move_to_end_def keys_delete map_of_None_keys split: option.splits)

lemma wf_odict_move_to_end [simp, inv_intros]: "wf_odict d \<Longrightarrow> wf_odict (od_move_to_end k d)"
  by (auto simp: od_move_to_end_def wf_odict_def keys_delete split: option.splits)

lemma map_of_move_to_end: "wf_odict d \<Longrightarrow> map_of (od_move_to_end k d) = map_of d"
  by (rule ext) (auto simp: od_move_to_end_def map_add_def AList.delete_conv split: option.splits)

lemma length_move_to_end: "wf_odict d \<Longrightarrow> length (od_move_to_end k d) = length d"
proof (cases "map_of d k")
  case (Some v)
  assume "wf_odict d"
  with Some have "length (AList.delete k d) = length d - 1" "0 < length d"
    using map_of_Some_keys [OF Some] by (auto simp: length_delete)
  with Some show ?thesis by (simp add: od_move_to_end_def)
qed (simp add: od_move_to_end_def)

lemma set_delete_subset: "set (AList.delete k d) \<subseteq> set d"
  by (induction d) auto

lemma set_move_to_end: "set (od_move_to_end k d) \<subseteq> set d"
  using set_delete_subset [of k d]
  by (auto simp: od_move_to_end_def dest: map_of_SomeD split: option.splits)

lemma set_update_subset: "set (AList.update k v d) \<subseteq> insert (k, v) (set d)"
  by (induction d) auto

lemma set_keys_update: "set (keys (AList.update k v d)) = insert k (set (keys d))"
  by (induction d) auto

lemma set_keys_delete: "set (keys (AList.delete k d)) = set (keys d) - {k}"
  by (simp add: keys_delete set_diff_eq del: set_map)

lemma delete_update_new: "k \<notin> set (keys d) \<Longrightarrow> AList.delete k (AList.update k v d) = d"
  by (induction d) (auto simp: AList.delete_idem)

end
