(* ===== verification/Histogram.thy ===== *)
theory Histogram
  imports Prelude
begin

text \<open>
  \<open>src/core/performance/histogram.py\<close>: the bucketed histogram, the streaming percentile
  estimator (the P-squared algorithm with five markers) and the pair of both which the
  connection pools keep for their wait times.  Floating-point values are exact rationals.
  \<open>bisect_left\<close> is only ever called on ascending lists (shown below), for which the number
  of leading elements below the value is what the library's binary search returns.  The main
  result is that the estimator's markers stay ordered, so every estimate lies between the
  smallest and the largest value observed.
\<close>

section \<open>Histogram\<close>

definition default_bucket_bounds :: "rat list" where
  "default_bucket_bounds = [1/2, 1, 2, 5, 10, 25, 50, 100, 250, 500, 1000, 2500, 5000, 10000]"

definition default_quantiles :: "rat list" where
  "default_quantiles = [1/2, 9/10, 95/100, 99/100]"

type_synonym tags = "(string, string) odict"

record histogram =
  h_name :: string
  h_tags :: tags
  bucket_bounds :: "rat list"
  bucket_counts :: "nat list"
  h_count :: nat
  h_total :: rat
  h_minimum :: "rat option"
  h_maximum :: "rat option"

definition hist_new :: "string \<Rightarrow> tags \<Rightarrow> rat list \<Rightarrow> histogram result" where
  "hist_new name tags bounds =
     (if bounds \<noteq> sort bounds then Inl (HistogramError ''bucket_bounds must be sorted ascending'')
      else Inr \<lparr>h_name = name, h_tags = tags, bucket_bounds = bounds,
             bucket_counts = replicate (length bounds + 1) 0, h_count = 0, h_total = 0,
             h_minimum = None, h_maximum = None\<rparr>)"

definition bisect_left :: "rat list \<Rightarrow> rat \<Rightarrow> nat" where
  "bisect_left xs v = length (takeWhile (\<lambda>x. x < v) xs)"

definition hist_observe :: "rat \<Rightarrow> histogram \<Rightarrow> histogram" where
  "hist_observe v h =
     (let index = bisect_left (bucket_bounds h) v in
      h\<lparr>h_count := Suc (h_count h), h_total := h_total h + v,
        h_minimum := Some (case h_minimum h of None \<Rightarrow> v | Some m \<Rightarrow> min m v),
        h_maximum := Some (case h_maximum h of None \<Rightarrow> v | Some m \<Rightarrow> max m v),
        bucket_counts := (bucket_counts h)[index := Suc (bucket_counts h ! index)]\<rparr>)"

definition hist_mean :: "histogram \<Rightarrow> rat option" where
  "hist_mean h = (if h_count h = 0 then None else Some (h_total h / of_nat (h_count h)))"

text \<open>The labels are the bounds' decimal strings and \<open>+Inf\<close>, here \<open>Some b\<close> and \<open>None\<close>.\<close>

fun running_counts :: "nat \<Rightarrow> rat option list \<Rightarrow> nat list \<Rightarrow> (rat option, nat) odict \<Rightarrow> (rat option, nat) odict" where
  "running_counts running (l # ls) (c # cs) d =
     running_counts (running + c) ls cs (AList.update l (running + c) d)"
| "running_counts running ls cs d = d"

definition cumulative_counts :: "histogram \<Rightarrow> (rat option, nat) odict" where
  "cumulative_counts h = running_counts 0 (map Some (bucket_bounds h) @ [None]) (bucket_counts h) []"

section \<open>StreamingPercentileEstimator\<close>

record p2 =
  p2_quantile :: rat
  heights :: "rat list"
  positions :: "int list"
  desired_positions :: "rat list"
  increments :: "rat list"
  initial_samples :: "rat list"
  observation_count :: nat

definition p2_new :: "rat \<Rightarrow> p2 result" where
  "p2_new q =
     (if \<not> (0 < q \<and> q < 1) then Inl (HistogramError ''quantile must be between 0 and 1'')
      else Inr \<lparr>p2_quantile = q, heights = [], positions = [], desired_positions = [], increments = [],
             initial_samples = [], observation_count = 0\<rparr>)"

definition initialize_markers :: "p2 \<Rightarrow> p2" where
  "initialize_markers e =
     (let samples = sort (initial_samples e); p = p2_quantile e in
      e\<lparr>initial_samples := samples, heights := samples, positions := [1, 2, 3, 4, 5],
        desired_positions := [1, 1 + 2 * p, 1 + 4 * p, 3 + 2 * p, 5],
        increments := [0, p / 2, p, (1 + p) / 2, 1]\<rparr>)"

definition parabolic :: "rat list \<Rightarrow> int list \<Rightarrow> nat \<Rightarrow> int \<Rightarrow> rat" where
  "parabolic hs ns i d =
     (let n_left = ns ! (i - 1); n_mid = ns ! i; n_right = ns ! (i + 1);
          h_left = hs ! (i - 1); h_mid = hs ! i; h_right = hs ! (i + 1);
          term_a = of_int (n_mid - n_left + d) * (h_right - h_mid) / of_int (n_right - n_mid);
          term_b = of_int (n_right - n_mid - d) * (h_mid - h_left) / of_int (n_mid - n_left)
      in h_mid + of_int d / of_int (n_right - n_left) * (term_a + term_b))"

definition linear :: "rat list \<Rightarrow> int list \<Rightarrow> nat \<Rightarrow> int \<Rightarrow> rat" where
  "linear hs ns i d =
     (let neighbor = nat (int i + d) in
      hs ! i + of_int d * (hs ! neighbor - hs ! i) / of_int (ns ! neighbor - ns ! i))"

text \<open>The body of the last loop of \<open>_update_markers\<close>, for one inner marker.\<close>

definition adjust_marker :: "rat list \<Rightarrow> nat \<Rightarrow> rat list \<times> int list \<Rightarrow> rat list \<times> int list" where
  "adjust_marker desired i hn =
     (let (hs, ns) = hn;
          diff = desired ! i - of_int (ns ! i);
          right_gap = ns ! (i + 1) - ns ! i;
          left_gap = ns ! i - ns ! (i - 1)
      in if (diff \<ge> 1 \<and> right_gap > 1) \<or> (diff \<le> -1 \<and> left_gap > 1)
         then (let direction = (if diff \<ge> 1 then 1 else -1);
                   adjusted = parabolic hs ns i direction
               in (hs[i := (if hs ! (i - 1) < adjusted \<and> adjusted < hs ! (i + 1) then adjusted
                            else linear hs ns i direction)],
                   ns[i := ns ! i + direction]))
         else (hs, ns))"

definition place_value :: "rat \<Rightarrow> rat list \<Rightarrow> rat list \<times> nat" where
  "place_value v hs =
     (if v < hs ! 0 then (hs[0 := v], 0)
      else if v \<ge> hs ! (length hs - 1) then (hs[length hs - 1 := v], 3)
      else (hs, nat (max 0 (min (int (bisect_left hs v) - 1) 3))))"

definition update_markers :: "rat \<Rightarrow> p2 \<Rightarrow> p2" where
  "update_markers v e =
     (let (hs, cell) = place_value v (heights e);
          ns = map (\<lambda>i. positions e ! i + (if cell + 1 \<le> i then 1 else 0)) [0..<5];
          ds = map (\<lambda>i. desired_positions e ! i + increments e ! i) [0..<5];
          (hs', ns') = fold (adjust_marker ds) [1, 2, 3] (hs, ns)
      in e\<lparr>heights := hs', positions := ns', desired_positions := ds\<rparr>)"

definition p2_observe :: "rat \<Rightarrow> p2 \<Rightarrow> p2" where
  "p2_observe v e0 =
     (let e = e0\<lparr>observation_count := Suc (observation_count e0)\<rparr> in
      if length (initial_samples e) < 5
      then (let e1 = e\<lparr>initial_samples := initial_samples e @ [v]\<rparr> in
            if length (initial_samples e1) = 5 then initialize_markers e1 else e1)
      else update_markers v e)"

definition p2_value :: "p2 \<Rightarrow> rat option" where
  "p2_value e =
     (if observation_count e = 0 then None
      else if length (initial_samples e) < 5
      then (let samples = sort (initial_samples e);
                index = min (length samples - 1) (nat \<lfloor>p2_quantile e * of_nat (length samples - 1)\<rfloor>)
            in Some (samples ! index))
      else Some (heights e ! 2))"

section \<open>StreamingHistogram\<close>

record streaming_histogram =
  sh_histogram :: histogram
  sh_estimators :: "(rat, p2) odict"

fun new_estimators :: "rat list \<Rightarrow> (rat, p2) odict \<Rightarrow> (rat, p2) odict result" where
  "new_estimators [] d = Inr d"
| "new_estimators (q # qs) d =
     (case p2_new q of Inl e \<Rightarrow> Inl e | Inr p \<Rightarrow> new_estimators qs (AList.update q p d))"

definition sh_new :: "string \<Rightarrow> tags \<Rightarrow> rat list \<Rightarrow> rat list \<Rightarrow> streaming_histogram result" where
  "sh_new name tags quantiles bounds =
     (case hist_new name tags bounds of
        Inl e \<Rightarrow> Inl e
      | Inr h \<Rightarrow> (case new_estimators quantiles [] of
                   Inl e \<Rightarrow> Inl e
                 | Inr es \<Rightarrow> Inr \<lparr>sh_histogram = h, sh_estimators = es\<rparr>))"

definition sh_observe :: "rat \<Rightarrow> streaming_histogram \<Rightarrow> streaming_histogram" where
  "sh_observe v s =
     \<lparr>sh_histogram = hist_observe v (sh_histogram s),
      sh_estimators = map (\<lambda>(q, e). (q, p2_observe v e)) (sh_estimators s)\<rparr>"

definition sh_quantile :: "rat \<Rightarrow> streaming_histogram \<Rightarrow> rat result" where
  "sh_quantile q s =
     (case map_of (sh_estimators s) q of
        None \<Rightarrow> Inl (HistogramError ''quantile is not tracked by this histogram'')
      | Some e \<Rightarrow> (case p2_value e of
                    None \<Rightarrow> Inl (HistogramError ''histogram has not observed any samples'')
                  | Some v \<Rightarrow> Inr v))"

record snapshot =
  sn_count :: nat
  sn_sum :: rat
  sn_mean :: "rat option"
  sn_min :: "rat option"
  sn_max :: "rat option"
  sn_percentiles :: "(int, rat option) odict"

definition sh_snapshot :: "streaming_histogram \<Rightarrow> snapshot" where
  "sh_snapshot s =
     (let h = sh_histogram s in
      \<lparr>sn_count = h_count h, sn_sum = h_total h, sn_mean = hist_mean h, sn_min = h_minimum h, sn_max = h_maximum h,
       sn_percentiles = fold (\<lambda>(q, e). AList.update \<lfloor>q * 100\<rfloor> (p2_value e)) (sh_estimators s) []\<rparr>)"

section \<open>The buckets count every observation once\<close>

definition hist_inv :: "histogram \<Rightarrow> bool" where
  "hist_inv h \<longleftrightarrow> sorted (bucket_bounds h) \<and> length (bucket_counts h) = length (bucket_bounds h) + 1
     \<and> sum_list (bucket_counts h) = h_count h"

lemma hist_new_inv: "hist_new name tags bounds = Inr h \<Longrightarrow> hist_inv h"
  by (auto simp: hist_new_def hist_inv_def sum_list_replicate split: if_splits) (metis sorted_sort)

lemma bisect_left_le: "bisect_left xs v \<le> length xs"
  by (simp add: bisect_left_def length_takeWhile_le)

lemma sum_list_bump: "i < length xs \<Longrightarrow> sum_list (xs[i := Suc (xs ! i)]) = Suc (sum_list xs)"
  by (induction xs arbitrary: i) (auto split: nat.splits)

lemma hist_observe_inv: "hist_inv h \<Longrightarrow> hist_inv (hist_observe v h)"
  using bisect_left_le [of "bucket_bounds h" v]
  by (auto simp: hist_inv_def hist_observe_def Let_def sum_list_bump)

text \<open>The bucket an observation falls into: the first whose upper bound is not below it.\<close>

definition in_bucket :: "rat list \<Rightarrow> nat \<Rightarrow> rat \<Rightarrow> bool" where
  "in_bucket bounds i v \<longleftrightarrow> (i < length bounds \<longrightarrow> v \<le> bounds ! i) \<and> (0 < i \<longrightarrow> bounds ! (i - 1) < v)"

lemma bisect_left_bucket: "in_bucket bounds (bisect_left bounds v) v"
proof -
  let ?n = "length (takeWhile (\<lambda>x. x < v) bounds)"
  have "\<not> bounds ! ?n < v" if "?n < length bounds"
    using nth_length_takeWhile [OF that] .
  moreover have "bounds ! (?n - 1) < v" if "0 < ?n"
    using that by (metis diff_less nth_mem set_takeWhileD takeWhile_nth zero_less_one)
  ultimately show ?thesis by (auto simp: in_bucket_def bisect_left_def not_less)
qed

lemma in_bucket_unique:
  assumes "sorted bounds" "in_bucket bounds i v" "in_bucket bounds j v" "i \<le> length bounds" "j \<le> length bounds"
  shows "i = j"
proof -
  have False if "in_bucket bounds i v" "in_bucket bounds j v" "i < j" "j \<le> length bounds" for i j
  proof -
    have "bounds ! i \<le> bounds ! (j - 1)" using that assms(1) by (intro sorted_nth_mono) auto
    with that show False by (auto simp: in_bucket_def)
  qed
  from this [of i j] this [of j i] assms show ?thesis by (cases i j rule: linorder_cases) auto
qed

lemma in_bucket_iff:
  "sorted bounds \<Longrightarrow> i \<le> length bounds \<Longrightarrow> in_bucket bounds i v \<longleftrightarrow> bisect_left bounds v = i"
  using in_bucket_unique [OF _ bisect_left_bucket _ bisect_left_le] bisect_left_bucket by metis

lemma hist_fold:
  assumes "hist_inv h" "i \<le> length (bucket_bounds h)"
  shows "bucket_counts (fold hist_observe xs h) ! i =
      bucket_counts h ! i + length (filter (in_bucket (bucket_bounds h) i) xs)
    \<and> h_count (fold hist_observe xs h) = h_count h + length xs
    \<and> h_total (fold hist_observe xs h) = h_total h + sum_list xs
    \<and> hist_inv (fold hist_observe xs h)"
  using assms
proof (induction xs arbitrary: h)
  case (Cons x xs)
  have b: "bucket_bounds (hist_observe x h) = bucket_bounds h" by (simp add: hist_observe_def Let_def)
  have s: "sorted (bucket_bounds h)" and l: "length (bucket_counts h) = length (bucket_bounds h) + 1"
    using Cons.prems(1) by (auto simp: hist_inv_def)
  have e: "bucket_counts (hist_observe x h) ! i =
      bucket_counts h ! i + (if in_bucket (bucket_bounds h) i x then 1 else 0)"
    using in_bucket_iff [OF s Cons.prems(2), of x] bisect_left_le [of "bucket_bounds h" x] l
    by (auto simp: hist_observe_def Let_def nth_list_update)
  show ?case
    using Cons.IH [OF hist_observe_inv [OF Cons.prems(1), of x]] Cons.prems(2) b e
    by (simp add: hist_observe_def Let_def)
qed simp

text \<open>
  The histogram counts every observation exactly once, in the bucket whose bounds
  enclose it, and its count, total and mean are those of the observed values.
\<close>

theorem histogram_counts:
  assumes "hist_new name tags bounds = Inr h" "i \<le> length bounds"
  shows "bucket_counts (fold hist_observe xs h) ! i = length (filter (in_bucket bounds i) xs)
    \<and> sum_list (bucket_counts (fold hist_observe xs h)) = length xs
    \<and> h_count (fold hist_observe xs h) = length xs
    \<and> hist_mean (fold hist_observe xs h) = (if xs = [] then None else Some (sum_list xs / of_nat (length xs)))"
proof -
  have h: "hist_inv h" "bucket_bounds h = bounds" "h_count h = 0" "h_total h = 0"
    "bucket_counts h ! i = 0"
    using assms hist_new_inv [OF assms(1)] by (auto simp: hist_new_def nth_append nth_Cons' split: if_splits)
  from hist_fold [OF h(1), of i xs] assms(2) h show ?thesis
    by (auto simp: hist_mean_def hist_inv_def)
qed

theorem histogram_counts_witness:
  "\<exists>h. hist_new ''w'' [] [1, 5] = Inr h \<and> bucket_counts (fold hist_observe [1, 3, 5, 7] h) ! 1 = 2"
proof -
  let ?h = "\<lparr>h_name = ''w'', h_tags = [], bucket_bounds = [1, 5], bucket_counts = [0, 0, 0], h_count = 0,
    h_total = 0, h_minimum = None, h_maximum = None\<rparr>"
  have h: "hist_new ''w'' [] [1, 5] = Inr ?h" "1 \<le> length [1, 5 :: rat]"
    by (simp_all add: hist_new_def numeral_eq_Suc)
  from histogram_counts [OF h, of "[1, 3, 5, 7]"]
  have "bucket_counts (fold hist_observe [1, 3, 5, 7] ?h) ! 1 = 2"
    by (simp add: in_bucket_def)
  with h(1) show ?thesis by blast
qed

section \<open>The estimator's markers stay ordered\<close>

lemma length5: "length xs = 5 \<longleftrightarrow> (\<exists>a b c d e. xs = [a, b, c, d, e])"
  by (auto simp: numeral_eq_Suc length_Suc_conv)

definition markers_ok :: "rat list \<Rightarrow> int list \<Rightarrow> bool" where
  "markers_ok hs ns \<longleftrightarrow> length hs = 5 \<and> length ns = 5 \<and> sorted hs \<and> sorted_wrt (<) ns"

lemma step_right:
  assumes "(a::rat) \<le> b" "1 < (g::int)"
  shows "a \<le> a + (b - a) / of_int g \<and> a + (b - a) / of_int g \<le> b"
proof -
  have g: "(1::rat) < of_int g" using assms(2) by simp
  then have "0 \<le> (b - a) / of_int g" using assms(1) by simp
  moreover have "(b - a) / of_int g \<le> b - a"
    using g assms(1) mult_left_mono [of 1 "of_int g" "b - a"] by (simp add: divide_le_eq)
  ultimately show ?thesis by linarith
qed

lemma linear_right:
  "hs ! i \<le> hs ! (i + 1) \<Longrightarrow> ns ! (i + 1) - ns ! i > 1 \<Longrightarrow>
     hs ! i \<le> linear hs ns i 1 \<and> linear hs ns i 1 \<le> hs ! (i + 1)"
  using step_right [of "hs ! i" "hs ! (i + 1)" "ns ! (i + 1) - ns ! i"]
  by (simp add: linear_def Let_def nat_add_distrib)

lemma linear_left:
  assumes "0 < i" "hs ! (i - 1) \<le> hs ! i" "ns ! i - ns ! (i - 1) > 1"
  shows "hs ! (i - 1) \<le> linear hs ns i (-1) \<and> linear hs ns i (-1) \<le> hs ! i"
proof -
  let ?g = "of_int (ns ! i - ns ! (i - 1)) :: rat"
  have "nat (int i + - 1) = i - 1" using assms(1) by linarith
  then have l: "linear hs ns i (-1) = hs ! i - (hs ! i - hs ! (i - 1)) / ?g"
    by (simp add: linear_def Let_def) (metis minus_diff_eq minus_divide_left minus_divide_right of_int_diff)
  have "hs ! (i - 1) + (hs ! i - hs ! (i - 1)) / ?g \<le> hs ! i"
    "0 \<le> (hs ! i - hs ! (i - 1)) / ?g"
    using step_right [OF assms(2,3)] by linarith+
  then show ?thesis unfolding l by linarith
qed

lemma markers_update:
  assumes "markers_ok hs ns" "i \<in> {1, 2, 3}" "hs ! (i - 1) \<le> x" "x \<le> hs ! (i + 1)"
    and "ns ! (i - 1) < n" "n < ns ! (i + 1)"
  shows "markers_ok (hs[i := x]) (ns[i := n])"
proof -
  from assms(1) obtain a b c d e p q r s t where l: "hs = [a, b, c, d, e]" "ns = [p, q, r, s, t]"
    by (auto simp: markers_ok_def length5)
  from assms(2) show ?thesis using assms unfolding l by (auto simp: markers_ok_def)
qed

lemma adjust_marker_ok:
  assumes "markers_ok hs ns" "i \<in> {1, 2, 3}" "adjust_marker ds i (hs, ns) = (hs', ns')"
  shows "markers_ok hs' ns' \<and> hs' ! 0 = hs ! 0 \<and> hs' ! 4 = hs ! 4 \<and> ns' ! 0 = ns ! 0 \<and> ns' ! 4 = ns ! 4"
proof -
  from assms(1) obtain a b c d e p q r s t where l: "hs = [a, b, c, d, e]" "ns = [p, q, r, s, t]"
    by (auto simp: markers_ok_def length5)
  have ord: "hs ! (i - 1) \<le> hs ! i" "hs ! i \<le> hs ! (i + 1)" "ns ! (i - 1) < ns ! i" "ns ! i < ns ! (i + 1)"
    using assms(1,2) unfolding l by (auto simp: markers_ok_def)
  have i: "0 < i" using assms(2) by auto
  let ?diff = "ds ! i - of_int (ns ! i)"
  show ?thesis
  proof (cases "(?diff \<ge> 1 \<and> ns ! (i + 1) - ns ! i > 1) \<or> (?diff \<le> -1 \<and> ns ! i - ns ! (i - 1) > 1)")
    case False
    then show ?thesis using assms by (auto simp: adjust_marker_def Let_def)
  next
    case True
    define dir :: int where "dir = (if ?diff \<ge> 1 then 1 else -1)"
    define x where "x = (if hs ! (i - 1) < parabolic hs ns i dir \<and> parabolic hs ns i dir < hs ! (i + 1)
      then parabolic hs ns i dir else linear hs ns i dir)"
    have res: "hs' = hs[i := x]" "ns' = ns[i := ns ! i + dir]"
      using assms(3) True by (auto simp: adjust_marker_def Let_def dir_def x_def)
    have lin: "hs ! (i - 1) \<le> linear hs ns i dir \<and> linear hs ns i dir \<le> hs ! (i + 1)"
      using True linear_right [OF ord(2)] linear_left [OF i ord(1)] ord unfolding dir_def by force
    have gap: "ns ! (i - 1) < ns ! i + dir" "ns ! i + dir < ns ! (i + 1)"
      using True ord unfolding dir_def by auto
    have "markers_ok hs' ns'" unfolding res
      by (rule markers_update [OF assms(1,2)]) (use lin gap in \<open>auto simp: x_def\<close>)
    moreover have "i \<noteq> 0" "i \<noteq> 4" using assms(2) by auto
    ultimately show ?thesis unfolding res by simp
  qed
qed

lemma place_value_ok:
  assumes "length hs = 5" "sorted hs" "place_value v hs = (hs', c)"
  shows "length hs' = 5 \<and> sorted hs' \<and> c \<le> 3 \<and> hs' ! 0 = min v (hs ! 0) \<and> hs' ! 4 = max v (hs ! 4)"
proof -
  from assms(1) obtain a b d e f where "hs = [a, b, d, e, f]" by (auto simp: length5)
  with assms(2,3) show ?thesis
    by (auto simp: place_value_def min_def max_def nat_le_iff split: if_splits)
qed

lemma bump_positions_ok:
  assumes "length ns = 5" "sorted_wrt (<) ns" "c \<le> 3"
  shows "let ns' = map (\<lambda>i. ns ! i + (if c + 1 \<le> i then 1 else 0)) [0..<5] in
     length ns' = 5 \<and> sorted_wrt (<) ns' \<and> ns' ! 0 = ns ! 0 \<and> ns' ! 4 = ns ! 4 + (1::int)"
proof -
  from assms(1) obtain a b d e f where "ns = [a, b, d, e, f]" by (auto simp: length5)
  with assms(2,3) show ?thesis by (auto simp: upt_rec numeral_eq_Suc Let_def)
qed

lemma update_markers_ok:
  assumes "markers_ok (heights e) (positions e)"
  shows "markers_ok (heights (update_markers v e)) (positions (update_markers v e))
    \<and> heights (update_markers v e) ! 0 = min v (heights e ! 0)
    \<and> heights (update_markers v e) ! 4 = max v (heights e ! 4)
    \<and> positions (update_markers v e) ! 0 = positions e ! 0
    \<and> positions (update_markers v e) ! 4 = positions e ! 4 + 1
    \<and> initial_samples (update_markers v e) = initial_samples e
    \<and> observation_count (update_markers v e) = observation_count e"
proof -
  obtain hs c where pv: "place_value v (heights e) = (hs, c)" by fastforce
  define ns where "ns = map (\<lambda>i. positions e ! i + (if c + 1 \<le> i then 1 else 0)) [0..<5]"
  define ds where "ds = map (\<lambda>i. desired_positions e ! i + increments e ! i) [0..<5]"
  have h: "length (heights e) = 5" "sorted (heights e)" "length (positions e) = 5" "sorted_wrt (<) (positions e)"
    using assms by (auto simp: markers_ok_def)
  note p = place_value_ok [OF h(1,2) pv]
  have n: "length ns = 5 \<and> sorted_wrt (<) ns \<and> ns ! 0 = positions e ! 0 \<and> ns ! 4 = positions e ! 4 + 1"
    using bump_positions_ok [OF h(3,4), of c] p unfolding ns_def Let_def by blast
  then have m0: "markers_ok hs ns" using p by (simp add: markers_ok_def)
  obtain hs1 ns1 where a1: "adjust_marker ds 1 (hs, ns) = (hs1, ns1)" by fastforce
  note m1 = adjust_marker_ok [OF m0 _ a1]
  obtain hs2 ns2 where a2: "adjust_marker ds 2 (hs1, ns1) = (hs2, ns2)" by fastforce
  note m2 = adjust_marker_ok [OF m1 [THEN conjunct1] _ a2]
  obtain hs3 ns3 where a3: "adjust_marker ds 3 (hs2, ns2) = (hs3, ns3)" by fastforce
  note m3 = adjust_marker_ok [OF m2 [THEN conjunct1] _ a3]
  have "update_markers v e = e\<lparr>heights := hs3, positions := ns3, desired_positions := ds\<rparr>"
  proof -
    have "fold (adjust_marker ds) [1, 2, 3] (hs, ns) = (hs3, ns3)" using a1 a2 a3 by simp
    then show ?thesis
      by (simp only: update_markers_def pv Let_def prod.case ns_def [symmetric] ds_def [symmetric])
  qed
  with m1 m2 m3 p n show ?thesis by simp
qed

text \<open>What the estimator holds after the observations \<open>xs\<close>.\<close>

definition p2_ok :: "rat list \<Rightarrow> p2 \<Rightarrow> bool" where
  "p2_ok xs e \<longleftrightarrow> observation_count e = length xs \<and>
     (if length xs < 5 then initial_samples e = xs
      else length (initial_samples e) = 5 \<and> markers_ok (heights e) (positions e)
         \<and> heights e ! 0 = Min (set xs) \<and> heights e ! 4 = Max (set xs)
         \<and> positions e ! 0 = 1 \<and> positions e ! 4 = int (length xs))"

lemma sort5_ends:
  assumes "length (xs :: rat list) = 5"
  shows "sort xs ! 0 = Min (set xs) \<and> sort xs ! 4 = Max (set xs)"
proof -
  have l: "length (sort xs) = 5" using assms by simp
  then obtain a b c d e where s: "sort xs = [a, b, c, d, e]" unfolding length5 by blast
  have "set xs = {a, b, c, d, e}" by (metis s list.set(1) list.set(2) set_sort)
  moreover have "a \<le> b" "b \<le> c" "c \<le> d" "d \<le> e" using sorted_sort [of xs] unfolding s by auto
  ultimately show ?thesis unfolding s by (auto simp: min_def max_def)
qed

lemma p2_observe_ok:
  assumes "p2_ok xs e"
  shows "p2_ok (xs @ [v]) (p2_observe v e)"
proof (cases "length xs < 5")
  case True
  then have i: "initial_samples e = xs" "observation_count e = length xs" using assms by (auto simp: p2_ok_def)
  show ?thesis
  proof (cases "length xs = 4")
    case True
    then have l: "length (xs @ [v]) = 5" by simp
    note ends = sort5_ends [OF l]
    have "sorted_wrt (<) [1, 2, 3, 4, 5 :: int]" by simp
    then show ?thesis
      using True i ends l by (simp add: p2_observe_def Let_def initialize_markers_def p2_ok_def markers_ok_def)
  next
    case False
    then show ?thesis using True i by (auto simp: p2_observe_def Let_def p2_ok_def)
  qed
next
  case False
  then have m: "markers_ok (heights e) (positions e)" "heights e ! 0 = Min (set xs)" "heights e ! 4 = Max (set xs)"
    "positions e ! 0 = 1" "positions e ! 4 = int (length xs)" "length (initial_samples e) = 5"
    "observation_count e = length xs"
    using assms by (auto simp: p2_ok_def)
  have "xs \<noteq> []" using False by auto
  let ?e = "e\<lparr>observation_count := Suc (observation_count e)\<rparr>"
  have "markers_ok (heights ?e) (positions ?e)" using m(1) by simp
  from update_markers_ok [OF this, of v] m False \<open>xs \<noteq> []\<close> show ?thesis
    by (simp add: p2_observe_def Let_def p2_ok_def Min_insert Max_insert)
qed

lemma p2_fold_ok: "p2_ok ys e \<Longrightarrow> p2_ok (ys @ xs) (fold p2_observe xs e)"
proof (induction xs arbitrary: ys e)
  case (Cons x xs)
  from Cons.IH [OF p2_observe_ok [OF Cons.prems, of x]] show ?case by simp
qed simp

lemma p2_new_ok: "p2_new q = Inr e \<Longrightarrow> p2_ok [] e"
  by (auto simp: p2_new_def p2_ok_def split: if_splits)

text \<open>
  C31.  The streaming estimate is defined as soon as one value was observed, lies between
  the smallest and the largest value observed, and from the fifth observation on the five
  markers are in ascending order at strictly ascending positions from the first to the last
  observation.
\<close>

theorem p2_estimate_bounds:
  assumes "p2_new q = Inr e" "xs \<noteq> []"
  shows "\<exists>v. p2_value (fold p2_observe xs e) = Some v \<and> Min (set xs) \<le> v \<and> v \<le> Max (set xs)
    \<and> (5 \<le> length xs \<longrightarrow> markers_ok (heights (fold p2_observe xs e)) (positions (fold p2_observe xs e))
         \<and> positions (fold p2_observe xs e) ! 0 = 1
         \<and> positions (fold p2_observe xs e) ! 4 = int (length xs))"
proof -
  let ?e = "fold p2_observe xs e"
  have ok: "p2_ok xs ?e" using p2_fold_ok [OF p2_new_ok [OF assms(1)], of xs] by simp
  show ?thesis
  proof (cases "length xs < 5")
    case True
    then have i: "initial_samples ?e = xs" "observation_count ?e = length xs" using ok by (auto simp: p2_ok_def)
    define j where "j = min (length xs - 1) (nat \<lfloor>p2_quantile ?e * of_nat (length xs - 1)\<rfloor>)"
    have "j < length (sort xs)" using assms(2) by (auto simp: j_def min_def neq_Nil_conv)
    then have "sort xs ! j \<in> set xs" by (metis nth_mem set_sort)
    moreover have "p2_value ?e = Some (sort xs ! j)"
      using True i assms(2) by (simp add: p2_value_def Let_def j_def)
    ultimately show ?thesis using True by auto
  next
    case False
    then have m: "markers_ok (heights ?e) (positions ?e)" "heights ?e ! 0 = Min (set xs)"
      "heights ?e ! 4 = Max (set xs)" "positions ?e ! 0 = 1" "positions ?e ! 4 = int (length xs)"
      "length (initial_samples ?e) = 5" "observation_count ?e = length xs"
      using ok by (auto simp: p2_ok_def)
    have "heights ?e ! 0 \<le> heights ?e ! 2" "heights ?e ! 2 \<le> heights ?e ! 4"
      using m(1) by (auto simp: markers_ok_def intro!: sorted_nth_mono)
    with m False assms(2) show ?thesis by (auto simp: p2_value_def)
  qed
qed

theorem p2_estimate_bounds_witness:
  "\<exists>e. p2_new (1/2) = Inr e \<and> p2_value (fold p2_observe [5, 1, 4, 2, 3, 9] e) \<noteq> None"
proof -
  let ?e = "\<lparr>p2_quantile = 1/2, heights = [], positions = [], desired_positions = [], increments = [],
      initial_samples = [], observation_count = 0\<rparr>"
  have h: "p2_new (1/2) = Inr ?e" "[5, 1, 4, 2, 3, 9 :: rat] \<noteq> []" by (simp_all add: p2_new_def)
  from p2_estimate_bounds [OF h] have "p2_value (fold p2_observe [5, 1, 4, 2, 3, 9] ?e) \<noteq> None" by blast
  with h(1) show ?thesis by blast
qed

end
