(* ===== verification/Regex.thy ===== *)
theory Regex
  imports Prelude
begin

text \<open>
  The fragment of Python's \<open>re\<close> module that \<open>src/core/db/sql_policy.py\<close> uses, as a
  backtracking matcher.  A match state is the reversed text before the position, the text
  after it and the contents of capture group 1; a matcher returns every way to match, in the
  order in which Python's engine tries them, so the first element is Python's match.
  Characters are ASCII (code points below 128): there \<open>\s\<close>, \<open>\w\<close>, \<open>IGNORECASE\<close>,
  \<open>str.upper\<close>, \<open>str.lower\<close> and \<open>str.strip\<close> are the predicates and functions below.  The
  pattern of a \<open>Star\<close> must not match the empty string without progress: an iteration that
  consumes nothing is dropped, which no pattern of the source depends on.
\<close>

section \<open>ASCII characters\<close>

abbreviation code :: "char \<Rightarrow> nat" where
  "code c \<equiv> of_char c"

definition is_upper :: "char \<Rightarrow> bool" where
  "is_upper c \<longleftrightarrow> 65 \<le> code c \<and> code c \<le> 90"

definition is_lower :: "char \<Rightarrow> bool" where
  "is_lower c \<longleftrightarrow> 97 \<le> code c \<and> code c \<le> 122"

definition is_digit :: "char \<Rightarrow> bool" where
  "is_digit c \<longleftrightarrow> 48 \<le> code c \<and> code c \<le> 57"

definition is_alpha :: "char \<Rightarrow> bool" where
  "is_alpha c \<longleftrightarrow> is_upper c \<or> is_lower c"

definition is_word :: "char \<Rightarrow> bool" where
  "is_word c \<longleftrightarrow> is_alpha c \<or> is_digit c \<or> c = CHR ''_''"

definition is_space :: "char \<Rightarrow> bool" where
  "is_space c \<longleftrightarrow> code c = 32 \<or> (9 \<le> code c \<and> code c \<le> 13) \<or> (28 \<le> code c \<and> code c \<le> 31)"

definition to_upper :: "char \<Rightarrow> char" where
  "to_upper c = (if is_lower c then char_of (code c - 32) else c)"

definition to_lower :: "char \<Rightarrow> char" where
  "to_lower c = (if is_upper c then char_of (code c + 32) else c)"

definition upper :: "string \<Rightarrow> string" where
  "upper s = map to_upper s"

definition lower :: "string \<Rightarrow> string" where
  "lower s = map to_lower s"

definition strip :: "string \<Rightarrow> string" where
  "strip s = rev (dropWhile is_space (rev (dropWhile is_space s)))"

text \<open>\<open>s.split(d)\<close> for a one-character separator.\<close>

fun split_on :: "char \<Rightarrow> string \<Rightarrow> string list" where
  "split_on d [] = [[]]"
| "split_on d (c # cs) =
     (if c = d then [] # split_on d cs
      else (case split_on d cs of [] \<Rightarrow> [[c]] | w # ws \<Rightarrow> (c # w) # ws))"

text \<open>\<open>needle in s\<close> for strings.\<close>

fun starts_with :: "string \<Rightarrow> string \<Rightarrow> bool" where
  "starts_with [] s = True"
| "starts_with (p # ps) [] = False"
| "starts_with (p # ps) (c # cs) = (p = c \<and> starts_with ps cs)"

fun contains :: "string \<Rightarrow> string \<Rightarrow> bool" where
  "contains p [] = (p = [])"
| "contains p (c # cs) = (starts_with p (c # cs) \<or> contains p cs)"

section \<open>Patterns and the matcher\<close>

datatype rx =
    Eps
  | Chr "char \<Rightarrow> bool"
  | Seq rx rx
  | Alt rx rx
  | Star rx
  | StarLazy rx
  | WordB
  | Bol
  | Grp rx

type_synonym mstate = "string \<times> string \<times> string option"

fun at_boundary :: "string \<Rightarrow> string \<Rightarrow> bool" where
  "at_boundary pre suf =
     ((case pre of [] \<Rightarrow> False | c # _ \<Rightarrow> is_word c) \<noteq> (case suf of [] \<Rightarrow> False | c # _ \<Rightarrow> is_word c))"

fun rest_of :: "mstate \<Rightarrow> string" where
  "rest_of (pre, suf, g) = suf"

fun star_greedy :: "nat \<Rightarrow> (mstate \<Rightarrow> mstate list) \<Rightarrow> mstate \<Rightarrow> mstate list" where
  "star_greedy 0 f s = [s]"
| "star_greedy (Suc n) f s =
     concat (map (star_greedy n f) (filter (\<lambda>t. length (rest_of t) < length (rest_of s)) (f s))) @ [s]"

fun star_lazy :: "nat \<Rightarrow> (mstate \<Rightarrow> mstate list) \<Rightarrow> mstate \<Rightarrow> mstate list" where
  "star_lazy 0 f s = [s]"
| "star_lazy (Suc n) f s =
     s # concat (map (star_lazy n f) (filter (\<lambda>t. length (rest_of t) < length (rest_of s)) (f s)))"

fun set_group :: "string \<Rightarrow> mstate \<Rightarrow> mstate" where
  "set_group pre0 (pre, suf, g) = (pre, suf, Some (rev (take (length pre - length pre0) pre)))"

primrec rx_matches :: "rx \<Rightarrow> mstate \<Rightarrow> mstate list" where
  "rx_matches Eps = (\<lambda>s. [s])"
| "rx_matches (Chr P) = (\<lambda>(pre, suf, g).
     case suf of [] \<Rightarrow> [] | c # cs \<Rightarrow> if P c then [(c # pre, cs, g)] else [])"
| "rx_matches (Seq a b) = (\<lambda>s. concat (map (rx_matches b) (rx_matches a s)))"
| "rx_matches (Alt a b) = (\<lambda>s. rx_matches a s @ rx_matches b s)"
| "rx_matches (Star a) = (\<lambda>s. star_greedy (length (rest_of s)) (rx_matches a) s)"
| "rx_matches (StarLazy a) = (\<lambda>s. star_lazy (length (rest_of s)) (rx_matches a) s)"
| "rx_matches WordB = (\<lambda>(pre, suf, g). if at_boundary pre suf then [(pre, suf, g)] else [])"
| "rx_matches Bol = (\<lambda>(pre, suf, g). if pre = [] then [(pre, suf, g)] else [])"
| "rx_matches (Grp a) = (\<lambda>(pre, suf, g). map (set_group pre) (rx_matches a (pre, suf, None)))"

section \<open>The entry points of the module\<close>

text \<open>\<open>pattern.match(s)\<close>: only at the start.\<close>

definition rx_match :: "rx \<Rightarrow> string \<Rightarrow> mstate option" where
  "rx_match r s = (case rx_matches r ([], s, None) of [] \<Rightarrow> None | m # _ \<Rightarrow> Some m)"

text \<open>\<open>pattern.search(s)\<close>: the first position from the left that matches.\<close>

fun search_from :: "rx \<Rightarrow> string \<Rightarrow> string \<Rightarrow> bool" where
  "search_from r pre [] = (rx_matches r (pre, [], None) \<noteq> [])"
| "search_from r pre (c # cs) = (rx_matches r (pre, c # cs, None) \<noteq> [] \<or> search_from r (c # pre) cs)"

definition rx_search :: "rx \<Rightarrow> string \<Rightarrow> bool" where
  "rx_search r s = search_from r [] s"

text \<open>
  \<open>[m.group(1) for m in pattern.finditer(s)]\<close>: the scan resumes behind a match, so \<open>skip\<close>
  counts the characters of the current match that are still to be passed over.
\<close>

fun groups_from :: "rx \<Rightarrow> nat \<Rightarrow> string \<Rightarrow> string \<Rightarrow> string option list" where
  "groups_from r (Suc k) pre (c # cs) = groups_from r k (c # pre) cs"
| "groups_from r 0 pre (c # cs) =
     (case rx_matches r (pre, c # cs, None) of
        [] \<Rightarrow> groups_from r 0 (c # pre) cs
      | (pre', suf', g) # _ \<Rightarrow>
          g # groups_from r (length cs - length suf') (c # pre) cs)"
| "groups_from r k pre [] =
     (case rx_matches r (pre, [], None) of [] \<Rightarrow> [] | (pre', suf', g) # _ \<Rightarrow> [g])"

definition rx_groups :: "rx \<Rightarrow> string \<Rightarrow> string option list" where
  "rx_groups r s = groups_from r 0 [] s"

text \<open>\<open>pattern.sub("", s)\<close>.\<close>

fun delete_from :: "rx \<Rightarrow> nat \<Rightarrow> string \<Rightarrow> string \<Rightarrow> string" where
  "delete_from r (Suc k) pre (c # cs) = delete_from r k (c # pre) cs"
| "delete_from r 0 pre (c # cs) =
     (case rx_matches r (pre, c # cs, None) of
        [] \<Rightarrow> c # delete_from r 0 (c # pre) cs
      | (pre', suf', g) # _ \<Rightarrow>
          (if length suf' = length (c # cs) then c # delete_from r 0 (c # pre) cs
           else delete_from r (length cs - length suf') (c # pre) cs))"
| "delete_from r k pre [] = []"

definition rx_delete :: "rx \<Rightarrow> string \<Rightarrow> string" where
  "rx_delete r s = delete_from r 0 [] s"

section \<open>Pattern abbreviations\<close>

abbreviation Opt :: "rx \<Rightarrow> rx" where "Opt r \<equiv> Alt r Eps"
abbreviation Plus :: "rx \<Rightarrow> rx" where "Plus r \<equiv> Seq r (Star r)"

text \<open>A literal under \<open>re.IGNORECASE\<close>, a case-sensitive literal, and alternatives of literals.\<close>

definition ci :: "char \<Rightarrow> char \<Rightarrow> bool" where
  "ci k c \<longleftrightarrow> to_lower c = to_lower k"

primrec ilit :: "string \<Rightarrow> rx" where
  "ilit [] = Eps"
| "ilit (k # ks) = Seq (Chr (ci k)) (ilit ks)"

primrec lit :: "string \<Rightarrow> rx" where
  "lit [] = Eps"
| "lit (k # ks) = Seq (Chr (\<lambda>c. c = k)) (lit ks)"

fun alts :: "rx list \<Rightarrow> rx" where
  "alts [] = Chr (\<lambda>_. False)"
| "alts [r] = r"
| "alts (r # rs) = Alt r (alts rs)"

section \<open>What a matcher does to the text\<close>

text \<open>Every success splits the same text: no character is lost, reordered or invented.\<close>

definition same_text :: "mstate \<Rightarrow> mstate \<Rightarrow> bool" where
  "same_text s t \<longleftrightarrow> rev (fst t) @ rest_of t = rev (fst s) @ rest_of s
      \<and> length (rest_of t) \<le> length (rest_of s)"

lemma same_text_refl [simp]: "same_text s s"
  by (simp add: same_text_def)

lemma same_text_trans: "same_text s t \<Longrightarrow> same_text t u \<Longrightarrow> same_text s u"
  by (auto simp: same_text_def)

lemma star_greedy_same_text:
  assumes "\<And>s t. t \<in> set (f s) \<Longrightarrow> same_text s t"
  shows "t \<in> set (star_greedy n f s) \<Longrightarrow> same_text s t"
  by (induction n arbitrary: s) (auto intro: same_text_trans assms)

lemma star_lazy_same_text:
  assumes "\<And>s t. t \<in> set (f s) \<Longrightarrow> same_text s t"
  shows "t \<in> set (star_lazy n f s) \<Longrightarrow> same_text s t"
  by (induction n arbitrary: s) (auto intro: same_text_trans assms)

lemma same_text_set_group [simp]: "same_text s (set_group p t) = same_text s t"
  by (cases t) (simp add: same_text_def)

lemma same_text_group_irrelevant: "same_text (pre, suf, g) t = same_text (pre, suf, g') t"
  by (simp add: same_text_def)

lemma rx_matches_same_text: "t \<in> set (rx_matches r s) \<Longrightarrow> same_text s t"
proof (induction r arbitrary: s t)
  case (Chr P)
  then show ?case by (auto simp: same_text_def split: list.splits if_splits)
next
  case (Seq r1 r2)
  then obtain u where "u \<in> set (rx_matches r1 s)" "t \<in> set (rx_matches r2 u)" by auto
  with Seq.IH show ?case by (blast intro: same_text_trans)
next
  case (Star r)
  show ?case by (rule star_greedy_same_text [OF Star.IH]) (use Star.prems in simp_all)
next
  case (StarLazy r)
  show ?case by (rule star_lazy_same_text [OF StarLazy.IH]) (use StarLazy.prems in simp_all)
next
  case (Grp r)
  then obtain pre suf g where s: "s = (pre, suf, g)" by (cases s)
  with Grp.prems obtain u where "u \<in> set (rx_matches r (pre, suf, None))" "t = set_group pre u"
    by auto
  with Grp.IH s show ?case by (metis same_text_set_group same_text_group_irrelevant)
qed (auto split: if_splits prod.splits)

section \<open>Literals and whole words\<close>

definition matches_ci :: "string \<Rightarrow> string \<Rightarrow> bool" where
  "matches_ci w s \<longleftrightarrow> length w \<le> length s \<and> lower (take (length w) s) = lower w"

lemma rx_matches_ilit:
  "rx_matches (ilit w) (pre, suf, g) =
     (if matches_ci w suf then [(rev (take (length w) suf) @ pre, drop (length w) suf, g)] else [])"
proof (induction w arbitrary: pre suf)
  case (Cons k ks)
  then show ?case
    by (cases suf) (auto simp: matches_ci_def ci_def lower_def)
qed (simp add: matches_ci_def lower_def)

lemma rx_matches_alts:
  "rs \<noteq> [] \<Longrightarrow> rx_matches (alts rs) s = concat (map (\<lambda>r. rx_matches r s) rs)"
  by (induction rs rule: alts.induct) auto

text \<open>
  \<open>\b(W1|W2|...)\b\<close> finds a match iff one of the words occurs as a whole word, in any case.
\<close>

definition whole_word_rx :: "string list \<Rightarrow> rx" where
  "whole_word_rx ws = Seq WordB (Seq (alts (map ilit ws)) WordB)"

definition has_whole_word :: "string list \<Rightarrow> string \<Rightarrow> bool" where
  "has_whole_word ws s \<longleftrightarrow> (\<exists>pre x post w. s = pre @ x @ post \<and> w \<in> set ws \<and> lower x = lower w
      \<and> (pre = [] \<or> \<not> is_word (last pre)) \<and> (post = [] \<or> \<not> is_word (hd post)))"

lemma search_from_iff:
  "search_from r pre s \<longleftrightarrow> (\<exists>a b. s = a @ b \<and> rx_matches r (rev a @ pre, b, None) \<noteq> [])"
proof (induction s arbitrary: pre)
  case (Cons c cs)
  show ?case
  proof
    assume "search_from r pre (c # cs)"
    then consider "rx_matches r (pre, c # cs, None) \<noteq> []" | "search_from r (c # pre) cs" by auto
    then show "\<exists>a b. c # cs = a @ b \<and> rx_matches r (rev a @ pre, b, None) \<noteq> []"
    proof cases
      case 1
      then show ?thesis by (intro exI [of _ "[]"] exI [of _ "c # cs"]) simp
    next
      case 2
      then obtain a b where "cs = a @ b" "rx_matches r (rev a @ c # pre, b, None) \<noteq> []"
        using Cons.IH by blast
      then show ?thesis by (intro exI [of _ "c # a"] exI [of _ b]) simp
    qed
  next
    assume "\<exists>a b. c # cs = a @ b \<and> rx_matches r (rev a @ pre, b, None) \<noteq> []"
    then obtain a b where ab: "c # cs = a @ b" "rx_matches r (rev a @ pre, b, None) \<noteq> []" by blast
    show "search_from r pre (c # cs)"
    proof (cases a)
      case Nil
      with ab show ?thesis by (cases b) auto
    next
      case (Cons d a')
      with ab have "cs = a' @ b" "rx_matches r (rev a' @ c # pre, b, None) \<noteq> []" by auto
      then have "search_from r (c # pre) cs" using Cons.IH by blast
      then show ?thesis by simp
    qed
  qed
qed auto

lemma whole_word_matches:
  "rx_matches (whole_word_rx ws) (pre, suf, g) \<noteq> [] \<longleftrightarrow> ws \<noteq> [] \<and> at_boundary pre suf \<and>
     (\<exists>w \<in> set ws. matches_ci w suf \<and> at_boundary (rev (take (length w) suf) @ pre) (drop (length w) suf))"
proof (cases "ws = []")
  case False
  then have "rx_matches (alts (map ilit ws)) (pre, suf, g) =
      concat (map (\<lambda>w. rx_matches (ilit w) (pre, suf, g)) ws)"
    by (simp add: rx_matches_alts o_def)
  with False show ?thesis by (auto simp: whole_word_rx_def rx_matches_ilit split: if_splits)
qed (simp add: whole_word_rx_def split: list.splits)

lemma is_word_lower: "is_word (to_lower c) = is_word c"
  by (auto simp: to_lower_def is_word_def is_alpha_def is_upper_def is_lower_def is_digit_def)

lemma is_word_lowers: "lower x = lower w \<Longrightarrow> list_all is_word x = list_all is_word w"
proof -
  have *: "list_all is_word v = list_all is_word (lower v)" for v
    by (induction v) (auto simp: lower_def is_word_lower)
  assume "lower x = lower w"
  then show ?thesis using * [of x] * [of w] by simp
qed

lemma boundary_left: "x \<noteq> [] \<Longrightarrow> list_all is_word x \<Longrightarrow>
    at_boundary (rev a) (x @ post) \<longleftrightarrow> a = [] \<or> \<not> is_word (last a)"
  by (cases x; cases a rule: rev_cases) auto

lemma boundary_right: "x \<noteq> [] \<Longrightarrow> list_all is_word x \<Longrightarrow>
    at_boundary (rev x @ pre) post \<longleftrightarrow> post = [] \<or> \<not> is_word (hd post)"
  by (cases x rule: rev_cases; cases post) auto

lemma matches_ci_iff: "matches_ci w s \<longleftrightarrow> (\<exists>x post. s = x @ post \<and> length x = length w \<and> lower x = lower w)"
proof
  assume "matches_ci w s"
  then show "\<exists>x post. s = x @ post \<and> length x = length w \<and> lower x = lower w"
    by (intro exI [of _ "take (length w) s"] exI [of _ "drop (length w) s"]) (auto simp: matches_ci_def)
qed (auto simp: matches_ci_def)

lemma lower_length: "lower x = lower w \<Longrightarrow> length x = length w"
  by (metis lower_def length_map)

theorem whole_word_search:
  assumes "\<And>w. w \<in> set ws \<Longrightarrow> w \<noteq> [] \<and> list_all is_word w"
  shows "rx_search (whole_word_rx ws) s \<longleftrightarrow> has_whole_word ws s"
proof
  assume "rx_search (whole_word_rx ws) s"
  then obtain a b w where ab: "s = a @ b" and w: "w \<in> set ws" "matches_ci w b"
    and bd: "at_boundary (rev a) b"
      "at_boundary (rev (take (length w) b) @ rev a) (drop (length w) b)"
    by (auto simp: rx_search_def search_from_iff whole_word_matches)
  from w(2) obtain x post where b: "b = x @ post" "length x = length w" "lower x = lower w"
    by (auto simp: matches_ci_iff)
  have "x \<noteq> []" "list_all is_word x"
    using assms [OF w(1)] b(2) is_word_lowers [OF b(3)] by auto
  then show "has_whole_word ws s"
    using ab b w(1) bd boundary_left [of x a post] boundary_right [of x "rev a" post]
    by (auto simp: has_whole_word_def)
next
  assume "has_whole_word ws s"
  then obtain a x post w where s: "s = a @ x @ post" and w: "w \<in> set ws" and x: "lower x = lower w"
    and bd: "a = [] \<or> \<not> is_word (last a)" "post = [] \<or> \<not> is_word (hd post)"
    by (auto simp: has_whole_word_def)
  have xw: "x \<noteq> []" "list_all is_word x" and len: "length x = length w"
    using assms [OF w] lower_length [OF x] is_word_lowers [OF x] by auto
  then have "at_boundary (rev a) (x @ post)" "at_boundary (rev x @ rev a) post"
    using bd boundary_left [of x a post] boundary_right [of x "rev a" post] by auto
  moreover have "matches_ci w (x @ post)" using x len by (auto simp: matches_ci_iff)
  ultimately have "rx_matches (whole_word_rx ws) (rev a, x @ post, None) \<noteq> []"
    using w len by (auto simp: whole_word_matches intro!: bexI [of _ w])
  then show "rx_search (whole_word_rx ws) s"
    using s by (auto simp: rx_search_def search_from_iff)
qed

section \<open>Greedy repetition of a character class\<close>

lemma star_greedy_chr_head:
  "length suf \<le> n \<Longrightarrow> \<exists>tl. star_greedy n (rx_matches (Chr P)) (pre, suf, g) =
     (rev (takeWhile P suf) @ pre, dropWhile P suf, g) # tl"
proof (induction n arbitrary: pre suf)
  case (Suc n)
  show ?case
  proof (cases suf)
    case (Cons c cs)
    then show ?thesis using Suc.IH [of cs "c # pre"] Suc.prems by (cases "P c") auto
  qed simp
qed simp

lemma star_greedy_stuck: "f s = [] \<Longrightarrow> star_greedy n f s = [s]"
  by (cases n) auto

lemma star_chr_head:
  "\<exists>tl. rx_matches (Star (Chr P)) (pre, suf, g) =
     (rev (takeWhile P suf) @ pre, dropWhile P suf, g) # tl"
  using star_greedy_chr_head [of suf "length suf" P pre g] by simp

lemma plus_chr_head:
  assumes "suf \<noteq> []" "P (hd suf)"
  shows "\<exists>tl. rx_matches (Plus (Chr P)) (pre, suf, g) =
     (rev (takeWhile P suf) @ pre, dropWhile P suf, g) # tl"
proof -
  from assms obtain c cs where "suf = c # cs" "P c" by (cases suf) auto
  with star_chr_head [of P "c # pre" cs g] show ?thesis by auto
qed

lemma seq_head:
  "rx_matches a s = t # ts \<Longrightarrow> rx_matches b t = u # us \<Longrightarrow>
   \<exists>tl. rx_matches (Seq a b) s = u # tl"
  by simp

lemma bounded_matches:
  "rx_matches (Seq WordB (Seq r WordB)) (pre, suf, g) \<noteq> [] \<longleftrightarrow> at_boundary pre suf \<and>
     (\<exists>(p, q, h) \<in> set (rx_matches r (pre, suf, g)). at_boundary p q)"
  by (cases "at_boundary pre suf") (force simp del: at_boundary.simps split: if_splits)+

lemma search_from_alts:
  assumes "search_from (Seq WordB (Seq r WordB)) pre s" "r \<in> set rs"
  shows "search_from (Seq WordB (Seq (alts rs) WordB)) pre s"
proof -
  from assms(2) have ne: "rs \<noteq> []" by auto
  have "rx_matches (Seq WordB (Seq (alts rs) WordB)) m \<noteq> []"
    if "rx_matches (Seq WordB (Seq r WordB)) m \<noteq> []" for m
  proof -
    obtain p q g where m: "m = (p, q, g)" by (cases m)
    from that [unfolded m bounded_matches] assms(2) show ?thesis
      unfolding m bounded_matches rx_matches_alts [OF ne] by auto
  qed
  with assms(1) show ?thesis unfolding search_from_iff by blast
qed

lemma whole_word_in_alts:
  assumes "has_whole_word [w] s" "w \<noteq> []" "list_all is_word w" "ilit w \<in> set rs"
  shows "rx_search (Seq WordB (Seq (alts rs) WordB)) s"
proof -
  have "rx_search (whole_word_rx [w]) s"
    using assms by (subst whole_word_search) auto
  then show ?thesis
    using search_from_alts [OF _ assms(4)] by (simp add: rx_search_def whole_word_rx_def)
qed

lemma has_whole_word_ex: "has_whole_word ws s \<longleftrightarrow> (\<exists>w \<in> set ws. has_whole_word [w] s)"
  by (auto simp: has_whole_word_def)

text \<open>Every group that the scan reports is the first match at some position.\<close>

lemma groups_from_sound:
  "g \<in> set (groups_from r k pre s) \<Longrightarrow>
   \<exists>a b p q tl. s = a @ b \<and> rx_matches r (rev a @ pre, b, None) = (p, q, g) # tl"
proof (induction r k pre s rule: groups_from.induct)
  case (1 r k pre c cs)
  then obtain a b p q tl where "cs = a @ b" "rx_matches r (rev a @ c # pre, b, None) = (p, q, g) # tl"
    by auto
  then show ?case by - (rule exI [of _ "c # a"], rule exI [of _ b], auto)
next
  case (2 r pre c cs)
  show ?case
  proof (cases "rx_matches r (pre, c # cs, None)")
    case Nil
    with 2 obtain a b p q tl where "cs = a @ b" "rx_matches r (rev a @ c # pre, b, None) = (p, q, g) # tl"
      by auto
    then show ?thesis by - (rule exI [of _ "c # a"], rule exI [of _ b], auto)
  next
    case (Cons m ms)
    obtain p' q' g' where m: "m = (p', q', g')" by (cases m)
    show ?thesis
    proof (cases "g = g'")
      case True
      with Cons m show ?thesis by - (rule exI [of _ "[]"], rule exI [of _ "c # cs"], auto)
    next
      case False
      with 2 Cons m have "g \<in> set (groups_from r (length cs - length q') (c # pre) cs)" by auto
      with 2(2) [OF Cons m [symmetric] refl] obtain a b p q tl
        where "cs = a @ b" "rx_matches r (rev a @ c # pre, b, None) = (p, q, g) # tl"
        by auto
      then show ?thesis by - (rule exI [of _ "c # a"], rule exI [of _ b], auto)
    qed
  qed
qed (auto split: list.splits dest: sym)

text \<open>What the successes of a repeated character class, a literal and a group look like.\<close>

lemma star_greedy_chr_set:
  "(p, q, h) \<in> set (star_greedy n (rx_matches (Chr P)) (pre, suf, g)) \<Longrightarrow>
     h = g \<and> (\<exists>x. suf = x @ q \<and> p = rev x @ pre \<and> list_all P x)"
proof (induction n arbitrary: pre suf)
  case (Suc n)
  show ?case
  proof (cases suf)
    case Nil
    with Suc.prems show ?thesis by simp
  next
    case (Cons c cs)
    from Suc.prems Cons consider "(p, q, h) = (pre, suf, g)"
      | "P c" "(p, q, h) \<in> set (star_greedy n (rx_matches (Chr P)) (c # pre, cs, g))"
      by (auto split: if_splits)
    then show ?thesis
    proof cases
      case 2
      from Suc.IH [OF 2(2)] obtain x where "h = g" "cs = x @ q" "p = rev x @ c # pre" "list_all P x"
        by blast
      with Cons 2(1) show ?thesis by (intro conjI exI [of _ "c # x"]) auto
    qed simp
  qed
qed simp

lemma star_chr_set:
  "(p, q, h) \<in> set (rx_matches (Star (Chr P)) (pre, suf, g)) \<Longrightarrow>
     h = g \<and> (\<exists>x. suf = x @ q \<and> p = rev x @ pre \<and> list_all P x)"
  using star_greedy_chr_set by simp

lemma chr_set:
  "(p, q, h) \<in> set (rx_matches (Chr P) (pre, suf, g)) \<Longrightarrow>
     h = g \<and> (\<exists>c. suf = c # q \<and> p = c # pre \<and> P c)"
  by (cases suf) (auto split: if_splits)

lemma seq_set:
  "t \<in> set (rx_matches (Seq a b) s) \<longleftrightarrow> (\<exists>u \<in> set (rx_matches a s). t \<in> set (rx_matches b u))"
  by simp

lemma seq_setE:
  assumes "t \<in> set (rx_matches (Seq a b) s)"
  obtains p q h where "(p, q, h) \<in> set (rx_matches a s)" "t \<in> set (rx_matches b (p, q, h))"
  using assms unfolding seq_set by auto

lemma ilit_set:
  "(p, q, h) \<in> set (rx_matches (ilit w) (pre, suf, g)) \<Longrightarrow> matches_ci w suf \<and> q = drop (length w) suf"
  by (simp add: rx_matches_ilit split: if_splits)

lemma alts_ilit_set:
  assumes "ws \<noteq> []" "u \<in> set (rx_matches (alts (map ilit ws)) s)"
  shows "\<exists>w \<in> set ws. u \<in> set (rx_matches (ilit w) s)"
  using assms by (auto simp: rx_matches_alts)

lemma plus_chr_set:
  assumes "(p, q, h) \<in> set (rx_matches (Plus (Chr P)) (pre, suf, g))"
  shows "h = g \<and> (\<exists>x. x \<noteq> [] \<and> suf = x @ q \<and> p = rev x @ pre \<and> list_all P x)"
proof -
  from assms obtain p1 q1 h1 where
    u: "(p1, q1, h1) \<in> set (rx_matches (Chr P) (pre, suf, g))"
    and v: "(p, q, h) \<in> set (rx_matches (Star (Chr P)) (p1, q1, h1))"
    by (rule seq_setE)
  from chr_set [OF u] star_chr_set [OF v] obtain c x where
    "h = g" "suf = c # x @ q" "p = rev x @ c # pre" "P c" "list_all P x" by auto
  then show ?thesis by (intro conjI exI [of _ "c # x"]) auto
qed

section \<open>Splitting and stripping\<close>

fun join_with :: "char \<Rightarrow> string list \<Rightarrow> string" where
  "join_with d [] = []"
| "join_with d [w] = w"
| "join_with d (w # ws) = w @ d # join_with d ws"

lemma split_on_nonempty: "split_on d s \<noteq> []"
  by (induction d s rule: split_on.induct) (auto split: list.splits)

lemma split_on_word: "d \<notin> set w \<Longrightarrow> split_on d w = [w]"
  by (induction w) auto

lemma split_on_append: "d \<notin> set w \<Longrightarrow> split_on d (w @ d # s) = w # split_on d s"
  by (induction w) (auto split: list.splits)

lemma split_on_join:
  "ws \<noteq> [] \<Longrightarrow> \<forall>w \<in> set ws. d \<notin> set w \<Longrightarrow> split_on d (join_with d ws) = ws"
  by (induction d ws rule: join_with.induct) (auto simp: split_on_word split_on_append)

lemma strip_blank: "strip s = [] \<longleftrightarrow> list_all is_space s"
proof -
  have u: "set s = set (takeWhile is_space s) \<union> set (dropWhile is_space s)"
    by (metis set_append takeWhile_dropWhile_id)
  have "strip s = [] \<longleftrightarrow> (\<forall>c \<in> set (dropWhile is_space s). is_space c)"
    by (simp add: strip_def dropWhile_eq_Nil_conv)
  then show ?thesis unfolding list_all_iff u by (blast dest: set_takeWhileD)
qed

lemma has_whole_word_not_blank:
  assumes "has_whole_word ws s" "\<And>w. w \<in> set ws \<Longrightarrow> w \<noteq> [] \<and> list_all is_word w"
  shows "s \<noteq> [] \<and> strip s \<noteq> []"
proof -
  from assms(1) obtain pre x post w where "s = pre @ x @ post" "w \<in> set ws" "lower x = lower w"
    unfolding has_whole_word_def by blast
  then have x: "set x \<subseteq> set s" "w \<in> set ws" "lower x = lower w" by auto
  then have "x \<noteq> []" "list_all is_word x"
    using assms(2) [OF x(2)] lower_length [OF x(3)] is_word_lowers [OF x(3)] by auto
  then obtain c where "c \<in> set s" "is_word c" using x(1) by (cases x) auto
  moreover from this have "\<not> is_space c"
    by (auto simp: is_space_def is_word_def is_alpha_def is_upper_def is_lower_def is_digit_def)
  ultimately show ?thesis by (auto simp: strip_blank list_all_iff)
qed

end
