(* ===== verification/Sql_Policy.thy ===== *)
theory Sql_Policy
  imports Regex
begin

text \<open>
  \<open>src/core/db/sql_policy.py\<close>: the textual classification of SQL statements that
  authorises writes (\<open>classify_operation\<close>, \<open>has_scope\<close>), picks the concurrency class
  (\<open>classify_cost\<close>) and names the tables a statement refers to (\<open>extract_tables\<close>).  The
  source's regular expressions are written out as patterns of theory \<open>Regex\<close>.
\<close>

datatype operation = Read | Write

datatype cost = Fast | Normal | Expensive

text \<open>The cost classes are ordered by how much they restrict concurrency.\<close>

instantiation cost :: linorder
begin

fun cost_rank :: "cost \<Rightarrow> nat" where
  "cost_rank Fast = 0"
| "cost_rank Normal = 1"
| "cost_rank Expensive = 2"

definition less_eq_cost :: "cost \<Rightarrow> cost \<Rightarrow> bool" where
  "less_eq_cost a b \<longleftrightarrow> cost_rank a \<le> cost_rank b"

definition less_cost :: "cost \<Rightarrow> cost \<Rightarrow> bool" where
  "less_cost a b \<longleftrightarrow> cost_rank a < cost_rank b"

instance
proof
  fix x y :: cost
  show "x \<le> y \<Longrightarrow> y \<le> x \<Longrightarrow> x = y"
    by (cases x; cases y) (auto simp: less_eq_cost_def)
qed (auto simp: less_eq_cost_def less_cost_def)

end

section \<open>The module's patterns\<close>

text \<open>\<^verbatim>\<open>^\s*(--[^\n]*\n|/\*.*?\*/\s*)*\<close> under \<open>DOTALL\<close>\<close>

definition leading_comment_re :: rx where
  "leading_comment_re =
     Seq Bol (Seq (Star (Chr is_space))
       (Star (Grp (Alt
          (Seq (lit ''--'') (Seq (Star (Chr (\<lambda>c. code c \<noteq> 10))) (Chr (\<lambda>c. code c = 10))))
          (Seq (lit ''/*'') (Seq (StarLazy (Chr (\<lambda>_. True))) (Seq (lit ''*/'') (Star (Chr is_space)))))))))"

text \<open>\<^verbatim>\<open>^\s*([A-Za-z]+)\<close>\<close>

definition first_word_re :: rx where
  "first_word_re = Seq Bol (Seq (Star (Chr is_space)) (Grp (Plus (Chr is_alpha))))"

definition read_keywords :: "string list" where
  "read_keywords = [''SELECT'', ''WITH'']"

definition write_keywords :: "string list" where
  "write_keywords = [''INSERT'', ''UPDATE'', ''DELETE'', ''MERGE'', ''REPLACE'', ''DROP'', ''ALTER'',
     ''CREATE'', ''TRUNCATE'', ''GRANT'', ''REVOKE'']"

definition write_keywords_re :: rx where
  "write_keywords_re = whole_word_rx write_keywords"

text \<open>\<^verbatim>\<open>\b(?:FROM|JOIN|INTO|UPDATE|TABLE)\s+[`"\[]?([A-Za-z_][A-Za-z0-9_]*)\<close>\<close>

definition table_words :: "string list" where
  "table_words = [''FROM'', ''JOIN'', ''INTO'', ''UPDATE'', ''TABLE'']"

definition table_ref_re :: rx where
  "table_ref_re =
     Seq WordB (Seq (alts (map ilit table_words))
       (Seq (Plus (Chr is_space))
         (Seq (Opt (Chr (\<lambda>c. code c = 96 \<or> code c = 34 \<or> code c = 91)))
           (Grp (Seq (Chr (\<lambda>c. is_alpha c \<or> c = CHR ''_'')) (Star (Chr is_word)))))))"

definition two_words :: "string \<Rightarrow> string \<Rightarrow> rx" where
  "two_words a b = Seq (ilit a) (Seq (Plus (Chr is_space)) (ilit b))"

text \<open>\<^verbatim>\<open>\b(JOIN|GROUP\s+BY|ORDER\s+BY|HAVING|DISTINCT|UNION)\b\<close>\<close>

definition normal_markers :: rx where
  "normal_markers = Seq WordB (Seq
     (alts [ilit ''JOIN'', two_words ''GROUP'' ''BY'', two_words ''ORDER'' ''BY'', ilit ''HAVING'',
            ilit ''DISTINCT'', ilit ''UNION'']) WordB)"

text \<open>\<^verbatim>\<open>\b(CROSS\s+JOIN|GROUP\s+BY|WINDOW|OVER\s*\(|RECURSIVE)\b\<close>\<close>

definition expensive_markers :: rx where
  "expensive_markers = Seq WordB (Seq
     (alts [two_words ''CROSS'' ''JOIN'', two_words ''GROUP'' ''BY'', ilit ''WINDOW'',
            Seq (ilit ''OVER'') (Seq (Star (Chr is_space)) (lit ''('')), ilit ''RECURSIVE'']) WordB)"

text \<open>\<^verbatim>\<open>\bLIMIT\s+\d+\b\<close> and \<^verbatim>\<open>SELECT\s+\*\<close>\<close>

definition has_limit :: rx where
  "has_limit = Seq WordB (Seq (ilit ''LIMIT'') (Seq (Plus (Chr is_space)) (Seq (Plus (Chr is_digit)) WordB)))"

definition select_star :: rx where
  "select_star = Seq (ilit ''SELECT'') (Seq (Plus (Chr is_space)) (lit ''*''))"

section \<open>The functions\<close>

definition first_keyword :: "string \<Rightarrow> string" where
  "first_keyword sql =
     (case rx_match first_word_re (rx_delete leading_comment_re sql) of
        Some (_, _, Some w) \<Rightarrow> upper w
      | _ \<Rightarrow> [])"

definition classify_operation :: "string \<Rightarrow> operation" where
  "classify_operation sql =
     (let keyword = first_keyword sql in
      if keyword \<notin> set read_keywords then Write
      else if keyword = ''WITH'' \<and> rx_search write_keywords_re sql then Write
      else Read)"

definition extract_tables :: "string \<Rightarrow> string list" where
  "extract_tables sql = remdups (map (\<lambda>g. case g of None \<Rightarrow> [] | Some t \<Rightarrow> t) (rx_groups table_ref_re sql))"

definition classify_cost :: "string \<Rightarrow> cost" where
  "classify_cost sql =
     (if sql = [] \<or> strip sql = [] then Fast
      else if rx_search expensive_markers sql then Expensive
      else
        (let is_normal = rx_search normal_markers sql;
             unbounded_wide_scan = rx_search select_star sql \<and> \<not> rx_search has_limit sql
         in if is_normal \<and> unbounded_wide_scan then Expensive
            else if is_normal \<or> unbounded_wide_scan then Normal
            else Fast))"

definition granted_scopes :: "string option \<Rightarrow> string list" where
  "granted_scopes scopes =
     (let granted = map (\<lambda>s. lower (strip s))
                     (filter (\<lambda>s. strip s \<noteq> []) (split_on (CHR '','') (py_or_str scopes [])))
      in if granted = [] then [''read''] else granted)"

definition has_scope :: "string option \<Rightarrow> string \<Rightarrow> bool" where
  "has_scope scopes required \<longleftrightarrow> lower required \<in> set (granted_scopes scopes)"

lemmas sql_policy_defs = classify_operation_def classify_cost_def has_scope_def granted_scopes_def

section \<open>The operation class\<close>

lemma write_keywords_words: "w \<in> set write_keywords \<Longrightarrow> w \<noteq> [] \<and> list_all is_word w"
proof -
  have "\<forall>w \<in> set write_keywords. w \<noteq> [] \<and> list_all is_word w" by code_simp
  then show "w \<in> set write_keywords \<Longrightarrow> w \<noteq> [] \<and> list_all is_word w" by blast
qed

lemma classify_read_cases:
  "classify_operation sql = Read \<longleftrightarrow>
     first_keyword sql = ''SELECT'' \<or>
     (first_keyword sql = ''WITH'' \<and> \<not> rx_search write_keywords_re sql)"
  by (auto simp: classify_operation_def read_keywords_def Let_def)


text \<open>The leading keyword of a statement that starts with blanks and a word.\<close>

lemma alpha_not_space: "is_alpha c \<Longrightarrow> \<not> is_space c"
  by (auto simp: is_alpha_def is_upper_def is_lower_def is_space_def)

lemma alpha_not_comment: "is_alpha c \<Longrightarrow> c \<noteq> CHR ''-'' \<and> c \<noteq> CHR ''/''"
  by (auto simp: is_alpha_def is_upper_def is_lower_def)

lemma takeWhile_blank_word:
  "list_all is_space ws \<Longrightarrow> w \<noteq> [] \<Longrightarrow> list_all is_alpha w \<Longrightarrow>
     takeWhile is_space (ws @ w @ post) = ws \<and> dropWhile is_space (ws @ w @ post) = w @ post"
  by (induction ws) (auto simp: list_all_iff neq_Nil_conv dest: alpha_not_space)

lemma takeWhile_word:
  "list_all P w \<Longrightarrow> post = [] \<or> \<not> P (hd post) \<Longrightarrow>
     takeWhile P (w @ post) = w \<and> dropWhile P (w @ post) = post"
  by (induction w) (cases post, auto)

lemma leading_comment_head:
  assumes "list_all is_space ws" "w \<noteq> []" "list_all is_alpha w"
  shows "\<exists>tl. rx_matches leading_comment_re ([], ws @ w @ post, None) = (rev ws, w @ post, None) # tl"
proof -
  from assms obtain c cs where w: "w = c # cs" "is_alpha c" by (cases w) auto
  obtain tl where sp: "rx_matches (Star (Chr is_space)) ([], ws @ w @ post, None) =
      (rev ws, w @ post, None) # tl"
    using star_chr_head [of is_space "[]" "ws @ w @ post" None] takeWhile_blank_word [OF assms] by auto
  have "c \<noteq> CHR ''-''" "c \<noteq> CHR ''/''" using alpha_not_comment [OF w(2)] by auto
  then have "rx_matches (Alt (Seq (lit ''--'') r1) (Seq (lit ''/*'') r2)) (rev ws, w @ post, None) = []" for r1 r2
    using w by simp
  then have "rx_matches (Star (Grp (Alt (Seq (lit ''--'') r1) (Seq (lit ''/*'') r2)))) (rev ws, w @ post, None)
      = [(rev ws, w @ post, None)]" for r1 r2
    by (simp add: star_greedy_stuck del: rx_matches.simps(4))
  then show ?thesis unfolding leading_comment_re_def
    using sp by (simp del: rx_matches.simps(5) rx_matches.simps(9))
qed

lemma delete_from_tail: "pre \<noteq> [] \<Longrightarrow> delete_from (Seq Bol r) 0 pre s = s"
  by (induction s arbitrary: pre) auto

lemma delete_from_skip:
  "k \<le> length s \<Longrightarrow> pre \<noteq> [] \<Longrightarrow> delete_from (Seq Bol r) k pre s = drop k s"
proof (induction k arbitrary: pre s)
  case (Suc k)
  then show ?case by (cases s) auto
qed (simp add: delete_from_tail)

lemma rx_delete_leading:
  assumes "list_all is_space ws" "w \<noteq> []" "list_all is_alpha w"
  shows "rx_delete leading_comment_re (ws @ w @ post) = w @ post"
proof -
  obtain tl where m: "rx_matches leading_comment_re ([], ws @ w @ post, None) = (rev ws, w @ post, None) # tl"
    using leading_comment_head [OF assms] by blast
  obtain r where r: "leading_comment_re = Seq Bol r" by (simp add: leading_comment_re_def)
  show ?thesis
  proof (cases ws)
    case Nil
    from assms(2) obtain c cs where "w = c # cs" by (cases w) auto
    with m Nil show ?thesis
      by (simp add: rx_delete_def r delete_from_tail del: rx_matches.simps)
  next
    case (Cons d ds)
    with m show ?thesis
      by (simp add: rx_delete_def r delete_from_skip del: rx_matches.simps)
  qed
qed

lemma first_keyword_blank_word:
  assumes "list_all is_space ws" "w \<noteq> []" "list_all is_alpha w"
    and "post = [] \<or> \<not> is_alpha (hd post)"
  shows "first_keyword (ws @ w @ post) = upper w"
proof -
  from assms obtain c cs where w: "w = c # cs" "is_alpha c" by (cases w) auto
  have "takeWhile is_space (w @ post) = []" "dropWhile is_space (w @ post) = w @ post"
    using w alpha_not_space by auto
  then obtain tl where sp: "rx_matches (Star (Chr is_space)) ([], w @ post, None) = ([], w @ post, None) # tl"
    using star_chr_head [of is_space "[]" "w @ post" None] by auto
  obtain tl' where pl: "rx_matches (Plus (Chr is_alpha)) ([], w @ post, None) = (rev w, post, None) # tl'"
    using plus_chr_head [of "w @ post" is_alpha "[]" None] takeWhile_word [OF assms(3,4)] w by auto
  have "rx_matches first_word_re ([], w @ post, None) \<noteq> [] \<and>
      hd (rx_matches first_word_re ([], w @ post, None)) = (rev w, post, Some w)"
    unfolding first_word_re_def using sp pl by (simp del: rx_matches.simps(5) rx_matches.simps(3)
      add: rx_matches.simps(3) [of Bol] rx_matches.simps(3) [of _ "Grp _"])
  then show ?thesis
    by (auto simp: first_keyword_def rx_delete_leading [OF assms(1-3)] rx_match_def split: list.splits)
qed

text \<open>
  Leading blanks do not hide the keyword: for blanks, a word and then anything that
  does not continue the word, the leading keyword is that word in upper case.
\<close>

theorem first_keyword_word:
  assumes "list_all is_space ws" "w \<noteq> []" "list_all is_alpha w"
    and "post = [] \<or> \<not> is_alpha (hd post)"
  shows "first_keyword (ws @ w @ post) = upper w"
  using first_keyword_blank_word [OF assms] .

theorem first_keyword_word_witness:
  "first_keyword ''  select 1'' = ''SELECT''"
proof -
  have h: "list_all is_space ''  ''" "''select'' \<noteq> []" "list_all is_alpha ''select''"
    "'' 1'' = [] \<or> \<not> is_alpha (hd '' 1'')"
    by code_simp+
  have "upper ''select'' = ''SELECT''" by code_simp
  then show ?thesis using first_keyword_word [OF h] by simp
qed

text \<open>
  Only the leading keyword of a SELECT statement is looked at: whatever follows the word
  SELECT (a second statement behind a semicolon included), the statement is a read.
\<close>

theorem select_prefix_is_read:
  assumes "post = [] \<or> \<not> is_alpha (hd post)"
  shows "classify_operation (''SELECT'' @ post) = Read"
proof -
  have a: "list_all is_alpha ''SELECT''" "upper ''SELECT'' = ''SELECT''" by code_simp+
  have "first_keyword ([] @ ''SELECT'' @ post) = upper ''SELECT''"
    by (rule first_keyword_blank_word) (use a assms in auto)
  then show ?thesis using a(2) by (simp add: classify_read_cases)
qed

theorem select_prefix_is_read_witness:
  "classify_operation (''SELECT'' @ '' 1; DROP TABLE t'') = Read"
proof (rule select_prefix_is_read)
  show "'' 1; DROP TABLE t'' = [] \<or> \<not> is_alpha (hd '' 1; DROP TABLE t'')" by code_simp
qed

section \<open>Table references\<close>

definition table_ref :: "string \<Rightarrow> string \<Rightarrow> bool" where
  "table_ref sql t \<longleftrightarrow> (\<exists>a kw sp qt post. sql = a @ kw @ sp @ qt @ t @ post
     \<and> (\<exists>w \<in> set table_words. lower kw = lower w)
     \<and> (a = [] \<or> \<not> is_word (last a))
     \<and> sp \<noteq> [] \<and> list_all is_space sp
     \<and> (qt = [] \<or> qt \<in> {[CHR 0x60], [CHR 0x22], [CHR 0x5B]})
     \<and> t \<noteq> [] \<and> (is_alpha (hd t) \<or> hd t = CHR ''_'') \<and> list_all is_word t)"

lemma table_words_ok: "table_words \<noteq> [] \<and> (\<forall>w \<in> set table_words. w \<noteq> [] \<and> list_all is_word w)"
  by code_simp

lemma ident_set:
  assumes "(p, q, h) \<in> set (rx_matches (Seq (Chr (\<lambda>c. is_alpha c \<or> c = CHR ''_'')) (Star (Chr is_word))) (pre, suf, g))"
  shows "\<exists>t. suf = t @ q \<and> p = rev t @ pre \<and> t \<noteq> [] \<and> (is_alpha (hd t) \<or> hd t = CHR ''_'') \<and> list_all is_word t"
proof -
  from assms obtain p1 q1 h1 where
    u: "(p1, q1, h1) \<in> set (rx_matches (Chr (\<lambda>c. is_alpha c \<or> c = CHR ''_'')) (pre, suf, g))"
    and v: "(p, q, h) \<in> set (rx_matches (Star (Chr is_word)) (p1, q1, h1))"
    by (rule seq_setE)
  from chr_set [OF u] star_chr_set [OF v] obtain c x where
    "suf = c # x @ q" "p = rev x @ c # pre" "is_alpha c \<or> c = CHR ''_''" "list_all is_word x" by auto
  then show ?thesis by (intro exI [of _ "c # x"]) (auto simp: is_word_def)
qed

lemma grp_ident_set:
  assumes "(p, q, h) \<in> set (rx_matches (Grp (Seq (Chr (\<lambda>c. is_alpha c \<or> c = CHR ''_'')) (Star (Chr is_word)))) (pre, suf, g))"
  shows "\<exists>t. h = Some t \<and> suf = t @ q \<and> t \<noteq> [] \<and> (is_alpha (hd t) \<or> hd t = CHR ''_'') \<and> list_all is_word t"
proof -
  from assms obtain p' q' h' where
    u: "(p', q', h') \<in> set (rx_matches (Seq (Chr (\<lambda>c. is_alpha c \<or> c = CHR ''_'')) (Star (Chr is_word))) (pre, suf, None))"
    and e: "(p, q, h) = set_group pre (p', q', h')"
    by (auto simp del: rx_matches.simps(3) simp add: rx_matches.simps(9))
  from ident_set [OF u] e show ?thesis by auto
qed

lemma opt_quote_set:
  assumes "(p, q, h) \<in> set (rx_matches (Opt (Chr P)) (pre, suf, g))"
  shows "\<exists>x. suf = x @ q \<and> (x = [] \<or> (\<exists>c. x = [c] \<and> P c))"
proof -
  from assms consider "(p, q, h) \<in> set (rx_matches (Chr P) (pre, suf, g))" | "q = suf"
    unfolding rx_matches.simps(4) rx_matches.simps(1) by auto
  then show ?thesis
  proof cases
    case 1
    with chr_set [OF 1] show ?thesis by auto
  qed simp
qed

lemma quote_codes:
  assumes "code c = 96 \<or> code c = 34 \<or> code c = 91"
  shows "c = CHR 0x60 \<or> c = CHR 0x22 \<or> c = CHR 0x5B"
proof -
  have "c = char_of (code c)" by simp
  moreover have "char_of (96::nat) = CHR 0x60" "char_of (34::nat) = CHR 0x22" "char_of (91::nat) = CHR 0x5B"
    by code_simp+
  ultimately show ?thesis using assms by metis
qed

lemma table_ref_re_set:
  assumes "(p, q, h) \<in> set (rx_matches table_ref_re (rev a, b, None))"
  shows "\<exists>t. h = Some t \<and> table_ref (a @ b) t"
proof -
  let ?kw = "alts (map ilit table_words)"
  let ?qt = "Opt (Chr (\<lambda>c. code c = 96 \<or> code c = 34 \<or> code c = 91))"
  let ?id = "Grp (Seq (Chr (\<lambda>c. is_alpha c \<or> c = CHR ''_'')) (Star (Chr is_word)))"
  from assms obtain p0 q0 h0 where u0: "(p0, q0, h0) \<in> set (rx_matches WordB (rev a, b, None))"
    and r0: "(p, q, h) \<in> set (rx_matches (Seq ?kw (Seq (Plus (Chr is_space)) (Seq ?qt ?id))) (p0, q0, h0))"
    unfolding table_ref_re_def by (rule seq_setE)
  from u0 have bd: "at_boundary (rev a) b" and "(p0, q0, h0) = (rev a, b, None)"
    by (auto simp del: at_boundary.simps split: if_splits)
  note r0' = r0 [unfolded this(2)]
  from r0' obtain p1 q1 h1 where u1: "(p1, q1, h1) \<in> set (rx_matches ?kw (rev a, b, None))"
    and r1: "(p, q, h) \<in> set (rx_matches (Seq (Plus (Chr is_space)) (Seq ?qt ?id)) (p1, q1, h1))"
    by (rule seq_setE)
  from r1 obtain p2 q2 h2 where u2: "(p2, q2, h2) \<in> set (rx_matches (Plus (Chr is_space)) (p1, q1, h1))"
    and r2: "(p, q, h) \<in> set (rx_matches (Seq ?qt ?id) (p2, q2, h2))"
    by (rule seq_setE)
  from r2 obtain p3 q3 h3 where u3: "(p3, q3, h3) \<in> set (rx_matches ?qt (p2, q2, h2))"
    and u4: "(p, q, h) \<in> set (rx_matches ?id (p3, q3, h3))"
    by (rule seq_setE)
  obtain w where w1: "w \<in> set table_words"
    and w': "(p1, q1, h1) \<in> set (rx_matches (ilit w) (rev a, b, None))"
    using alts_ilit_set [OF _ u1] table_words_ok by blast
  note w = w1 ilit_set [OF w', THEN conjunct1] ilit_set [OF w', THEN conjunct2]
  from w(2,3) obtain kw where kw: "b = kw @ q1" "lower kw = lower w"
    by (metis matches_ci_def append_take_drop_id)
  have wkw: "w \<noteq> [] \<and> list_all is_word w" using w(1) table_words_ok by blast
  then have "kw \<noteq> []" "list_all is_word kw"
    using lower_length [OF kw(2)] is_word_lowers [OF kw(2)] by auto
  then have a: "a = [] \<or> \<not> is_word (last a)" using bd kw(1) boundary_left [of kw a q1] by auto
  from plus_chr_set [OF u2] obtain sp where sp: "sp \<noteq> []" "q1 = sp @ q2" "list_all is_space sp" by blast
  from opt_quote_set [OF u3] obtain qt where qt: "q2 = qt @ q3"
    "qt = [] \<or> qt \<in> {[CHR 0x60], [CHR 0x22], [CHR 0x5B]}"
    using quote_codes by blast
  from grp_ident_set [OF u4] obtain t where t: "h = Some t" "q3 = t @ q" "t \<noteq> []"
    "is_alpha (hd t) \<or> hd t = CHR ''_''" "list_all is_word t" by blast
  have "a @ b = a @ kw @ sp @ qt @ t @ q" using kw(1) sp(2) qt(1) t(2) by simp
  moreover have "\<exists>w \<in> set table_words. lower kw = lower w"
    using kw(2) w(1) by blast
  ultimately show ?thesis using a sp qt(2) t unfolding table_ref_def by blast
qed

lemma extract_tables_text:
  "\<forall>t \<in> set (extract_tables sql). table_ref sql t"
proof
  fix t assume "t \<in> set (extract_tables sql)"
  then obtain g where g: "g \<in> set (rx_groups table_ref_re sql)" "t = (case g of None \<Rightarrow> [] | Some t \<Rightarrow> t)"
    by (auto simp: extract_tables_def)
  from groups_from_sound [OF g(1) [unfolded rx_groups_def]] obtain a b p q tl
    where s: "sql = a @ b" and "rx_matches table_ref_re (rev a, b, None) = (p, q, g) # tl" by auto
  then have "(p, q, g) \<in> set (rx_matches table_ref_re (rev a, b, None))" by simp
  from table_ref_re_set [OF this] g(2) s show "table_ref sql t" by auto
qed

text \<open>
  Every table name that is extracted stands in the statement behind one of the keywords
  FROM, JOIN, INTO, UPDATE, TABLE (any case, as a whole word), blanks and at most one opening
  quote, and is an identifier.
\<close>

theorem extract_tables_sound:
  "\<forall>t \<in> set (extract_tables sql). table_ref sql t"
  by (rule extract_tables_text)

theorem extract_tables_sound_witness:
  "extract_tables ''DELETE FROM [orders] WHERE id IN (SELECT id from stale)'' = [''orders'', ''stale'']
   \<and> table_ref ''DELETE FROM [orders] WHERE id IN (SELECT id from stale)'' ''stale''"
proof -
  have e: "extract_tables ''DELETE FROM [orders] WHERE id IN (SELECT id from stale)'' = [''orders'', ''stale'']"
    by code_simp
  show ?thesis
    using extract_tables_sound [of "''DELETE FROM [orders] WHERE id IN (SELECT id from stale)''"] e by auto
qed

section \<open>Scopes\<close>

text \<open>
  A scopes string grants a scope iff one of its comma-separated parts is that scope up to
  blanks around it and letter case; a string without any part, like no string, grants \<open>read\<close>
  and nothing else.
\<close>

theorem has_scope_join:
  assumes "ss \<noteq> []" "\<forall>s \<in> set ss. CHR '','' \<notin> set s"
  shows "(has_scope (Some (join_with (CHR '','') ss)) r \<longleftrightarrow>
      (\<exists>s \<in> set ss. strip s \<noteq> [] \<and> lower (strip s) = lower r)
      \<or> (\<forall>s \<in> set ss. strip s = []) \<and> lower r = lower ''read'')
    \<and> (has_scope None r \<longleftrightarrow> lower r = lower ''read'')"
proof
  have l: "lower ''read'' = ''read''" by code_simp
  have "split_on (CHR '','') (py_or_str (Some (join_with (CHR '','') ss)) []) = ss"
    using split_on_join [OF assms] by (cases "join_with (CHR '','') ss") auto
  then show "has_scope (Some (join_with (CHR '','') ss)) r \<longleftrightarrow>
      (\<exists>s \<in> set ss. strip s \<noteq> [] \<and> lower (strip s) = lower r)
      \<or> (\<forall>s \<in> set ss. strip s = []) \<and> lower r = lower ''read''"
    unfolding has_scope_def granted_scopes_def l
    by (auto simp: Let_def filter_empty_conv image_iff)
  have "strip [] = []" by (simp add: strip_def)
  then show "has_scope None r \<longleftrightarrow> lower r = lower ''read''"
    unfolding l by (simp add: has_scope_def granted_scopes_def)
qed

theorem has_scope_join_witness:
  "has_scope (Some ''read, WRITE'') ''write'' \<and> \<not> has_scope (Some ''read'') ''write''
     \<and> \<not> has_scope None ''write''"
proof -
  have h: "[''read'', '' WRITE''] \<noteq> []" "\<forall>s \<in> set [''read'', '' WRITE'']. CHR '','' \<notin> set s"
    by simp_all
  have h1: "[''read''] \<noteq> []" "\<forall>s \<in> set [''read'']. CHR '','' \<notin> set s" by simp_all
  have e: "lower (strip '' WRITE'') = lower ''write''" "strip '' WRITE'' \<noteq> []"
    "lower (strip ''read'') \<noteq> lower ''write''" "lower ''write'' \<noteq> lower ''read''" "strip ''read'' \<noteq> []"
    by code_simp+
  show ?thesis
    using has_scope_join [OF h, of "''write''"] has_scope_join [OF h1, of "''write''"]
      e by simp
qed

section \<open>Cost classes\<close>

text \<open>
  A window or recursive query is always in the expensive class, and one with a JOIN,
  HAVING, DISTINCT or UNION is at least in the normal class, whatever else it holds.
\<close>

theorem classify_cost_lower_bounds:
  "(has_whole_word [''WINDOW'', ''RECURSIVE''] sql \<longrightarrow> classify_cost sql = Expensive) \<and>
   (has_whole_word [''JOIN'', ''HAVING'', ''DISTINCT'', ''UNION''] sql \<longrightarrow> Normal \<le> classify_cost sql)"
proof (intro conjI impI)
  assume h: "has_whole_word [''WINDOW'', ''RECURSIVE''] sql"
  have ok: "\<forall>w \<in> set [''WINDOW'', ''RECURSIVE'']. w \<noteq> [] \<and> list_all is_word w" by code_simp
  then have nb: "sql \<noteq> [] \<and> strip sql \<noteq> []" using has_whole_word_not_blank [OF h] by blast
  have "has_whole_word [''WINDOW''] sql \<or> has_whole_word [''RECURSIVE''] sql"
    using h by (subst (asm) has_whole_word_ex) auto
  then have "rx_search expensive_markers sql"
    unfolding expensive_markers_def using ok by (auto intro!: whole_word_in_alts simp del: ilit.simps alts.simps)
  with nb show "classify_cost sql = Expensive" by (simp add: classify_cost_def)
next
  assume h: "has_whole_word [''JOIN'', ''HAVING'', ''DISTINCT'', ''UNION''] sql"
  have ok: "\<forall>w \<in> set [''JOIN'', ''HAVING'', ''DISTINCT'', ''UNION'']. w \<noteq> [] \<and> list_all is_word w" by code_simp
  then have nb: "sql \<noteq> [] \<and> strip sql \<noteq> []" using has_whole_word_not_blank [OF h] by blast
  obtain w where w: "w \<in> set [''JOIN'', ''HAVING'', ''DISTINCT'', ''UNION'']" "has_whole_word [w] sql"
    using h by (subst (asm) has_whole_word_ex) blast
  then have "rx_search normal_markers sql"
    unfolding normal_markers_def using ok by (auto intro!: whole_word_in_alts simp del: ilit.simps alts.simps)
  with nb show "Normal \<le> classify_cost sql"
    by (auto simp: classify_cost_def less_eq_cost_def Let_def)
qed

theorem classify_cost_lower_bounds_witness:
  "classify_cost ''select row_number() over w from t window w as (order by x)'' = Expensive"
proof -
  have "has_whole_word [''WINDOW'', ''RECURSIVE''] ''select row_number() over w from t window w as (order by x)''"
    unfolding has_whole_word_def
    by (rule exI [of _ "''select row_number() over w from t ''"], rule exI [of _ "''window''"],
        rule exI [of _ "'' w as (order by x)''"], rule exI [of _ "''WINDOW''"]) code_simp
  then show ?thesis using classify_cost_lower_bounds by blast
qed

end
