(* ===== verification/Rate_Limiter.thy ===== *)
theory Rate_Limiter
  imports Prelude
begin

text \<open>
  \<open>src/core/auth/rate_limiter.py\<close>: the per-key sliding-window limiter in front of the
  login and registration routes.  \<open>attempts\<close> is the module's \<open>_attempts\<close> dictionary of
  deques, oldest entry first; \<open>now\<close> is the reading of the monotonic clock.  The lemmas show
  that pruning old entries loses nothing: the limiter decides exactly like one that keeps the
  whole history of admitted attempts and counts those inside the window.
\<close>

type_synonym attempts = "string \<rightharpoonup> seconds list"

definition bucket_of :: "attempts \<Rightarrow> string \<Rightarrow> seconds list" where
  "bucket_of a key = (case a key of None \<Rightarrow> [] | Some b \<Rightarrow> b)"

definition check_and_record ::
  "string \<Rightarrow> int \<Rightarrow> seconds \<Rightarrow> seconds \<Rightarrow> attempts \<Rightarrow> attempts \<times> bool" where
  "check_and_record key max_attempts window now a =
     (let cutoff = now - window;
          bucket = dropWhile (\<lambda>t. t < cutoff) (bucket_of a key)
      in if int (length bucket) \<ge> max_attempts then (a(key \<mapsto> bucket), False)
         else (a(key \<mapsto> bucket @ [now]), True))"

definition reset_attempts :: "string \<Rightarrow> attempts \<Rightarrow> attempts" where
  "reset_attempts key a = a(key := None)"

section \<open>Runs\<close>

datatype rl_event = Attempt string seconds | Reset string

fun rl_step :: "int \<Rightarrow> seconds \<Rightarrow> attempts \<Rightarrow> rl_event \<Rightarrow> attempts \<times> bool option" where
  "rl_step n w a (Attempt k t) = (let (a', ok) = check_and_record k n w t a in (a', Some ok))"
| "rl_step n w a (Reset k) = (reset_attempts k a, None)"

fun rl_run :: "int \<Rightarrow> seconds \<Rightarrow> attempts \<Rightarrow> rl_event list \<Rightarrow> bool option list" where
  "rl_run n w a [] = []"
| "rl_run n w a (e # es) = (let (a', r) = rl_step n w a e in r # rl_run n w a' es)"

text \<open>The clock never runs backwards from \<open>t0\<close> on.\<close>

fun clock_ok :: "seconds \<Rightarrow> rl_event list \<Rightarrow> bool" where
  "clock_ok t0 [] = True"
| "clock_ok t0 (Attempt k t # es) = (t0 \<le> t \<and> clock_ok t es)"
| "clock_ok t0 (Reset k # es) = clock_ok t0 es"

section \<open>Specification: count the admitted attempts inside the window\<close>

type_synonym history = "string \<Rightarrow> seconds list"

definition in_window :: "seconds \<Rightarrow> seconds \<Rightarrow> seconds list \<Rightarrow> seconds list" where
  "in_window w now h = filter (\<lambda>t. now - w \<le> t) h"

fun spec_step :: "int \<Rightarrow> seconds \<Rightarrow> history \<Rightarrow> rl_event \<Rightarrow> history \<times> bool option" where
  "spec_step n w h (Attempt k t) =
     (if int (length (in_window w t (h k))) < n then (h(k := h k @ [t]), Some True) else (h, Some False))"
| "spec_step n w h (Reset k) = (h(k := []), None)"

fun spec_run :: "int \<Rightarrow> seconds \<Rightarrow> history \<Rightarrow> rl_event list \<Rightarrow> bool option list" where
  "spec_run n w h [] = []"
| "spec_run n w h (e # es) = (let (h', r) = spec_step n w h e in r # spec_run n w h' es)"

fun spec_history :: "int \<Rightarrow> seconds \<Rightarrow> history \<Rightarrow> rl_event list \<Rightarrow> history" where
  "spec_history n w h [] = h"
| "spec_history n w h (e # es) = spec_history n w (fst (spec_step n w h e)) es"

section \<open>The simulation\<close>

definition sim :: "seconds \<Rightarrow> seconds \<Rightarrow> attempts \<Rightarrow> history \<Rightarrow> bool" where
  "sim w t0 a h \<longleftrightarrow> (\<forall>k. sorted (h k) \<and> (\<forall>t \<in> set (h k). t \<le> t0) \<and>
      (\<exists>c \<le> t0 - w. bucket_of a k = dropWhile (\<lambda>t. t < c) (h k)))"

lemma dropWhile_dropWhile_less:
  "c \<le> (d::seconds) \<Longrightarrow> dropWhile (\<lambda>t. t < d) (dropWhile (\<lambda>t. t < c) h) = dropWhile (\<lambda>t. t < d) h"
  by (induction h) auto

lemma dropWhile_less_filter:
  "sorted h \<Longrightarrow> dropWhile (\<lambda>t. t < (c::seconds)) h = filter (\<lambda>t. c \<le> t) h"
proof (induction h)
  case (Cons a h)
  show ?case
  proof (cases "a < c")
    case False
    with Cons.prems have "\<forall>t \<in> set h. c \<le> t" by auto
    with False show ?thesis by (auto intro: filter_True [symmetric])
  qed (use Cons in simp)
qed simp

lemma sim_init: "sim w t0 Map.empty (\<lambda>_. [])"
  by (auto simp: sim_def bucket_of_def)

lemma sim_later: "sim w t0 a h \<Longrightarrow> t0 \<le> t \<Longrightarrow> sim w t a h"
  unfolding sim_def by (meson diff_right_mono order_trans)

lemma sim_bucket:
  assumes "sim w t0 a h" "t0 \<le> t"
  shows "dropWhile (\<lambda>s. s < t - w) (bucket_of a k) = in_window w t (h k)"
proof -
  from sim_later [OF assms] obtain c where "sorted (h k)" "c \<le> t - w"
    "bucket_of a k = dropWhile (\<lambda>t. t < c) (h k)"
    unfolding sim_def by blast
  then show ?thesis
    by (simp only: dropWhile_dropWhile_less) (simp add: dropWhile_less_filter in_window_def)
qed

lemma sim_attempt:
  assumes s: "sim w t0 a h" and t: "t0 \<le> t" and w: "0 \<le> w"
  shows "sim w t (fst (rl_step n w a (Attempt k t))) (fst (spec_step n w h (Attempt k t)))
     \<and> snd (rl_step n w a (Attempt k t)) = snd (spec_step n w h (Attempt k t))"
proof -
  note b = sim_bucket [OF s t, of k]
  have d: "in_window w t (h k) = dropWhile (\<lambda>s. s < t - w) (h k)"
    using s by (simp add: in_window_def dropWhile_less_filter sim_def)
  have h: "sorted (h k)" "\<forall>u \<in> set (h k). u \<le> t" "\<forall>j. sorted (h j)" "\<forall>j. \<forall>u \<in> set (h j). u \<le> t"
    using s t by (auto simp: sim_def intro: order_trans)
  have other: "\<exists>c \<le> t - w. bucket_of a j = dropWhile (\<lambda>t. t < c) (h j)" for j
    using sim_later [OF s t] by (simp add: sim_def)
  have snoc: "dropWhile (\<lambda>s. s < t - w) (h k @ [t]) = dropWhile (\<lambda>s. s < t - w) (h k) @ [t]"
    using w by (induction "h k") (auto simp: dropWhile_append3 dropWhile_append)
  have "sorted (h k @ [t])" using h by (simp add: sorted_append)
  then show ?thesis
    using b d h other snoc
    by (auto simp: check_and_record_def Let_def sim_def bucket_of_def not_less [symmetric] fun_upd_def)
qed

lemma sim_step:
  assumes "sim w t0 a h" "clock_ok t0 (e # es)" "0 \<le> w"
  shows "\<exists>t. sim w t (fst (rl_step n w a e)) (fst (spec_step n w h e)) \<and> clock_ok t es
      \<and> snd (rl_step n w a e) = snd (spec_step n w h e)"
proof (cases e)
  case (Attempt k t)
  with assms sim_attempt [OF assms(1) _ assms(3)] show ?thesis by (intro exI [of _ t]) simp
next
  case (Reset k)
  with assms show ?thesis
    by (intro exI [of _ t0]) (auto simp: sim_def reset_attempts_def bucket_of_def)
qed

lemma run_refines:
  "sim w t0 a h \<Longrightarrow> clock_ok t0 es \<Longrightarrow> 0 \<le> w \<Longrightarrow> rl_run n w a es = spec_run n w h es"
proof (induction es arbitrary: t0 a h)
  case (Cons e es)
  from sim_step [OF Cons.prems, of n] obtain t where
    "sim w t (fst (rl_step n w a e)) (fst (spec_step n w h e))" "clock_ok t es"
    "snd (rl_step n w a e) = snd (spec_step n w h e)" by blast
  with Cons.IH [OF this(1,2) Cons.prems(3)] show ?case by (simp add: case_prod_unfold Let_def)
qed simp

lemma in_window_mono:
  assumes "sorted (h @ [t])" "0 \<le> w"
  shows "in_window w t (h @ [t]) = in_window w t h @ [t]"
  using assms by (simp add: in_window_def)

text \<open>
  C16.  For any sequence of attempts and resets over any keys, read off a clock that does not
  run backwards, the limiter answers exactly as the specification that keeps every admitted
  attempt of a key since its last reset and admits an attempt iff fewer than
  \<open>max_attempts\<close> of them lie inside the window that ends now.
\<close>

theorem rate_limiter_refines:
  assumes "clock_ok t0 es" and "0 \<le> w"
  shows "rl_run n w Map.empty es = spec_run n w (\<lambda>_. []) es"
  using run_refines [OF sim_init assms] .

theorem rate_limiter_refines_witness:
  "rl_run 2 60 Map.empty [Attempt ''a'' 0, Attempt ''a'' 1, Attempt ''b'' 2, Attempt ''a'' 3, Attempt ''a'' 61]
     = [Some True, Some True, Some True, Some False, Some True]"
proof -
  have h: "clock_ok 0 [Attempt ''a'' 0, Attempt ''a'' 1, Attempt ''b'' 2, Attempt ''a'' 3, Attempt ''a'' 61]"
    "(0::rat) \<le> 60" by simp_all
  show ?thesis unfolding rate_limiter_refines [OF h] by (simp add: in_window_def)
qed

section \<open>The bound\<close>

definition window_ok :: "int \<Rightarrow> seconds \<Rightarrow> seconds list \<Rightarrow> bool" where
  "window_ok n w h \<longleftrightarrow> (\<forall>t. int (length (filter (\<lambda>s. t - w \<le> s \<and> s \<le> t) h)) \<le> max 0 n)"

lemma window_ok_snoc:
  assumes "window_ok n w h" "\<forall>s \<in> set h. s \<le> t" "int (length (in_window w t h)) < n"
  shows "window_ok n w (h @ [t])"
  unfolding window_ok_def
proof
  fix u
  have "length (filter (\<lambda>s. u - w \<le> s \<and> s \<le> u) h) \<le> length (in_window w t h)" if "t \<le> u"
  proof -
    have "filter (\<lambda>s. u - w \<le> s \<and> s \<le> u) h = filter (\<lambda>s. u - w \<le> s \<and> s \<le> u) (in_window w t h)"
      using that unfolding in_window_def filter_filter by (intro filter_cong refl) auto
    then show ?thesis by (metis length_filter_le)
  qed
  then show "int (length (filter (\<lambda>s. u - w \<le> s \<and> s \<le> u) (h @ [t]))) \<le> max 0 n"
    using assms(1,3) by (auto simp: window_ok_def)
qed

lemma spec_history_ok:
  "(\<forall>k. window_ok n w (h k) \<and> (\<forall>s \<in> set (h k). s \<le> t0)) \<Longrightarrow> clock_ok t0 es \<Longrightarrow>
     window_ok n w (spec_history n w h es k)"
proof (induction es arbitrary: h t0)
  case (Cons e es)
  show ?case
  proof (cases e)
    case (Attempt j t)
    with Cons.prems have t: "t0 \<le> t" "clock_ok t es" by auto
    then have le: "\<forall>k. \<forall>s \<in> set (h k). s \<le> t" using Cons.prems(1) by (meson order_trans)
    have "\<forall>k. window_ok n w (fst (spec_step n w h e) k) \<and> (\<forall>s \<in> set (fst (spec_step n w h e) k). s \<le> t)"
      using Cons.prems(1) le Attempt by (auto intro: window_ok_snoc)
    from Cons.IH [OF this t(2)] show ?thesis by simp
  next
    case (Reset j)
    with Cons.prems have "\<forall>k. window_ok n w (fst (spec_step n w h e) k)
        \<and> (\<forall>s \<in> set (fst (spec_step n w h e) k). s \<le> t0)" "clock_ok t0 es"
      by (auto simp: window_ok_def)
    from Cons.IH [OF this] show ?thesis by simp
  qed
qed simp

text \<open>The admitted attempts of a key since its last reset, read off a run's answers.\<close>

fun admitted :: "string \<Rightarrow> seconds list \<Rightarrow> rl_event list \<Rightarrow> bool option list \<Rightarrow> seconds list" where
  "admitted k acc (Attempt j t # es) (Some ok # rs) =
     admitted k (if j = k \<and> ok then acc @ [t] else acc) es rs"
| "admitted k acc (Reset j # es) (r # rs) = admitted k (if j = k then [] else acc) es rs"
| "admitted k acc es rs = acc"

lemma admitted_spec: "admitted k (h k) es (spec_run n w h es) = spec_history n w h es k"
proof (induction es arbitrary: h)
  case (Cons e es)
  show ?case by (cases e) (auto simp: Let_def fun_upd_def Cons.IH [symmetric])
qed simp

text \<open>
  C15.  Between two resets of a key, no window of the configured length, wherever it ends,
  holds more admitted attempts of that key than \<open>max_attempts\<close>.
\<close>

theorem rate_limiter_window_bound:
  assumes "clock_ok t0 es" and "0 \<le> w"
  shows "int (length (filter (\<lambda>s. t - w \<le> s \<and> s \<le> t) (admitted k [] es (rl_run n w Map.empty es)))) \<le> max 0 n"
proof -
  have "admitted k [] es (rl_run n w Map.empty es) = spec_history n w (\<lambda>_. []) es k"
    using run_refines [OF sim_init assms, of n] admitted_spec [of k "\<lambda>_. []" es n w] by simp
  then show ?thesis
    using spec_history_ok [OF _ assms(1), of n w "\<lambda>_. []" k] by (auto simp: window_ok_def)
qed

theorem rate_limiter_window_bound_witness:
  "int (length (filter (\<lambda>s. 61 - 60 \<le> s \<and> s \<le> 61)
     (admitted ''a'' [] [Attempt ''a'' 1, Attempt ''a'' 2, Attempt ''a'' 61]
       (rl_run 2 60 Map.empty [Attempt ''a'' 1, Attempt ''a'' 2, Attempt ''a'' 61])))) \<le> max 0 2"
proof -
  have h: "clock_ok 0 [Attempt ''a'' 1, Attempt ''a'' 2, Attempt ''a'' 61]" "(0::rat) \<le> 60" by simp_all
  show ?thesis by (rule rate_limiter_window_bound [OF h])
qed

end
