(* ===== verification/Query_Cache.thy ===== *)
theory Query_Cache
  imports Prelude
begin

text \<open>
  \<open>src/core/db/cache.py\<close>: the in-process caches.  A cache's dictionary is an association list
  in Python's insertion order; Python's \<open>None\<close> is a value one can store, so stored values are
  \<open>'v option\<close> and a lookup that misses also returns \<open>None\<close>.  \<open>CacheEntry\<close> reads the clock
  once for \<open>created_at\<close> and once for \<open>accessed_at\<close>; \<open>is_expired\<close> and \<open>record_access\<close>
  read it once each: an operation that reads it twice takes both readings as a pair.  Raising
  (on an empty cache with \<open>max_size \<le> 0\<close>) is the left summand.
\<close>

section \<open>Entries\<close>

record 'v cache_entry =
  ce_value :: "'v option"
  ce_ttl :: "int option"
  created_at :: seconds
  accessed_at :: seconds
  access_count :: nat

type_synonym clock2 = "seconds \<times> seconds"

definition new_entry :: "'v option \<Rightarrow> int option \<Rightarrow> clock2 \<Rightarrow> 'v cache_entry" where
  "new_entry v ttl t = \<lparr>ce_value = v, ce_ttl = ttl, created_at = fst t, accessed_at = snd t, access_count = 0\<rparr>"

definition is_expired :: "'v cache_entry \<Rightarrow> seconds \<Rightarrow> bool" where
  "is_expired e now =
     (case ce_ttl e of None \<Rightarrow> False | Some ttl \<Rightarrow> now - created_at e > of_int ttl)"

definition record_access :: "'v cache_entry \<Rightarrow> seconds \<Rightarrow> 'v cache_entry" where
  "record_access e now = e\<lparr>accessed_at := now, access_count := Suc (access_count e)\<rparr>"

section \<open>LRUQueryCache\<close>

record ('k, 'v) lru_cache =
  lru_max_size :: int
  lru_dict :: "('k, 'v cache_entry) odict"
  lru_hits :: nat
  lru_misses :: nat

definition lru_new :: "int \<Rightarrow> ('k, 'v) lru_cache" where
  "lru_new n = \<lparr>lru_max_size = n, lru_dict = [], lru_hits = 0, lru_misses = 0\<rparr>"

definition lru_get :: "'k \<Rightarrow> clock2 \<Rightarrow> ('k, 'v) lru_cache \<Rightarrow> ('k, 'v) lru_cache \<times> 'v option" where
  "lru_get k t c =
     (case map_of (lru_dict c) k of
        None \<Rightarrow> (c\<lparr>lru_misses := Suc (lru_misses c)\<rparr>, None)
      | Some e \<Rightarrow>
          if is_expired e (fst t)
          then (c\<lparr>lru_dict := AList.delete k (lru_dict c), lru_misses := Suc (lru_misses c)\<rparr>, None)
          else (c\<lparr>lru_dict := AList.update k (record_access e (snd t)) (od_move_to_end k (lru_dict c)),
                  lru_hits := Suc (lru_hits c)\<rparr>, ce_value e))"

definition lru_put :: "'k \<Rightarrow> 'v option \<Rightarrow> int option \<Rightarrow> clock2 \<Rightarrow> ('k, 'v) lru_cache \<Rightarrow> ('k, 'v) lru_cache result" where
  "lru_put k v ttl t c =
     (if k \<in> set (keys (lru_dict c))
      then Inr (c\<lparr>lru_dict := AList.update k (new_entry v ttl t) (od_move_to_end k (lru_dict c))\<rparr>)
      else if int (length (lru_dict c)) \<ge> lru_max_size c
      then (case lru_dict c of
              [] \<Rightarrow> Inl StopIteration
            | (removed_key, _) # _ \<Rightarrow>
                Inr (c\<lparr>lru_dict := AList.update k (new_entry v ttl t) (AList.delete removed_key (lru_dict c))\<rparr>))
      else Inr (c\<lparr>lru_dict := AList.update k (new_entry v ttl t) (lru_dict c)\<rparr>))"

definition lru_invalidate :: "'k \<Rightarrow> ('k, 'v) lru_cache \<Rightarrow> ('k, 'v) lru_cache" where
  "lru_invalidate k c =
     (if k \<in> set (keys (lru_dict c)) then c\<lparr>lru_dict := AList.delete k (lru_dict c)\<rparr> else c)"

definition lru_clear :: "('k, 'v) lru_cache \<Rightarrow> ('k, 'v) lru_cache" where
  "lru_clear c = c\<lparr>lru_dict := [], lru_hits := 0, lru_misses := 0\<rparr>"

definition lru_size :: "('k, 'v) lru_cache \<Rightarrow> nat" where
  "lru_size c = length (lru_dict c)"

text \<open>The numbers of \<open>stats()\<close>: size, hits, misses, total and hit rate in percent.\<close>

record cache_stats =
  st_size :: nat
  st_max_size :: int
  st_hits :: nat
  st_misses :: nat
  st_hit_rate :: rat
  st_total :: nat

definition hit_rate :: "nat \<Rightarrow> nat \<Rightarrow> rat" where
  "hit_rate hits misses =
     (let total = hits + misses in if total > 0 then of_nat hits / of_nat total * 100 else 0)"

definition lru_stats :: "('k, 'v) lru_cache \<Rightarrow> cache_stats" where
  "lru_stats c = \<lparr>st_size = lru_size c, st_max_size = lru_max_size c, st_hits = lru_hits c,
     st_misses = lru_misses c, st_hit_rate = hit_rate (lru_hits c) (lru_misses c),
     st_total = lru_hits c + lru_misses c\<rparr>"

section \<open>TTLQueryCache\<close>

record ('k, 'v) ttl_cache =
  ttl_max_size :: int
  default_ttl :: int
  ttl_dict :: "('k, 'v cache_entry) odict"
  ttl_hits :: nat
  ttl_misses :: nat

definition ttl_new :: "int \<Rightarrow> int \<Rightarrow> ('k, 'v) ttl_cache" where
  "ttl_new n d = \<lparr>ttl_max_size = n, default_ttl = d, ttl_dict = [], ttl_hits = 0, ttl_misses = 0\<rparr>"

definition ttl_get :: "'k \<Rightarrow> clock2 \<Rightarrow> ('k, 'v) ttl_cache \<Rightarrow> ('k, 'v) ttl_cache \<times> 'v option" where
  "ttl_get k t c =
     (case map_of (ttl_dict c) k of
        None \<Rightarrow> (c\<lparr>ttl_misses := Suc (ttl_misses c)\<rparr>, None)
      | Some e \<Rightarrow>
          if is_expired e (fst t)
          then (c\<lparr>ttl_dict := AList.delete k (ttl_dict c), ttl_misses := Suc (ttl_misses c)\<rparr>, None)
          else (c\<lparr>ttl_dict := AList.update k (record_access e (snd t)) (ttl_dict c),
                  ttl_hits := Suc (ttl_hits c)\<rparr>, ce_value e))"

text \<open>When an entry expires, as the eviction compares it; \<open>min\<close> returns the first minimal key.\<close>

definition expiry_of :: "int \<Rightarrow> 'v cache_entry \<Rightarrow> seconds" where
  "expiry_of d e = created_at e + of_int (py_or_int (ce_ttl e) d)"

fun min_by :: "('a \<Rightarrow> seconds) \<Rightarrow> 'a list \<Rightarrow> 'a option" where
  "min_by f [] = None"
| "min_by f (x # xs) =
     (case min_by f xs of None \<Rightarrow> Some x | Some y \<Rightarrow> if f y < f x then Some y else Some x)"

definition earliest_key :: "int \<Rightarrow> ('k, 'v cache_entry) odict \<Rightarrow> 'k option" where
  "earliest_key d xs = map_option fst (min_by (\<lambda>(k, e). expiry_of d e) xs)"

definition ttl_put :: "'k \<Rightarrow> 'v option \<Rightarrow> int option \<Rightarrow> clock2 \<Rightarrow> ('k, 'v) ttl_cache \<Rightarrow> ('k, 'v) ttl_cache result" where
  "ttl_put k v ttl t c =
     (let store = (\<lambda>d. Inr (c\<lparr>ttl_dict :=
                     AList.update k (new_entry v (Some (py_or_int ttl (default_ttl c))) t) d\<rparr>))
      in if int (length (ttl_dict c)) \<ge> ttl_max_size c
         then (case earliest_key (default_ttl c) (ttl_dict c) of
                 None \<Rightarrow> Inl (ValueError ''min() arg is an empty sequence'')
               | Some earliest \<Rightarrow> store (AList.delete earliest (ttl_dict c)))
         else store (ttl_dict c))"

definition ttl_invalidate :: "'k \<Rightarrow> ('k, 'v) ttl_cache \<Rightarrow> ('k, 'v) ttl_cache" where
  "ttl_invalidate k c =
     (if k \<in> set (keys (ttl_dict c)) then c\<lparr>ttl_dict := AList.delete k (ttl_dict c)\<rparr> else c)"

definition ttl_clear :: "('k, 'v) ttl_cache \<Rightarrow> ('k, 'v) ttl_cache" where
  "ttl_clear c = c\<lparr>ttl_dict := [], ttl_hits := 0, ttl_misses := 0\<rparr>"

definition ttl_size :: "('k, 'v) ttl_cache \<Rightarrow> nat" where
  "ttl_size c = length (ttl_dict c)"

definition ttl_stats :: "('k, 'v) ttl_cache \<Rightarrow> cache_stats" where
  "ttl_stats c = \<lparr>st_size = ttl_size c, st_max_size = ttl_max_size c, st_hits = ttl_hits c,
     st_misses = ttl_misses c, st_hit_rate = hit_rate (ttl_hits c) (ttl_misses c),
     st_total = ttl_hits c + ttl_misses c\<rparr>"

section \<open>HybridQueryCache\<close>

record ('k, 'v) hybrid_cache =
  hy_lru :: "('k, 'v) lru_cache"
  hy_ttl :: "('k, 'v) ttl_cache"

type_synonym clock4 = "clock2 \<times> clock2"

definition hybrid_new :: "int \<Rightarrow> int \<Rightarrow> ('k, 'v) hybrid_cache" where
  "hybrid_new n d = \<lparr>hy_lru = lru_new n, hy_ttl = ttl_new n d\<rparr>"

definition hybrid_get :: "'k \<Rightarrow> clock4 \<Rightarrow> ('k, 'v) hybrid_cache \<Rightarrow> ('k, 'v) hybrid_cache \<times> 'v option" where
  "hybrid_get k t c =
     (let (l, v) = lru_get k (fst t) (hy_lru c) in
      case v of
        Some x \<Rightarrow> (c\<lparr>hy_lru := l, hy_ttl := fst (ttl_get k (snd t) (hy_ttl c))\<rparr>, Some x)
      | None \<Rightarrow> (c\<lparr>hy_lru := l\<rparr>, None))"

definition hybrid_put :: "'k \<Rightarrow> 'v option \<Rightarrow> int option \<Rightarrow> clock4 \<Rightarrow> ('k, 'v) hybrid_cache \<Rightarrow> ('k, 'v) hybrid_cache result" where
  "hybrid_put k v ttl t c =
     (case lru_put k v ttl (fst t) (hy_lru c) of
        Inl e \<Rightarrow> Inl e
      | Inr l \<Rightarrow>
          (case ttl_put k v ttl (snd t) (hy_ttl c) of
             Inl e \<Rightarrow> Inl e
           | Inr m \<Rightarrow> Inr \<lparr>hy_lru = l, hy_ttl = m\<rparr>))"

definition hybrid_invalidate :: "'k \<Rightarrow> ('k, 'v) hybrid_cache \<Rightarrow> ('k, 'v) hybrid_cache" where
  "hybrid_invalidate k c = c\<lparr>hy_lru := lru_invalidate k (hy_lru c), hy_ttl := ttl_invalidate k (hy_ttl c)\<rparr>"

definition hybrid_clear :: "('k, 'v) hybrid_cache \<Rightarrow> ('k, 'v) hybrid_cache" where
  "hybrid_clear c = c\<lparr>hy_lru := lru_clear (hy_lru c), hy_ttl := ttl_clear (hy_ttl c)\<rparr>"

definition hybrid_size :: "('k, 'v) hybrid_cache \<Rightarrow> nat" where
  "hybrid_size c = lru_size (hy_lru c)"

definition hybrid_stats :: "('k, 'v) hybrid_cache \<Rightarrow> cache_stats \<times> cache_stats \<times> nat" where
  "hybrid_stats c = (lru_stats (hy_lru c), ttl_stats (hy_ttl c), hybrid_size c)"

section \<open>The \<open>query_cache\<close> decorator, over any of the caches\<close>

definition cached_call ::
  "('c \<Rightarrow> 'c \<times> 'v option) \<Rightarrow> ('v option \<Rightarrow> 'c \<Rightarrow> 'c result) \<Rightarrow> ('s \<Rightarrow> 's \<times> 'v option result) \<Rightarrow>
     'c \<Rightarrow> 's \<Rightarrow> ('c \<times> 's) \<times> 'v option result" where
  "cached_call get_k put_k func c s =
     (let (c1, cached) = get_k c in
      case cached of
        Some v \<Rightarrow> ((c1, s), Inr (Some v))
      | None \<Rightarrow>
          (let (s1, r) = func s in
           case r of
             Inl e \<Rightarrow> ((c1, s1), Inl e)
           | Inr v \<Rightarrow> (case put_k v c1 of Inl e \<Rightarrow> ((c1, s1), Inl e) | Inr c2 \<Rightarrow> ((c2, s1), Inr v))))"

section \<open>Histories of operations\<close>

datatype ('k, 'v, 't) cache_op =
    OGet 'k 't
  | OPut 'k "'v option" "int option" 't
  | OInvalidate 'k
  | OClear

fun touches :: "'k \<Rightarrow> ('k, 'v, 't) cache_op \<Rightarrow> bool" where
  "touches k (OGet j t) = (j = k)"
| "touches k (OPut j v ttl t) = (j = k)"
| "touches k (OInvalidate j) = False"
| "touches k OClear = False"

text \<open>The operations since the last lookup or store of a key.\<close>

definition idle :: "'k \<Rightarrow> ('k, 'v, 't) cache_op list \<Rightarrow> nat" where
  "idle k ops = length (takeWhile (\<lambda>a. \<not> touches k a) (rev ops))"

lemma idle_snoc [simp]: "idle k (ops @ [a]) = (if touches k a then 0 else Suc (idle k ops))"
  by (simp add: idle_def)

text \<open>The last store of a key that was not invalidated or cleared since.\<close>

fun put_effect :: "'k \<Rightarrow> ('k, 'v, 't) cache_op \<Rightarrow> ('v option \<times> int option \<times> 't) option \<Rightarrow>
    ('v option \<times> int option \<times> 't) option" where
  "put_effect k (OGet j t) p = p"
| "put_effect k (OPut j v ttl t) p = (if j = k then Some (v, ttl, t) else p)"
| "put_effect k (OInvalidate j) p = (if j = k then None else p)"
| "put_effect k OClear p = None"

definition last_put :: "'k \<Rightarrow> ('k, 'v, 't) cache_op list \<Rightarrow> ('v option \<times> int option \<times> 't) option" where
  "last_put k ops = fold (put_effect k) ops None"

lemma last_put_snoc [simp]: "last_put k (ops @ [a]) = put_effect k a (last_put k ops)"
  by (simp add: last_put_def)

text \<open>Running operations, given a cache's four methods; the first exception ends the run.\<close>

fun cache_do ::
  "('k \<Rightarrow> 't \<Rightarrow> 'c \<Rightarrow> 'c \<times> 'v option) \<Rightarrow> ('k \<Rightarrow> 'v option \<Rightarrow> int option \<Rightarrow> 't \<Rightarrow> 'c \<Rightarrow> 'c result) \<Rightarrow>
   ('k \<Rightarrow> 'c \<Rightarrow> 'c) \<Rightarrow> ('c \<Rightarrow> 'c) \<Rightarrow> 'c \<Rightarrow> ('k, 'v, 't) cache_op \<Rightarrow> 'c result" where
  "cache_do get put inval clear c (OGet k t) = Inr (fst (get k t c))"
| "cache_do get put inval clear c (OPut k v ttl t) = put k v ttl t c"
| "cache_do get put inval clear c (OInvalidate k) = Inr (inval k c)"
| "cache_do get put inval clear c OClear = Inr (clear c)"

fun cache_run ::
  "('k \<Rightarrow> 't \<Rightarrow> 'c \<Rightarrow> 'c \<times> 'v option) \<Rightarrow> ('k \<Rightarrow> 'v option \<Rightarrow> int option \<Rightarrow> 't \<Rightarrow> 'c \<Rightarrow> 'c result) \<Rightarrow>
   ('k \<Rightarrow> 'c \<Rightarrow> 'c) \<Rightarrow> ('c \<Rightarrow> 'c) \<Rightarrow> 'c \<Rightarrow> ('k, 'v, 't) cache_op list \<Rightarrow> 'c result" where
  "cache_run get put inval clear c [] = Inr c"
| "cache_run get put inval clear c (a # ops) =
     (case cache_do get put inval clear c a of
        Inl e \<Rightarrow> Inl e
      | Inr c' \<Rightarrow> cache_run get put inval clear c' ops)"

lemma cache_run_snoc:
  "cache_run get put inval clear c (ops @ [a]) =
     (case cache_run get put inval clear c ops of Inl e \<Rightarrow> Inl e | Inr c' \<Rightarrow> cache_do get put inval clear c' a)"
  by (induction ops arbitrary: c) (auto split: sum.splits)

section \<open>The interface of a bounded cache\<close>

text \<open>
  \<open>QueryCache\<close> as its clients rely on it: \<open>look\<close> is the entry a key is bound to, \<open>eff\<close> the
  time to live that a store gives an entry, \<open>clk\<close> the reading that decides expiry and
  \<open>stamp\<close> the one that dates a new entry.
\<close>

locale bounded_cache =
  fixes get :: "'k \<Rightarrow> 't \<Rightarrow> 'c \<Rightarrow> 'c \<times> 'v option"
    and put :: "'k \<Rightarrow> 'v option \<Rightarrow> int option \<Rightarrow> 't \<Rightarrow> 'c \<Rightarrow> 'c result"
    and inval :: "'k \<Rightarrow> 'c \<Rightarrow> 'c"
    and clear :: "'c \<Rightarrow> 'c"
    and csize :: "'c \<Rightarrow> nat"
    and cap :: "'c \<Rightarrow> int"
    and invar :: "'c \<Rightarrow> bool"
    and look :: "'c \<Rightarrow> 'k \<Rightarrow> 'v cache_entry option"
    and eff :: "'c \<Rightarrow> int option \<Rightarrow> int option"
    and clk :: "'t \<Rightarrow> seconds"
  assumes size_le: "invar c \<Longrightarrow> int (csize c) \<le> cap c"
    and get_invar: "invar c \<Longrightarrow> invar (fst (get k t c)) \<and> cap (fst (get k t c)) = cap c
        \<and> eff (fst (get k t c)) = eff c"
    and put_invar: "invar c \<Longrightarrow> \<exists>c'. put k v ttl t c = Inr c' \<and> invar c' \<and> cap c' = cap c \<and> eff c' = eff c"
    and inval_invar: "invar c \<Longrightarrow> invar (inval k c) \<and> cap (inval k c) = cap c \<and> eff (inval k c) = eff c"
    and clear_invar: "invar c \<Longrightarrow> invar (clear c) \<and> cap (clear c) = cap c \<and> eff (clear c) = eff c"
    and get_result: "invar c \<Longrightarrow> snd (get k t c) = (case look c k of None \<Rightarrow> None
        | Some e \<Rightarrow> if is_expired e (clk t) then None else ce_value e)"
    and get_look: "invar c \<Longrightarrow> look (fst (get k t c)) j = look c j
        \<or> (\<exists>e. look c j = Some e \<and> is_expired e (clk t) \<and> look (fst (get k t c)) j = None)
        \<or> (\<exists>e u. look c j = Some e \<and> look (fst (get k t c)) j = Some (record_access e u))"
    and put_look_same: "invar c \<Longrightarrow> put k v ttl t c = Inr c' \<Longrightarrow>
        \<exists>e. look c' k = Some e \<and> ce_value e = v \<and> ce_ttl e = eff c ttl \<and> created_at e = clk t"
    and put_look_other: "invar c \<Longrightarrow> put k v ttl t c = Inr c' \<Longrightarrow> j \<noteq> k \<Longrightarrow>
        look c' j = look c j \<or> look c' j = None"
    and inval_look: "invar c \<Longrightarrow> look (inval k c) = (look c)(k := None)"
    and clear_look: "look (clear c) j = None"
begin

abbreviation do_op :: "'c \<Rightarrow> ('k, 'v, 't) cache_op \<Rightarrow> 'c result" where
  "do_op \<equiv> cache_do get put inval clear"

abbreviation do_ops :: "'c \<Rightarrow> ('k, 'v, 't) cache_op list \<Rightarrow> 'c result" where
  "do_ops \<equiv> cache_run get put inval clear"

lemma do_op_invar:
  assumes "invar c"
  shows "\<exists>c'. do_op c a = Inr c' \<and> invar c' \<and> cap c' = cap c \<and> eff c' = eff c"
  using get_invar [OF assms] put_invar [OF assms] inval_invar [OF assms] clear_invar [OF assms]
  by (cases a) auto

text \<open>What is bound to a key is its last store.\<close>

definition tracks :: "'c \<Rightarrow> ('k, 'v, 't) cache_op list \<Rightarrow> bool" where
  "tracks c ops \<longleftrightarrow> (\<forall>k e. look c k = Some e \<longrightarrow>
     (\<exists>ttl t. last_put k ops = Some (ce_value e, ttl, t) \<and> ce_ttl e = eff c ttl \<and> created_at e = clk t))"

lemma tracks_op:
  assumes i: "invar c" and tr: "tracks c ops" and op: "do_op c a = Inr c'"
  shows "tracks c' (ops @ [a])"
  unfolding tracks_def
proof (intro allI impI)
  fix k e assume l: "look c' k = Some e"
  have eff: "eff c' = eff c" using do_op_invar [OF i, of a] op by auto
  show "\<exists>ttl t. last_put k (ops @ [a]) = Some (ce_value e, ttl, t) \<and> ce_ttl e = eff c' ttl \<and> created_at e = clk t"
  proof (cases a)
    case (OGet j t)
    from OGet op l have l': "look (fst (get j t c)) k = Some e" by simp
    have "\<exists>e0. look c k = Some e0 \<and>
      ce_value e = ce_value e0 \<and> ce_ttl e = ce_ttl e0 \<and> created_at e = created_at e0"
      using get_look [OF i, of j t k] l'
      by (elim disjE exE conjE) (auto simp: record_access_def)
    then obtain e0 where "look c k = Some e0"
      "ce_value e = ce_value e0" "ce_ttl e = ce_ttl e0" "created_at e = created_at e0" by blast
    with tr OGet eff show ?thesis by (auto simp: tracks_def)
  next
    case (OPut j v ttl t)
    show ?thesis
    proof (cases "j = k")
      case True
      with OPut op put_look_same [OF i, of k v ttl t c'] l eff show ?thesis by auto
    next
      case False
      with OPut op put_look_other [OF i, of j v ttl t c' k] l tr eff show ?thesis
        by (auto simp: tracks_def)
    qed
  next
    case (OInvalidate j)
    with op inval_look [OF i, of j] l tr eff show ?thesis by (auto simp: tracks_def split: if_splits)
  next
    case OClear
    with op clear_look l show ?thesis by auto
  qed
qed

lemma do_ops_tracks:
  "invar c \<Longrightarrow> tracks c done \<Longrightarrow>
     \<exists>c'. do_ops c ops = Inr c' \<and> invar c' \<and> cap c' = cap c \<and> eff c' = eff c \<and> tracks c' (done @ ops)"
proof (induction ops arbitrary: c "done")
  case (Cons a ops)
  from do_op_invar [OF Cons.prems(1), of a] obtain c1 where
    c1: "do_op c a = Inr c1" "invar c1" "cap c1 = cap c" "eff c1 = eff c" by blast
  from Cons.IH [OF c1(2) tracks_op [OF Cons.prems(1,2) c1(1)]] c1 show ?case by auto
qed simp

text \<open>No sequence of operations raises or exceeds the capacity.\<close>

lemma do_ops_bounded:
  assumes "invar c" "\<And>k. look c k = None"
  shows "\<exists>c'. do_ops c ops = Inr c' \<and> invar c' \<and> int (csize c') \<le> cap c"
proof -
  have "tracks c []" using assms(2) by (simp add: tracks_def)
  from do_ops_tracks [OF assms(1) this, of ops] size_le show ?thesis by fastforce
qed

text \<open>A hit is the value of the last store of that key, not older than its time to live.\<close>

lemma hit_is_last_put:
  assumes "invar c" "\<And>k. look c k = None" "do_ops c ops = Inr c'" "snd (get k t c') = Some v"
  shows "\<exists>ttl t0. last_put k ops = Some (Some v, ttl, t0) \<and>
      (case eff c ttl of None \<Rightarrow> True | Some n \<Rightarrow> clk t - clk t0 \<le> of_int n)"
proof -
  have "tracks c []" using assms(2) by (simp add: tracks_def)
  from do_ops_tracks [OF assms(1) this, of ops] assms(3) have
    c': "invar c'" "eff c' = eff c" "tracks c' ops" by auto
  from get_result [OF c'(1), of k t] assms(4) obtain e where e: "look c' k = Some e"
    "\<not> is_expired e (clk t)" "ce_value e = Some v" by (auto split: option.splits if_splits)
  with c' show ?thesis by (fastforce simp: tracks_def is_expired_def split: option.splits)
qed

text \<open>A store is seen by the next lookup inside its time to live.\<close>

lemma get_after_put:
  assumes "invar c" "put k v ttl t0 c = Inr c'"
    and "case eff c ttl of None \<Rightarrow> True | Some n \<Rightarrow> clk t - clk t0 \<le> of_int n"
  shows "snd (get k t c') = v"
proof -
  from put_invar [OF assms(1), of k v ttl t0] assms(2) have "invar c'" by auto
  from put_look_same [OF assms(1,2)] obtain e where
    "look c' k = Some e" "ce_value e = v" "ce_ttl e = eff c ttl" "created_at e = clk t0" by blast
  with get_result [OF \<open>invar c'\<close>, of k t] assms(3) show ?thesis
    by (auto simp: is_expired_def split: option.splits)
qed

end

section \<open>The LRU cache provides the interface\<close>

definition lru_inv :: "('k, 'v) lru_cache \<Rightarrow> bool" where
  "lru_inv c \<longleftrightarrow> wf_odict (lru_dict c) \<and> int (length (lru_dict c)) \<le> lru_max_size c \<and> 1 \<le> lru_max_size c"

lemma lru_inv_new: "1 \<le> n \<Longrightarrow> lru_inv (lru_new n)"
  by (simp add: lru_inv_def lru_new_def)

lemmas odict_simps = map_of_delete map_of_update map_of_move_to_end length_delete length_update
  length_move_to_end map_of_None_keys

lemma keys_od_move_to_end: "set (keys (od_move_to_end k d)) = set (keys d)"
proof (cases "k \<in> set (keys d)")
  case True
  then show ?thesis by (auto simp: keys_move_to_end simp del: set_map)
next
  case False
  then have "od_move_to_end k d = d"
    by (simp add: od_move_to_end_def map_of_None_keys [THEN iffD2])
  then show ?thesis by simp
qed

lemma lru_put_dict:
  assumes "lru_inv c"
  shows "\<exists>d. lru_put k v ttl t c = Inr (c\<lparr>lru_dict := d\<rparr>) \<and> wf_odict d \<and> int (length d) \<le> lru_max_size c
     \<and> map_of d k = Some (new_entry v ttl t)
     \<and> (\<forall>j. j \<noteq> k \<longrightarrow> map_of d j = map_of (lru_dict c) j \<or> map_of d j = None)"
proof -
  let ?e = "new_entry v ttl t"
  have wf: "wf_odict (lru_dict c)" and sz: "int (length (lru_dict c)) \<le> lru_max_size c" "1 \<le> lru_max_size c"
    using assms by (auto simp: lru_inv_def)
  consider (old) "k \<in> set (keys (lru_dict c))"
    | (full) r e d where "k \<notin> set (keys (lru_dict c))" "int (length (lru_dict c)) \<ge> lru_max_size c"
        "lru_dict c = (r, e) # d"
    | (room) "k \<notin> set (keys (lru_dict c))" "int (length (lru_dict c)) < lru_max_size c"
    using sz by (cases "lru_dict c") force+
  then show ?thesis
  proof cases
    case old
    then show ?thesis using wf sz
      by (intro exI [of _ "AList.update k ?e (od_move_to_end k (lru_dict c))"])
         (auto simp: lru_put_def odict_simps keys_od_move_to_end simp del: set_map)
  next
    case full
    have d: "AList.delete r ((r, e) # d) = d"
      using wf full(3) by (auto simp: wf_odict_def intro!: AList.delete_idem)
    then show ?thesis using wf sz full
      by (intro exI [of _ "AList.update k ?e d"])
         (auto simp: lru_put_def odict_simps wf_odict_def AList.distinct_update)
  next
    case room
    then show ?thesis using wf
      by (intro exI [of _ "AList.update k ?e (lru_dict c)"]) (auto simp: lru_put_def odict_simps)
  qed
qed

interpretation lru: bounded_cache lru_get lru_put lru_invalidate lru_clear lru_size lru_max_size lru_inv
  "\<lambda>c. map_of (lru_dict c)" "\<lambda>c ttl. ttl" fst
proof (unfold_locales, goal_cases)
  case (2 c k t)
  then have "wf_odict (lru_dict c)" by (simp add: lru_inv_def)
  with 2 show ?case
    by (auto simp: lru_get_def lru_inv_def odict_simps keys_od_move_to_end simp del: set_map
        dest: map_of_Some_keys split: option.splits)
next
  case (3 c k v ttl t)
  from lru_put_dict [OF this] obtain d where "lru_put k v ttl t c = Inr (c\<lparr>lru_dict := d\<rparr>)" "wf_odict d"
    "int (length d) \<le> lru_max_size c" by blast
  with 3 show ?case by (auto simp: lru_inv_def)
next
  case (7 c k t j)
  then have "wf_odict (lru_dict c)" by (simp add: lru_inv_def)
  then show ?case
    by (auto simp: lru_get_def map_of_delete map_of_update map_of_move_to_end split: option.splits)
next
  case (8 c k v ttl t c')
  with lru_put_dict [OF 8(1), of k v ttl t] show ?case by (auto simp: new_entry_def)
next
  case (9 c k v ttl t c' j)
  with lru_put_dict [OF 9(1), of k v ttl t] show ?case by auto
qed (auto simp: lru_inv_def lru_size_def lru_invalidate_def lru_clear_def lru_get_def odict_simps
    map_of_delete [abs_def] dest: map_of_Some_keys split: option.splits)

section \<open>The TTL cache provides the interface\<close>

definition ttl_inv :: "('k, 'v) ttl_cache \<Rightarrow> bool" where
  "ttl_inv c \<longleftrightarrow> wf_odict (ttl_dict c) \<and> int (length (ttl_dict c)) \<le> ttl_max_size c \<and> 1 \<le> ttl_max_size c"

lemma ttl_inv_new: "1 \<le> n \<Longrightarrow> ttl_inv (ttl_new n d)"
  by (simp add: ttl_inv_def ttl_new_def)

lemma min_by_in: "min_by f xs = Some x \<Longrightarrow> x \<in> set xs"
  by (induction xs arbitrary: x) (auto split: option.splits if_splits)

lemma min_by_None: "min_by f xs = None \<longleftrightarrow> xs = []"
  by (cases xs) (auto split: option.splits)

lemma min_by_least: "min_by f xs = Some x \<Longrightarrow> y \<in> set xs \<Longrightarrow> f x \<le> f y"
  by (induction xs arbitrary: x) (fastforce simp: min_by_None split: option.splits if_splits)+

lemma earliest_key_in: "xs \<noteq> [] \<Longrightarrow> \<exists>k. earliest_key d xs = Some k \<and> k \<in> set (keys xs)"
proof -
  assume "xs \<noteq> []"
  then obtain p where p: "min_by (\<lambda>(k, e). expiry_of d e) xs = Some p"
    by (metis min_by_None not_None_eq)
  with min_by_in [OF p] show ?thesis by (auto simp: earliest_key_def)
qed

lemma ttl_put_dict:
  assumes "ttl_inv c"
  shows "\<exists>d. ttl_put k v ttl t c = Inr (c\<lparr>ttl_dict := d\<rparr>) \<and> wf_odict d \<and> int (length d) \<le> ttl_max_size c
     \<and> map_of d k = Some (new_entry v (Some (py_or_int ttl (default_ttl c))) t)
     \<and> (\<forall>j. j \<noteq> k \<longrightarrow> map_of d j = map_of (ttl_dict c) j \<or> map_of d j = None)"
proof -
  let ?e = "new_entry v (Some (py_or_int ttl (default_ttl c))) t"
  have wf: "wf_odict (ttl_dict c)" and sz: "int (length (ttl_dict c)) \<le> ttl_max_size c" "1 \<le> ttl_max_size c"
    using assms by (auto simp: ttl_inv_def)
  show ?thesis
  proof (cases "int (length (ttl_dict c)) \<ge> ttl_max_size c")
    case True
    with sz obtain r where r: "earliest_key (default_ttl c) (ttl_dict c) = Some r" "r \<in> set (keys (ttl_dict c))"
      using earliest_key_in [of "ttl_dict c" "default_ttl c"] by fastforce
    have "ttl_dict c \<noteq> []" using r by auto
    with True r show ?thesis using wf sz
      by (intro exI [of _ "AList.update k ?e (AList.delete r (ttl_dict c))"])
         (auto simp: ttl_put_def Let_def map_of_update map_of_delete length_update length_delete simp del: set_map)
  next
    case False
    then show ?thesis using wf sz
      by (intro exI [of _ "AList.update k ?e (ttl_dict c)"])
         (auto simp: ttl_put_def Let_def map_of_update length_update)
  qed
qed

interpretation ttlc: bounded_cache ttl_get ttl_put ttl_invalidate ttl_clear ttl_size ttl_max_size ttl_inv
  "\<lambda>c. map_of (ttl_dict c)" "\<lambda>c ttl. Some (py_or_int ttl (default_ttl c))" fst
proof (unfold_locales, goal_cases)
  case (2 c k t)
  then have "wf_odict (ttl_dict c)" by (simp add: ttl_inv_def)
  with 2 show ?case
    by (auto simp: ttl_get_def ttl_inv_def odict_simps simp del: set_map
        dest: map_of_Some_keys split: option.splits)
next
  case (3 c k v ttl t)
  from ttl_put_dict [OF this] obtain d where "ttl_put k v ttl t c = Inr (c\<lparr>ttl_dict := d\<rparr>)" "wf_odict d"
    "int (length d) \<le> ttl_max_size c" by blast
  with 3 show ?case by (auto simp: ttl_inv_def)
next
  case (7 c k t j)
  then have "wf_odict (ttl_dict c)" by (simp add: ttl_inv_def)
  then show ?case
    by (auto simp: ttl_get_def map_of_delete map_of_update split: option.splits)
next
  case (8 c k v ttl t c')
  with ttl_put_dict [OF 8(1), of k v ttl t] show ?case by (auto simp: new_entry_def)
next
  case (9 c k v ttl t c' j)
  with ttl_put_dict [OF 9(1), of k v ttl t] show ?case by auto
qed (auto simp: ttl_inv_def ttl_size_def ttl_invalidate_def ttl_clear_def ttl_get_def odict_simps
    map_of_delete [abs_def] dest: map_of_Some_keys split: option.splits)

section \<open>The hybrid cache provides the interface\<close>

definition hybrid_inv :: "('k, 'v) hybrid_cache \<Rightarrow> bool" where
  "hybrid_inv c \<longleftrightarrow> lru_inv (hy_lru c) \<and> ttl_inv (hy_ttl c)"

lemma hybrid_inv_new: "1 \<le> n \<Longrightarrow> hybrid_inv (hybrid_new n d)"
  by (simp add: hybrid_inv_def hybrid_new_def lru_inv_new ttl_inv_new)

lemma hybrid_get_lru: "hy_lru (fst (hybrid_get k t c)) = fst (lru_get k (fst t) (hy_lru c))"
  "snd (hybrid_get k t c) = snd (lru_get k (fst t) (hy_lru c))"
  "hy_ttl (fst (hybrid_get k t c)) = hy_ttl c \<or> hy_ttl (fst (hybrid_get k t c)) = fst (ttl_get k (snd t) (hy_ttl c))"
  by (auto simp: hybrid_get_def split: prod.splits option.splits)

lemma hybrid_put_parts:
  assumes "hybrid_inv c"
  shows "\<exists>l m. lru_put k v ttl (fst t) (hy_lru c) = Inr l \<and> ttl_put k v ttl (snd t) (hy_ttl c) = Inr m
     \<and> hybrid_put k v ttl t c = Inr \<lparr>hy_lru = l, hy_ttl = m\<rparr> \<and> lru_inv l \<and> ttl_inv m
     \<and> lru_max_size l = lru_max_size (hy_lru c)"
  using lru.put_invar [of "hy_lru c" k v ttl "fst t"] ttlc.put_invar [of "hy_ttl c" k v ttl "snd t"] assms
  by (auto simp: hybrid_inv_def hybrid_put_def)

interpretation hy: bounded_cache hybrid_get hybrid_put hybrid_invalidate hybrid_clear hybrid_size
  "\<lambda>c. lru_max_size (hy_lru c)" hybrid_inv "\<lambda>c. map_of (lru_dict (hy_lru c))" "\<lambda>c ttl. ttl" "\<lambda>t. fst (fst t)"
proof (unfold_locales, goal_cases)
  case (1 c)
  then show ?case using lru.size_le [of "hy_lru c"] by (simp add: hybrid_inv_def hybrid_size_def)
next
  case (2 c k t)
  then show ?case
    using lru.get_invar [of "hy_lru c" k "fst t"] ttlc.get_invar [of "hy_ttl c" k "snd t"]
      hybrid_get_lru [of k t c] by (auto simp: hybrid_inv_def)
next
  case (3 c k v ttl t)
  from hybrid_put_parts [OF this, of k v ttl t] show ?case by (auto simp: hybrid_inv_def)
next
  case (4 c k)
  then show ?case using lru.inval_invar [of "hy_lru c" k] ttlc.inval_invar [of "hy_ttl c" k]
    by (simp add: hybrid_inv_def hybrid_invalidate_def)
next
  case (5 c)
  then show ?case using lru.clear_invar [of "hy_lru c"] ttlc.clear_invar [of "hy_ttl c"]
    by (simp add: hybrid_inv_def hybrid_clear_def)
next
  case (6 c k t)
  then show ?case using lru.get_result [of "hy_lru c" k "fst t"]
    by (simp add: hybrid_inv_def hybrid_get_lru)
next
  case (7 c k t j)
  then show ?case using lru.get_look [of "hy_lru c" k "fst t" j]
    by (simp add: hybrid_inv_def hybrid_get_lru)
next
  case (8 c k v ttl t c')
  with hybrid_put_parts [OF 8(1), of k v ttl t] lru.put_look_same [of "hy_lru c" k v ttl "fst t"]
  show ?case by (auto simp: hybrid_inv_def)
next
  case (9 c k v ttl t c' j)
  with hybrid_put_parts [OF 9(1), of k v ttl t] lru.put_look_other [of "hy_lru c" k v ttl "fst t" _ j]
  show ?case by (auto simp: hybrid_inv_def)
next
  case (10 c k)
  then show ?case using lru.inval_look [of "hy_lru c" k] by (simp add: hybrid_inv_def hybrid_invalidate_def)
next
  case (11 c j)
  then show ?case using lru.clear_look [of "hy_lru c" j] by (simp add: hybrid_clear_def)
qed

section \<open>Properties of the hybrid cache, which the query path uses\<close>

abbreviation hybrid_run :: "('k, 'v) hybrid_cache \<Rightarrow> ('k, 'v, clock4) cache_op list \<Rightarrow> ('k, 'v) hybrid_cache result" where
  "hybrid_run \<equiv> cache_run hybrid_get hybrid_put hybrid_invalidate hybrid_clear"

lemma hybrid_ttl_bound: "hybrid_inv c \<Longrightarrow> int (ttl_size (hy_ttl c)) \<le> ttl_max_size (hy_ttl c)"
  by (simp add: hybrid_inv_def ttl_inv_def ttl_size_def)

text \<open>
  For a positive capacity no sequence of lookups, stores, invalidations and clears
  raises, and afterwards the cache holds at most the configured number of entries.
\<close>

theorem hybrid_run_bounded:
  assumes "1 \<le> n"
  shows "\<exists>c. hybrid_run (hybrid_new n d) ops = Inr c \<and> int (hybrid_size c) \<le> n"
  using hy.do_ops_bounded [OF hybrid_inv_new [OF assms, of d], of ops]
  by (auto simp: hybrid_new_def lru_new_def)

theorem hybrid_run_bounded_witness:
  "\<exists>c. hybrid_run (hybrid_new 1 60) [OPut (1::nat) (Some ''x'') None ((0, 0), (0, 0)),
      OPut 2 (Some ''y'') None ((1, 1), (1, 1))] = Inr c \<and> int (hybrid_size c) \<le> 1"
  by (rule hybrid_run_bounded) simp

text \<open>
  C19.  A hit is never stale: whatever was done to the cache before, the value a lookup
  returns is the one last stored under that key, the key was not invalidated and the cache not
  cleared since, and the entry is not older than the time to live it was stored with.
\<close>

theorem hybrid_hit_is_last_put:
  assumes "1 \<le> n" "hybrid_run (hybrid_new n d) ops = Inr c" "snd (hybrid_get k t c) = Some v"
  shows "\<exists>ttl t0. last_put k ops = Some (Some v, ttl, t0) \<and>
      (case ttl of None \<Rightarrow> True | Some s \<Rightarrow> fst (fst t) - fst (fst t0) \<le> of_int s)"
  using hy.hit_is_last_put [OF hybrid_inv_new [OF assms(1), of d] _ assms(2,3)]
  by (auto simp: hybrid_new_def lru_new_def)

theorem hybrid_hit_is_last_put_witness:
  "\<exists>ttl t0. last_put (1::nat) [OPut 1 (Some ''x'') (Some 60) (((0, 0), (0, 0)) :: clock4)] = Some (Some ''x'', ttl, t0) \<and>
      (case ttl of None \<Rightarrow> True | Some s \<Rightarrow> fst (fst ((60::rat, 60::rat), (60::rat, 60::rat))) - fst (fst t0) \<le> of_int s)"
proof -
  let ?ops = "[OPut (1::nat) (Some ''x'') (Some 60) (((0, 0), (0, 0)) :: clock4)]"
  let ?c = "\<lparr>hy_lru = \<lparr>lru_max_size = 2, lru_dict = [(1::nat, new_entry (Some ''x'') (Some 60) (0, 0))],
      lru_hits = 0, lru_misses = 0\<rparr>, hy_ttl = \<lparr>ttl_max_size = 2, default_ttl = 60,
      ttl_dict = [(1, new_entry (Some ''x'') (Some 60) (0, 0))], ttl_hits = 0, ttl_misses = 0\<rparr>\<rparr>"
  have h: "(1::int) \<le> 2" "hybrid_run (hybrid_new 2 60) ?ops = Inr ?c"
    "snd (hybrid_get 1 ((60, 60), (60, 60)) ?c) = Some ''x''"
    by (simp_all add: hybrid_new_def lru_new_def ttl_new_def hybrid_put_def lru_put_def ttl_put_def
        hybrid_get_def lru_get_def is_expired_def new_entry_def od_move_to_end_def)
  show ?thesis by (rule hybrid_hit_is_last_put [OF h])
qed

text \<open>
  What was stored is found again until its time to live is over: the next lookup of the
  key returns it.
\<close>

theorem hybrid_get_after_put:
  assumes "hybrid_inv c" "hybrid_put k v ttl t0 c = Inr c'"
    and "case ttl of None \<Rightarrow> True | Some s \<Rightarrow> fst (fst t) - fst (fst t0) \<le> of_int s"
  shows "snd (hybrid_get k t c') = v"
  by (rule hy.get_after_put [OF assms])

theorem hybrid_get_after_put_witness:
  "\<exists>c'. hybrid_put (1::nat) (Some ''x'') (Some 60) ((0, 0), (0, 0)) (hybrid_new 2 60) = Inr c'
     \<and> snd (hybrid_get 1 ((60, 60), (60, 60)) c') = Some ''x''"
proof -
  have i: "hybrid_inv (hybrid_new 2 60 :: (nat, string) hybrid_cache)" by (simp add: hybrid_inv_new)
  then obtain c' where c': "hybrid_put (1::nat) (Some ''x'') (Some 60) ((0, 0), (0, 0)) (hybrid_new 2 60) = Inr c'"
    using hybrid_put_parts [OF i, of 1 "Some ''x''" "Some 60" "((0, 0), (0, 0))"] by auto
  have t: "case Some 60 of None \<Rightarrow> True
      | Some s \<Rightarrow> fst (fst ((60::rat, 60::rat), (60::rat, 60::rat))) - fst (fst ((0::rat, 0::rat), (0::rat, 0::rat))) \<le> of_int s"
    by simp
  show ?thesis using c' hybrid_get_after_put [OF i c' t] by blast
qed

section \<open>Least recently used\<close>

abbreviation lru_run :: "('k, 'v) lru_cache \<Rightarrow> ('k, 'v, clock2) cache_op list \<Rightarrow> ('k, 'v) lru_cache result" where
  "lru_run \<equiv> cache_run lru_get lru_put lru_invalidate lru_clear"

definition recency_ordered :: "('k, 'v, 't) cache_op list \<Rightarrow> 'k list \<Rightarrow> bool" where
  "recency_ordered ops ks \<longleftrightarrow> sorted_wrt (\<lambda>a b. idle b ops < idle a ops) ks"

lemma recency_snoc_old: "recency_ordered ops ks \<Longrightarrow> \<forall>k \<in> set ks. \<not> touches k a \<Longrightarrow> recency_ordered (ops @ [a]) ks"
  unfolding recency_ordered_def by (erule sorted_wrt_mono_rel [rotated]) auto

lemma recency_filter: "recency_ordered ops ks \<Longrightarrow> recency_ordered ops (filter P ks)"
  by (simp add: recency_ordered_def sorted_wrt_filter)

lemma recency_tl: "recency_ordered ops ks \<Longrightarrow> recency_ordered ops (tl ks)"
  by (cases ks) (auto simp: recency_ordered_def)

lemma in_set_tl: "x \<in> set (tl xs) \<Longrightarrow> x \<in> set xs"
  by (cases xs) auto

lemma recency_touch:
  assumes "recency_ordered ops ks" "k \<notin> set ks" "\<And>j. touches j a \<longleftrightarrow> j = k"
  shows "recency_ordered (ops @ [a]) (ks @ [k])"
proof -
  have "\<forall>j \<in> set ks. \<not> touches j a" using assms(2,3) by auto
  with recency_snoc_old [OF assms(1) this] assms(3) show ?thesis
    by (auto simp: recency_ordered_def sorted_wrt_append)
qed

lemma lru_get_keys: "keys (lru_dict (fst (lru_get k t c))) =
    (case map_of (lru_dict c) k of
       None \<Rightarrow> keys (lru_dict c)
     | Some e \<Rightarrow> filter (\<lambda>x. x \<noteq> k) (keys (lru_dict c)) @ (if is_expired e (fst t) then [] else [k]))"
proof (cases "map_of (lru_dict c) k")
  case (Some e)
  then have k: "k \<in> set (keys (lru_dict c))" by (rule map_of_Some_keys)
  with Some show ?thesis
    by (simp add: lru_get_def keys_delete keys_update_old keys_od_move_to_end keys_move_to_end del: set_map)
qed (simp add: lru_get_def)

lemma lru_put_keys:
  assumes "lru_inv c" "lru_put k v ttl t c = Inr c'"
  shows "keys (lru_dict c') =
     (if k \<in> set (keys (lru_dict c)) then filter (\<lambda>x. x \<noteq> k) (keys (lru_dict c))
      else if int (length (lru_dict c)) \<ge> lru_max_size c then tl (keys (lru_dict c))
      else keys (lru_dict c)) @ [k]"
proof -
  have wf: "wf_odict (lru_dict c)" using assms(1) by (simp add: lru_inv_def)
  consider (old) "k \<in> set (keys (lru_dict c))"
    | (full) r e d where "k \<notin> set (keys (lru_dict c))" "int (length (lru_dict c)) \<ge> lru_max_size c"
        "lru_dict c = (r, e) # d"
    | (room) "k \<notin> set (keys (lru_dict c))" "int (length (lru_dict c)) < lru_max_size c"
    using assms(1) by (cases "lru_dict c") (force simp: lru_inv_def)+
  then show ?thesis
  proof cases
    case old
    with assms(2) show ?thesis
      by (auto simp: lru_put_def keys_update_old keys_od_move_to_end keys_move_to_end simp del: set_map)
  next
    case full
    then have "AList.delete r ((r, e) # d) = d"
      using wf by (auto simp: wf_odict_def intro!: AList.delete_idem)
    with full assms(2) show ?thesis by (auto simp: lru_put_def keys_update_new)
  next
    case room
    with assms(2) show ?thesis by (auto simp: lru_put_def keys_update_new simp del: set_map)
  qed
qed

lemma recency_op:
  assumes i: "lru_inv c" and r: "recency_ordered ops (keys (lru_dict c))"
    and op: "cache_do lru_get lru_put lru_invalidate lru_clear c a = Inr c'"
  shows "recency_ordered (ops @ [a]) (keys (lru_dict c'))"
proof (cases a)
  case (OGet k t)
  show ?thesis
  proof (cases "map_of (lru_dict c) k")
    case None
    then have "k \<notin> set (keys (lru_dict c))" by (simp add: map_of_None_keys)
    then have "\<forall>j \<in> set (keys (lru_dict c)). \<not> touches j a" using OGet by auto
    from recency_snoc_old [OF r this] None OGet op show ?thesis by (auto simp: lru_get_keys)
  next
    case (Some e)
    let ?ks = "filter (\<lambda>x. x \<noteq> k) (keys (lru_dict c))"
    have k: "k \<notin> set ?ks" by simp
    have "recency_ordered (ops @ [a]) (?ks @ [k])"
      by (rule recency_touch [OF recency_filter [OF r] k]) (use OGet in auto)
    moreover have "recency_ordered (ops @ [a]) ?ks"
      by (rule recency_snoc_old [OF recency_filter [OF r]]) (use OGet in auto)
    ultimately show ?thesis using Some OGet op by (auto simp: lru_get_keys)
  qed
next
  case (OPut k v ttl t)
  with op have p: "lru_put k v ttl t c = Inr c'" by simp
  let ?ks = "if k \<in> set (keys (lru_dict c)) then filter (\<lambda>x. x \<noteq> k) (keys (lru_dict c))
      else if int (length (lru_dict c)) \<ge> lru_max_size c then tl (keys (lru_dict c)) else keys (lru_dict c)"
  have ks: "recency_ordered ops ?ks" "k \<notin> set ?ks"
    using recency_filter [OF r] recency_tl [OF r] r
    by (auto simp del: set_map dest: in_set_tl split: if_splits)
  show ?thesis unfolding lru_put_keys [OF i p]
    by (rule recency_touch [OF ks]) (use OPut in auto)
next
  case (OInvalidate k)
  with op have "keys (lru_dict c') = filter (\<lambda>x. x \<noteq> k) (keys (lru_dict c)) \<or> keys (lru_dict c') = keys (lru_dict c)"
    by (auto simp: lru_invalidate_def keys_delete)
  then show ?thesis
    using recency_snoc_old [OF recency_filter [OF r], of "\<lambda>x. x \<noteq> k" a] recency_snoc_old [OF r, of a] OInvalidate
    by auto
next
  case OClear
  with op show ?thesis by (auto simp: lru_clear_def recency_ordered_def)
qed

lemma lru_run_recency:
  "lru_inv c \<Longrightarrow> recency_ordered hist (keys (lru_dict c)) \<Longrightarrow> lru_run c ops = Inr c' \<Longrightarrow>
     lru_inv c' \<and> lru_max_size c' = lru_max_size c \<and> recency_ordered (hist @ ops) (keys (lru_dict c'))"
proof (induction ops arbitrary: c hist)
  case (Cons a ops)
  from lru.do_op_invar [OF Cons.prems(1), of a] obtain c1 where
    c1: "cache_do lru_get lru_put lru_invalidate lru_clear c a = Inr c1" "lru_inv c1"
    "lru_max_size c1 = lru_max_size c" by blast
  from Cons.IH [OF c1(2) recency_op [OF Cons.prems(1,2) c1(1)]] Cons.prems(3) c1 show ?case by simp
qed simp

text \<open>
  The cache evicts the least recently used entry: after any operations, storing a new
  key in a full cache drops the one key that has gone longest without a lookup or a store, and
  keeps every other key.
\<close>

theorem lru_evicts_least_recent:
  assumes "1 \<le> n" "lru_run (lru_new n) ops = Inr c" "int (lru_size c) = n"
    and "k \<notin> set (keys (lru_dict c))" "lru_put k v ttl t c = Inr c'"
  shows "\<exists>r. r \<in> set (keys (lru_dict c)) \<and> (\<forall>j \<in> set (keys (lru_dict c)). j \<noteq> r \<longrightarrow> idle j ops < idle r ops)
     \<and> set (keys (lru_dict c')) = insert k (set (keys (lru_dict c)) - {r})"
proof -
  have "recency_ordered [] (keys (lru_dict (lru_new n)))" by (simp add: recency_ordered_def lru_new_def)
  from lru_run_recency [OF lru_inv_new [OF assms(1)] this assms(2)]
  have i: "lru_inv c" "lru_max_size c = n" and r: "recency_ordered ops (keys (lru_dict c))"
    by (auto simp: lru_new_def)
  have full: "int (length (lru_dict c)) \<ge> lru_max_size c" using assms(3) i(2) by (simp add: lru_size_def)
  then obtain x xs where ks: "keys (lru_dict c) = x # xs"
    using assms(1) i(2) by (cases "keys (lru_dict c)") auto
  have "x \<notin> set xs" using i(1) ks by (auto simp: lru_inv_def wf_odict_def)
  moreover have "\<forall>j \<in> set xs. idle j ops < idle x ops" using r ks by (simp add: recency_ordered_def)
  moreover have "set (keys (lru_dict c')) = insert k (set xs)"
    using lru_put_keys [OF i(1) assms(5)] assms(4) full ks by (simp del: set_map)
  ultimately show ?thesis using ks by (intro exI [of _ x]) auto
qed

theorem lru_evicts_least_recent_witness:
  "\<exists>c c'. lru_run (lru_new 2) [OPut (1::nat) (Some ''x'') None (0, 0), OPut 2 (Some ''y'') None (1, 1), OGet 1 (2, 2)] = Inr c
     \<and> lru_put 3 (Some ''z'') None (3, 3) c = Inr c' \<and> set (keys (lru_dict c')) = {1, 3}"
proof -
  let ?ops = "[OPut (1::nat) (Some ''x'') None (0, 0), OPut 2 (Some ''y'') None (1, 1), OGet 1 (2, 2)] :: (nat, string, clock2) cache_op list"
  let ?e1 = "record_access (new_entry (Some ''x'') None (0, 0)) 2"
  let ?e2 = "new_entry (Some ''y'') None (1, 1)"
  let ?c = "\<lparr>lru_max_size = 2, lru_dict = [(2::nat, ?e2), (1, ?e1)], lru_hits = 1, lru_misses = 0\<rparr>"
  let ?c' = "\<lparr>lru_max_size = 2, lru_dict = [(1::nat, ?e1), (3, new_entry (Some ''z'') None (3, 3))], lru_hits = 1, lru_misses = 0\<rparr>"
  have h: "(1::int) \<le> 2" "lru_run (lru_new 2) ?ops = Inr ?c" "int (lru_size ?c) = 2"
    "3 \<notin> set (keys (lru_dict ?c))" "lru_put 3 (Some ''z'') None (3, 3) ?c = Inr ?c'"
    by (simp_all add: lru_new_def lru_put_def lru_get_def is_expired_def new_entry_def od_move_to_end_def lru_size_def)
  have "\<exists>r. r \<in> set (keys (lru_dict ?c)) \<and> (\<forall>j \<in> set (keys (lru_dict ?c)). j \<noteq> r \<longrightarrow> idle j ?ops < idle r ?ops)
     \<and> set (keys (lru_dict ?c')) = insert 3 (set (keys (lru_dict ?c)) - {r})"
    by (rule lru_evicts_least_recent [OF h])
  then have "set (keys (lru_dict ?c')) = {1, 3}" by simp
  with h(2,5) show ?thesis by blast
qed

text \<open>
  The TTL cache, unlike the LRU cache, makes room before it looks whether the key is
  already there: refreshing a key of a full cache throws out the entry that expires first even
  though the refresh needs no room.
\<close>

theorem ttl_refresh_evicts_other:
  assumes "ttl_inv c" "k \<in> set (keys (ttl_dict c))" "int (ttl_size c) = ttl_max_size c"
    and "earliest_key (default_ttl c) (ttl_dict c) = Some r" "r \<noteq> k" "ttl_put k v ttl t c = Inr c'"
  shows "r \<in> set (keys (ttl_dict c)) \<and> set (keys (ttl_dict c')) = set (keys (ttl_dict c)) - {r}
     \<and> int (ttl_size c') = ttl_max_size c - 1"
proof -
  have wf: "wf_odict (ttl_dict c)" using assms(1) by (simp add: ttl_inv_def)
  have "ttl_dict c \<noteq> []" using assms(2) by auto
  then have r: "r \<in> set (keys (ttl_dict c))"
    using earliest_key_in [of "ttl_dict c" "default_ttl c"] assms(4) by auto
  let ?d = "AList.delete r (ttl_dict c)"
  have k: "k \<in> set (keys ?d)" using assms(2,5) by (simp add: keys_delete del: set_map)
  have "ttl_dict c' = AList.update k (new_entry v (Some (py_or_int ttl (default_ttl c))) t) ?d"
    using assms(3,4,6) by (auto simp: ttl_put_def ttl_size_def)
  moreover have "int (length (ttl_dict c) - 1) = int (length (ttl_dict c)) - 1"
    using \<open>ttl_dict c \<noteq> []\<close> by (cases "ttl_dict c") auto
  ultimately show ?thesis using k r wf assms(3)
    by (auto simp: keys_update_old keys_delete length_update length_delete ttl_size_def simp del: set_map)
qed

theorem ttl_refresh_evicts_other_witness:
  "\<exists>c c' :: (nat, string) ttl_cache. map_of (ttl_dict c) 1 \<noteq> None \<and> ttl_put 2 (Some ''y'') None (1, 1) c = Inr c'
     \<and> set (keys (ttl_dict c')) = {2}"
proof -
  let ?e1 = "new_entry (Some ''x'') (Some 60) (0, 0)" and ?e2 = "new_entry (Some ''y'') (Some 60) (1, 1)"
  let ?c = "\<lparr>ttl_max_size = 2, default_ttl = 60, ttl_dict = [(1::nat, ?e1), (2, ?e2)], ttl_hits = 0, ttl_misses = 0\<rparr>"
  let ?c' = "\<lparr>ttl_max_size = 2, default_ttl = 60, ttl_dict = [(2::nat, ?e2)], ttl_hits = 0, ttl_misses = 0\<rparr>"
  have h: "ttl_inv ?c" "2 \<in> set (keys (ttl_dict ?c))" "int (ttl_size ?c) = ttl_max_size ?c"
    "earliest_key (default_ttl ?c) (ttl_dict ?c) = Some 1" "(1::nat) \<noteq> 2"
    "ttl_put 2 (Some ''y'') None (1, 1) ?c = Inr ?c'"
    by (simp_all add: ttl_inv_def wf_odict_def ttl_size_def earliest_key_def expiry_of_def new_entry_def ttl_put_def)
  from ttl_refresh_evicts_other [OF h] have "set (keys (ttl_dict ?c')) = {2}" by auto
  with h(6) show ?thesis by (intro exI [of _ ?c] exI [of _ ?c']) auto
qed

end
