(* ===== verification/Pool_Base.thy ===== *)
theory Pool_Base
  imports Histogram Regex
begin

text \<open>
  What both connection pools share: the connection record and its states and the
  classification of connection-level errors (\<open>src/core/db/pool/base.py\<close>), the adaptive sizer
  (\<open>src/core/db/pool/adaptive.py\<close>) and the shape of the metrics
  (\<open>src/core/db/pool/metrics.py\<close>).  The lemmas show the sizer's bounds and its hysteresis.
\<close>

section \<open>Connections\<close>

datatype connection_state = IDLE | IN_USE | CREATING | CLOSING | CLOSED | BROKEN

text \<open>Connection objects are numbered; two numbers are two objects.\<close>

type_synonym conn = nat

record pool_connection =
  pc_created_at :: seconds
  pc_connection :: conn
  pc_checked_out_at :: seconds
  pc_state :: connection_state
  pc_consecutive_errors :: nat

definition new_pool_connection :: "seconds \<Rightarrow> conn \<Rightarrow> seconds \<Rightarrow> pool_connection" where
  "new_pool_connection t c t' =
     \<lparr>pc_created_at = t, pc_connection = c, pc_checked_out_at = t', pc_state = IN_USE, pc_consecutive_errors = 0\<rparr>"

section \<open>Connection-level errors\<close>

definition connection_level_signals :: "string list" where
  "connection_level_signals = [''connection is closed'', ''connection already closed'', ''connection closed'',
     ''connection reset'', ''broken pipe'', ''not connected'', ''no connection to the server'',
     ''server closed the connection'', ''could not connect'', ''connection refused'', ''eof occurred'',
     ''ssl error'', ''socket'']"

text \<open>An exception as the classifier sees it: the name of its type and its message.\<close>

definition is_connection_level_error :: "string \<Rightarrow> string \<Rightarrow> bool" where
  "is_connection_level_error type_name message \<longleftrightarrow>
     (let txt = lower (type_name @ '': '' @ message) in
      \<exists>signal \<in> set connection_level_signals. contains signal txt)"

section \<open>The adaptive sizer\<close>

record sizer =
  sz_min :: int
  sz_max :: int
  sz_current :: int
  idle_streak :: nat

definition cooldown_checks :: nat where "cooldown_checks = 5"

definition wait_pressure_threshold_ms :: rat where "wait_pressure_threshold_ms = 5"

definition sizer_new :: "int \<Rightarrow> int \<Rightarrow> sizer" where
  "sizer_new mn mx = \<lparr>sz_min = mn, sz_max = mx, sz_current = mn, idle_streak = 0\<rparr>"

definition under_pressure :: "nat \<Rightarrow> rat \<Rightarrow> bool" where
  "under_pressure current_waiters recent_wait_ms \<longleftrightarrow>
     current_waiters > 0 \<or> recent_wait_ms > wait_pressure_threshold_ms"

definition adjust :: "nat \<Rightarrow> rat \<Rightarrow> sizer \<Rightarrow> sizer" where
  "adjust current_waiters recent_wait_ms z =
     (if under_pressure current_waiters recent_wait_ms
      then (let z1 = z\<lparr>idle_streak := 0\<rparr> in
            if sz_current z1 < sz_max z1 then z1\<lparr>sz_current := sz_current z1 + 1\<rparr> else z1)
      else (let z1 = z\<lparr>idle_streak := Suc (idle_streak z)\<rparr> in
            if idle_streak z1 \<ge> cooldown_checks \<and> sz_current z1 > sz_min z1
            then z1\<lparr>sz_current := sz_current z1 - 1, idle_streak := 0\<rparr> else z1))"

definition sizer_ok :: "sizer \<Rightarrow> bool" where
  "sizer_ok z \<longleftrightarrow> sz_min z \<le> sz_current z \<and> sz_current z \<le> sz_max z"

lemma sizer_ok_new: "mn \<le> mx \<Longrightarrow> sizer_ok (sizer_new mn mx)"
  by (simp add: sizer_ok_def sizer_new_def)

lemma adjust_frame [simp]: "sz_min (adjust w r z) = sz_min z" "sz_max (adjust w r z) = sz_max z"
  by (simp_all add: adjust_def Let_def)

lemma adjust_ok [inv_intros]: "sizer_ok z \<Longrightarrow> sizer_ok (adjust w r z)"
  by (auto simp: sizer_ok_def adjust_def Let_def)

text \<open>The number of observations without pressure at the end of a sequence.\<close>

fun quiet_tail :: "(nat \<times> rat) list \<Rightarrow> nat \<Rightarrow> nat" where
  "quiet_tail [] n = n"
| "quiet_tail ((w, r) # obs) n = quiet_tail obs (if under_pressure w r then 0 else Suc n)"

definition adjust_all :: "(nat \<times> rat) list \<Rightarrow> sizer \<Rightarrow> sizer" where
  "adjust_all obs z = fold (\<lambda>(w, r). adjust w r) obs z"

lemma adjust_all_streak: "idle_streak z \<le> n \<Longrightarrow> idle_streak (adjust_all obs z) \<le> quiet_tail obs n"
proof (induction obs arbitrary: z n)
  case (Cons a obs)
  obtain w r where a: "a = (w, r)" by (cases a)
  have "idle_streak (adjust w r z) \<le> (if under_pressure w r then 0 else Suc n)"
    using Cons.prems by (auto simp: adjust_def Let_def)
  from Cons.IH [OF this] show ?case by (simp add: a adjust_all_def)
qed (simp add: adjust_all_def)

lemma adjust_all_ok: "sizer_ok z \<Longrightarrow> sizer_ok (adjust_all obs z)
    \<and> sz_min (adjust_all obs z) = sz_min z \<and> sz_max (adjust_all obs z) = sz_max z"
  by (induction obs arbitrary: z) (auto simp: adjust_all_def adjust_ok)

text \<open>
  Whatever contention is observed, the pool size stays between the configured bounds,
  an observation changes it by at most one, it grows at once under pressure unless it is at
  the maximum, and it shrinks only when at least five observations in a row were quiet.
\<close>

theorem sizer_hysteresis:
  assumes "mn \<le> mx"
  shows "let z = adjust_all obs (sizer_new mn mx); z' = adjust w r z in
     mn \<le> sz_current z' \<and> sz_current z' \<le> mx \<and> \<bar>sz_current z' - sz_current z\<bar> \<le> 1
     \<and> (under_pressure w r \<longrightarrow> sz_current z' = min mx (sz_current z + 1))
     \<and> (sz_current z' < sz_current z \<longrightarrow> cooldown_checks \<le> quiet_tail (obs @ [(w, r)]) 0)"
proof -
  let ?z = "adjust_all obs (sizer_new mn mx)"
  have z: "sizer_ok ?z" "sz_min ?z = mn" "sz_max ?z = mx"
    using adjust_all_ok [OF sizer_ok_new [OF assms], of obs] by (auto simp: sizer_new_def)
  have tail: "quiet_tail (obs @ [(w, r)]) n = (if under_pressure w r then 0 else Suc (quiet_tail obs n))" for n
    by (induction obs n rule: quiet_tail.induct) auto
  have "idle_streak ?z \<le> quiet_tail obs 0"
    by (rule adjust_all_streak) (simp add: sizer_new_def)
  with z show ?thesis
    unfolding Let_def tail by (auto simp: adjust_def Let_def sizer_ok_def)
qed

theorem sizer_hysteresis_witness:
  "sz_current (adjust 0 0 (adjust_all (replicate 4 (0, 0)) (adjust_all [(1, 0)] (sizer_new 1 3)))) = 1
   \<and> sz_current (adjust_all [(1, 0)] (sizer_new 1 3)) = 2
   \<and> sz_current (adjust 1 0 (adjust_all [(1, 0)] (sizer_new 1 3))) \<le> 3"
proof -
  have "sz_current (adjust 1 0 (adjust_all [(1, 0)] (sizer_new 1 3))) \<le> 3"
    using sizer_hysteresis [of 1 3 "[(1, 0)]" 1 0] by (simp add: Let_def)
  moreover have "sz_current (adjust 0 0 (adjust_all (replicate 4 (0, 0)) (adjust_all [(1, 0)] (sizer_new 1 3)))) = 1"
    "sz_current (adjust_all [(1, 0)] (sizer_new 1 3)) = 2"
    by (simp_all add: adjust_all_def adjust_def sizer_new_def under_pressure_def cooldown_checks_def
        wait_pressure_threshold_ms_def numeral_eq_Suc)
  ultimately show ?thesis by blast
qed

section \<open>Metrics\<close>

record pool_metrics =
  pm_min_connections :: int
  pm_max_connections :: int
  pm_current_connections :: nat
  pm_active_connections :: nat
  pm_idle_connections :: nat
  pm_queue_depth :: nat
  pm_current_waiters :: nat
  pm_total_waiters :: nat
  pm_total_requests :: nat
  pm_total_acquires :: nat
  pm_successful_acquires :: nat
  pm_timed_out_acquires :: nat
  pm_pool_hits :: nat
  pm_pool_misses :: nat
  pm_timeout_errors :: nat
  pm_total_wait_time :: rat
  pm_avg_wait_time_ms :: rat
  pm_p50 :: "rat option"
  pm_p95 :: "rat option"
  pm_p99 :: "rat option"
  pm_connection_creation_count :: nat
  pm_connection_creation_time_ms :: rat
  pm_broken_connections_evicted :: nat
  pm_utilization :: rat
  pm_saturation :: rat

definition average :: "rat list \<Rightarrow> rat" where
  "average xs = (if xs = [] then 0 else sum_list xs / of_nat (length xs))"

section \<open>The heap of idle connections\<close>

text \<open>
  \<open>heapq\<close> on triples (time, tie-breaking counter, connection): the counters are pairwise
  different, so which triple a pop returns is determined by the set of triples; the heap is kept
  as the list of its triples in pop order.
\<close>

type_synonym idle_heap = "(seconds \<times> nat \<times> conn) list"

definition heap_before :: "seconds \<times> nat \<times> conn \<Rightarrow> seconds \<times> nat \<times> conn \<Rightarrow> bool" where
  "heap_before x y \<longleftrightarrow> fst x < fst y \<or> (fst x = fst y \<and> fst (snd x) \<le> fst (snd y))"

fun heap_push :: "seconds \<times> nat \<times> conn \<Rightarrow> idle_heap \<Rightarrow> idle_heap" where
  "heap_push x [] = [x]"
| "heap_push x (y # ys) = (if heap_before x y then x # y # ys else y # heap_push x ys)"

abbreviation heap_conns :: "idle_heap \<Rightarrow> conn list" where
  "heap_conns h \<equiv> map (\<lambda>x. snd (snd x)) h"

lemma heap_push_set: "set (heap_push x h) = insert x (set h)"
  by (induction h) auto

lemma heap_push_length [simp]: "length (heap_push x h) = Suc (length h)"
  by (induction h) auto

lemma heap_push_conns: "set (heap_conns (heap_push x h)) = insert (snd (snd x)) (set (heap_conns h))"
  by (simp add: heap_push_set)

lemma heap_push_distinct:
  "distinct (heap_conns h) \<Longrightarrow> snd (snd x) \<notin> set (heap_conns h) \<Longrightarrow> distinct (heap_conns (heap_push x h))"
  by (induction h) (auto simp: heap_push_set)

end
