(* ===== verification/Async_Pool.thy ===== *)
theory Async_Pool
  imports Pool_Base
begin

text \<open>
  \<open>src/core/db/pool/async_pool.py\<close>.  A coroutine runs without interruption between two
  suspension points, and every section under the pool's lock is one such stretch, so
  \<open>acquire()\<close> is cut at its awaits: \<open>acquire_section\<close> (the body of the loop under the
  lock), \<open>acquire_timeout\<close>, \<open>acquire_cancelled\<close>, and \<open>create_done\<close> / \<open>create_failed\<close>
  behind the creation of a connection.  The relation \<open>pstep\<close> interleaves any number of tasks
  over these operations; the lemmas prove the pool's invariants for every reachable state.
  Objects whose identity the code uses (waiter events, placeholders) are numbered by
  \<open>next_obj\<close>.
\<close>

section \<open>State\<close>

text \<open>What \<open>id(...)\<close> is taken of in the keys of \<open>_in_use\<close>.\<close>

datatype obj = ConnObj conn | Placeholder nat

record async_pool =
  available :: idle_heap
  in_use :: "(obj, pool_connection option) odict"
  waiters :: "nat list"
  signalled :: "nat list"
  next_obj :: nat
  counter :: nat
  requests :: nat
  hits :: nat
  misses :: nat
  wait_time :: seconds
  timeouts :: nat
  successful_acquires :: nat
  total_waiters_ever :: nat
  creation_count :: nat
  creation_time :: seconds
  broken_evicted :: nat
  wait_histogram :: "streaming_histogram option"
  recent_waits_ms :: "rat list"
  recent_window :: nat
  pool_sizer :: sizer

definition pool_new :: "int \<Rightarrow> int \<Rightarrow> streaming_histogram option \<Rightarrow> async_pool" where
  "pool_new mn mx hist =
     \<lparr>available = [], in_use = [], waiters = [], signalled = [], next_obj = 0, counter = 0,
      requests = 0, hits = 0, misses = 0, wait_time = 0, timeouts = 0, successful_acquires = 0,
      total_waiters_ever = 0, creation_count = 0, creation_time = 0, broken_evicted = 0,
      wait_histogram = hist, recent_waits_ms = [], recent_window = 50, pool_sizer = sizer_new mn mx\<rparr>"

section \<open>Operations\<close>

definition record_acquire :: "seconds \<Rightarrow> bool \<Rightarrow> seconds \<Rightarrow> async_pool \<Rightarrow> async_pool" where
  "record_acquire start hit now p =
     (let wait = now - start; wait_ms = wait * 1000;
          recent = recent_waits_ms p @ [wait_ms]
      in p\<lparr>wait_time := wait_time p + wait,
           successful_acquires := Suc (successful_acquires p),
           hits := (if hit then Suc (hits p) else hits p),
           wait_histogram := map_option (sh_observe wait_ms) (wait_histogram p),
           recent_waits_ms := (if length recent > recent_window p then tl recent else recent)\<rparr>)"

datatype acquire_outcome = Got conn | Reserved nat | MustWait nat

text \<open>The clock readings of one section: for the metrics and for the two stamps of the record.\<close>

type_synonym clock3 = "seconds \<times> seconds \<times> seconds"

definition check_out :: "conn \<Rightarrow> clock3 \<Rightarrow> async_pool \<Rightarrow> async_pool" where
  "check_out c t p =
     p\<lparr>in_use := AList.update (ConnObj c) (Some (new_pool_connection (fst (snd t)) c (snd (snd t)))) (in_use p)\<rparr>"

definition acquire_section :: "seconds \<Rightarrow> clock3 \<Rightarrow> async_pool \<Rightarrow> async_pool \<times> acquire_outcome" where
  "acquire_section start t p =
     (case available p of
        (ts, _, c) # rest \<Rightarrow>
          (check_out c t (record_acquire start True (fst t) (p\<lparr>available := rest\<rparr>)), Got c)
      | [] \<Rightarrow>
          if int (length (in_use p)) < sz_current (pool_sizer p)
          then (p\<lparr>in_use := AList.update (Placeholder (next_obj p)) None (in_use p), next_obj := Suc (next_obj p)\<rparr>,
                Reserved (next_obj p))
          else (p\<lparr>waiters := waiters p @ [next_obj p], total_waiters_ever := Suc (total_waiters_ever p),
                  next_obj := Suc (next_obj p)\<rparr>,
                MustWait (next_obj p)))"

definition begin_acquire :: "async_pool \<Rightarrow> async_pool" where
  "begin_acquire p = p\<lparr>requests := Suc (requests p)\<rparr>"

definition acquire_timeout :: "nat \<Rightarrow> seconds \<Rightarrow> seconds \<Rightarrow> async_pool \<Rightarrow> async_pool" where
  "acquire_timeout w start now p =
     p\<lparr>waiters := remove1 w (waiters p), timeouts := Suc (timeouts p), wait_time := wait_time p + (now - start)\<rparr>"

definition acquire_cancelled :: "nat \<Rightarrow> async_pool \<Rightarrow> async_pool" where
  "acquire_cancelled w p = p\<lparr>waiters := remove1 w (waiters p)\<rparr>"

definition create_failed :: "nat \<Rightarrow> async_pool \<Rightarrow> async_pool" where
  "create_failed k p = p\<lparr>in_use := AList.delete (Placeholder k) (in_use p)\<rparr>"

definition create_done :: "nat \<Rightarrow> conn \<Rightarrow> seconds \<Rightarrow> seconds \<Rightarrow> clock3 \<Rightarrow> async_pool \<Rightarrow> async_pool" where
  "create_done k c start elapsed t p =
     check_out c t (record_acquire start False (fst t)
       (p\<lparr>in_use := AList.delete (Placeholder k) (in_use p),
          creation_count := Suc (creation_count p), creation_time := creation_time p + elapsed,
          misses := Suc (misses p)\<rparr>))"

text \<open>\<open>release\<close>: the new pool and the connections on which \<open>close()\<close> is called.\<close>

definition wake_oldest :: "async_pool \<Rightarrow> async_pool" where
  "wake_oldest p =
     (case waiters p of [] \<Rightarrow> p | w # ws \<Rightarrow> p\<lparr>waiters := ws, signalled := w # signalled p\<rparr>)"

definition release :: "conn \<Rightarrow> bool \<Rightarrow> async_pool \<Rightarrow> async_pool \<times> conn list" where
  "release c broken p =
     (let p1 = p\<lparr>in_use := AList.delete (ConnObj c) (in_use p)\<rparr> in
      case map_of (in_use p) (ConnObj c) of
        None \<Rightarrow> (p1, [])
      | Some None \<Rightarrow> (p1, [])
      | Some (Some pc) \<Rightarrow>
          if broken then (wake_oldest (p1\<lparr>broken_evicted := Suc (broken_evicted p1)\<rparr>), [c])
          else (wake_oldest (p1\<lparr>available := heap_push (pc_created_at pc, counter p1, c) (available p1),
                               counter := Suc (counter p1)\<rparr>), []))"

definition close_all :: "async_pool \<Rightarrow> async_pool \<times> conn list" where
  "close_all p =
     (p\<lparr>available := [], in_use := []\<rparr>,
      heap_conns (available p) @
      map pc_connection (concat (map (\<lambda>(k, v). case v of None \<Rightarrow> [] | Some pc \<Rightarrow> [pc]) (in_use p))))"

definition percentile_of :: "int \<Rightarrow> streaming_histogram option \<Rightarrow> rat option" where
  "percentile_of n hist =
     (case hist of
        None \<Rightarrow> None
      | Some s \<Rightarrow> if h_count (sh_histogram s) = 0 then None
                  else (case map_of (sn_percentiles (sh_snapshot s)) n of None \<Rightarrow> None | Some v \<Rightarrow> v))"

definition metrics :: "async_pool \<Rightarrow> async_pool \<times> pool_metrics" where
  "metrics p =
     (let z = adjust (length (waiters p)) (average (recent_waits_ms p)) (pool_sizer p);
          avg = wait_time p / of_nat (max 1 (successful_acquires p + timeouts p)) * 1000;
          current_size = sz_current z;
          active = length (filter (\<lambda>(k, v). v \<noteq> None) (in_use p));
          reserved = length (in_use p) - active
      in (p\<lparr>pool_sizer := z\<rparr>,
          \<lparr>pm_min_connections = sz_min z, pm_max_connections = current_size,
           pm_current_connections = active + length (available p), pm_active_connections = active,
           pm_idle_connections = length (available p), pm_queue_depth = length (waiters p),
           pm_current_waiters = length (waiters p), pm_total_waiters = total_waiters_ever p,
           pm_total_requests = requests p, pm_total_acquires = requests p,
           pm_successful_acquires = successful_acquires p, pm_timed_out_acquires = timeouts p,
           pm_pool_hits = hits p, pm_pool_misses = misses p, pm_timeout_errors = timeouts p,
           pm_total_wait_time = py_round 4 (wait_time p), pm_avg_wait_time_ms = py_round 4 avg,
           pm_p50 = percentile_of 50 (wait_histogram p), pm_p95 = percentile_of 95 (wait_histogram p),
           pm_p99 = percentile_of 99 (wait_histogram p),
           pm_connection_creation_count = creation_count p,
           pm_connection_creation_time_ms = py_round 4 (creation_time p * 1000),
           pm_broken_connections_evicted = broken_evicted p,
           pm_utilization = py_round 4 (of_nat active / of_int (max 1 current_size)),
           pm_saturation = py_round 4 (of_nat (active + reserved) / of_int (max 1 current_size))\<rparr>))"

section \<open>Tasks and their interleavings\<close>

datatype task =
    TIdle
  | TWaiting nat seconds
  | TCreating nat seconds
  | THolding conn

fun task_of :: "seconds \<Rightarrow> acquire_outcome \<Rightarrow> task" where
  "task_of start (Got c) = THolding c"
| "task_of start (Reserved k) = TCreating k start"
| "task_of start (MustWait w) = TWaiting w start"

text \<open>
  \<open>known\<close> are the connection objects created so far; \<open>shut\<close> records that \<open>close_all\<close> ran.
\<close>

record psys =
  pool :: async_pool
  tasks :: "nat \<Rightarrow> task"
  known :: "conn set"
  shut :: bool

definition psys_new :: "int \<Rightarrow> int \<Rightarrow> streaming_histogram option \<Rightarrow> psys" where
  "psys_new mn mx hist = \<lparr>pool = pool_new mn mx hist, tasks = (\<lambda>_. TIdle), known = {}, shut = False\<rparr>"

inductive pstep :: "psys \<Rightarrow> psys \<Rightarrow> bool" where
  acquire: "tasks s i = TIdle \<Longrightarrow> acquire_section start t (begin_acquire (pool s)) = (p, r) \<Longrightarrow>
      pstep s (s\<lparr>pool := p, tasks := (tasks s)(i := task_of start r)\<rparr>)"
| wake: "tasks s i = TWaiting w start \<Longrightarrow> w \<in> set (signalled (pool s)) \<Longrightarrow>
      acquire_section start t (pool s) = (p, r) \<Longrightarrow>
      pstep s (s\<lparr>pool := p, tasks := (tasks s)(i := task_of start r)\<rparr>)"
| timeout: "tasks s i = TWaiting w start \<Longrightarrow>
      pstep s (s\<lparr>pool := acquire_timeout w start now (pool s), tasks := (tasks s)(i := TIdle)\<rparr>)"
| cancel_wait: "tasks s i = TWaiting w start \<Longrightarrow>
      pstep s (s\<lparr>pool := acquire_cancelled w (pool s), tasks := (tasks s)(i := TIdle)\<rparr>)"
| created: "tasks s i = TCreating k start \<Longrightarrow> c \<notin> known s \<Longrightarrow>
      pstep s (s\<lparr>pool := create_done k c start elapsed t (pool s), tasks := (tasks s)(i := THolding c),
                 known := insert c (known s)\<rparr>)"
| create_fail: "tasks s i = TCreating k start \<Longrightarrow>
      pstep s (s\<lparr>pool := create_failed k (pool s), tasks := (tasks s)(i := TIdle)\<rparr>)"
| release: "tasks s i = THolding c \<Longrightarrow>
      pstep s (s\<lparr>pool := fst (release c broken (pool s)), tasks := (tasks s)(i := TIdle)\<rparr>)"
| observe: "pstep s (s\<lparr>pool := fst (metrics (pool s))\<rparr>)"
| warm: "target \<le> sz_max (pool_sizer (pool s)) \<Longrightarrow>
      pstep s (s\<lparr>pool := (pool s)\<lparr>pool_sizer := (pool_sizer (pool s))\<lparr>sz_current :=
                  max (sz_current (pool_sizer (pool s))) target\<rparr>\<rparr>\<rparr>)"
| close: "pstep s (s\<lparr>pool := fst (close_all (pool s)), shut := True\<rparr>)"

inductive preach :: "int \<Rightarrow> int \<Rightarrow> streaming_histogram option \<Rightarrow> psys \<Rightarrow> bool" for mn mx hist where
  start: "preach mn mx hist (psys_new mn mx hist)"
| step: "preach mn mx hist s \<Longrightarrow> pstep s s' \<Longrightarrow> preach mn mx hist s'"

section \<open>The invariant\<close>

text \<open>The pool's own bookkeeping: sizes, keys, heap and waiter list.\<close>

definition pool_inv :: "async_pool \<Rightarrow> bool" where
  "pool_inv p \<longleftrightarrow> wf_odict (in_use p) \<and> distinct (heap_conns (available p)) \<and> sizer_ok (pool_sizer p)
     \<and> distinct (waiters p) \<and> set (waiters p) \<inter> set (signalled p) = {}
     \<and> (\<forall>w \<in> set (waiters p) \<union> set (signalled p). w < next_obj p)
     \<and> (\<forall>k. Placeholder k \<in> set (keys (in_use p)) \<longrightarrow> k < next_obj p)
     \<and> (\<forall>c. ConnObj c \<in> set (keys (in_use p)) \<longrightarrow> c \<notin> set (heap_conns (available p)))"

text \<open>How the tasks and the pool agree: on connections, on reserved slots and on waiters.\<close>

definition hold_inv :: "psys \<Rightarrow> bool" where
  "hold_inv s \<longleftrightarrow>
     (\<forall>i j c. tasks s i = THolding c \<longrightarrow> tasks s j = THolding c \<longrightarrow> i = j)
   \<and> (\<forall>i c. tasks s i = THolding c \<longrightarrow> c \<in> known s \<and> c \<notin> set (heap_conns (available (pool s))))
   \<and> (\<forall>c \<in> set (heap_conns (available (pool s))). c \<in> known s)
   \<and> (\<forall>c. ConnObj c \<in> set (keys (in_use (pool s))) \<longrightarrow> (\<exists>i. tasks s i = THolding c))"

definition create_inv :: "psys \<Rightarrow> bool" where
  "create_inv s \<longleftrightarrow>
     (\<forall>i j k st st'. tasks s i = TCreating k st \<longrightarrow> tasks s j = TCreating k st' \<longrightarrow> i = j)
   \<and> (\<forall>i k st. tasks s i = TCreating k st \<longrightarrow> k < next_obj (pool s)
        \<and> (shut s \<or> Placeholder k \<in> set (keys (in_use (pool s)))))"

definition wait_inv :: "psys \<Rightarrow> bool" where
  "wait_inv s \<longleftrightarrow>
     (\<forall>i j w st st'. tasks s i = TWaiting w st \<longrightarrow> tasks s j = TWaiting w st' \<longrightarrow> i = j)
   \<and> (\<forall>i w st. tasks s i = TWaiting w st \<longrightarrow> w \<in> set (waiters (pool s)) \<union> set (signalled (pool s)))
   \<and> (\<forall>w \<in> set (waiters (pool s)). \<exists>i st. tasks s i = TWaiting w st)"

definition size_inv :: "psys \<Rightarrow> bool" where
  "size_inv s \<longleftrightarrow> shut s \<or>
     int (length (in_use (pool s))) + int (length (available (pool s))) \<le> max 0 (sz_max (pool_sizer (pool s)))"

definition psys_inv :: "psys \<Rightarrow> bool" where
  "psys_inv s \<longleftrightarrow> pool_inv (pool s) \<and> hold_inv s \<and> create_inv s \<and> wait_inv s \<and> size_inv s"

section \<open>What each operation does to the bookkeeping\<close>

lemma record_acquire_frame [simp]:
  "available (record_acquire start h t p) = available p" "in_use (record_acquire start h t p) = in_use p"
  "waiters (record_acquire start h t p) = waiters p" "signalled (record_acquire start h t p) = signalled p"
  "next_obj (record_acquire start h t p) = next_obj p" "pool_sizer (record_acquire start h t p) = pool_sizer p"
  "counter (record_acquire start h t p) = counter p"
  by (simp_all add: record_acquire_def Let_def)

lemma check_out_frame [simp]:
  "available (check_out c t p) = available p" "waiters (check_out c t p) = waiters p"
  "signalled (check_out c t p) = signalled p" "next_obj (check_out c t p) = next_obj p"
  "pool_sizer (check_out c t p) = pool_sizer p"
  "in_use (check_out c t p) = AList.update (ConnObj c) (Some (new_pool_connection (fst (snd t)) c (snd (snd t)))) (in_use p)"
  by (simp_all add: check_out_def)

lemma wake_oldest_frame [simp]:
  "available (wake_oldest p) = available p" "in_use (wake_oldest p) = in_use p"
  "next_obj (wake_oldest p) = next_obj p" "pool_sizer (wake_oldest p) = pool_sizer p"
  by (simp_all add: wake_oldest_def split: list.splits)

lemma wake_oldest_waiters:
  "waiters (wake_oldest p) = tl (waiters p)"
  "set (signalled (wake_oldest p)) = set (signalled p) \<union> set (take 1 (waiters p))"
  by (auto simp: wake_oldest_def split: list.splits)

lemma begin_acquire_frame [simp]:
  "available (begin_acquire p) = available p" "in_use (begin_acquire p) = in_use p"
  "waiters (begin_acquire p) = waiters p" "signalled (begin_acquire p) = signalled p"
  "next_obj (begin_acquire p) = next_obj p" "pool_sizer (begin_acquire p) = pool_sizer p"
  by (simp_all add: begin_acquire_def)

lemma metrics_frame [simp]:
  "available (fst (metrics p)) = available p" "in_use (fst (metrics p)) = in_use p"
  "waiters (fst (metrics p)) = waiters p" "signalled (fst (metrics p)) = signalled p"
  "next_obj (fst (metrics p)) = next_obj p"
  "sz_max (pool_sizer (fst (metrics p))) = sz_max (pool_sizer p)"
  by (simp_all add: metrics_def Let_def)

text \<open>The three ways in which a section under the lock can end.\<close>

lemma acquire_section_cases [consumes 1, case_names reuse reserve wait]:
  assumes "acquire_section start t p = (p', r)"
  obtains ts n c rest where "available p = (ts, n, c) # rest" "r = Got c" "available p' = rest"
      "in_use p' = AList.update (ConnObj c) (Some (new_pool_connection (fst (snd t)) c (snd (snd t)))) (in_use p)"
      "waiters p' = waiters p" "signalled p' = signalled p" "next_obj p' = next_obj p" "pool_sizer p' = pool_sizer p"
  | "available p = []" "int (length (in_use p)) < sz_current (pool_sizer p)" "r = Reserved (next_obj p)"
      "available p' = []" "in_use p' = AList.update (Placeholder (next_obj p)) None (in_use p)"
      "waiters p' = waiters p" "signalled p' = signalled p" "next_obj p' = Suc (next_obj p)" "pool_sizer p' = pool_sizer p"
  | "available p = []" "int (length (in_use p)) \<ge> sz_current (pool_sizer p)" "r = MustWait (next_obj p)"
      "available p' = []" "in_use p' = in_use p"
      "waiters p' = waiters p @ [next_obj p]" "signalled p' = signalled p" "next_obj p' = Suc (next_obj p)"
      "pool_sizer p' = pool_sizer p"
  using assms by (auto simp: acquire_section_def split: list.splits if_splits prod.splits)

lemma release_cases [case_names gone broken idle]:
  obtains "fst (release c b p) = p\<lparr>in_use := AList.delete (ConnObj c) (in_use p)\<rparr>"
      "\<nexists>pc. map_of (in_use p) (ConnObj c) = Some (Some pc)"
  | pc where "b" "map_of (in_use p) (ConnObj c) = Some (Some pc)"
      "fst (release c b p) = wake_oldest (p\<lparr>in_use := AList.delete (ConnObj c) (in_use p),
          broken_evicted := Suc (broken_evicted p)\<rparr>)"
  | pc where "\<not> b" "map_of (in_use p) (ConnObj c) = Some (Some pc)"
      "fst (release c b p) = wake_oldest (p\<lparr>in_use := AList.delete (ConnObj c) (in_use p),
          available := heap_push (pc_created_at pc, counter p, c) (available p), counter := Suc (counter p)\<rparr>)"
  by (cases "map_of (in_use p) (ConnObj c)"; cases b) (auto simp: release_def Let_def split: option.splits)

section \<open>The pool's bookkeeping is kept by every operation\<close>

lemma acquire_section_inv:
  assumes "pool_inv p" "acquire_section start t p = (p', r)"
  shows "pool_inv p'"
  using assms(2)
proof (cases rule: acquire_section_cases)
  case (reuse ts n c rest)
  then show ?thesis using assms(1)
    by (auto simp: pool_inv_def set_keys_update simp del: set_map)
next
  case reserve
  then show ?thesis using assms(1)
    by (auto simp: pool_inv_def set_keys_update less_Suc_eq simp del: set_map)
next
  case wait
  then show ?thesis using assms(1)
    by (auto simp: pool_inv_def less_Suc_eq simp del: set_map)
qed

lemma wake_oldest_inv: "pool_inv p \<Longrightarrow> pool_inv (wake_oldest p)"
  unfolding pool_inv_def wake_oldest_def by (cases "waiters p") auto

lemma pool_inv_shrink: "pool_inv p \<Longrightarrow> pool_inv (p\<lparr>in_use := AList.delete k (in_use p)\<rparr>)"
  by (auto simp: pool_inv_def set_keys_delete simp del: set_map)

lemma release_inv:
  assumes "pool_inv p"
  shows "pool_inv (fst (release c b p))"
proof (cases rule: release_cases [of c b p])
  case gone
  then show ?thesis using pool_inv_shrink [OF assms] by simp
next
  case (broken pc)
  have "pool_inv (p\<lparr>in_use := AList.delete (ConnObj c) (in_use p), broken_evicted := Suc (broken_evicted p)\<rparr>)"
    using pool_inv_shrink [OF assms, of "ConnObj c"] by (simp add: pool_inv_def)
  then show ?thesis unfolding broken(3) by (rule wake_oldest_inv)
next
  case (idle pc)
  have "c \<notin> set (heap_conns (available p))"
    using assms map_of_Some_keys [OF idle(2)] unfolding pool_inv_def by blast
  then have "pool_inv (p\<lparr>in_use := AList.delete (ConnObj c) (in_use p),
      available := heap_push (pc_created_at pc, counter p, c) (available p), counter := Suc (counter p)\<rparr>)"
    using assms by (auto simp: pool_inv_def set_keys_delete heap_push_distinct heap_push_conns simp del: set_map)
  then show ?thesis unfolding idle(3) by (rule wake_oldest_inv)
qed

lemma waiter_removed_inv:
  "pool_inv p \<Longrightarrow> pool_inv (acquire_cancelled w p)"
  "pool_inv p \<Longrightarrow> pool_inv (acquire_timeout w st t p)"
  by (auto simp: pool_inv_def acquire_cancelled_def acquire_timeout_def simp del: set_map dest: notin_set_remove1)

lemma create_done_inv:
  assumes "pool_inv p" "c \<notin> set (heap_conns (available p))"
  shows "pool_inv (create_done k c start elapsed t p)"
  using assms by (auto simp: pool_inv_def create_done_def set_keys_update set_keys_delete simp del: set_map)

lemma begin_acquire_inv [simp]: "pool_inv (begin_acquire p) = pool_inv p"
  by (simp add: pool_inv_def)

lemma metrics_inv: "pool_inv p \<Longrightarrow> pool_inv (fst (metrics p))"
  unfolding pool_inv_def metrics_frame by (simp add: metrics_def Let_def adjust_ok del: set_map)

lemma close_all_inv: "pool_inv p \<Longrightarrow> pool_inv (fst (close_all p))"
  by (simp add: pool_inv_def close_all_def wf_odict_def)

lemma create_failed_inv: "pool_inv p \<Longrightarrow> pool_inv (create_failed k p)"
  unfolding create_failed_def by (rule pool_inv_shrink)

lemma warm_inv: "pool_inv p \<Longrightarrow> n \<le> sz_max (pool_sizer p) \<Longrightarrow>
    pool_inv (p\<lparr>pool_sizer := (pool_sizer p)\<lparr>sz_current := max (sz_current (pool_sizer p)) n\<rparr>\<rparr>)"
  by (simp add: pool_inv_def sizer_ok_def le_max_iff_disj del: set_map)

lemma pstep_pool_inv:
  assumes "pstep s s'" "pool_inv (pool s)" "hold_inv s"
  shows "pool_inv (pool s')"
  using assms(1)
proof (cases rule: pstep.cases)
  case (acquire i start t p r)
  then show ?thesis using acquire_section_inv [of "begin_acquire (pool s)"] assms(2) by simp
next
  case (wake i w start t p r)
  then show ?thesis using acquire_section_inv [of "pool s"] assms(2) by simp
next
  case (created i k start c elapsed t)
  have "c \<notin> set (heap_conns (available (pool s)))"
    using assms(3) created(3) unfolding hold_inv_def by blast
  with created assms(2) show ?thesis by (simp add: create_done_inv del: set_map)
qed (use assms(2) in \<open>simp_all add: waiter_removed_inv create_failed_inv release_inv metrics_inv
        warm_inv close_all_inv\<close>)

section \<open>Tasks agree with the pool after every step\<close>

text \<open>The operations that hand out nothing leave the connections in the pool as they are.\<close>

lemma release_conns:
  "set (heap_conns (available (fst (release c b p)))) \<subseteq> insert c (set (heap_conns (available p)))"
  "set (keys (in_use (fst (release c b p)))) = set (keys (in_use p)) - {ConnObj c}"
  by (cases rule: release_cases [of c b p];
      simp add: set_keys_delete heap_push_conns del: set_map; blast)+

lemma release_frame [simp]:
  "next_obj (fst (release c b p)) = next_obj p" "pool_sizer (fst (release c b p)) = pool_sizer p"
  by (cases rule: release_cases [of c b p]; simp)+

lemma release_waiters:
  "set (waiters (fst (release c b p))) \<subseteq> set (waiters p)"
  "set (waiters (fst (release c b p))) \<union> set (signalled (fst (release c b p))) = set (waiters p) \<union> set (signalled p)"
  by (cases rule: release_cases [of c b p]; cases "waiters p"; auto simp: wake_oldest_waiters)+

lemma waiter_gone_frame [simp]:
  "available (acquire_cancelled w p) = available p" "available (acquire_timeout w st t p) = available p"
  "in_use (acquire_cancelled w p) = in_use p" "in_use (acquire_timeout w st t p) = in_use p"
  "signalled (acquire_cancelled w p) = signalled p" "signalled (acquire_timeout w st t p) = signalled p"
  "next_obj (acquire_cancelled w p) = next_obj p" "next_obj (acquire_timeout w st t p) = next_obj p"
  "pool_sizer (acquire_cancelled w p) = pool_sizer p" "pool_sizer (acquire_timeout w st t p) = pool_sizer p"
  "waiters (acquire_cancelled w p) = remove1 w (waiters p)" "waiters (acquire_timeout w st t p) = remove1 w (waiters p)"
  by (simp_all add: acquire_cancelled_def acquire_timeout_def)

lemma create_frame [simp]:
  "available (create_done k c st e t p) = available p" "available (create_failed k p) = available p"
  "waiters (create_done k c st e t p) = waiters p" "waiters (create_failed k p) = waiters p"
  "signalled (create_done k c st e t p) = signalled p" "signalled (create_failed k p) = signalled p"
  "next_obj (create_done k c st e t p) = next_obj p" "next_obj (create_failed k p) = next_obj p"
  "pool_sizer (create_done k c st e t p) = pool_sizer p" "pool_sizer (create_failed k p) = pool_sizer p"
  "in_use (create_failed k p) = AList.delete (Placeholder k) (in_use p)"
  by (simp_all add: create_done_def create_failed_def)

lemma create_done_keys:
  "set (keys (in_use (create_done k c st e t p))) = insert (ConnObj c) (set (keys (in_use p)) - {Placeholder k})"
  by (simp add: create_done_def set_keys_update set_keys_delete del: set_map)

lemma close_frame [simp]:
  "available (fst (close_all p)) = []" "in_use (fst (close_all p)) = []"
  "waiters (fst (close_all p)) = waiters p" "signalled (fst (close_all p)) = signalled p"
  "next_obj (fst (close_all p)) = next_obj p" "pool_sizer (fst (close_all p)) = pool_sizer p"
  by (simp_all add: close_all_def)

text \<open>A section under the lock, run by a task that holds nothing.\<close>

definition no_conn :: "task \<Rightarrow> bool" where
  "no_conn x \<longleftrightarrow> (\<forall>c. x \<noteq> THolding c)"

lemma no_conn_simps [simp]: "no_conn TIdle" "no_conn (TWaiting w st)" "no_conn (TCreating k st)"
  by (simp_all add: no_conn_def)

lemma section_hold_inv:
  assumes "hold_inv s" "pool_inv (pool s)" "no_conn (tasks s i)"
    and "acquire_section start t q = (p, r)"
    and "available q = available (pool s)" "in_use q = in_use (pool s)"
  shows "hold_inv (s\<lparr>pool := p, tasks := (tasks s)(i := task_of start r)\<rparr>)"
  using assms(4)
proof (cases rule: acquire_section_cases)
  case (reuse ts n c rest)
  have c: "c \<in> known s" "c \<notin> set (heap_conns rest)" "\<forall>j. tasks s j \<noteq> THolding c"
    using reuse(1) assms(1,2,5) unfolding hold_inv_def pool_inv_def by fastforce+
  with reuse assms(1,3,5,6) show ?thesis
    unfolding hold_inv_def no_conn_def
    by (simp add: set_keys_update del: set_map) (smt (verit) list.set_intros(2) list.simps(9))
next
  case reserve
  with assms(1,3,5,6) show ?thesis
    unfolding hold_inv_def no_conn_def by (simp add: set_keys_update del: set_map) metis
next
  case wait
  with assms(1,3,5,6) show ?thesis
    unfolding hold_inv_def no_conn_def by (simp del: set_map) metis
qed

lemma drop_hold_inv:
  assumes "hold_inv s" "no_conn (tasks s i)" "no_conn x"
    and "available p = available (pool s)" "set (keys (in_use p)) \<subseteq> set (keys (in_use (pool s))) "
  shows "hold_inv (s\<lparr>pool := p, tasks := (tasks s)(i := x)\<rparr>)"
proof -
  have "\<exists>j. j \<noteq> i \<and> tasks s j = THolding c" if "ConnObj c \<in> set (keys (in_use p))" for c
  proof -
    have "ConnObj c \<in> set (keys (in_use (pool s)))" using that assms(5) by (rule rev_subsetD)
    then show ?thesis using assms(1,2) unfolding hold_inv_def no_conn_def by metis
  qed
  then show ?thesis
    using assms(1-4) unfolding hold_inv_def no_conn_def by (simp del: set_map) metis
qed

lemma release_hold_inv:
  assumes "hold_inv s" "tasks s i = THolding c"
  shows "hold_inv (s\<lparr>pool := fst (release c b (pool s)), tasks := (tasks s)(i := TIdle)\<rparr>)"
proof -
  let ?p = "fst (release c b (pool s))" and ?ts = "(tasks s)(i := TIdle)"
  have only: "tasks s j = THolding c \<Longrightarrow> j = i" for j
    using assms unfolding hold_inv_def by metis
  have free: "d = c \<or> d \<in> set (heap_conns (available (pool s)))"
    if "d \<in> set (heap_conns (available ?p))" for d
    using release_conns(1) [of c b "pool s"] that by blast
  have "c \<in> known s" using assms unfolding hold_inv_def by metis
  then have "\<forall>d \<in> set (heap_conns (available ?p)). d \<in> known s"
    using free assms(1) unfolding hold_inv_def by metis
  moreover have "d \<in> known s \<and> d \<notin> set (heap_conns (available ?p))" if "?ts j = THolding d" for j d
  proof -
    have j: "tasks s j = THolding d" "j \<noteq> i" using that by (auto split: if_splits)
    then have "d \<noteq> c" using only by metis
    with free j(1) assms(1) show ?thesis unfolding hold_inv_def by metis
  qed
  moreover have "\<exists>j. ?ts j = THolding d" if "ConnObj d \<in> set (keys (in_use ?p))" for d
  proof -
    have "ConnObj d \<in> set (keys (in_use (pool s)))" "d \<noteq> c"
      using that unfolding release_conns(2) by auto
    then obtain j where j: "tasks s j = THolding d" using assms(1) unfolding hold_inv_def by metis
    with \<open>d \<noteq> c\<close> assms(2) have "j \<noteq> i" by auto
    with j have "?ts j = THolding d" by simp
    then show ?thesis ..
  qed
  moreover have "j = j'" if "?ts j = THolding d" "?ts j' = THolding d" for j j' d
    using that assms(1) unfolding hold_inv_def by (auto split: if_splits)
  ultimately show ?thesis unfolding hold_inv_def by (simp del: set_map fun_upd_apply)
qed

lemma created_hold_inv:
  assumes "hold_inv s" "tasks s i = TCreating k st" "c \<notin> known s"
  shows "hold_inv (s\<lparr>pool := create_done k c start e t (pool s), tasks := (tasks s)(i := THolding c),
      known := insert c (known s)\<rparr>)"
proof -
  have "\<forall>j. tasks s j \<noteq> THolding c" "c \<notin> set (heap_conns (available (pool s)))"
    using assms(1,3) unfolding hold_inv_def by metis+
  with assms show ?thesis
    unfolding hold_inv_def by (simp add: create_done_keys del: set_map) (metis task.distinct(11))
qed

lemma pstep_hold_inv:
  assumes "pstep s s'" "pool_inv (pool s)" "hold_inv s"
  shows "hold_inv s'"
  using assms(1)
proof (cases rule: pstep.cases)
  case (acquire i start t p r)
  then show ?thesis using assms by (auto intro!: section_hold_inv simp del: set_map)
next
  case (wake i w start t p r)
  then show ?thesis using assms by (auto intro!: section_hold_inv simp del: set_map)
next
  case (timeout i w start now)
  then show ?thesis using assms by (auto intro!: drop_hold_inv simp del: set_map)
next
  case (cancel_wait i w start)
  then show ?thesis using assms by (auto intro!: drop_hold_inv simp del: set_map)
next
  case (create_fail i k start)
  then show ?thesis using assms by (auto intro!: drop_hold_inv simp: set_keys_delete simp del: set_map)
next
  case (created i k start c elapsed t)
  then show ?thesis using assms by (auto intro!: created_hold_inv simp del: set_map)
next
  case (release i c broken)
  then show ?thesis using assms by (auto intro!: release_hold_inv simp del: set_map)
qed (use assms(3) in \<open>simp_all add: hold_inv_def del: set_map\<close>)

lemma section_create_inv:
  assumes "create_inv s" "acquire_section start t q = (p, r)" "\<forall>k st. tasks s i \<noteq> TCreating k st"
    and "in_use q = in_use (pool s)" "next_obj q = next_obj (pool s)"
  shows "create_inv (s\<lparr>pool := p, tasks := (tasks s)(i := task_of start r)\<rparr>)"
proof -
  have keys: "set (keys (in_use (pool s))) \<subseteq> set (keys (in_use p))"
    and nxt: "next_obj (pool s) \<le> next_obj p"
    and new: "r = Reserved k \<Longrightarrow> k = next_obj (pool s) \<and> k < next_obj p \<and> Placeholder k \<in> set (keys (in_use p))" for k
    using assms(2,4,5)
    by (cases rule: acquire_section_cases; simp add: set_keys_update subset_insertI del: set_map)+
  let ?ts = "(tasks s)(i := task_of start r)"
  have cases: "j = i \<and> r = Reserved k \<or> j \<noteq> i \<and> tasks s j = TCreating k st" if "?ts j = TCreating k st" for j k st
    using that by (cases r) (auto split: if_splits)
  have lt: "tasks s j = TCreating k st \<Longrightarrow> k < next_obj (pool s) \<and> (shut s \<or> Placeholder k \<in> set (keys (in_use p)))" for j k st
    using assms(1) keys unfolding create_inv_def by blast
  have "j = j'" if "?ts j = TCreating k st" "?ts j' = TCreating k st'" for j j' k st st'
    using cases [OF that(1)] cases [OF that(2)] lt [of j k st] lt [of j' k st'] new [of k] assms(1)
    unfolding create_inv_def by (metis less_irrefl)
  moreover have "k < next_obj p \<and> (shut s \<or> Placeholder k \<in> set (keys (in_use p)))" if "?ts j = TCreating k st" for j k st
    using cases [OF that] lt [of j k st] new [of k] nxt by auto
  ultimately show ?thesis unfolding create_inv_def by (simp del: set_map fun_upd_apply)
qed

lemma other_create_inv:
  assumes "create_inv s" "next_obj p = next_obj (pool s)"
    and "\<And>j k st. f j = TCreating k st \<Longrightarrow> tasks s j = TCreating k st
           \<and> (Placeholder k \<in> set (keys (in_use (pool s))) \<longrightarrow> Placeholder k \<in> set (keys (in_use p)))"
  shows "create_inv (s\<lparr>pool := p, tasks := f, known := K\<rparr>)"
  using assms unfolding create_inv_def by (simp del: set_map) blast

lemma other_create_inv':
  assumes "create_inv s" "next_obj p = next_obj (pool s)"
    and "\<And>j k st. f j = TCreating k st \<Longrightarrow> tasks s j = TCreating k st
           \<and> (Placeholder k \<in> set (keys (in_use (pool s))) \<longrightarrow> Placeholder k \<in> set (keys (in_use p)))"
  shows "create_inv (s\<lparr>pool := p, tasks := f\<rparr>)"
  using other_create_inv [OF assms, where K = "known s"] by (simp add: create_inv_def)

lemma pstep_create_inv:
  assumes "pstep s s'" "create_inv s"
  shows "create_inv s'"
  using assms(1)
proof (cases rule: pstep.cases)
  case (acquire i start t p r)
  then show ?thesis using assms by (auto intro!: section_create_inv simp del: set_map)
next
  case (wake i w start t p r)
  then show ?thesis using assms by (auto intro!: section_create_inv simp del: set_map)
next
  case (created i k start c elapsed t)
  have "k' \<noteq> k" if "j \<noteq> i" "tasks s j = TCreating k' st" for j k' st
    using that created(2) assms(2) unfolding create_inv_def by metis
  with created show ?thesis using assms(2)
    by (auto intro!: other_create_inv simp: create_done_keys simp del: set_map split: if_splits)
next
  case (create_fail i k start)
  have "k' \<noteq> k" if "j \<noteq> i" "tasks s j = TCreating k' st" for j k' st
    using that create_fail(2) assms(2) unfolding create_inv_def by metis
  with create_fail show ?thesis using assms(2)
    by (auto intro!: other_create_inv' simp: set_keys_delete simp del: set_map split: if_splits)
next
  case (release i c broken)
  then show ?thesis using assms(2)
    by (auto intro!: other_create_inv' simp: release_conns(2) simp del: set_map split: if_splits)
qed (use assms(2) in \<open>auto simp: create_inv_def simp del: set_map split: if_splits\<close>)

lemma wait_invI:
  assumes "\<And>i j w st st'. f i = TWaiting w st \<Longrightarrow> f j = TWaiting w st' \<Longrightarrow> i = j"
    and "\<And>i w st. f i = TWaiting w st \<Longrightarrow> w \<in> set (waiters p) \<union> set (signalled p)"
    and "\<And>w. w \<in> set (waiters p) \<Longrightarrow> \<exists>i st. f i = TWaiting w st"
  shows "wait_inv (s\<lparr>pool := p, tasks := f\<rparr>)"
  using assms unfolding wait_inv_def by (simp del: set_map)

lemma wait_invD:
  assumes "wait_inv s"
  shows "tasks s i = TWaiting w st \<Longrightarrow> tasks s j = TWaiting w st' \<Longrightarrow> i = j"
    and "tasks s i = TWaiting w st \<Longrightarrow> w \<in> set (waiters (pool s)) \<union> set (signalled (pool s))"
    and "w \<in> set (waiters (pool s)) \<Longrightarrow> \<exists>i st. tasks s i = TWaiting w st"
  using assms unfolding wait_inv_def by blast+

lemma section_wait_inv:
  assumes "wait_inv s" "pool_inv (pool s)" "acquire_section start t q = (p, r)"
    and "\<forall>w st. tasks s i = TWaiting w st \<longrightarrow> w \<notin> set (waiters (pool s))"
    and "waiters q = waiters (pool s)" "signalled q = signalled (pool s)" "next_obj q = next_obj (pool s)"
  shows "wait_inv (s\<lparr>pool := p, tasks := (tasks s)(i := task_of start r)\<rparr>)"
proof -
  let ?ts = "(tasks s)(i := task_of start r)"
  have sig: "signalled p = signalled (pool s)"
    and ws: "waiters p = waiters (pool s) @ (case r of MustWait w \<Rightarrow> [w] | _ \<Rightarrow> [])"
    and new: "r = MustWait w \<Longrightarrow> w = next_obj (pool s)" for w
    using assms(3,5,6,7) by (cases rule: acquire_section_cases; simp)+
  have cases: "j = i \<and> r = MustWait w \<or> j \<noteq> i \<and> tasks s j = TWaiting w st" if "?ts j = TWaiting w st" for j w st
    using that by (cases r) (auto split: if_splits)
  have lt: "w < next_obj (pool s)" if "tasks s j = TWaiting w st" for j w st
    using wait_invD(2) [OF assms(1) that] assms(2) unfolding pool_inv_def by blast
  show ?thesis
  proof (rule wait_invI)
    fix j j' w st st'
    assume "?ts j = TWaiting w st" "?ts j' = TWaiting w st'"
    from cases [OF this(1)] cases [OF this(2)] show "j = j'"
      using lt new wait_invD(1) [OF assms(1)] by (metis less_irrefl)
  next
    fix j w st
    assume "?ts j = TWaiting w st"
    from cases [OF this] show "w \<in> set (waiters p) \<union> set (signalled p)"
      using wait_invD(2) [OF assms(1)] by (auto simp: ws sig)
  next
    fix w
    assume w: "w \<in> set (waiters p)"
    show "\<exists>j st. ?ts j = TWaiting w st"
    proof (cases "w \<in> set (waiters (pool s))")
      case True
      with wait_invD(3) [OF assms(1)] obtain j st where j: "tasks s j = TWaiting w st" by blast
      with True assms(4) have "j \<noteq> i" by auto
      with j show ?thesis by auto
    next
      case False
      with w have "r = MustWait w" by (auto simp: ws split: acquire_outcome.splits)
      then have "?ts i = TWaiting w start" by simp
      then show ?thesis by blast
    qed
  qed
qed

lemma drop_wait_inv:
  assumes "wait_inv s" "distinct (waiters (pool s))" "tasks s i = TWaiting w st"
    and "waiters p = remove1 w (waiters (pool s))" "signalled p = signalled (pool s)"
  shows "wait_inv (s\<lparr>pool := p, tasks := (tasks s)(i := TIdle)\<rparr>)"
proof (rule wait_invI)
  fix j j' v st st'
  assume "((tasks s)(i := TIdle)) j = TWaiting v st" "((tasks s)(i := TIdle)) j' = TWaiting v st'"
  then show "j = j'" using wait_invD(1) [OF assms(1)] by (auto split: if_splits)
next
  fix j v st'
  assume "((tasks s)(i := TIdle)) j = TWaiting v st'"
  then have j: "j \<noteq> i" "tasks s j = TWaiting v st'" by (auto split: if_splits)
  then have "v \<noteq> w" using wait_invD(1) [OF assms(1) _ assms(3)] by auto
  with wait_invD(2) [OF assms(1) j(2)] show "v \<in> set (waiters p) \<union> set (signalled p)"
    by (simp add: assms(4,5))
next
  fix v
  assume "v \<in> set (waiters p)"
  with assms(2) have v: "v \<noteq> w" "v \<in> set (waiters (pool s))" by (simp_all add: assms(4))
  then obtain j st' where j: "tasks s j = TWaiting v st'" using wait_invD(3) [OF assms(1)] by blast
  with v(1) assms(3) have "j \<noteq> i" by auto
  with j show "\<exists>j st. ((tasks s)(i := TIdle)) j = TWaiting v st" by auto
qed

lemma other_wait_inv:
  assumes "wait_inv s" "set (waiters p) \<subseteq> set (waiters (pool s))"
    and "set (waiters p) \<union> set (signalled p) = set (waiters (pool s)) \<union> set (signalled (pool s))"
    and "\<And>j w st. f j = TWaiting w st \<longleftrightarrow> tasks s j = TWaiting w st"
  shows "wait_inv (s\<lparr>pool := p, tasks := f, known := K, shut := b\<rparr>)"
  using assms unfolding wait_inv_def by (simp del: set_map Un_iff) blast

lemma pstep_wait_inv:
  assumes "pstep s s'" "pool_inv (pool s)" "wait_inv s"
  shows "wait_inv s'"
  using assms(1)
proof (cases rule: pstep.cases)
  case (acquire i start t p r)
  then show ?thesis using assms by (auto intro!: section_wait_inv)
next
  case (wake i w start t p r)
  have "w \<notin> set (waiters (pool s))" using wake(3) assms(2) unfolding pool_inv_def by blast
  with wake assms show ?thesis by (auto intro!: section_wait_inv)
next
  case (timeout i w start now)
  then show ?thesis using assms by (auto intro!: drop_wait_inv simp: pool_inv_def)
next
  case (cancel_wait i w start)
  then show ?thesis using assms by (auto intro!: drop_wait_inv simp: pool_inv_def)
next
  case (created i k start c elapsed t)
  then show ?thesis
    using other_wait_inv [OF assms(3), where p = "pool s'" and f = "tasks s'" and K = "known s'" and b = "shut s'"] by simp
next
  case (create_fail i k start)
  then show ?thesis
    using other_wait_inv [OF assms(3), where p = "pool s'" and f = "tasks s'" and K = "known s'" and b = "shut s'"] by simp
next
  case (release i c broken)
  then show ?thesis
    using other_wait_inv [OF assms(3), where p = "pool s'" and f = "tasks s'" and K = "known s'" and b = "shut s'"] release_waiters [of c broken "pool s"]
    by simp
qed (use assms(3) in \<open>simp_all add: wait_inv_def del: set_map\<close>)

section \<open>The size bound\<close>

lemma section_size:
  assumes "acquire_section start t p = (p', r)" "sizer_ok (pool_sizer p)"
    "int (length (in_use p)) + int (length (available p)) \<le> max 0 (sz_max (pool_sizer p))"
  shows "int (length (in_use p')) + int (length (available p')) \<le> max 0 (sz_max (pool_sizer p'))"
  using assms(1)
proof (cases rule: acquire_section_cases)
  case (reuse ts n c rest)
  then show ?thesis using assms(3) by (auto simp: length_update max_def split: if_splits)
next
  case reserve
  then show ?thesis using assms(2) by (simp add: length_update sizer_ok_def)
next
  case wait
  then show ?thesis using assms(3) by simp
qed

lemma delete_key_length:
  "wf_odict d \<Longrightarrow> k \<in> set (keys d) \<Longrightarrow> Suc (length (AList.delete k d)) = length d"
  using length_pos_if_in_set [of k "keys d"] by (simp add: length_delete)

lemma release_size:
  assumes "wf_odict (in_use p)"
  shows "length (in_use (fst (release c b p))) + length (available (fst (release c b p))) \<le> length (in_use p) + length (available p)"
proof (cases rule: release_cases [of c b p])
  case (idle pc)
  with delete_key_length [OF assms map_of_Some_keys [OF idle(2)]] show ?thesis by simp
qed (simp_all add: length_delete_le)

lemma create_done_size:
  assumes "wf_odict (in_use p)" "Placeholder k \<in> set (keys (in_use p))"
  shows "length (in_use (create_done k c st e t p)) \<le> length (in_use p)"
proof -
  have "length (in_use (create_done k c st e t p)) \<le> Suc (length (AList.delete (Placeholder k) (in_use p)))"
    by (simp add: create_done_def length_update)
  also have "\<dots> = length (in_use p)"
    by (rule delete_key_length [OF assms])
  finally show ?thesis .
qed

lemma pstep_size_inv:
  assumes "pstep s s'" "pool_inv (pool s)" "create_inv s" "size_inv s"
  shows "size_inv s'"
proof (cases "shut s")
  case True
  with assms(1) have "shut s'" by (cases rule: pstep.cases) simp_all
  then show ?thesis by (simp add: size_inv_def)
next
  case False
  with assms(4) have bound: "int (length (in_use (pool s))) + int (length (available (pool s)))
      \<le> max 0 (sz_max (pool_sizer (pool s)))"
    by (simp add: size_inv_def)
  have ok: "sizer_ok (pool_sizer (pool s))" "wf_odict (in_use (pool s))" using assms(2) by (simp_all add: pool_inv_def)
  from assms(1) show ?thesis
  proof (cases rule: pstep.cases)
    case (acquire i start t p r)
    then show ?thesis using section_size [of start t "begin_acquire (pool s)" p r] ok bound by (simp add: size_inv_def)
  next
    case (wake i w start t p r)
    then show ?thesis using section_size [of start t "pool s" p r] ok bound by (simp add: size_inv_def)
  next
    case (created i k start c elapsed t)
    then have "Placeholder k \<in> set (keys (in_use (pool s)))" using assms(3) False unfolding create_inv_def by metis
    with created bound create_done_size [OF ok(2), of k c start elapsed t] show ?thesis by (simp add: size_inv_def)
  next
    case (create_fail i k start)
    then show ?thesis using bound length_delete_le [of "Placeholder k" "in_use (pool s)"] by (simp add: size_inv_def)
  next
    case (release i c broken)
    then show ?thesis using bound release_size [OF ok(2), of c broken] by (simp add: size_inv_def)
  qed (use bound in \<open>simp_all add: size_inv_def\<close>)
qed

lemma preach_inv:
  assumes "preach mn mx hist s" "mn \<le> mx"
  shows "psys_inv s \<and> sz_max (pool_sizer (pool s)) = mx \<and> sz_min (pool_sizer (pool s)) = mn"
  using assms(1)
proof (induction rule: preach.induct)
  case start
  then show ?case using assms(2)
    by (simp add: psys_inv_def psys_new_def pool_new_def pool_inv_def hold_inv_def create_inv_def wait_inv_def
        size_inv_def wf_odict_def sizer_ok_def sizer_new_def)
next
  case (step s s')
  have "sz_max (pool_sizer (pool s')) = sz_max (pool_sizer (pool s)) \<and> sz_min (pool_sizer (pool s')) = sz_min (pool_sizer (pool s))"
    using step.hyps(2)
    by (cases rule: pstep.cases) (auto simp: metrics_def Let_def elim!: acquire_section_cases)
  with step show ?case
    unfolding psys_inv_def
    by (metis pstep_pool_inv pstep_hold_inv pstep_create_inv pstep_wait_inv pstep_size_inv)
qed

section \<open>What the invariant says of every reachable state\<close>

text \<open>
  C8.  Whatever tasks acquire, wait, time out, are cancelled, create and release, in any order:
  no connection is ever checked out by two tasks, and a connection that a task holds is not
  among the idle ones.
\<close>

theorem pool_mutual_exclusion:
  assumes "preach mn mx hist s" "mn \<le> mx" "tasks s i = THolding c"
  shows "(\<forall>j. tasks s j = THolding c \<longrightarrow> j = i) \<and> c \<notin> set (heap_conns (available (pool s)))"
  using preach_inv [OF assms(1,2)] assms(3) unfolding psys_inv_def hold_inv_def by metis

text \<open>
  Until \<open>close_all()\<close> runs, idle connections, connections in use and reserved slots
  together never exceed the configured maximum, although connections are created outside the
  lock and the adaptive size moves meanwhile.
\<close>

theorem pool_size_bounded:
  assumes "preach mn mx hist s" "0 \<le> mn" "mn \<le> mx" "\<not> shut s"
  shows "int (length (in_use (pool s))) + int (length (available (pool s))) \<le> mx"
  using preach_inv [OF assms(1,3)] assms(2-4) unfolding psys_inv_def size_inv_def by auto

text \<open>
  Every entry of \<open>_waiters\<close> is the event of exactly one task that is still waiting and
  has not been signalled: a waiter that timed out, was cancelled or was woken never stays
  behind to absorb a wake-up.
\<close>

theorem pool_waiters_are_live:
  assumes "preach mn mx hist s" "mn \<le> mx" "w \<in> set (waiters (pool s))"
  shows "(\<exists>!i. \<exists>st. tasks s i = TWaiting w st) \<and> w \<notin> set (signalled (pool s)) \<and> distinct (waiters (pool s))"
proof -
  have "wait_inv s" "pool_inv (pool s)" using preach_inv [OF assms(1,2)] by (simp_all add: psys_inv_def)
  with assms(3) wait_invD [OF \<open>wait_inv s\<close>] show ?thesis unfolding pool_inv_def by blast
qed

lemma heap_push_Cons: "\<exists>y ys. heap_push x h = y # ys"
  by (cases h; cases x) auto

lemma section_of_idle:
  "available p \<noteq> [] \<Longrightarrow> \<exists>p'. acquire_section start t p = (p', Got (snd (snd (hd (available p))))) \<and> waiters p' = waiters p"
  by (cases "available p") (auto simp: acquire_section_def)

text \<open>
  A release hands the freed capacity to the waiter that has queued longest: it alone is
  signalled and leaves the queue, and if it runs next it gets an idle connection (the released
  one, when no other was idle); after a broken connection it gets the slot for a new one.
\<close>

theorem release_serves_oldest_waiter:
  assumes "wf_odict (in_use p)" "map_of (in_use p) (ConnObj c) = Some (Some pc)" "waiters p = w # ws"
  shows "(let q = fst (release c b p); a = acquire_section start t q in
     waiters q = ws \<and> signalled q = w # signalled p
     \<and> (\<not> b \<longrightarrow> waiters (fst a) = ws \<and> (\<exists>d. snd a = Got d \<and> (available p = [] \<longrightarrow> d = c)))
     \<and> (b \<and> available p = [] \<and> int (length (in_use p)) \<le> sz_current (pool_sizer p)
          \<longrightarrow> waiters (fst a) = ws \<and> snd a = Reserved (next_obj p)))"
proof (cases b)
  case False
  let ?p = "p\<lparr>in_use := AList.delete (ConnObj c) (in_use p),
      available := heap_push (pc_created_at pc, counter p, c) (available p), counter := Suc (counter p)\<rparr>"
  have q: "fst (release c b p) = wake_oldest ?p" using False assms(2) by (simp add: release_def Let_def)
  obtain y ys where h: "heap_push (pc_created_at pc, counter p, c) (available p) = y # ys"
    using heap_push_Cons by blast
  have y: "available p = [] \<longrightarrow> snd (snd y) = c" using h by auto
  have ne: "available (wake_oldest ?p) \<noteq> []" using h by simp
  from section_of_idle [OF ne, of start t] h y assms(3) show ?thesis
    unfolding q Let_def by (auto simp: wake_oldest_def False)
next
  case True
  let ?p = "p\<lparr>in_use := AList.delete (ConnObj c) (in_use p), broken_evicted := Suc (broken_evicted p)\<rparr>"
  have q: "fst (release c b p) = wake_oldest ?p" using True assms(2) by (simp add: release_def Let_def)
  have "Suc (length (AList.delete (ConnObj c) (in_use p))) = length (in_use p)"
    by (rule delete_key_length [OF assms(1) map_of_Some_keys [OF assms(2)]])
  then have len: "int (length (in_use p)) \<le> sz_current (pool_sizer p) \<Longrightarrow>
      int (length (AList.delete (ConnObj c) (in_use p))) < sz_current (pool_sizer p)" by linarith
  show ?thesis
  proof (cases "available p")
    case Nil
    with len assms(3) show ?thesis
      unfolding q Let_def acquire_section_def by (auto simp: wake_oldest_def True)
  next
    case (Cons y ys)
    with section_of_idle [of "wake_oldest ?p" start t] assms(3) show ?thesis
      unfolding q Let_def by (auto simp: wake_oldest_def True)
  qed
qed

theorem release_serves_oldest_waiter_witness:
  "let pc = new_pool_connection 1 7 1;
       p = (pool_new 1 1 None)\<lparr>in_use := [(ConnObj 7, Some pc)], waiters := [4, 5], next_obj := 6\<rparr>;
       q = fst (release 7 False p)
   in waiters q = [5] \<and> snd (acquire_section 2 (3, 3, 3) q) = Got 7"
  using release_serves_oldest_waiter [of "(pool_new 1 1 None)\<lparr>in_use := [(ConnObj 7, Some (new_pool_connection 1 7 1))],
      waiters := [4, 5], next_obj := 6\<rparr>" 7 "new_pool_connection 1 7 1" 4 "[5]" False 2 "(3, 3, 3)"]
  by (simp add: Let_def wf_odict_def) (simp add: pool_new_def)

section \<open>Reachable states that lose a wake-up\<close>

lemma preach_acquire:
  "preach mn mx h s \<Longrightarrow> tasks s i = TIdle \<Longrightarrow> a = acquire_section start t (begin_acquire (pool s)) \<Longrightarrow>
   preach mn mx h (s\<lparr>pool := fst a, tasks := (tasks s)(i := task_of start (snd a))\<rparr>)"
  by (metis preach.step pstep.acquire prod.collapse)

text \<open>The pool of one connection in which task 0 reserves the slot and tasks 1 and 2 queue.\<close>

definition contended :: psys where
  "contended =
     (let s1 = psys_new 1 1 None;
          a1 = acquire_section 0 (0, 0, 0) (begin_acquire (pool s1));
          s2 = s1\<lparr>pool := fst a1, tasks := (tasks s1)(0 := task_of 0 (snd a1))\<rparr>;
          a2 = acquire_section 0 (0, 0, 0) (begin_acquire (pool s2));
          s3 = s2\<lparr>pool := fst a2, tasks := (tasks s2)(1 := task_of 0 (snd a2))\<rparr>
      in s3)"

lemma contended_reach: "preach 1 1 None contended"
  unfolding contended_def Let_def
  by (intro preach_acquire preach.start refl)
     (simp_all add: psys_new_def)

lemma contended_state:
  "tasks contended = (\<lambda>_. TIdle)(0 := TCreating 0 0, 1 := TWaiting 1 0)"
  "waiters (pool contended) = [1]" "in_use (pool contended) = [(Placeholder 0, None)]"
  "available (pool contended) = []" "signalled (pool contended) = []"
  "sz_current (pool_sizer (pool contended)) = 1" "known contended = {}"
  by (simp_all add: contended_def psys_new_def pool_new_def acquire_section_def begin_acquire_def sizer_new_def Let_def)

definition served :: psys where
  "served = contended\<lparr>pool := create_done 0 7 0 0 (0, 0, 0) (pool contended),
     tasks := (tasks contended)(0 := THolding 7), known := insert 7 (known contended)\<rparr>"

lemma served_reach: "preach 1 1 None served"
  unfolding served_def
  by (rule preach.step [OF contended_reach], rule pstep.created) (simp_all add: contended_state)

theorem pool_mutual_exclusion_witness:
  "tasks served 0 = THolding 7 \<and> {j. tasks served j = THolding 7} = {0}
   \<and> 7 \<notin> set (heap_conns (available (pool served)))"
proof -
  have "tasks served 0 = THolding 7" by (simp add: served_def)
  with pool_mutual_exclusion [OF served_reach _ this] show ?thesis by auto
qed

theorem pool_size_bounded_witness:
  "in_use (pool contended) \<noteq> [] \<and>
   int (length (in_use (pool contended))) + int (length (available (pool contended))) \<le> 1"
proof -
  have "\<not> shut contended" by (simp add: contended_def psys_new_def Let_def)
  with pool_size_bounded [OF contended_reach] show ?thesis by (simp add: contended_state)
qed

theorem pool_waiters_are_live_witness:
  "waiters (pool contended) = [1] \<and> (\<exists>!i. \<exists>st. tasks contended i = TWaiting 1 st)"
  using pool_waiters_are_live [OF contended_reach, of 1] by (simp add: contended_state)

text \<open>
  When the creation of a connection fails, its slot is given back but no waiter is signalled:
  from then on a task can wait although the pool is empty and below its size, with nobody left
  who would wake it.
\<close>

theorem pool_create_failure_strands_waiter:
  "\<exists>s. preach 1 1 None s \<and> tasks s = (\<lambda>_. TIdle)(1 := TWaiting 1 0) \<and> waiters (pool s) = [1]
     \<and> signalled (pool s) = [] \<and> in_use (pool s) = [] \<and> available (pool s) = []
     \<and> int (length (in_use (pool s))) < sz_current (pool_sizer (pool s))"
proof -
  let ?s = "contended\<lparr>pool := create_failed 0 (pool contended), tasks := (tasks contended)(0 := TIdle)\<rparr>"
  have "pstep contended ?s" by (rule pstep.create_fail [where start = 0]) (simp add: contended_state)
  then have "preach 1 1 None ?s" by (rule preach.step [OF contended_reach])
  then show ?thesis
    by (intro exI [of _ ?s]) (simp add: contended_state, auto simp: fun_eq_iff)
qed

text \<open>
  A waiter that was signalled and is cancelled before it runs takes the wake-up with it: the
  next waiter keeps waiting beside an idle connection.
\<close>

definition crowded :: psys where
  "crowded =
     (let a = acquire_section 0 (0, 0, 0) (begin_acquire (pool contended))
      in contended\<lparr>pool := fst a, tasks := (tasks contended)(2 := task_of 0 (snd a))\<rparr>)"

lemma contended_next: "next_obj (pool contended) = 2"
  by (simp add: contended_def psys_new_def pool_new_def acquire_section_def begin_acquire_def sizer_new_def Let_def)

lemma crowded_section:
  "snd (acquire_section 0 (0, 0, 0) (begin_acquire (pool contended))) = MustWait 2"
  by (simp add: acquire_section_def contended_state contended_next)

lemma crowded_reach: "preach 1 1 None crowded"
  unfolding crowded_def Let_def
  by (rule preach_acquire [OF contended_reach _ refl]) (simp add: contended_state)

lemma crowded_state:
  "tasks crowded = (\<lambda>_. TIdle)(0 := TCreating 0 0, 1 := TWaiting 1 0, 2 := TWaiting 2 0)"
  "waiters (pool crowded) = [1, 2]" "in_use (pool crowded) = [(Placeholder 0, None)]"
  "available (pool crowded) = []" "signalled (pool crowded) = []" "known crowded = {}"
  by (simp_all add: crowded_def Let_def crowded_section contended_state)
     (simp_all add: acquire_section_def contended_state contended_next)

theorem pool_cancel_loses_wakeup:
  "\<exists>s. preach 1 1 None s \<and> tasks s = (\<lambda>_. TIdle)(2 := TWaiting 2 0) \<and> waiters (pool s) = [2]
     \<and> 2 \<notin> set (signalled (pool s)) \<and> in_use (pool s) = [] \<and> heap_conns (available (pool s)) = [7]"
proof -
  let ?p2 = "create_done 0 7 0 0 (0, 0, 0) (pool crowded)"
  let ?s2 = "crowded\<lparr>pool := ?p2, tasks := (tasks crowded)(0 := THolding 7), known := insert 7 (known crowded)\<rparr>"
  have "pstep crowded ?s2" by (rule pstep.created) (simp_all add: crowded_state)
  with crowded_reach have 2: "preach 1 1 None ?s2" by (rule preach.step)
  have use: "in_use ?p2 = [(ConnObj 7, Some (new_pool_connection 0 7 0))]"
    by (simp add: create_done_def crowded_state)
  let ?p3 = "fst (release 7 False ?p2)"
  let ?s3 = "?s2\<lparr>pool := fst (release 7 False (pool ?s2)), tasks := (tasks ?s2)(0 := TIdle)\<rparr>"
  have "pstep ?s2 ?s3" by (rule pstep.release) simp
  with 2 have 3: "preach 1 1 None ?s3" by (rule preach.step)
  have p3: "waiters ?p3 = [2]" "signalled ?p3 = [1]" "in_use ?p3 = []" "heap_conns (available ?p3) = [7]"
    by (simp_all add: release_def use wake_oldest_def crowded_state)
  let ?s4 = "?s3\<lparr>pool := acquire_cancelled 1 (pool ?s3), tasks := (tasks ?s3)(1 := TIdle)\<rparr>"
  have "pstep ?s3 ?s4" by (rule pstep.cancel_wait [where start = 0]) (simp add: crowded_state)
  with 3 have 4: "preach 1 1 None ?s4" by (rule preach.step)
  have "tasks ?s4 = (\<lambda>_. TIdle)(2 := TWaiting 2 0)" by (simp add: crowded_state fun_eq_iff)
  moreover have "pool ?s4 = acquire_cancelled 1 ?p3" by simp
  ultimately show ?thesis using 4 p3 by (intro exI [of _ ?s4]) simp
qed

end
