(* ===== verification/Sync_Pool.thy ===== *)
theory Sync_Pool
  imports Pool_Base
begin

text \<open>
  \<open>src/core/db/pool/sync_pool.py\<close>: the pool that blocks threads on a condition variable.  Every
  section under \<open>_lock\<close> is one step: the body of the loop up to a return, a reservation, a raise
  or \<open>wait\<close> (\<open>sync_section\<close>), the two sections behind the creation, the \<open>finally\<close> section and
  \<open>release\<close>.  A blocked thread may run its loop again at any moment, which covers notification,
  expiry of the wait and spurious wake-ups alike.
\<close>

section \<open>State and operations\<close>

datatype slot_key = OfConn conn | OfReservation nat

record sync_pool =
  s_available :: idle_heap
  s_in_use :: "(slot_key, pool_connection option) odict"
  s_timeout :: seconds
  s_next_key :: nat
  s_counter :: nat
  s_current_waiters :: int
  s_total_waiters_ever :: nat
  s_requests :: nat
  s_hits :: nat
  s_misses :: nat
  s_wait_time :: seconds
  s_timeouts :: nat
  s_successful_acquires :: nat
  s_creation_count :: nat
  s_creation_time :: seconds
  s_broken_evicted :: nat
  s_wait_histogram :: "streaming_histogram option"
  s_recent_waits_ms :: "rat list"
  s_recent_window :: nat
  s_sizer :: sizer

definition sync_new :: "int \<Rightarrow> int \<Rightarrow> seconds \<Rightarrow> streaming_histogram option \<Rightarrow> sync_pool" where
  "sync_new mn mx tmo hist =
     \<lparr>s_available = [], s_in_use = [], s_timeout = tmo, s_next_key = 0, s_counter = 0,
      s_current_waiters = 0, s_total_waiters_ever = 0, s_requests = 0, s_hits = 0, s_misses = 0,
      s_wait_time = 0, s_timeouts = 0, s_successful_acquires = 0, s_creation_count = 0,
      s_creation_time = 0, s_broken_evicted = 0, s_wait_histogram = hist, s_recent_waits_ms = [],
      s_recent_window = 50, s_sizer = sizer_new mn mx\<rparr>"

definition sync_record_acquire :: "seconds \<Rightarrow> bool \<Rightarrow> seconds \<Rightarrow> sync_pool \<Rightarrow> sync_pool" where
  "sync_record_acquire start hit now p =
     (let wait = now - start; wait_ms = wait * 1000;
          recent = s_recent_waits_ms p @ [wait_ms]
      in p\<lparr>s_wait_time := s_wait_time p + wait,
           s_successful_acquires := Suc (s_successful_acquires p),
           s_hits := (if hit then Suc (s_hits p) else s_hits p),
           s_wait_histogram := map_option (sh_observe wait_ms) (s_wait_histogram p),
           s_recent_waits_ms := (if length recent > s_recent_window p then tl recent else recent)\<rparr>)"

text \<open>Four clock readings: for the metrics, for the two stamps, and for the remaining time.\<close>

record clocks =
  at_record :: seconds
  at_created :: seconds
  at_checked_out :: seconds
  at_remaining :: seconds
  at_give_up :: seconds

definition sync_check_out :: "conn \<Rightarrow> clocks \<Rightarrow> sync_pool \<Rightarrow> sync_pool" where
  "sync_check_out c t p =
     p\<lparr>s_in_use := AList.update (OfConn c) (Some (new_pool_connection (at_created t) c (at_checked_out t))) (s_in_use p)\<rparr>"

datatype section_end = Reuse conn | Reserve nat | GiveUp | Block seconds

definition sync_section :: "seconds \<Rightarrow> seconds \<Rightarrow> bool \<Rightarrow> clocks \<Rightarrow> sync_pool \<Rightarrow> sync_pool \<times> section_end" where
  "sync_section start deadline counted t p =
     (case s_available p of
        (ts, _, c) # rest \<Rightarrow>
          (sync_check_out c t (sync_record_acquire start True (at_record t) (p\<lparr>s_available := rest\<rparr>)), Reuse c)
      | [] \<Rightarrow>
          if int (length (s_in_use p)) < sz_current (s_sizer p)
          then (p\<lparr>s_in_use := AList.update (OfReservation (s_next_key p)) None (s_in_use p), s_next_key := Suc (s_next_key p)\<rparr>,
                Reserve (s_next_key p))
          else (let p1 = (if counted then p
                          else p\<lparr>s_current_waiters := s_current_waiters p + 1,
                                 s_total_waiters_ever := Suc (s_total_waiters_ever p)\<rparr>);
                    remaining = deadline - at_remaining t
                in if remaining \<le> 0
                   then (p1\<lparr>s_timeouts := Suc (s_timeouts p1), s_wait_time := s_wait_time p1 + (at_give_up t - start)\<rparr>, GiveUp)
                   else (p1, Block remaining)))"

definition sync_begin :: "sync_pool \<Rightarrow> sync_pool" where
  "sync_begin p = p\<lparr>s_requests := Suc (s_requests p)\<rparr>"

definition sync_create_failed :: "nat \<Rightarrow> sync_pool \<Rightarrow> sync_pool" where
  "sync_create_failed k p = p\<lparr>s_in_use := AList.delete (OfReservation k) (s_in_use p)\<rparr>"

definition sync_create_done :: "nat \<Rightarrow> conn \<Rightarrow> seconds \<Rightarrow> seconds \<Rightarrow> clocks \<Rightarrow> sync_pool \<Rightarrow> sync_pool" where
  "sync_create_done k c start elapsed t p =
     sync_check_out c t (sync_record_acquire start False (at_record t)
       (p\<lparr>s_in_use := AList.delete (OfReservation k) (s_in_use p),
          s_creation_count := Suc (s_creation_count p), s_creation_time := s_creation_time p + elapsed,
          s_misses := Suc (s_misses p)\<rparr>))"

definition sync_finally :: "sync_pool \<Rightarrow> sync_pool" where
  "sync_finally p = p\<lparr>s_current_waiters := s_current_waiters p - 1\<rparr>"

text \<open>\<open>release\<close>: the new pool, the connections closed, and whether a waiter is notified.\<close>

definition sync_release :: "conn \<Rightarrow> bool \<Rightarrow> sync_pool \<Rightarrow> sync_pool \<times> conn list \<times> bool" where
  "sync_release c broken p =
     (let p1 = p\<lparr>s_in_use := AList.delete (OfConn c) (s_in_use p)\<rparr> in
      case map_of (s_in_use p) (OfConn c) of
        None \<Rightarrow> (p1, [], False)
      | Some None \<Rightarrow> (p1, [], False)
      | Some (Some pc) \<Rightarrow>
          if broken then (p1\<lparr>s_broken_evicted := Suc (s_broken_evicted p1)\<rparr>, [c], True)
          else (p1\<lparr>s_available := heap_push (pc_created_at pc, s_counter p1, c) (s_available p1),
                   s_counter := Suc (s_counter p1)\<rparr>, [], True))"

definition sync_close_all :: "sync_pool \<Rightarrow> sync_pool \<times> conn list" where
  "sync_close_all p =
     (p\<lparr>s_available := [], s_in_use := []\<rparr>,
      heap_conns (s_available p) @
      map pc_connection (concat (map (\<lambda>(k, v). case v of None \<Rightarrow> [] | Some pc \<Rightarrow> [pc]) (s_in_use p))))"

definition sync_percentile :: "int \<Rightarrow> streaming_histogram option \<Rightarrow> rat option" where
  "sync_percentile n hist =
     (case hist of
        None \<Rightarrow> None
      | Some s \<Rightarrow> if h_count (sh_histogram s) = 0 then None
                  else (case map_of (sn_percentiles (sh_snapshot s)) n of None \<Rightarrow> None | Some v \<Rightarrow> v))"

definition sync_metrics :: "sync_pool \<Rightarrow> sync_pool \<times> pool_metrics" where
  "sync_metrics p =
     (let z = adjust (nat (s_current_waiters p)) (average (s_recent_waits_ms p)) (s_sizer p);
          avg = s_wait_time p / of_nat (max 1 (s_successful_acquires p + s_timeouts p)) * 1000;
          current_size = sz_current z;
          active = length (filter (\<lambda>(k, v). v \<noteq> None) (s_in_use p));
          reserved = length (s_in_use p) - active;
          waiters = nat (s_current_waiters p)
      in (p\<lparr>s_sizer := z\<rparr>,
          \<lparr>pm_min_connections = sz_min z, pm_max_connections = current_size,
           pm_current_connections = active + length (s_available p), pm_active_connections = active,
           pm_idle_connections = length (s_available p), pm_queue_depth = waiters,
           pm_current_waiters = waiters, pm_total_waiters = s_total_waiters_ever p,
           pm_total_requests = s_requests p, pm_total_acquires = s_requests p,
           pm_successful_acquires = s_successful_acquires p, pm_timed_out_acquires = s_timeouts p,
           pm_pool_hits = s_hits p, pm_pool_misses = s_misses p, pm_timeout_errors = s_timeouts p,
           pm_total_wait_time = py_round 4 (s_wait_time p), pm_avg_wait_time_ms = py_round 4 avg,
           pm_p50 = sync_percentile 50 (s_wait_histogram p), pm_p95 = sync_percentile 95 (s_wait_histogram p),
           pm_p99 = sync_percentile 99 (s_wait_histogram p),
           pm_connection_creation_count = s_creation_count p,
           pm_connection_creation_time_ms = py_round 4 (s_creation_time p * 1000),
           pm_broken_connections_evicted = s_broken_evicted p,
           pm_utilization = py_round 4 (of_nat active / of_int (max 1 current_size)),
           pm_saturation = py_round 4 (of_nat (active + reserved) / of_int (max 1 current_size))\<rparr>))"

section \<open>Threads\<close>

text \<open>
  \<open>counted\<close> is the local variable \<open>counted_waiter\<close>; a thread that is through with the counted
  part of \<open>acquire\<close> still has to run its \<open>finally\<close> section (\<open>Leaving\<close>).
\<close>

datatype thread =
    Outside
  | Blocked seconds seconds
  | Creating nat seconds bool
  | Leaving "conn option"
  | Holding conn

fun after :: "bool \<Rightarrow> conn option \<Rightarrow> thread" where
  "after True r = Leaving r"
| "after False (Some c) = Holding c"
| "after False None = Outside"

fun thread_of :: "seconds \<Rightarrow> seconds \<Rightarrow> bool \<Rightarrow> section_end \<Rightarrow> thread" where
  "thread_of start deadline counted (Reuse c) = after counted (Some c)"
| "thread_of start deadline counted (Reserve k) = Creating k start counted"
| "thread_of start deadline counted GiveUp = Leaving None"
| "thread_of start deadline counted (Block r) = Blocked start deadline"

record ssys =
  spool :: sync_pool
  threads :: "nat \<Rightarrow> thread"
  born :: "conn set"
  sdown :: bool

definition ssys_new :: "int \<Rightarrow> int \<Rightarrow> seconds \<Rightarrow> streaming_histogram option \<Rightarrow> ssys" where
  "ssys_new mn mx tmo hist = \<lparr>spool = sync_new mn mx tmo hist, threads = (\<lambda>_. Outside), born = {}, sdown = False\<rparr>"

inductive sstep :: "ssys \<Rightarrow> ssys \<Rightarrow> bool" where
  call: "threads s i = Outside \<Longrightarrow>
      sync_section start (start + s_timeout (spool s)) False t (sync_begin (spool s)) = (p, r) \<Longrightarrow>
      sstep s (s\<lparr>spool := p, threads := (threads s)(i := thread_of start (start + s_timeout (spool s)) False r)\<rparr>)"
| again: "threads s i = Blocked start deadline \<Longrightarrow>
      sync_section start deadline True t (spool s) = (p, r) \<Longrightarrow>
      sstep s (s\<lparr>spool := p, threads := (threads s)(i := thread_of start deadline True r)\<rparr>)"
| created: "threads s i = Creating k start counted \<Longrightarrow> c \<notin> born s \<Longrightarrow>
      sstep s (s\<lparr>spool := sync_create_done k c start elapsed t (spool s),
                 threads := (threads s)(i := after counted (Some c)), born := insert c (born s)\<rparr>)"
| create_fail: "threads s i = Creating k start counted \<Longrightarrow>
      sstep s (s\<lparr>spool := sync_create_failed k (spool s), threads := (threads s)(i := after counted None)\<rparr>)"
| leave: "threads s i = Leaving r \<Longrightarrow>
      sstep s (s\<lparr>spool := sync_finally (spool s), threads := (threads s)(i := after False r)\<rparr>)"
| release: "threads s i = Holding c \<Longrightarrow>
      sstep s (s\<lparr>spool := fst (sync_release c broken (spool s)), threads := (threads s)(i := Outside)\<rparr>)"
| observe: "sstep s (s\<lparr>spool := fst (sync_metrics (spool s))\<rparr>)"
| warm: "target \<le> sz_max (s_sizer (spool s)) \<Longrightarrow>
      sstep s (s\<lparr>spool := (spool s)\<lparr>s_sizer := (s_sizer (spool s))\<lparr>sz_current :=
                  max (sz_current (s_sizer (spool s))) target\<rparr>\<rparr>\<rparr>)"
| close: "sstep s (s\<lparr>spool := fst (sync_close_all (spool s)), sdown := True\<rparr>)"

inductive sreach :: "int \<Rightarrow> int \<Rightarrow> seconds \<Rightarrow> streaming_histogram option \<Rightarrow> ssys \<Rightarrow> bool" for mn mx tmo hist where
  start: "sreach mn mx tmo hist (ssys_new mn mx tmo hist)"
| step: "sreach mn mx tmo hist s \<Longrightarrow> sstep s s' \<Longrightarrow> sreach mn mx tmo hist s'"

inductive_cases sstepE: "sstep s s'"

section \<open>The invariant\<close>

text \<open>What a thread has of the pool: a connection, a reserved slot, a place in the count.\<close>

fun holds :: "thread \<Rightarrow> conn \<Rightarrow> bool" where
  "holds (Holding d) c \<longleftrightarrow> d = c"
| "holds (Leaving (Some d)) c \<longleftrightarrow> d = c"
| "holds _ c \<longleftrightarrow> False"

fun reserves :: "thread \<Rightarrow> nat \<Rightarrow> bool" where
  "reserves (Creating j start counted) k \<longleftrightarrow> j = k"
| "reserves _ k \<longleftrightarrow> False"

fun counted_in :: "thread \<Rightarrow> bool" where
  "counted_in (Blocked start deadline) \<longleftrightarrow> True"
| "counted_in (Creating k start counted) \<longleftrightarrow> counted"
| "counted_in (Leaving r) \<longleftrightarrow> True"
| "counted_in _ \<longleftrightarrow> False"

definition free_conns :: "sync_pool \<Rightarrow> conn set" where
  "free_conns p = set (heap_conns (s_available p))"

definition used :: "sync_pool \<Rightarrow> conn set" where
  "used p = {c. OfConn c \<in> set (keys (s_in_use p))}"

definition reserved :: "sync_pool \<Rightarrow> nat set" where
  "reserved p = {k. OfReservation k \<in> set (keys (s_in_use p))}"

definition book_inv :: "sync_pool \<Rightarrow> bool" where
  "book_inv p \<longleftrightarrow> wf_odict (s_in_use p) \<and> distinct (heap_conns (s_available p)) \<and> sizer_ok (s_sizer p)
     \<and> (\<forall>k \<in> reserved p. k < s_next_key p)"

definition owner_inv :: "ssys \<Rightarrow> bool" where
  "owner_inv s \<longleftrightarrow>
     (\<forall>i j c. holds (threads s i) c \<longrightarrow> holds (threads s j) c \<longrightarrow> i = j)
   \<and> (\<forall>i c. holds (threads s i) c \<longrightarrow> c \<in> born s \<and> c \<notin> free_conns (spool s))
   \<and> free_conns (spool s) \<subseteq> born s
   \<and> (\<forall>c \<in> used (spool s). \<exists>i. holds (threads s i) c)"

definition slot_inv :: "ssys \<Rightarrow> bool" where
  "slot_inv s \<longleftrightarrow>
     (\<forall>i j k. reserves (threads s i) k \<longrightarrow> reserves (threads s j) k \<longrightarrow> i = j)
   \<and> (\<forall>i k. reserves (threads s i) k \<longrightarrow> k < s_next_key (spool s) \<and> (sdown s \<or> k \<in> reserved (spool s)))"

definition count_inv :: "ssys \<Rightarrow> bool" where
  "count_inv s \<longleftrightarrow> finite {i. counted_in (threads s i)}
     \<and> s_current_waiters (spool s) = int (card {i. counted_in (threads s i)})"

definition room_inv :: "ssys \<Rightarrow> bool" where
  "room_inv s \<longleftrightarrow> sdown s \<or>
     int (length (s_in_use (spool s))) + int (length (s_available (spool s))) \<le> max 0 (sz_max (s_sizer (spool s)))"

definition ssys_inv :: "ssys \<Rightarrow> bool" where
  "ssys_inv s \<longleftrightarrow> book_inv (spool s) \<and> owner_inv s \<and> slot_inv s \<and> count_inv s \<and> room_inv s"

section \<open>What each operation does to the pool, as sets\<close>

lemma sync_record_acquire_frame [simp]:
  "s_available (sync_record_acquire start h t p) = s_available p" "s_in_use (sync_record_acquire start h t p) = s_in_use p"
  "s_next_key (sync_record_acquire start h t p) = s_next_key p" "s_sizer (sync_record_acquire start h t p) = s_sizer p"
  "s_current_waiters (sync_record_acquire start h t p) = s_current_waiters p"
  by (simp_all add: sync_record_acquire_def Let_def)

lemma sync_check_out_frame [simp]:
  "s_available (sync_check_out c t p) = s_available p" "s_next_key (sync_check_out c t p) = s_next_key p"
  "s_sizer (sync_check_out c t p) = s_sizer p" "s_current_waiters (sync_check_out c t p) = s_current_waiters p"
  "s_in_use (sync_check_out c t p) =
     AList.update (OfConn c) (Some (new_pool_connection (at_created t) c (at_checked_out t))) (s_in_use p)"
  by (simp_all add: sync_check_out_def)

lemma sync_section_cases [consumes 1, case_names reuse reserve give_up block]:
  assumes "sync_section start deadline counted t p = (p', r)"
  obtains x c rest pc where "s_available p = x # rest" "c = snd (snd x)" "r = Reuse c" "s_available p' = rest"
      "s_in_use p' = AList.update (OfConn c) (Some pc) (s_in_use p)" "s_next_key p' = s_next_key p"
      "s_sizer p' = s_sizer p" "s_current_waiters p' = s_current_waiters p"
  | "s_available p = []" "int (length (s_in_use p)) < sz_current (s_sizer p)" "r = Reserve (s_next_key p)"
      "s_available p' = []" "s_in_use p' = AList.update (OfReservation (s_next_key p)) None (s_in_use p)"
      "s_next_key p' = Suc (s_next_key p)" "s_sizer p' = s_sizer p" "s_current_waiters p' = s_current_waiters p"
  | "s_available p = []" "sz_current (s_sizer p) \<le> int (length (s_in_use p))" "deadline \<le> at_remaining t" "r = GiveUp"
      "s_available p' = []" "s_in_use p' = s_in_use p" "s_next_key p' = s_next_key p" "s_sizer p' = s_sizer p"
      "s_current_waiters p' = s_current_waiters p + (if counted then 0 else 1)"
  | "s_available p = []" "sz_current (s_sizer p) \<le> int (length (s_in_use p))" "at_remaining t < deadline"
      "r = Block (deadline - at_remaining t)"
      "s_available p' = []" "s_in_use p' = s_in_use p" "s_next_key p' = s_next_key p" "s_sizer p' = s_sizer p"
      "s_current_waiters p' = s_current_waiters p + (if counted then 0 else 1)"
  using assms
  by (auto simp: sync_section_def Let_def not_less split: list.splits if_splits prod.splits)

lemma sync_release_sets:
  "free_conns (fst (sync_release c b p)) \<subseteq> insert c (free_conns p)"
  "used (fst (sync_release c b p)) = used p - {c}"
  "reserved (fst (sync_release c b p)) = reserved p"
  "s_next_key (fst (sync_release c b p)) = s_next_key p" "s_sizer (fst (sync_release c b p)) = s_sizer p"
  "s_current_waiters (fst (sync_release c b p)) = s_current_waiters p"
  by (auto simp: sync_release_def Let_def free_conns_def used_def reserved_def set_keys_delete heap_push_conns
      simp del: set_map split: option.splits)

lemma sync_create_sets:
  "free_conns (sync_create_done k c st e t p) = free_conns p"
  "used (sync_create_done k c st e t p) = insert c (used p)"
  "reserved (sync_create_done k c st e t p) = reserved p - {k}"
  "s_next_key (sync_create_done k c st e t p) = s_next_key p" "s_sizer (sync_create_done k c st e t p) = s_sizer p"
  "s_available (sync_create_done k c st e t p) = s_available p"
  "s_current_waiters (sync_create_done k c st e t p) = s_current_waiters p"
  by (auto simp: sync_create_done_def free_conns_def used_def reserved_def set_keys_update set_keys_delete simp del: set_map)

lemma sync_create_failed_sets:
  "free_conns (sync_create_failed k p) = free_conns p" "used (sync_create_failed k p) = used p"
  "reserved (sync_create_failed k p) = reserved p - {k}" "s_next_key (sync_create_failed k p) = s_next_key p"
  "s_sizer (sync_create_failed k p) = s_sizer p" "s_available (sync_create_failed k p) = s_available p"
  "s_current_waiters (sync_create_failed k p) = s_current_waiters p"
  by (auto simp: sync_create_failed_def free_conns_def used_def reserved_def set_keys_delete simp del: set_map)

lemma sync_metrics_frame [simp]:
  "s_available (fst (sync_metrics p)) = s_available p" "s_in_use (fst (sync_metrics p)) = s_in_use p"
  "s_next_key (fst (sync_metrics p)) = s_next_key p"
  "s_sizer (fst (sync_metrics p)) = adjust (nat (s_current_waiters p)) (average (s_recent_waits_ms p)) (s_sizer p)"
  "s_current_waiters (fst (sync_metrics p)) = s_current_waiters p"
  by (simp_all add: sync_metrics_def Let_def)

lemma sync_other_frame [simp]:
  "s_available (sync_begin p) = s_available p" "s_in_use (sync_begin p) = s_in_use p"
  "s_next_key (sync_begin p) = s_next_key p" "s_sizer (sync_begin p) = s_sizer p"
  "s_current_waiters (sync_begin p) = s_current_waiters p"
  "s_available (sync_finally p) = s_available p" "s_in_use (sync_finally p) = s_in_use p"
  "s_next_key (sync_finally p) = s_next_key p" "s_sizer (sync_finally p) = s_sizer p"
  "s_current_waiters (sync_finally p) = s_current_waiters p - 1"
  "s_available (fst (sync_close_all p)) = []" "s_in_use (fst (sync_close_all p)) = []"
  "s_next_key (fst (sync_close_all p)) = s_next_key p" "s_sizer (fst (sync_close_all p)) = s_sizer p"
  "s_current_waiters (fst (sync_close_all p)) = s_current_waiters p"
  by (simp_all add: sync_begin_def sync_finally_def sync_close_all_def)

lemma thread_of_views [simp]:
  "holds (thread_of start d counted r) c \<longleftrightarrow> r = Reuse c"
  "reserves (thread_of start d counted r) k \<longleftrightarrow> r = Reserve k"
  by (cases r; cases counted; auto)+

lemma after_views [simp]:
  "holds (after counted r) c \<longleftrightarrow> r = Some c" "\<not> reserves (after counted r) k"
  "counted_in (after counted r) \<longleftrightarrow> counted"
  by (cases counted; cases r; auto)+

section \<open>The pool's own bookkeeping\<close>

lemma book_section:
  assumes "book_inv p" "sync_section start d counted t p = (p', r)"
  shows "book_inv p'"
  using assms(2)
proof (cases rule: sync_section_cases)
  case (reuse x c rest pc)
  then show ?thesis using assms(1) by (auto simp: book_inv_def reserved_def set_keys_update simp del: set_map)
next
  case reserve
  then show ?thesis using assms(1)
    by (auto simp: book_inv_def reserved_def set_keys_update less_Suc_eq simp del: set_map)
qed (use assms(1) in \<open>simp_all add: book_inv_def reserved_def del: set_map\<close>)

lemma book_release:
  assumes "book_inv p" "c \<notin> free_conns p"
  shows "book_inv (fst (sync_release c b p))"
  using assms by (auto simp: book_inv_def sync_release_def Let_def reserved_def set_keys_delete free_conns_def
      heap_push_distinct simp del: set_map split: option.splits)

lemma book_create: "book_inv p \<Longrightarrow> book_inv (sync_create_done k c st e t p)"
  "book_inv p \<Longrightarrow> book_inv (sync_create_failed k p)"
  by (auto simp: book_inv_def sync_create_done_def sync_create_failed_def reserved_def set_keys_update
      set_keys_delete simp del: set_map)

lemma book_other [simp]:
  "book_inv (sync_begin p) = book_inv p" "book_inv (sync_finally p) = book_inv p"
  "book_inv p \<Longrightarrow> book_inv (fst (sync_metrics p))" "book_inv p \<Longrightarrow> book_inv (fst (sync_close_all p))"
  by (simp_all add: book_inv_def reserved_def adjust_ok wf_odict_def)

lemma book_warm: "book_inv p \<Longrightarrow> n \<le> sz_max (s_sizer p) \<Longrightarrow>
    book_inv (p\<lparr>s_sizer := (s_sizer p)\<lparr>sz_current := max (sz_current (s_sizer p)) n\<rparr>\<rparr>)"
  by (simp add: book_inv_def sizer_ok_def reserved_def le_max_iff_disj del: set_map)

lemma sstep_book:
  assumes "sstep s s'" "book_inv (spool s)" "owner_inv s"
  shows "book_inv (spool s')"
  using assms(1)
proof (cases rule: sstep.cases)
  case (release i c broken)
  then have "c \<notin> free_conns (spool s)" using assms(3) unfolding owner_inv_def by (metis holds.simps(1))
  with release assms(2) show ?thesis by (simp add: book_release)
next
  case (call i start t p r)
  then show ?thesis using book_section [of "sync_begin (spool s)"] assms(2) by simp
next
  case (again i start deadline t p r)
  then show ?thesis using book_section [of "spool s"] assms(2) by simp
qed (use assms(2) in \<open>simp_all add: book_create book_warm\<close>)

section \<open>Connections have one owner\<close>

lemma owner_change:
  assumes "owner_inv s"
    and "\<And>c. holds x c \<Longrightarrow> holds (threads s i) c \<or> (\<forall>j. \<not> holds (threads s j) c)"
    and "\<And>c. holds x c \<Longrightarrow> c \<in> B \<and> c \<notin> free_conns p"
    and "\<And>c j. j \<noteq> i \<Longrightarrow> holds (threads s j) c \<Longrightarrow> c \<notin> free_conns p"
    and "born s \<subseteq> B" "free_conns p \<subseteq> B"
    and "\<And>c. c \<in> used p \<Longrightarrow> holds x c \<or> (c \<in> used (spool s) \<and> \<not> holds (threads s i) c)"
  shows "owner_inv (s\<lparr>spool := p, threads := (threads s)(i := x), born := B\<rparr>)"
proof -
  have uniq: "j = j'" if "holds (threads s j) c" "holds (threads s j') c" for j j' c
    using that assms(1) unfolding owner_inv_def by blast
  have "j = j'" if "holds (((threads s)(i := x)) j) c" "holds (((threads s)(i := x)) j') c" for j j' c
    using that assms(2) [of c] uniq by (auto split: if_splits)
  moreover have "c \<in> B \<and> c \<notin> free_conns p" if "holds (((threads s)(i := x)) j) c" for j c
    using that assms(1,3,4,5) unfolding owner_inv_def by (auto split: if_splits)
  moreover have "\<exists>j. holds (((threads s)(i := x)) j) c" if "c \<in> used p" for c
  proof (cases "holds x c")
    case False
    then have "c \<in> used (spool s)" "\<not> holds (threads s i) c" using assms(7) [OF that] by auto
    then obtain j where "holds (threads s j) c" "j \<noteq> i" using assms(1) unfolding owner_inv_def by blast
    then have "holds (((threads s)(i := x)) j) c" by simp
    then show ?thesis ..
  qed (metis fun_upd_same)
  ultimately show ?thesis using assms(6) unfolding owner_inv_def by (simp del: fun_upd_apply)
qed

lemma born_same: "s\<lparr>spool := p, threads := f, born := born s\<rparr> = s\<lparr>spool := p, threads := f\<rparr>"
  by simp

lemma owner_same:
  assumes "owner_inv s" "threads s' = threads s" "born s' = born s"
    and "free_conns (spool s') \<subseteq> free_conns (spool s)" "used (spool s') \<subseteq> used (spool s)"
  shows "owner_inv s'"
  using assms(1,4,5) unfolding owner_inv_def assms(2,3) by blast

lemma owner_section:
  assumes "owner_inv s" "book_inv (spool s)" "\<And>c. \<not> holds (threads s i) c"
    and "sync_section start d counted t q = (p, r)"
    and "s_available q = s_available (spool s)" "s_in_use q = s_in_use (spool s)"
  shows "owner_inv (s\<lparr>spool := p, threads := (threads s)(i := thread_of start d' counted r)\<rparr>)"
proof -
  have own: "holds (threads s j) c \<Longrightarrow> c \<in> born s \<and> c \<notin> free_conns (spool s)" for j c
    using assms(1) unfolding owner_inv_def by blast
  have sub: "free_conns (spool s) \<subseteq> born s" using assms(1) unfolding owner_inv_def by blast
  have q: "free_conns q = free_conns (spool s)" "used q = used (spool s)" "distinct (heap_conns (s_available q))"
    using assms(2,5,6) by (simp_all add: free_conns_def used_def book_inv_def)
  have sets: "(\<forall>c. r = Reuse c \<longrightarrow> c \<in> free_conns q \<and> c \<notin> free_conns p)
      \<and> free_conns p \<subseteq> free_conns q \<and> (\<forall>c \<in> used p. r = Reuse c \<or> c \<in> used q)"
    using assms(4) q(3)
    by (cases rule: sync_section_cases) (auto simp: free_conns_def used_def set_keys_update simp del: set_map)
  have new: "c \<in> born s \<and> c \<notin> free_conns p \<and> (\<forall>j. \<not> holds (threads s j) c)" if "r = Reuse c" for c
    using sets that own sub unfolding q(1,2) by blast
  have "owner_inv (s\<lparr>spool := p, threads := (threads s)(i := thread_of start d' counted r), born := born s\<rparr>)"
  proof (rule owner_change [OF assms(1)])
    fix c j assume "holds (threads s j) c"
    then show "c \<notin> free_conns p" using own sets unfolding q(1,2) by blast
  next
    fix c assume "c \<in> used p"
    then show "holds (thread_of start d' counted r) c \<or> c \<in> used (spool s) \<and> \<not> holds (threads s i) c"
      using sets assms(3) unfolding q(1,2) by auto
  next
    show "free_conns p \<subseteq> born s" using sets sub unfolding q(1) by blast
  qed (simp_all add: new)
  then show ?thesis unfolding born_same .
qed

lemma sstep_owner:
  assumes "sstep s s'" "book_inv (spool s)" "owner_inv s"
  shows "owner_inv s'"
proof -
  have own: "holds (threads s i) c \<Longrightarrow> c \<in> born s \<and> c \<notin> free_conns (spool s)" for i c
    using assms(3) unfolding owner_inv_def by blast
  have sub: "free_conns (spool s) \<subseteq> born s" using assms(3) unfolding owner_inv_def by blast
  have uniq: "j = j'" if "holds (threads s j) c" "holds (threads s j') c" for j j' c
    using that assms(3) unfolding owner_inv_def by blast
  from assms(1) show ?thesis
  proof (cases rule: sstep.cases)
    case (call i start t p r)
    then have "\<not> holds (threads s i) c" for c by simp
    with call show ?thesis using owner_section [OF assms(3,2) _ call(3)] by simp
  next
    case (again i start deadline t p r)
    then have "\<not> holds (threads s i) c" for c by simp
    with again show ?thesis using owner_section [OF assms(3,2) _ again(3)] by simp
  next
    case (created i k start counted c elapsed t)
    then have fresh: "\<not> holds (threads s j) c" "c \<notin> free_conns (spool s)" for j using own sub by auto
    show ?thesis unfolding created(1)
    proof (rule owner_change [OF assms(3)])
      fix d j assume "holds (threads s j) d"
      then show "d \<notin> free_conns (sync_create_done k c start elapsed t (spool s))"
        using own by (simp add: sync_create_sets)
    next
      show "free_conns (sync_create_done k c start elapsed t (spool s)) \<subseteq> insert c (born s)"
        using sub by (auto simp: sync_create_sets)
    next
      fix d assume "d \<in> used (sync_create_done k c start elapsed t (spool s))"
      then show "holds (after counted (Some c)) d \<or> d \<in> used (spool s) \<and> \<not> holds (threads s i) d"
        using created(2) by (auto simp: sync_create_sets)
    qed (use fresh in \<open>auto simp: sync_create_sets\<close>)
  next
    case (create_fail i k start counted)
    have "owner_inv (s\<lparr>spool := spool s', threads := (threads s)(i := after counted None), born := born s\<rparr>)"
      by (rule owner_change [OF assms(3)])
         (simp_all add: create_fail(1,2) sync_create_failed_sets sub own)
    then show ?thesis unfolding born_same using create_fail(1) by simp
  next
    case (leave i r)
    then have h: "holds (threads s i) c \<longleftrightarrow> r = Some c" for c by (cases r) auto
    have same: "free_conns (sync_finally (spool s)) = free_conns (spool s)" "used (sync_finally (spool s)) = used (spool s)"
      by (simp_all add: free_conns_def used_def)
    have "owner_inv (s\<lparr>spool := spool s', threads := (threads s)(i := after False r), born := born s\<rparr>)"
    proof (rule owner_change [OF assms(3)])
      fix d assume "holds (after False r) d"
      then have "holds (threads s i) d" by (simp add: h)
      then show "d \<in> born s \<and> d \<notin> free_conns (spool s')" using own leave(1) same by simp
    qed (use h leave(1) same sub own in simp_all)
    then show ?thesis unfolding born_same using leave(1) by simp
  next
    case (release i c broken)
    then have c: "holds (threads s i) c" and only: "holds (threads s i) d \<Longrightarrow> d = c" for d by simp_all
    have p: "spool s' = fst (sync_release c broken (spool s))" using release(1) by simp
    have "owner_inv (s\<lparr>spool := spool s', threads := (threads s)(i := Outside), born := born s\<rparr>)"
    proof (rule owner_change [OF assms(3)])
      fix d j assume "j \<noteq> i" "holds (threads s j) d"
      then have "d \<noteq> c" "d \<notin> free_conns (spool s)" using uniq [OF c] own by auto
      then show "d \<notin> free_conns (spool s')" using sync_release_sets(1) [of c broken "spool s"] unfolding p by blast
    next
      show "free_conns (spool s') \<subseteq> born s"
        using sync_release_sets(1) [of c broken "spool s"] own [OF c] sub unfolding p by blast
    next
      fix d assume "d \<in> used (spool s')"
      then show "holds Outside d \<or> d \<in> used (spool s) \<and> \<not> holds (threads s i) d"
        using only unfolding p sync_release_sets(2) by blast
    qed simp_all
    then show ?thesis unfolding born_same using release(1) by simp
  qed (rule owner_same [OF assms(3)]; simp add: free_conns_def used_def)+
qed

section \<open>Reserved slots, the waiter count and the size\<close>

lemma slot_change:
  assumes "slot_inv s"
    and "\<And>k. reserves x k \<Longrightarrow> k < s_next_key p \<and> k \<in> reserved p \<and> (\<forall>j. j \<noteq> i \<longrightarrow> \<not> reserves (threads s j) k)"
    and "s_next_key (spool s) \<le> s_next_key p"
    and "\<And>j k. j \<noteq> i \<Longrightarrow> reserves (threads s j) k \<Longrightarrow> k \<in> reserved (spool s) \<Longrightarrow> k \<in> reserved p"
  shows "slot_inv (s\<lparr>spool := p, threads := (threads s)(i := x), born := B\<rparr>)"
proof -
  have old: "reserves (threads s j) k \<Longrightarrow> k < s_next_key (spool s) \<and> (sdown s \<or> k \<in> reserved (spool s))" for j k
    using assms(1) unfolding slot_inv_def by blast
  have uniq: "j = j'" if "reserves (threads s j) k" "reserves (threads s j') k" for j j' k
    using that assms(1) unfolding slot_inv_def by blast
  have "j = j'" if "reserves (((threads s)(i := x)) j) k" "reserves (((threads s)(i := x)) j') k" for j j' k
    using that assms(2) [of k] uniq [of j k j'] by (cases "j = i"; cases "j' = i") auto
  moreover have "k < s_next_key p \<and> (sdown s \<or> k \<in> reserved p)" if "reserves (((threads s)(i := x)) j) k" for j k
  proof (cases "j = i")
    case True
    then show ?thesis using that assms(2) by simp
  next
    case False
    then have "reserves (threads s j) k" using that by simp
    from old [OF this] assms(3,4) False this show ?thesis by force
  qed
  ultimately show ?thesis unfolding slot_inv_def by (simp del: fun_upd_apply)
qed

lemma slot_section:
  assumes "slot_inv s" "\<And>k. \<not> reserves (threads s i) k" "sync_section start d counted t q = (p, r)"
    and "s_in_use q = s_in_use (spool s)" "s_next_key q = s_next_key (spool s)"
  shows "slot_inv (s\<lparr>spool := p, threads := (threads s)(i := thread_of start d' counted r)\<rparr>)"
proof -
  have q: "reserved q = reserved (spool s)" by (simp add: reserved_def assms(4))
  have old: "reserves (threads s j) k \<Longrightarrow> k < s_next_key (spool s)" for j k
    using assms(1) unfolding slot_inv_def by blast
  have sets: "reserved q \<subseteq> reserved p" "s_next_key q \<le> s_next_key p"
    "r = Reserve k \<Longrightarrow> k = s_next_key q \<and> k < s_next_key p \<and> k \<in> reserved p" for k
    using assms(3) by (cases rule: sync_section_cases; auto simp: reserved_def set_keys_update simp del: set_map)+
  have "slot_inv (s\<lparr>spool := p, threads := (threads s)(i := thread_of start d' counted r), born := born s\<rparr>)"
  proof (rule slot_change [OF assms(1)])
    fix k assume "reserves (thread_of start d' counted r) k"
    then show "k < s_next_key p \<and> k \<in> reserved p \<and> (\<forall>j. j \<noteq> i \<longrightarrow> \<not> reserves (threads s j) k)"
      using sets(3) [of k] old assms(5) by auto
  qed (use sets(1,2) q assms(5) in auto)
  then show ?thesis unfolding born_same .
qed

lemma slot_drop:
  assumes "slot_inv s" "\<And>k. \<not> reserves x k" "s_next_key p = s_next_key (spool s)"
    and "reserved (spool s) \<subseteq> reserved p \<union> {k. reserves (threads s i) k}"
  shows "slot_inv (s\<lparr>spool := p, threads := (threads s)(i := x), born := B\<rparr>)"
proof (rule slot_change [OF assms(1)])
  fix j k assume "j \<noteq> i" "reserves (threads s j) k" "k \<in> reserved (spool s)"
  moreover have "\<not> reserves (threads s i) k" using calculation assms(1) unfolding slot_inv_def by blast
  ultimately show "k \<in> reserved p" using assms(4) by blast
qed (use assms(2,3) in auto)

lemma slot_same:
  assumes "slot_inv s" "threads s' = threads s" "s_next_key (spool s') = s_next_key (spool s)"
    and "sdown s' \<or> (sdown s' = sdown s \<and> reserved (spool s) \<subseteq> reserved (spool s'))"
  shows "slot_inv s'"
  using assms(1,4) unfolding slot_inv_def assms(2,3) by blast

lemma sstep_slot:
  assumes "sstep s s'" "slot_inv s"
  shows "slot_inv s'"
  using assms(1)
proof (cases rule: sstep.cases)
  case (call i start t p r)
  then have "\<not> reserves (threads s i) k" for k by simp
  with call show ?thesis using slot_section [OF assms(2) _ call(3)] by simp
next
  case (again i start deadline t p r)
  then have "\<not> reserves (threads s i) k" for k by simp
  with again show ?thesis using slot_section [OF assms(2) _ again(3)] by simp
next
  case (created i k start counted c elapsed t)
  show ?thesis unfolding created(1)
    by (rule slot_drop [OF assms(2)]) (auto simp: sync_create_sets created(2))
next
  case (create_fail i k start counted)
  have "slot_inv (s\<lparr>spool := spool s', threads := (threads s)(i := after counted None), born := born s\<rparr>)"
    by (rule slot_drop [OF assms(2)]) (auto simp: sync_create_failed_sets create_fail(1,2))
  then show ?thesis unfolding born_same using create_fail(1) by simp
next
  case (leave i r)
  have "slot_inv (s\<lparr>spool := spool s', threads := (threads s)(i := after False r), born := born s\<rparr>)"
    by (rule slot_drop [OF assms(2)]) (simp_all add: leave(1) reserved_def)
  then show ?thesis unfolding born_same using leave(1) by simp
next
  case (release i c broken)
  have "slot_inv (s\<lparr>spool := spool s', threads := (threads s)(i := Outside), born := born s\<rparr>)"
    by (rule slot_drop [OF assms(2)]) (simp_all add: release(1) sync_release_sets)
  then show ?thesis unfolding born_same using release(1) by simp
qed (rule slot_same [OF assms(2)]; simp add: reserved_def)+

lemma count_change:
  assumes "count_inv s"
    and "s_current_waiters p = s_current_waiters (spool s) + of_bool (counted_in x) - of_bool (counted_in (threads s i))"
  shows "count_inv (s\<lparr>spool := p, threads := (threads s)(i := x), born := B\<rparr>)"
proof -
  let ?A = "{j. counted_in (threads s j)}" and ?B = "{j. counted_in (((threads s)(i := x)) j)}"
  have A: "finite ?A" "s_current_waiters (spool s) = int (card ?A)" using assms(1) by (simp_all add: count_inv_def)
  have "finite ?B \<and> int (card ?B) = int (card ?A) + of_bool (counted_in x) - of_bool (counted_in (threads s i))"
  proof (cases "counted_in x")
    case True
    then have "?B = insert i ?A" by auto
    with A(1) True show ?thesis by (simp add: card_insert_if)
  next
    case False
    then have B: "?B = ?A - {i}" by auto
    show ?thesis
    proof (cases "counted_in (threads s i)")
      case True
      then have "Suc (card (?A - {i})) = card ?A" using A(1) by (intro card_Suc_Diff1) auto
      with A(1) False True show ?thesis unfolding B by simp
    next
      case outside: False
      then have "?A - {i} = ?A" by auto
      with A(1) False outside show ?thesis unfolding B by simp
    qed
  qed
  with A(2) assms(2) show ?thesis unfolding count_inv_def by (simp del: fun_upd_apply)
qed

lemma section_counts:
  "sync_section start d counted t q = (p, r) \<Longrightarrow>
   s_current_waiters p = s_current_waiters q + of_bool (counted_in (thread_of start d' counted r)) - of_bool counted"
  by (erule sync_section_cases; cases counted; simp)

lemma sstep_count:
  assumes "sstep s s'" "count_inv s"
  shows "count_inv s'"
  using assms(1)
proof (cases rule: sstep.cases)
  case (call i start t p r)
  have "count_inv (s\<lparr>spool := p, threads := (threads s)(i := thread_of start (start + s_timeout (spool s)) False r), born := born s\<rparr>)"
    by (rule count_change [OF assms(2)]) (use section_counts [OF call(3)] call(2) in simp)
  then show ?thesis unfolding born_same call(1) .
next
  case (again i start deadline t p r)
  have "count_inv (s\<lparr>spool := p, threads := (threads s)(i := thread_of start deadline True r), born := born s\<rparr>)"
    by (rule count_change [OF assms(2)]) (use section_counts [OF again(3)] again(2) in simp)
  then show ?thesis unfolding born_same again(1) .
next
  case (created i k start counted c elapsed t)
  show ?thesis unfolding created(1)
    by (rule count_change [OF assms(2)]) (simp add: sync_create_sets created(2))
next
  case (create_fail i k start counted)
  have "count_inv (s\<lparr>spool := spool s', threads := (threads s)(i := after counted None), born := born s\<rparr>)"
    by (rule count_change [OF assms(2)]) (simp add: sync_create_failed_sets create_fail(1,2))
  then show ?thesis unfolding born_same using create_fail(1) by simp
next
  case (leave i r)
  have "count_inv (s\<lparr>spool := spool s', threads := (threads s)(i := after False r), born := born s\<rparr>)"
    by (rule count_change [OF assms(2)]) (simp add: leave(1,2) del: after.simps)
  then show ?thesis unfolding born_same using leave(1) by simp
next
  case (release i c broken)
  have "count_inv (s\<lparr>spool := spool s', threads := (threads s)(i := Outside), born := born s\<rparr>)"
    by (rule count_change [OF assms(2)]) (simp add: sync_release_sets release(1,2))
  then show ?thesis unfolding born_same using release(1) by simp
qed (use assms(2) in \<open>simp_all add: count_inv_def\<close>)

lemma room_section:
  assumes "sync_section start d counted t p = (p', r)" "book_inv p"
    "int (length (s_in_use p)) + int (length (s_available p)) \<le> max 0 (sz_max (s_sizer p))"
  shows "int (length (s_in_use p')) + int (length (s_available p')) \<le> max 0 (sz_max (s_sizer p'))"
  using assms(1)
proof (cases rule: sync_section_cases)
  case (reuse x c rest pc)
  then show ?thesis using assms(3) by (auto simp: length_update max_def split: if_splits)
next
  case reserve
  then show ?thesis using assms(2) by (simp add: length_update book_inv_def sizer_ok_def)
qed (use assms(3) in simp_all)

lemma delete_slot_length:
  "wf_odict d \<Longrightarrow> k \<in> set (keys d) \<Longrightarrow> Suc (length (AList.delete k d)) = length d"
  using length_pos_if_in_set [of k "keys d"] by (simp add: length_delete)

lemma room_release:
  assumes "wf_odict (s_in_use p)"
  shows "length (s_in_use (fst (sync_release c b p))) + length (s_available (fst (sync_release c b p)))
    \<le> length (s_in_use p) + length (s_available p)"
proof (cases "map_of (s_in_use p) (OfConn c)")
  case None
  then show ?thesis by (simp add: sync_release_def length_delete_le)
next
  case (Some v)
  from delete_slot_length [OF assms map_of_Some_keys [OF Some]] Some show ?thesis
    by (cases v) (simp_all add: sync_release_def Let_def)
qed

lemma room_create:
  assumes "wf_odict (s_in_use p)" "k \<in> reserved p"
  shows "length (s_in_use (sync_create_done k c st e t p)) \<le> length (s_in_use p)"
proof -
  have "length (s_in_use (sync_create_done k c st e t p)) \<le> Suc (length (AList.delete (OfReservation k) (s_in_use p)))"
    by (simp add: sync_create_done_def length_update)
  also have "\<dots> = length (s_in_use p)"
    by (rule delete_slot_length) (use assms in \<open>simp_all add: reserved_def del: set_map\<close>)
  finally show ?thesis .
qed

lemma sstep_room:
  assumes "sstep s s'" "book_inv (spool s)" "slot_inv s" "room_inv s"
  shows "room_inv s'"
proof (cases "sdown s")
  case True
  with assms(1) have "sdown s'" by (cases rule: sstep.cases) simp_all
  then show ?thesis by (simp add: room_inv_def)
next
  case False
  with assms(4) have bound: "int (length (s_in_use (spool s))) + int (length (s_available (spool s)))
      \<le> max 0 (sz_max (s_sizer (spool s)))"
    by (simp add: room_inv_def)
  have ok: "wf_odict (s_in_use (spool s))" using assms(2) by (simp add: book_inv_def)
  from assms(1) show ?thesis
  proof (cases rule: sstep.cases)
    case (call i start t p r)
    then show ?thesis using room_section [OF call(3)] assms(2) bound by (simp add: room_inv_def)
  next
    case (again i start deadline t p r)
    then show ?thesis using room_section [OF again(3)] assms(2) bound by (simp add: room_inv_def)
  next
    case (created i k start counted c elapsed t)
    have "reserves (threads s i) k" by (simp add: created(2))
    then have "k \<in> reserved (spool s)" using assms(3) False unfolding slot_inv_def by blast
    from room_create [OF ok this, of c start elapsed t] created(1) bound show ?thesis
      by (simp add: room_inv_def sync_create_sets)
  next
    case (create_fail i k start counted)
    have "length (s_in_use (sync_create_failed k (spool s))) \<le> length (s_in_use (spool s))"
      by (simp add: sync_create_failed_def length_delete_le)
    with create_fail(1) bound show ?thesis by (simp add: room_inv_def sync_create_failed_sets)
  next
    case (release i c broken)
    then show ?thesis using room_release [OF ok, of c broken] bound
      by (simp add: room_inv_def sync_release_sets)
  qed (use bound in \<open>simp_all add: room_inv_def\<close>)
qed

lemma sstep_sizer_bounds:
  "sstep s s' \<Longrightarrow> sz_max (s_sizer (spool s')) = sz_max (s_sizer (spool s))"
  by (erule sstep.cases) (auto simp: sync_create_sets sync_create_failed_sets sync_release_sets elim!: sync_section_cases)

lemma sreach_inv:
  assumes "sreach mn mx tmo hist s" "mn \<le> mx"
  shows "ssys_inv s \<and> sz_max (s_sizer (spool s)) = mx"
  using assms(1)
proof (induction rule: sreach.induct)
  case start
  then show ?case using assms(2)
    by (simp add: ssys_inv_def ssys_new_def sync_new_def book_inv_def owner_inv_def slot_inv_def count_inv_def
        room_inv_def wf_odict_def sizer_ok_def sizer_new_def free_conns_def used_def reserved_def)
next
  case (step s s')
  then show ?case
    unfolding ssys_inv_def
    by (simp add: sstep_book [OF step.hyps(2)] sstep_owner [OF step.hyps(2)] sstep_slot [OF step.hyps(2)]
        sstep_count [OF step.hyps(2)] sstep_room [OF step.hyps(2)] sstep_sizer_bounds [OF step.hyps(2)])
qed

section \<open>Properties\<close>

text \<open>
  C9.  Whatever threads acquire, block, create, release and leave, in any order: no connection
  is held by two threads or both held and idle, and until \<open>close_all()\<close> runs, idle, used and
  reserved connections together do not exceed the maximum.
\<close>

theorem sync_pool_safety:
  assumes "sreach mn mx tmo hist s" "0 \<le> mn" "mn \<le> mx"
  shows "(\<forall>i c. holds (threads s i) c \<longrightarrow> c \<notin> free_conns (spool s) \<and> (\<forall>j. holds (threads s j) c \<longrightarrow> j = i))
     \<and> (sdown s \<or> int (length (s_in_use (spool s))) + int (length (s_available (spool s))) \<le> mx)"
proof -
  have inv: "owner_inv s" "room_inv s" "sz_max (s_sizer (spool s)) = mx"
    using sreach_inv [OF assms(1,3)] by (simp_all add: ssys_inv_def)
  have "\<forall>i c. holds (threads s i) c \<longrightarrow> c \<notin> free_conns (spool s) \<and> (\<forall>j. holds (threads s j) c \<longrightarrow> j = i)"
    using inv(1) unfolding owner_inv_def by blast
  with inv(2,3) assms(2,3) show ?thesis unfolding room_inv_def by auto
qed

text \<open>Thread 0 reserves a slot and creates connection 7.\<close>

definition reserving :: ssys where
  "reserving =
     (let s = ssys_new 1 2 5 None; t = \<lparr>at_record = 0, at_created = 0, at_checked_out = 0, at_remaining = 0, at_give_up = 0\<rparr>;
          a = sync_section 0 (0 + s_timeout (spool s)) False t (sync_begin (spool s))
      in s\<lparr>spool := fst a, threads := (threads s)(0 := thread_of 0 (0 + s_timeout (spool s)) False (snd a))\<rparr>)"

definition holding :: ssys where
  "holding =
     reserving\<lparr>spool := sync_create_done 0 7 0 0 \<lparr>at_record = 1, at_created = 1, at_checked_out = 1, at_remaining = 1,
                  at_give_up = 1\<rparr> (spool reserving),
               threads := (threads reserving)(0 := after False (Some 7)), born := insert 7 (born reserving)\<rparr>"

lemma reserving_reach: "sreach 1 2 5 None reserving"
  unfolding reserving_def Let_def
  by (rule sreach.step [OF sreach.start], rule sstep.call [OF _ surjective_pairing])
     (simp add: ssys_new_def)

lemma holding_reach: "sreach 1 2 5 None holding"
  unfolding holding_def
  by (rule sreach.step [OF reserving_reach], rule sstep.created)
     (simp_all add: reserving_def ssys_new_def sync_new_def sync_begin_def sync_section_def sizer_new_def Let_def)

theorem sync_pool_safety_witness:
  "holds (threads holding 0) 7 \<and> 7 \<notin> free_conns (spool holding) \<and> {j. holds (threads holding j) 7} = {0}
   \<and> int (length (s_in_use (spool holding))) + int (length (s_available (spool holding))) \<le> 2"
proof -
  have h: "holds (threads holding 0) 7" and "\<not> sdown holding"
    by (simp_all add: holding_def reserving_def ssys_new_def Let_def)
  with sync_pool_safety [OF holding_reach] show ?thesis by auto
qed

text \<open>
  The queue depth that the pool reports is exactly the number of threads inside
  \<open>acquire()\<close> that had to wait, whatever way they leave it: no path leaks a count.
\<close>

theorem sync_waiters_counted:
  assumes "sreach mn mx tmo hist s" "mn \<le> mx"
  shows "s_current_waiters (spool s) = int (card {i. counted_in (threads s i)})
     \<and> pm_queue_depth (snd (sync_metrics (spool s))) = card {i. counted_in (threads s i)}"
  using sreach_inv [OF assms] by (simp add: ssys_inv_def count_inv_def sync_metrics_def Let_def)

definition queued :: ssys where
  "queued =
     (let s = ssys_new 0 0 5 None; t = \<lparr>at_record = 0, at_created = 0, at_checked_out = 0, at_remaining = 0, at_give_up = 0\<rparr>;
          a = sync_section 0 (0 + s_timeout (spool s)) False t (sync_begin (spool s))
      in s\<lparr>spool := fst a, threads := (threads s)(0 := thread_of 0 (0 + s_timeout (spool s)) False (snd a))\<rparr>)"

lemma queued_reach: "sreach 0 0 5 None queued"
  unfolding queued_def Let_def
  by (rule sreach.step [OF sreach.start], rule sstep.call [OF _ surjective_pairing])
     (simp add: ssys_new_def)

theorem sync_waiters_counted_witness:
  "threads queued 0 = Blocked 0 5 \<and> int (card {i. counted_in (threads queued i)}) = 1"
proof -
  have "threads queued 0 = Blocked 0 5" "s_current_waiters (spool queued) = 1"
    by (simp_all add: queued_def ssys_new_def sync_new_def sync_begin_def sync_section_def sizer_new_def Let_def)
  with sync_waiters_counted [OF queued_reach] show ?thesis by simp
qed

text \<open>
  A pass through the loop gives up only when no connection is idle, the pool is at its size
  and the deadline of the whole call has passed, and it blocks no longer than until that deadline;
  otherwise it reuses an idle connection before it reserves a slot.
\<close>

theorem sync_section_deadline:
  assumes "sync_section start deadline counted t p = (p', r)"
  shows "(r = GiveUp \<longleftrightarrow> s_available p = [] \<and> sz_current (s_sizer p) \<le> int (length (s_in_use p))
            \<and> deadline \<le> at_remaining t)
     \<and> (\<forall>d. r = Block d \<longrightarrow> 0 < d \<and> at_remaining t + d = deadline)
     \<and> ((\<exists>c. r = Reuse c) \<longleftrightarrow> s_available p \<noteq> [])
     \<and> ((\<exists>k. r = Reserve k) \<longleftrightarrow> s_available p = [] \<and> int (length (s_in_use p)) < sz_current (s_sizer p))"
  using assms by (cases rule: sync_section_cases) auto

theorem sync_section_deadline_witness:
  "let t = \<lparr>at_record = 1, at_created = 1, at_checked_out = 1, at_remaining = 6, at_give_up = 6\<rparr>;
       p = (sync_new 1 1 5 None)\<lparr>s_in_use := [(OfReservation 0, None)]\<rparr>
   in snd (sync_section 1 6 True t p) = GiveUp"
proof -
  let ?t = "\<lparr>at_record = 1, at_created = 1, at_checked_out = 1, at_remaining = 6, at_give_up = 6\<rparr>"
  let ?p = "(sync_new 1 1 5 None)\<lparr>s_in_use := [(OfReservation 0, None)]\<rparr>"
  show ?thesis
    using sync_section_deadline [of 1 6 True ?t ?p, OF surjective_pairing]
    by (simp add: Let_def sync_new_def sizer_new_def)
qed

end
