(* ===== verification/Db_Settings.thy ===== *)
theory Db_Settings
  imports Prelude Regex
begin

text \<open>
  \<open>src/core/db/settings.py\<close>, \<open>src/core/db/config.py\<close> and \<open>src/core/db/registry.py\<close>: the cache
  and pool settings with their validation, the database configuration, the registry of adapter
  classes and the lookup by which a session builds its adapter
  (\<open>DatabaseSession._create_adapter\<close> in \<open>src/core/db/session.py\<close>).  Adapter classes are numbered.
\<close>

section \<open>Settings\<close>

datatype cache_strategy = StrategyNone | StrategyLru | StrategyTtl | StrategyHybrid

record cache_settings =
  cs_enabled :: bool
  cs_strategy :: cache_strategy
  cs_max_size :: int
  cs_ttl_seconds :: int
  cs_eviction_policy :: string

definition default_cache_settings :: cache_settings where
  "default_cache_settings = \<lparr>cs_enabled = False, cs_strategy = StrategyNone, cs_max_size = 256,
     cs_ttl_seconds = 3600, cs_eviction_policy = ''lru''\<rparr>"

definition cache_settings_validate :: "cache_settings \<Rightarrow> unit result" where
  "cache_settings_validate c =
     (if cs_max_size c \<le> 0 then Inl (ValueError ''max_size must be positive'')
      else if cs_ttl_seconds c \<le> 0 then Inl (ValueError ''ttl_seconds must be positive'')
      else if cs_strategy c = StrategyNone \<and> cs_enabled c then Inl (ValueError ''Cannot enable cache with NONE strategy'')
      else Inr ())"

record pool_settings =
  ps_min_size :: int
  ps_max_size :: int
  ps_max_overflow :: int
  ps_timeout :: int
  ps_recycle_interval :: "int option"
  ps_echo :: bool

definition default_pool_settings :: pool_settings where
  "default_pool_settings = \<lparr>ps_min_size = 1, ps_max_size = 20, ps_max_overflow = 10, ps_timeout = 30,
     ps_recycle_interval = None, ps_echo = False\<rparr>"

definition pool_settings_validate :: "pool_settings \<Rightarrow> unit result" where
  "pool_settings_validate p =
     (if ps_min_size p \<le> 0 then Inl (ValueError ''min_size must be positive'')
      else if ps_max_size p \<le> 0 then Inl (ValueError ''max_size must be positive'')
      else if ps_min_size p > ps_max_size p then Inl (ValueError ''min_size cannot exceed max_size'')
      else if ps_max_overflow p < 0 then Inl (ValueError ''max_overflow cannot be negative'')
      else if ps_timeout p \<le> 0 then Inl (ValueError ''timeout must be positive'')
      else if (case ps_recycle_interval p of None \<Rightarrow> False | Some r \<Rightarrow> r \<le> 0)
        then Inl (ValueError ''recycle_interval must be positive if set'')
      else Inr ())"

text \<open>\<open>None\<close> stands for an argument that was not given; \<open>__post_init__\<close> replaces it.\<close>

record database_settings =
  ds_cache :: "cache_settings option"
  ds_pool :: "pool_settings option"
  ds_enable_metrics :: bool
  ds_enable_tracing :: bool

definition settings_post_init :: "database_settings \<Rightarrow> database_settings" where
  "settings_post_init s =
     s\<lparr>ds_cache := Some (case ds_cache s of None \<Rightarrow> default_cache_settings | Some c \<Rightarrow> c),
       ds_pool := Some (case ds_pool s of None \<Rightarrow> default_pool_settings | Some p \<Rightarrow> p)\<rparr>"

definition default_settings :: database_settings where
  "default_settings = settings_post_init
     \<lparr>ds_cache = None, ds_pool = None, ds_enable_metrics = True, ds_enable_tracing = False\<rparr>"

text \<open>\<open>validate\<close> of a missing part raises: \<open>None\<close> has no such method.\<close>

definition settings_validate :: "database_settings \<Rightarrow> unit result" where
  "settings_validate s =
     (case ds_cache s of None \<Rightarrow> Inl (OtherError ''AttributeError'') | Some c \<Rightarrow>
       case cache_settings_validate c of Inl e \<Rightarrow> Inl e | Inr _ \<Rightarrow>
         case ds_pool s of None \<Rightarrow> Inl (OtherError ''AttributeError'') | Some p \<Rightarrow> pool_settings_validate p)"

section \<open>Configuration\<close>

datatype database_type = SQLITE | DUCKDB

fun type_value :: "database_type \<Rightarrow> string" where
  "type_value SQLITE = ''sqlite''"
| "type_value DUCKDB = ''duckdb''"

record database_config =
  dc_db_type :: database_type
  dc_connection_string :: string
  dc_pool_size :: int
  dc_max_overflow :: int
  dc_echo :: bool
  dc_timeout :: int
  dc_settings :: database_settings

definition effective_pool_size :: "int option \<Rightarrow> database_settings \<Rightarrow> int" where
  "effective_pool_size pool_size s =
     py_or_int (case ds_pool s of None \<Rightarrow> None | Some p \<Rightarrow> Some (ps_max_size p)) (py_or_int pool_size 5)"

definition from_sqlite :: "string \<Rightarrow> int option \<Rightarrow> int \<Rightarrow> bool \<Rightarrow> database_settings option \<Rightarrow> database_config" where
  "from_sqlite path pool_size max_overflow echo settings =
     (let s = (case settings of None \<Rightarrow> default_settings | Some s \<Rightarrow> s)
      in \<lparr>dc_db_type = SQLITE, dc_connection_string = ''sqlite:///'' @ path,
          dc_pool_size = effective_pool_size pool_size s, dc_max_overflow = max_overflow, dc_echo = echo,
          dc_timeout = 30, dc_settings = s\<rparr>)"

definition from_duckdb :: "string \<Rightarrow> int option \<Rightarrow> int \<Rightarrow> bool \<Rightarrow> database_settings option \<Rightarrow> database_config" where
  "from_duckdb path pool_size max_overflow echo settings =
     (let s = (case settings of None \<Rightarrow> default_settings | Some s \<Rightarrow> s)
      in \<lparr>dc_db_type = DUCKDB, dc_connection_string = ''duckdb:///'' @ path,
          dc_pool_size = effective_pool_size pool_size s, dc_max_overflow = max_overflow, dc_echo = echo,
          dc_timeout = 30, dc_settings = s\<rparr>)"

text \<open>The bounds and the timeout with which a session builds its pool.\<close>

definition pool_parameters :: "database_config \<Rightarrow> int \<times> int \<times> int" where
  "pool_parameters c =
     (case ds_pool (dc_settings c) of
        Some p \<Rightarrow> (ps_min_size p, ps_max_size p, ps_timeout p)
      | None \<Rightarrow> (1, dc_pool_size c, dc_timeout c))"

section \<open>Adapter registry\<close>

type_synonym adapter_class = nat

record adapter_registry =
  reg_adapters :: "(string, adapter_class) odict"
  reg_instances :: "(string, nat) odict"

definition registry_new :: adapter_registry where
  "registry_new = \<lparr>reg_adapters = [], reg_instances = []\<rparr>"

definition is_registered :: "string \<Rightarrow> adapter_registry \<Rightarrow> bool" where
  "is_registered name r \<longleftrightarrow> map_of (reg_adapters r) name \<noteq> None"

definition register_adapter :: "string \<Rightarrow> adapter_class \<Rightarrow> adapter_registry \<Rightarrow> adapter_registry result" where
  "register_adapter name cls r =
     (if is_registered name r then Inl (ValueError (''Adapter '' @ name @ '' already registered''))
      else Inr (r\<lparr>reg_adapters := AList.update name cls (reg_adapters r)\<rparr>))"

definition unregister_adapter :: "string \<Rightarrow> adapter_registry \<Rightarrow> adapter_registry result" where
  "unregister_adapter name r =
     (if \<not> is_registered name r then Inl (ValueError (''Adapter '' @ name @ '' not found''))
      else Inr (r\<lparr>reg_adapters := AList.delete name (reg_adapters r),
                  reg_instances := AList.delete name (reg_instances r)\<rparr>))"

definition get_adapter_class :: "string \<Rightarrow> adapter_registry \<Rightarrow> adapter_class result" where
  "get_adapter_class name r =
     (case map_of (reg_adapters r) name of
        None \<Rightarrow> Inl (ValueError (''Adapter '' @ name @ '' not found''))
      | Some cls \<Rightarrow> Inr cls)"

definition list_adapters :: "adapter_registry \<Rightarrow> string list" where
  "list_adapters r = keys (reg_adapters r)"

definition clear_registry :: "adapter_registry \<Rightarrow> adapter_registry" where
  "clear_registry r = r\<lparr>reg_adapters := [], reg_instances := []\<rparr>"

definition register_builtin_adapters :: "adapter_class \<Rightarrow> adapter_class \<Rightarrow> adapter_registry \<Rightarrow> adapter_registry result" where
  "register_builtin_adapters duckdb sqlite r =
     (case (if is_registered ''duckdb'' r then Inr r else register_adapter ''duckdb'' duckdb r) of
        Inl e \<Rightarrow> Inl e
      | Inr r1 \<Rightarrow> if is_registered ''sqlite'' r1 then Inr r1 else register_adapter ''sqlite'' sqlite r1)"

text \<open>The adapter a session builds: its class, the path and the echo flag of the constructor call.\<close>

definition create_adapter :: "adapter_registry \<Rightarrow> database_config \<Rightarrow> (adapter_class \<times> string \<times> bool) result" where
  "create_adapter r c =
     (let db_type = type_value (dc_db_type c) in
      case get_adapter_class db_type r of
        Inl _ \<Rightarrow> Inl (ValueError (''Unsupported database type configured: '' @ db_type))
      | Inr cls \<Rightarrow>
          let prefix = db_type @ '':///''; path = dc_connection_string c
          in Inr (cls, if starts_with prefix path then drop (length prefix) path else path, dc_echo c))"

section \<open>Properties\<close>

text \<open>
  A configuration built for a path gives that path back, whatever it holds (a path that
  itself starts with a scheme included), to the class registered for its database type; a type
  with no registered class is a \<open>ValueError\<close>.
\<close>

theorem create_adapter_path_roundtrip:
  "create_adapter r (from_duckdb path n ov echo s) =
     (case map_of (reg_adapters r) ''duckdb'' of
        None \<Rightarrow> Inl (ValueError ''Unsupported database type configured: duckdb'')
      | Some cls \<Rightarrow> Inr (cls, path, echo))
   \<and> create_adapter r (from_sqlite path n ov echo s) =
     (case map_of (reg_adapters r) ''sqlite'' of
        None \<Rightarrow> Inl (ValueError ''Unsupported database type configured: sqlite'')
      | Some cls \<Rightarrow> Inr (cls, path, echo))"
  by (simp add: create_adapter_def from_duckdb_def from_sqlite_def get_adapter_class_def Let_def
      split: option.splits)

text \<open>
  Settings whose validation succeeds give the pool bounds on which its size invariants rest.
\<close>

lemma validated_settings_bounds:
  "settings_validate (dc_settings c) = Inr () \<Longrightarrow>
   (case pool_parameters c of (mn, mx, tmo) \<Rightarrow> 0 < mn \<and> mn \<le> mx \<and> 0 < tmo)"
  by (auto simp: settings_validate_def pool_parameters_def pool_settings_validate_def
      split: option.splits sum.splits if_splits)

text \<open>Construction does not validate: settings with crossed bounds are built and only \<open>validate\<close> rejects them.\<close>

theorem post_init_keeps_invalid_settings:
  "\<exists>s. settings_post_init s = s \<and> settings_validate s \<noteq> Inr ()
     \<and> pool_parameters (from_duckdb path n ov echo (Some s)) = (5, 1, 30)"
proof -
  let ?s = "\<lparr>ds_cache = Some default_cache_settings, ds_pool = Some (default_pool_settings\<lparr>ps_min_size := 5, ps_max_size := 1\<rparr>),
     ds_enable_metrics = True, ds_enable_tracing = False\<rparr>"
  have "settings_post_init ?s = ?s" by (simp add: settings_post_init_def)
  moreover have "settings_validate ?s \<noteq> Inr ()"
    by (simp add: settings_validate_def cache_settings_validate_def pool_settings_validate_def
        default_cache_settings_def default_pool_settings_def)
  moreover have "pool_parameters (from_duckdb path n ov echo (Some ?s)) = (5, 1, 30)"
    by (simp add: pool_parameters_def from_duckdb_def default_pool_settings_def Let_def)
  ultimately show ?thesis by blast
qed

lemma register_then_get:
  "register_adapter name cls r = Inr r' \<Longrightarrow>
   get_adapter_class name r' = Inr cls \<and> (name' \<noteq> name \<longrightarrow> get_adapter_class name' r' = get_adapter_class name' r)"
  by (auto simp: register_adapter_def get_adapter_class_def map_of_update split: if_splits)

lemma builtin_adapters_registered:
  "\<exists>r'. register_builtin_adapters d s r = Inr r' \<and> is_registered ''duckdb'' r' \<and> is_registered ''sqlite'' r'
     \<and> (\<forall>name. is_registered name r \<longrightarrow> get_adapter_class name r' = get_adapter_class name r)"
  by (auto simp: register_builtin_adapters_def register_adapter_def is_registered_def get_adapter_class_def
      map_of_update split: option.splits)

end
