(* ===== verification/Session.thy ===== *)
theory Session
  imports Async_Pool Sync_Pool Db_Settings
begin

text \<open>
  \<open>src/core/db/session.py\<close> and \<open>src/core/db/transactions.py\<close> with their instrumented
  counterparts in \<open>src/core/performance/adapters/transactions.py\<close>: how a session and a
  transaction end (rollback, eviction of broken connections, release), and the warm-up of a pool.
  What the driver does (\<open>connection.rollback()\<close>, \<open>execute\<close>) is a parameter.  The locale
  \<open>conn_pool\<close> is what sessions rely on, \<open>warm_pool\<close> what warm-up relies on; both pools provide them.
\<close>

section \<open>Raised exceptions\<close>

text \<open>
  An exception as sessions see it: the name of its type, its text, and whether it is an
  \<open>Exception\<close> (cancellation and interrupts are only \<open>BaseException\<close>s).
\<close>

record raised =
  rz_type :: string
  rz_message :: string
  rz_exception :: bool

definition max_connections_exceeded :: raised where
  "max_connections_exceeded = \<lparr>rz_type = ''MaxConnectionsExceeded'', rz_message = [], rz_exception = True\<rparr>"

section \<open>Rollback\<close>

text \<open>\<open>rb\<close> is what \<open>adapter.connection.rollback()\<close> raises.\<close>

definition safe_rollback :: "bool \<Rightarrow> raised option \<Rightarrow> raised option" where
  "safe_rollback has_connection rb =
     (if has_connection
      then (case rb of None \<Rightarrow> None | Some e \<Rightarrow> if rz_exception e then None else Some e)
      else None)"

definition sync_session_rollback :: "bool \<Rightarrow> raised option \<Rightarrow> raised option" where
  "sync_session_rollback has_connection rb = safe_rollback has_connection rb"

text \<open>The async wrapper runs it on the executor, which itself may raise (\<open>ex\<close>).\<close>

definition async_session_rollback :: "raised option \<Rightarrow> bool \<Rightarrow> raised option \<Rightarrow> raised option" where
  "async_session_rollback ex has_connection rb =
     (case ex of Some e \<Rightarrow> Some e | None \<Rightarrow> safe_rollback has_connection rb)"

section \<open>The session context managers\<close>

record session_stats =
  pool_requests :: nat
  pool_timeouts :: nat
  pool_waits :: "seconds list"
  pool_active :: int

definition session_enter :: "raised + conn \<Rightarrow> seconds \<Rightarrow> session_stats \<Rightarrow> session_stats" where
  "session_enter acquired wait st =
     (let st1 = st\<lparr>pool_requests := Suc (pool_requests st)\<rparr>;
          st2 = (case acquired of
                   Inl e \<Rightarrow> if e = max_connections_exceeded then st1\<lparr>pool_timeouts := Suc (pool_timeouts st1)\<rparr> else st1
                 | Inr _ \<Rightarrow> st1);
          st3 = st2\<lparr>pool_waits := pool_waits st2 @ [wait]\<rparr>
      in case acquired of Inl _ \<Rightarrow> st3 | Inr _ \<Rightarrow> st3\<lparr>pool_active := pool_active st3 + 1\<rparr>)"

text \<open>
  The end of the body: \<open>body\<close> is what it raised, \<open>rb\<close> what \<open>session.rollback()\<close> raises if it is
  called.  The results: \<open>broken_connection\<close>, whether a rollback ran, and what is raised.
\<close>

definition finish_body :: "raised option \<Rightarrow> raised option \<Rightarrow> bool \<times> bool \<times> raised option" where
  "finish_body body rb =
     (case body of
        None \<Rightarrow> (False, False, None)
      | Some e \<Rightarrow>
          if \<not> rz_exception e then (False, False, Some e)
          else if is_connection_level_error (rz_type e) (rz_message e) then (True, False, Some e)
          else (case rb of
                  None \<Rightarrow> (False, True, Some e)
                | Some e' \<Rightarrow> if rz_exception e' then (True, True, Some e) else (False, True, Some e')))"

definition session_exit ::
  "(conn \<Rightarrow> bool \<Rightarrow> 'p \<Rightarrow> 'p) \<Rightarrow> conn \<Rightarrow> raised option \<Rightarrow> raised option \<Rightarrow> 'p \<Rightarrow> session_stats \<Rightarrow> 'p \<times> session_stats \<times> raised option" where
  "session_exit give c body rb p st =
     (let f = finish_body body rb
      in (give c (fst f) p, st\<lparr>pool_active := pool_active st - 1\<rparr>, snd (snd f)))"

definition async_give :: "conn \<Rightarrow> bool \<Rightarrow> async_pool \<Rightarrow> async_pool" where
  "async_give c b p = fst (release c b p)"

definition sync_give :: "conn \<Rightarrow> bool \<Rightarrow> sync_pool \<Rightarrow> sync_pool" where
  "sync_give c b p = fst (sync_release c b p)"

definition async_session_exit ::
  "conn \<Rightarrow> raised option \<Rightarrow> raised option \<Rightarrow> bool \<Rightarrow> raised option \<Rightarrow> async_pool \<Rightarrow> session_stats \<Rightarrow> async_pool \<times> session_stats \<times> raised option" where
  "async_session_exit c body ex has_connection rb =
     session_exit async_give c body (async_session_rollback ex has_connection rb)"

definition sync_session_exit ::
  "conn \<Rightarrow> raised option \<Rightarrow> bool \<Rightarrow> raised option \<Rightarrow> sync_pool \<Rightarrow> session_stats \<Rightarrow> sync_pool \<times> session_stats \<times> raised option" where
  "sync_session_exit c body has_connection rb =
     session_exit sync_give c body (sync_session_rollback has_connection rb)"

section \<open>Warm-up\<close>

text \<open>One \<open>acquire()\<close> while nobody else uses the pool; \<open>new\<close> is what creating a connection gives.\<close>

datatype taken = Took conn | Full | Failed raised

definition sync_take :: "seconds \<Rightarrow> seconds \<Rightarrow> clocks \<Rightarrow> raised + conn \<Rightarrow> sync_pool \<Rightarrow> sync_pool \<times> taken" where
  "sync_take start elapsed t new p =
     (let deadline = start + s_timeout p in
      case sync_section start deadline False t (sync_begin p) of
        (p1, Reuse c) \<Rightarrow> (p1, Took c)
      | (p1, Reserve k) \<Rightarrow>
          (case new of Inr c \<Rightarrow> (sync_create_done k c start elapsed t p1, Took c)
           | Inl e \<Rightarrow> (sync_create_failed k p1, Failed e))
      | (p1, GiveUp) \<Rightarrow> (sync_finally p1, Full)
      | (p1, Block _) \<Rightarrow>
          (sync_finally (fst (sync_section start deadline True (t\<lparr>at_remaining := deadline\<rparr>) p1)), Full))"

definition async_take :: "seconds \<Rightarrow> seconds \<Rightarrow> seconds \<Rightarrow> clock3 \<Rightarrow> raised + conn \<Rightarrow> async_pool \<Rightarrow> async_pool \<times> taken" where
  "async_take start elapsed late t new p =
     (case acquire_section start t (begin_acquire p) of
        (p1, Got c) \<Rightarrow> (p1, Took c)
      | (p1, Reserved k) \<Rightarrow>
          (case new of Inr c \<Rightarrow> (create_done k c start elapsed t p1, Took c)
           | Inl e \<Rightarrow> (create_failed k p1, Failed e))
      | (p1, MustWait w) \<Rightarrow> (acquire_timeout w start late p1, Full))"

fun warm_loop :: "(raised + conn \<Rightarrow> 'p \<Rightarrow> 'p \<times> taken) \<Rightarrow> (raised + conn) list \<Rightarrow> 'p \<Rightarrow> 'p \<times> conn list \<times> raised option" where
  "warm_loop acquire [] p = (p, [], None)"
| "warm_loop acquire (new # news) p =
     (case acquire new p of
        (p1, Took c) \<Rightarrow> (case warm_loop acquire news p1 of (p2, cs, e) \<Rightarrow> (p2, c # cs, e))
      | (p1, Full) \<Rightarrow> (p1, [], None)
      | (p1, Failed e) \<Rightarrow> (p1, [], Some e))"

text \<open>\<open>news\<close> lists what each creation in turn would give, at least as many as are asked for.\<close>

definition warmup ::
  "(raised + conn \<Rightarrow> 'p \<Rightarrow> 'p \<times> taken) \<Rightarrow> (conn \<Rightarrow> bool \<Rightarrow> 'p \<Rightarrow> 'p) \<Rightarrow> ('p \<Rightarrow> sizer) \<Rightarrow> (sizer \<Rightarrow> 'p \<Rightarrow> 'p)
     \<Rightarrow> int \<Rightarrow> int option \<Rightarrow> (raised + conn) list \<Rightarrow> 'p \<Rightarrow> 'p \<times> (raised + nat)" where
  "warmup acquire give sizer_of set_sizer cfg_max target_arg news p =
     (let z = sizer_of p;
          target = min (py_or_int target_arg cfg_max) (sz_max z);
          p1 = set_sizer (z\<lparr>sz_current := max (sz_current z) target\<rparr>) p
      in case warm_loop acquire (take (nat target) news) p1 of
           (p2, cs, e) \<Rightarrow> (fold (\<lambda>c. give c False) cs p2,
                          (case e of Some x \<Rightarrow> Inl x | None \<Rightarrow> Inr (length cs))))"

definition warmup_sync ::
  "seconds \<Rightarrow> seconds \<Rightarrow> clocks \<Rightarrow> int \<Rightarrow> int option \<Rightarrow> (raised + conn) list \<Rightarrow> sync_pool \<Rightarrow> sync_pool \<times> (raised + nat)" where
  "warmup_sync start elapsed t =
     warmup (sync_take start elapsed t) sync_give s_sizer (\<lambda>z p. p\<lparr>s_sizer := z\<rparr>)"

definition warmup_async ::
  "seconds \<Rightarrow> seconds \<Rightarrow> seconds \<Rightarrow> clock3 \<Rightarrow> int \<Rightarrow> int option \<Rightarrow> (raised + conn) list \<Rightarrow> async_pool \<Rightarrow> async_pool \<times> (raised + nat)" where
  "warmup_async start elapsed late t =
     warmup (async_take start elapsed late t) async_give pool_sizer (\<lambda>z p. p\<lparr>pool_sizer := z\<rparr>)"

section \<open>Transactions\<close>

text \<open>
  \<open>run h s\<close> is what executing statement \<open>s\<close> after the statements \<open>h\<close> raises; the body runs
  \<open>stmts\<close> and then raises \<open>raised\<close>, if anything.  The result is the statements sent to the
  connection, what leaves the context manager, and the \<open>broken\<close> flag of the final release.
\<close>

definition transaction ::
  "(string list \<Rightarrow> string \<Rightarrow> raised option) \<Rightarrow> bool \<Rightarrow> string list \<Rightarrow> raised option \<Rightarrow> string list \<times> raised option \<times> bool" where
  "transaction run has_execute stmts body =
     (let s1 = (if has_execute then ([''BEGIN''], run [] ''BEGIN'') else ([], None));
          s2 = (case snd s1 of Some e \<Rightarrow> s1 | None \<Rightarrow> (fst s1 @ stmts, body));
          s3 = (case snd s2 of Some e \<Rightarrow> s2
                | None \<Rightarrow> if has_execute then (fst s2 @ [''COMMIT''], run (fst s2) ''COMMIT'') else s2);
          s4 = (case snd s3 of None \<Rightarrow> s3
                | Some e \<Rightarrow>
                    if \<not> rz_exception e \<or> \<not> has_execute then s3
                    else (fst s3 @ [''ROLLBACK''],
                          (case run (fst s3) ''ROLLBACK'' of None \<Rightarrow> Some e
                           | Some e' \<Rightarrow> if rz_exception e' then Some e else Some e')))
      in (fst s4, snd s4, False))"

text \<open>
  The instrumented transaction: each statement runs under a profiler stage when a profiler is
  bound.  The extra result lists the stages that were timed.
\<close>

datatype tx_stage = TransactionBegin | TransactionCommit | TransactionRollback

definition staged :: "bool \<Rightarrow> tx_stage \<Rightarrow> (string list \<Rightarrow> string \<Rightarrow> raised option) \<Rightarrow> string list \<Rightarrow> string \<Rightarrow> raised option \<times> tx_stage list" where
  "staged profiled stage run h s = (run h s, if profiled then [stage] else [])"

definition instrumented_transaction ::
  "bool \<Rightarrow> (string list \<Rightarrow> string \<Rightarrow> raised option) \<Rightarrow> bool \<Rightarrow> string list \<Rightarrow> raised option
     \<Rightarrow> (string list \<times> raised option \<times> bool) \<times> tx_stage list" where
  "instrumented_transaction profiled run has_execute stmts body =
     (let r1 = (if has_execute then staged profiled TransactionBegin run [] ''BEGIN'' else (None, []));
          h1 = (if has_execute then [''BEGIN''] else []);
          s2 = (case fst r1 of Some e \<Rightarrow> (h1, Some e) | None \<Rightarrow> (h1 @ stmts, body));
          r3 = (case snd s2 of Some e \<Rightarrow> (Some e, [])
                | None \<Rightarrow> if has_execute then staged profiled TransactionCommit run (fst s2) ''COMMIT'' else (None, []));
          h3 = (if snd s2 = None \<and> has_execute then fst s2 @ [''COMMIT''] else fst s2);
          r4 = (case fst r3 of None \<Rightarrow> (h3, None, [])
                | Some e \<Rightarrow>
                    if \<not> rz_exception e \<or> \<not> has_execute then (h3, Some e, [])
                    else (let r = staged profiled TransactionRollback run h3 ''ROLLBACK''
                          in (h3 @ [''ROLLBACK''],
                              (case fst r of None \<Rightarrow> Some e
                               | Some e' \<Rightarrow> if rz_exception e' then Some e else Some e'), snd r)))
      in ((fst r4, fst (snd r4), False), snd r1 @ snd r3 @ snd (snd r4)))"

section \<open>The interface of a pool\<close>

locale conn_pool =
  fixes give :: "conn \<Rightarrow> bool \<Rightarrow> 'p \<Rightarrow> 'p"
    and ok :: "'p \<Rightarrow> bool"
    and idle_set busy_set :: "'p \<Rightarrow> conn set"
    and slots :: "'p \<Rightarrow> nat"
    and limit :: "'p \<Rightarrow> int"
  assumes give_back: "ok p \<Longrightarrow> c \<in> busy_set p \<Longrightarrow>
      ok (give c b p) \<and> busy_set (give c b p) = busy_set p - {c}
      \<and> idle_set (give c b p) = (if b then idle_set p else insert c (idle_set p))
      \<and> Suc (slots (give c b p)) = slots p \<and> limit (give c b p) = limit p"
begin

lemma exit_returns:
  assumes "ok p" "c \<in> busy_set p" "c \<notin> idle_set p" "session_exit give c body rb p st = (p', st', e)"
  shows "c \<notin> busy_set p' \<and> (c \<in> idle_set p' \<longleftrightarrow> \<not> fst (finish_body body rb))
    \<and> busy_set p' = busy_set p - {c} \<and> pool_active st' = pool_active st - 1"
  using assms give_back [OF assms(1,2)] by (auto simp: session_exit_def Let_def)

lemma give_all:
  assumes "ok p" "distinct cs" "set cs \<subseteq> busy_set p"
  shows "ok (fold (\<lambda>c. give c False) cs p) \<and> busy_set (fold (\<lambda>c. give c False) cs p) = busy_set p - set cs
    \<and> idle_set (fold (\<lambda>c. give c False) cs p) = idle_set p \<union> set cs
    \<and> slots (fold (\<lambda>c. give c False) cs p) + length cs = slots p \<and> limit (fold (\<lambda>c. give c False) cs p) = limit p"
  using assms
proof (induction cs arbitrary: p)
  case (Cons c cs)
  let ?q = "give c False p"
  have "c \<in> busy_set p" using Cons.prems(3) by simp
  note q = give_back [OF Cons.prems(1) this, of False]
  have "set cs \<subseteq> busy_set ?q" using Cons.prems(2,3) q by auto
  from Cons.IH [OF _ _ this] q Cons.prems(2) show ?case by auto
qed simp

end

locale warm_pool = conn_pool give ok idle_set busy_set slots limit
  for give :: "conn \<Rightarrow> bool \<Rightarrow> 'p \<Rightarrow> 'p" and ok idle_set busy_set slots limit +
  fixes acquire :: "raised + conn \<Rightarrow> 'p \<Rightarrow> 'p \<times> taken"
  assumes take_new: "ok p \<Longrightarrow> idle_set p = {} \<Longrightarrow> int (slots p) < limit p \<Longrightarrow> c \<notin> busy_set p \<Longrightarrow>
      \<exists>p'. acquire (Inr c) p = (p', Took c) \<and> ok p' \<and> idle_set p' = {} \<and> busy_set p' = insert c (busy_set p)
        \<and> slots p' = Suc (slots p) \<and> limit p' = limit p"
begin

lemma warm_loop_takes:
  assumes "ok p" "idle_set p = {}" "int (slots p + length cs) \<le> limit p" "distinct cs" "set cs \<inter> busy_set p = {}"
  shows "\<exists>p'. warm_loop acquire (map Inr cs) p = (p', cs, None) \<and> ok p' \<and> idle_set p' = {}
     \<and> busy_set p' = busy_set p \<union> set cs \<and> slots p' = slots p + length cs \<and> limit p' = limit p"
  using assms
proof (induction cs arbitrary: p)
  case (Cons c cs)
  have "int (slots p) < limit p" "c \<notin> busy_set p" using Cons.prems(3,5) by auto
  from take_new [OF Cons.prems(1,2) this] obtain q where q: "acquire (Inr c) p = (q, Took c)" "ok q" "idle_set q = {}"
      "busy_set q = insert c (busy_set p)" "slots q = Suc (slots p)" "limit q = limit p"
    by blast
  have "\<exists>p'. warm_loop acquire (map Inr cs) q = (p', cs, None) \<and> ok p' \<and> idle_set p' = {}
     \<and> busy_set p' = busy_set q \<union> set cs \<and> slots p' = slots q + length cs \<and> limit p' = limit q"
    by (rule Cons.IH [OF q(2,3)]) (use q Cons.prems(3-5) in auto)
  then show ?case using q by auto
qed simp

text \<open>Warming an empty pool leaves exactly the new connections, all idle.\<close>

lemma warm_fills:
  assumes "ok p" "idle_set p = {}" "slots p = 0" "distinct cs" "int (length cs) \<le> limit p" "busy_set p = {}"
  shows "\<exists>q. warm_loop acquire (map Inr cs) p = (q, cs, None)
     \<and> idle_set (fold (\<lambda>c. give c False) cs q) = set cs
     \<and> slots (fold (\<lambda>c. give c False) cs q) = 0 \<and> limit (fold (\<lambda>c. give c False) cs q) = limit p"
proof -
  have "\<exists>q. warm_loop acquire (map Inr cs) p = (q, cs, None) \<and> ok q \<and> idle_set q = {}
     \<and> busy_set q = busy_set p \<union> set cs \<and> slots q = slots p + length cs \<and> limit q = limit p"
    by (rule warm_loop_takes) (use assms in auto)
  then obtain q where q: "warm_loop acquire (map Inr cs) p = (q, cs, None)" "ok q" "idle_set q = {}"
      "busy_set q = set cs" "slots q = length cs" "limit q = limit p" using assms(3,6) by auto
  with give_all [OF q(2) assms(4)] show ?thesis by auto
qed

end

section \<open>Both pools provide it\<close>

definition async_ok :: "async_pool \<Rightarrow> bool" where
  "async_ok p \<longleftrightarrow> wf_odict (in_use p) \<and> (\<forall>k. Placeholder k \<in> set (keys (in_use p)) \<longrightarrow> k < next_obj p)
     \<and> (\<forall>c. map_of (in_use p) (ConnObj c) \<noteq> Some None)"

definition async_idle :: "async_pool \<Rightarrow> conn set" where
  "async_idle p = set (heap_conns (available p))"

definition async_busy :: "async_pool \<Rightarrow> conn set" where
  "async_busy p = {c. \<exists>pc. map_of (in_use p) (ConnObj c) = Some (Some pc)}"

interpretation async_cp: conn_pool async_give async_ok async_idle async_busy
    "\<lambda>p. length (in_use p)" "\<lambda>p. sz_current (pool_sizer p)"
proof
  fix p c b
  assume p: "async_ok p" and c: "c \<in> async_busy p"
  then obtain pc where pc: "map_of (in_use p) (ConnObj c) = Some (Some pc)" by (auto simp: async_busy_def)
  have len: "Suc (length (AList.delete (ConnObj c) (in_use p))) = length (in_use p)"
    using p map_of_Some_keys [OF pc] by (intro delete_key_length) (simp_all add: async_ok_def)
  have del: "async_busy q = async_busy p - {c}" if "in_use q = AList.delete (ConnObj c) (in_use p)" for q
    by (auto simp: async_busy_def that map_of_delete)
  have ok: "async_ok q" if "in_use q = AList.delete (ConnObj c) (in_use p)" "next_obj q = next_obj p" for q
    using p by (auto simp: async_ok_def that set_keys_delete map_of_delete simp del: set_map)
  show "async_ok (async_give c b p) \<and> async_busy (async_give c b p) = async_busy p - {c}
      \<and> async_idle (async_give c b p) = (if b then async_idle p else insert c (async_idle p))
      \<and> Suc (length (in_use (async_give c b p))) = length (in_use p)
      \<and> sz_current (pool_sizer (async_give c b p)) = sz_current (pool_sizer p)"
    using pc len by (intro conjI ok del)
      (auto simp: async_give_def release_def Let_def async_idle_def heap_push_conns simp del: set_map)
qed

definition sync_ok :: "sync_pool \<Rightarrow> bool" where
  "sync_ok p \<longleftrightarrow> wf_odict (s_in_use p) \<and> (\<forall>k \<in> reserved p. k < s_next_key p)
     \<and> (\<forall>c. map_of (s_in_use p) (OfConn c) \<noteq> Some None)"

definition sync_busy :: "sync_pool \<Rightarrow> conn set" where
  "sync_busy p = {c. \<exists>pc. map_of (s_in_use p) (OfConn c) = Some (Some pc)}"

interpretation sync_cp: conn_pool sync_give sync_ok free_conns sync_busy
    "\<lambda>p. length (s_in_use p)" "\<lambda>p. sz_current (s_sizer p)"
proof
  fix p c b
  assume p: "sync_ok p" and c: "c \<in> sync_busy p"
  then obtain pc where pc: "map_of (s_in_use p) (OfConn c) = Some (Some pc)" by (auto simp: sync_busy_def)
  have len: "Suc (length (AList.delete (OfConn c) (s_in_use p))) = length (s_in_use p)"
    using p map_of_Some_keys [OF pc] by (intro delete_slot_length) (simp_all add: sync_ok_def)
  have del: "sync_busy q = sync_busy p - {c}" if "s_in_use q = AList.delete (OfConn c) (s_in_use p)" for q
    by (auto simp: sync_busy_def that map_of_delete)
  have ok: "sync_ok q" if "s_in_use q = AList.delete (OfConn c) (s_in_use p)" "s_next_key q = s_next_key p" for q
    using p by (auto simp: sync_ok_def reserved_def that set_keys_delete map_of_delete simp del: set_map)
  show "sync_ok (sync_give c b p) \<and> sync_busy (sync_give c b p) = sync_busy p - {c}
      \<and> free_conns (sync_give c b p) = (if b then free_conns p else insert c (free_conns p))
      \<and> Suc (length (s_in_use (sync_give c b p))) = length (s_in_use p)
      \<and> sz_current (s_sizer (sync_give c b p)) = sz_current (s_sizer p)"
    using pc len by (intro conjI ok del)
      (auto simp: sync_give_def sync_release_def Let_def free_conns_def heap_push_conns simp del: set_map)
qed

text \<open>What a checkout does when it reserves a slot: with the new connection, and when creating it fails.\<close>

lemma async_take_creates:
  assumes "async_ok p" "available p = []" "int (length (in_use p)) < sz_current (pool_sizer p)"
  obtains q q' where "async_take start elapsed late t (Inr c) p = (q, Took c)"
    "async_take start elapsed late t (Inl e) p = (q', Failed e)"
    "available q = []" "available q' = []" "in_use q' = in_use p"
    "in_use q = AList.update (ConnObj c) (Some (new_pool_connection (fst (snd t)) c (snd (snd t)))) (in_use p)"
    "next_obj q = Suc (next_obj p)" "next_obj q' = Suc (next_obj p)" "pool_sizer q = pool_sizer p" "pool_sizer q' = pool_sizer p"
proof -
  let ?k = "next_obj p"
  let ?p1 = "(begin_acquire p)\<lparr>in_use := AList.update (Placeholder ?k) None (in_use p), next_obj := Suc ?k\<rparr>"
  have k: "Placeholder ?k \<notin> set (keys (in_use p))" using assms(1) unfolding async_ok_def by (metis less_irrefl)
  have sec: "acquire_section start t (begin_acquire p) = (?p1, Reserved ?k)"
    using assms(2,3) by (simp add: acquire_section_def)
  have del: "AList.delete (Placeholder ?k) (in_use ?p1) = in_use p"
    using delete_update_new [OF k] by simp
  show thesis
    by (rule that [of "create_done ?k c start elapsed t ?p1" "create_failed ?k ?p1"])
      (use assms(2) del in \<open>simp_all add: async_take_def sec create_done_def create_failed_def\<close>)
qed

lemma async_take_new:
  assumes "async_ok p" "async_idle p = {}" "int (length (in_use p)) < sz_current (pool_sizer p)" "c \<notin> async_busy p"
  shows "\<exists>p'. async_take start elapsed late t (Inr c) p = (p', Took c) \<and> async_ok p' \<and> async_idle p' = {}
    \<and> async_busy p' = insert c (async_busy p) \<and> length (in_use p') = Suc (length (in_use p))
    \<and> sz_current (pool_sizer p') = sz_current (pool_sizer p)"
proof -
  have free: "available p = []" using assms(2) by (simp add: async_idle_def)
  from async_take_creates [OF assms(1) free assms(3)] obtain q where
    q: "async_take start elapsed late t (Inr c) p = (q, Took c)" "available q = []" "pool_sizer q = pool_sizer p"
      "next_obj q = Suc (next_obj p)"
    and inu: "in_use q = AList.update (ConnObj c) (Some (new_pool_connection (fst (snd t)) c (snd (snd t)))) (in_use p)" by metis
  have "map_of (in_use p) (ConnObj c) = None"
    using assms(1,4) by (cases "map_of (in_use p) (ConnObj c)") (auto simp: async_ok_def async_busy_def)
  then have "length (in_use q) = Suc (length (in_use p))"
    by (simp add: inu length_update map_of_None_keys del: set_map)
  moreover have "async_ok q"
    using assms(1) by (auto simp: async_ok_def inu q(4) set_keys_update map_of_update less_Suc_eq simp del: set_map)
  moreover have "async_busy q = insert c (async_busy p)"
    by (auto simp: async_busy_def inu map_of_update)
  ultimately show ?thesis using q by (intro exI [of _ q]) (simp add: async_idle_def)
qed

lemma sync_take_creates:
  assumes "sync_ok p" "s_available p = []" "int (length (s_in_use p)) < sz_current (s_sizer p)"
  obtains q q' where "sync_take start elapsed t (Inr c) p = (q, Took c)"
    "sync_take start elapsed t (Inl e) p = (q', Failed e)"
    "s_available q = []" "s_available q' = []" "s_in_use q' = s_in_use p"
    "s_in_use q = AList.update (OfConn c) (Some (new_pool_connection (at_created t) c (at_checked_out t))) (s_in_use p)"
    "s_next_key q = Suc (s_next_key p)" "s_next_key q' = Suc (s_next_key p)" "s_sizer q = s_sizer p" "s_sizer q' = s_sizer p"
proof -
  let ?k = "s_next_key p"
  let ?p1 = "(sync_begin p)\<lparr>s_in_use := AList.update (OfReservation ?k) None (s_in_use p), s_next_key := Suc ?k\<rparr>"
  have k: "OfReservation ?k \<notin> set (keys (s_in_use p))"
    using assms(1) unfolding sync_ok_def reserved_def by (metis less_irrefl mem_Collect_eq)
  have sec: "sync_section start d False t (sync_begin p) = (?p1, Reserve ?k)" for d
    using assms(2,3) by (simp add: sync_section_def)
  have del: "AList.delete (OfReservation ?k) (s_in_use ?p1) = s_in_use p"
    using delete_update_new [OF k] by simp
  show thesis
    by (rule that [of "sync_create_done ?k c start elapsed t ?p1" "sync_create_failed ?k ?p1"])
      (use assms(2) del in \<open>simp_all add: sync_take_def Let_def sec sync_create_done_def sync_create_failed_def\<close>)
qed

lemma sync_take_new:
  assumes "sync_ok p" "free_conns p = {}" "int (length (s_in_use p)) < sz_current (s_sizer p)" "c \<notin> sync_busy p"
  shows "\<exists>p'. sync_take start elapsed t (Inr c) p = (p', Took c) \<and> sync_ok p' \<and> free_conns p' = {}
    \<and> sync_busy p' = insert c (sync_busy p) \<and> length (s_in_use p') = Suc (length (s_in_use p))
    \<and> sz_current (s_sizer p') = sz_current (s_sizer p)"
proof -
  have free: "s_available p = []" using assms(2) by (simp add: free_conns_def)
  from sync_take_creates [OF assms(1) free assms(3)] obtain q where
    q: "sync_take start elapsed t (Inr c) p = (q, Took c)" "s_available q = []" "s_sizer q = s_sizer p"
      "s_next_key q = Suc (s_next_key p)"
    and inu: "s_in_use q = AList.update (OfConn c) (Some (new_pool_connection (at_created t) c (at_checked_out t))) (s_in_use p)"
    by metis
  have "map_of (s_in_use p) (OfConn c) = None"
    using assms(1,4) by (cases "map_of (s_in_use p) (OfConn c)") (auto simp: sync_ok_def sync_busy_def)
  then have "length (s_in_use q) = Suc (length (s_in_use p))"
    by (simp add: inu length_update map_of_None_keys del: set_map)
  moreover have "sync_ok q"
    using assms(1) by (auto simp: sync_ok_def reserved_def inu q(4) set_keys_update map_of_update
        less_Suc_eq simp del: set_map)
  moreover have "sync_busy q = insert c (sync_busy p)"
    by (auto simp: sync_busy_def inu map_of_update)
  ultimately show ?thesis using q by (intro exI [of _ q]) (simp add: free_conns_def)
qed

interpretation async_wp: warm_pool async_give async_ok async_idle async_busy
    "\<lambda>p. length (in_use p)" "\<lambda>p. sz_current (pool_sizer p)" "async_take start elapsed late t"
  for start elapsed late t
  by unfold_locales (rule async_take_new)

interpretation sync_wp: warm_pool sync_give sync_ok free_conns sync_busy
    "\<lambda>p. length (s_in_use p)" "\<lambda>p. sz_current (s_sizer p)" "sync_take start elapsed t"
  for start elapsed t
  by unfold_locales (rule sync_take_new)

section \<open>How a session ends\<close>

lemma safe_rollback_no_exception: "safe_rollback hc rb = Some e \<Longrightarrow> \<not> rz_exception e"
  by (auto simp: safe_rollback_def split: option.splits if_splits)

lemma finish_body_broken:
  "fst (finish_body body rb) \<longleftrightarrow>
     (\<exists>x. body = Some x \<and> rz_exception x
        \<and> (is_connection_level_error (rz_type x) (rz_message x) \<or> (\<exists>y. rb = Some y \<and> rz_exception y)))"
  by (auto simp: finish_body_def split: option.splits)

text \<open>
  However the body of an asynchronous session ends, its connection leaves \<open>_in_use\<close> and the
  gauge of active sessions goes back by one; the connection returns to the idle ones unless the
  body raised an \<open>Exception\<close> that is connection-level or the executor refused the rollback.
\<close>

theorem async_session_returns_connection:
  assumes "async_ok p" "c \<in> async_busy p" "c \<notin> async_idle p"
    and "async_session_exit c body ex hc rb p st = (p', st', e)"
  shows "c \<notin> async_busy p' \<and> pool_active st' = pool_active st - 1
    \<and> (c \<in> async_idle p' \<longleftrightarrow>
          \<not> (\<exists>x. body = Some x \<and> rz_exception x
               \<and> (is_connection_level_error (rz_type x) (rz_message x) \<or> (\<exists>y. ex = Some y \<and> rz_exception y))))"
proof -
  have ex: "(\<exists>y. async_session_rollback ex hc rb = Some y \<and> rz_exception y) \<longleftrightarrow> (\<exists>y. ex = Some y \<and> rz_exception y)"
    using safe_rollback_no_exception [of hc rb] by (cases ex) (auto simp: async_session_rollback_def)
  show ?thesis
    using async_cp.exit_returns [OF assms(1-3) assms(4) [unfolded async_session_exit_def]]
    unfolding finish_body_broken ex by blast
qed

text \<open>Connection 7 checked out of a pool of one, an ordinary error, and counters.\<close>

definition async_one :: async_pool where
  "async_one = (pool_new 1 1 None)\<lparr>in_use := [(ConnObj 7, Some (new_pool_connection 0 7 0))]\<rparr>"

definition sync_one :: sync_pool where
  "sync_one = (sync_new 1 1 5 None)\<lparr>s_in_use := [(OfConn 7, Some (new_pool_connection 0 7 0))]\<rparr>"

definition bad_value :: raised where
  "bad_value = \<lparr>rz_type = ''ValueError'', rz_message = ''bad'', rz_exception = True\<rparr>"

definition one_active :: session_stats where
  "one_active = \<lparr>pool_requests = 1, pool_timeouts = 0, pool_waits = [0], pool_active = 1\<rparr>"

lemma bad_value_ordinary: "\<not> is_connection_level_error (rz_type bad_value) (rz_message bad_value)"
  by code_simp

theorem async_session_returns_connection_witness:
  "7 \<notin> async_idle (fst (async_session_exit 7 (Some bad_value) (Some bad_value) True None async_one one_active))
   \<and> 7 \<in> async_idle (fst (async_session_exit 7 (Some bad_value) None True None async_one one_active))"
proof -
  have one: "async_ok async_one" "7 \<in> async_busy async_one" "7 \<notin> async_idle async_one"
    by (auto simp: async_one_def pool_new_def async_ok_def async_busy_def async_idle_def wf_odict_def)
  have "rz_exception bad_value" by (simp add: bad_value_def)
  have gone: "(7 \<in> async_idle (fst (async_session_exit 7 (Some bad_value) ex True None async_one one_active)))
      \<longleftrightarrow> \<not> (\<exists>y. ex = Some y \<and> rz_exception y)" for ex
  proof -
    obtain p' st' e where r: "async_session_exit 7 (Some bad_value) ex True None async_one one_active = (p', st', e)"
      by (cases "async_session_exit 7 (Some bad_value) ex True None async_one one_active")
    from async_session_returns_connection [OF one r] bad_value_ordinary \<open>rz_exception bad_value\<close> r show ?thesis by simp
  qed
  show ?thesis unfolding gone using \<open>rz_exception bad_value\<close> by simp
qed

text \<open>
  In a synchronous session only a connection-level \<open>Exception\<close> of the body evicts the
  connection: a rollback that fails never does, the connection goes back to the idle ones.
\<close>

theorem sync_session_returns_connection:
  assumes "sync_ok p" "c \<in> sync_busy p" "c \<notin> free_conns p"
    and "sync_session_exit c body hc rb p st = (p', st', e)"
  shows "c \<notin> sync_busy p' \<and> pool_active st' = pool_active st - 1
    \<and> (c \<in> free_conns p' \<longleftrightarrow>
          \<not> (\<exists>x. body = Some x \<and> rz_exception x \<and> is_connection_level_error (rz_type x) (rz_message x)))"
proof -
  have none: "\<not> (\<exists>y. sync_session_rollback hc rb = Some y \<and> rz_exception y)"
    using safe_rollback_no_exception [of hc rb] by (auto simp: sync_session_rollback_def)
  show ?thesis
    using sync_cp.exit_returns [OF assms(1-3) assms(4) [unfolded sync_session_exit_def]] none
    unfolding finish_body_broken by blast
qed

theorem sync_session_returns_connection_witness:
  "7 \<in> free_conns (fst (sync_session_exit 7 (Some bad_value) True (Some bad_value) sync_one one_active))"
proof -
  have one: "sync_ok sync_one" "7 \<in> sync_busy sync_one" "7 \<notin> free_conns sync_one"
    by (auto simp: sync_one_def sync_new_def sync_ok_def reserved_def sync_busy_def free_conns_def wf_odict_def)
  obtain p' st' e where r: "sync_session_exit 7 (Some bad_value) True (Some bad_value) sync_one one_active = (p', st', e)"
    by (cases "sync_session_exit 7 (Some bad_value) True (Some bad_value) sync_one one_active")
  from sync_session_returns_connection [OF one r] bad_value_ordinary r show ?thesis by simp
qed

section \<open>Warm-up\<close>

text \<open>
  Warming a new pool up to \<open>n\<close> connections creates exactly the \<open>n\<close> connections, leaves them
  all idle and nothing in use, and raises the adaptive size to at least \<open>n\<close>; both pools agree.
\<close>

theorem warmup_fills_pool:
  assumes "mn \<le> mx" "0 < n" "int n \<le> mx" "distinct cs" "length cs = n"
  shows "(case warmup_async start elapsed late t cfg (Some (int n)) (map Inr cs) (pool_new mn mx hist) of (p, r) \<Rightarrow>
       r = Inr n \<and> async_idle p = set cs \<and> in_use p = [] \<and> sz_current (pool_sizer p) = max mn (int n))
   \<and> (case warmup_sync start elapsed t' cfg (Some (int n)) (map Inr cs) (sync_new mn mx tmo hist) of (p, r) \<Rightarrow>
       r = Inr n \<and> free_conns p = set cs \<and> s_in_use p = [] \<and> sz_current (s_sizer p) = max mn (int n))"
proof -
  let ?z = "(sizer_new mn mx)\<lparr>sz_current := max mn (int n)\<rparr>"
  let ?p = "(pool_new mn mx hist)\<lparr>pool_sizer := ?z\<rparr>" and ?q = "(sync_new mn mx tmo hist)\<lparr>s_sizer := ?z\<rparr>"
  let ?give = "fold (\<lambda>c. async_give c False) cs" and ?sgive = "fold (\<lambda>c. sync_give c False) cs"
  have "\<exists>q. warm_loop (async_take start elapsed late t) (map Inr cs) ?p = (q, cs, None)
     \<and> async_idle (?give q) = set cs \<and> length (in_use (?give q)) = 0
     \<and> sz_current (pool_sizer (?give q)) = sz_current (pool_sizer ?p)"
    by (rule async_wp.warm_fills)
       (use assms in \<open>auto simp: async_ok_def async_idle_def async_busy_def pool_new_def wf_odict_def\<close>)
  then obtain q where q: "warm_loop (async_take start elapsed late t) (map Inr cs) ?p = (q, cs, None)"
      "async_idle (?give q) = set cs" "in_use (?give q) = []" "sz_current (pool_sizer (?give q)) = max mn (int n)"
    by auto
  have "\<exists>q. warm_loop (sync_take start elapsed t') (map Inr cs) ?q = (q, cs, None)
     \<and> free_conns (?sgive q) = set cs \<and> length (s_in_use (?sgive q)) = 0
     \<and> sz_current (s_sizer (?sgive q)) = sz_current (s_sizer ?q)"
    by (rule sync_wp.warm_fills)
       (use assms in \<open>auto simp: sync_ok_def free_conns_def sync_busy_def reserved_def sync_new_def wf_odict_def\<close>)
  then obtain r where r: "warm_loop (sync_take start elapsed t') (map Inr cs) ?q = (r, cs, None)"
      "free_conns (?sgive r) = set cs" "s_in_use (?sgive r) = []" "sz_current (s_sizer (?sgive r)) = max mn (int n)"
    by auto
  have z: "min (py_or_int (Some (int n)) cfg) mx = int n" using assms(2,3) by simp
  have news: "take (nat (int n)) (map Inr cs) = map Inr cs" using assms(5) by simp
  show ?thesis
    using q r assms(2,3,5)
    unfolding warmup_async_def warmup_sync_def warmup_def Let_def
    by (simp add: pool_new_def sync_new_def sizer_new_def z news)
qed

theorem warmup_fills_pool_witness:
  "snd (warmup_sync 0 1 \<lparr>at_record = 0, at_created = 0, at_checked_out = 0, at_remaining = 0, at_give_up = 0\<rparr> 5 (Some 2)
       [Inr 7, Inr 8] (sync_new 1 3 5 None)) = Inr 2
   \<and> snd (warmup_async 0 1 9 (0, 0, 0) 5 (Some 2) [Inr 7, Inr 8] (pool_new 1 3 None)) = Inr 2"
  using warmup_fills_pool [of 1 3 2 "[7, 8]" 0 1 9 "(0, 0, 0)" 5 None
      "\<lparr>at_record = 0, at_created = 0, at_checked_out = 0, at_remaining = 0, at_give_up = 0\<rparr>" 5]
  by (auto split: prod.splits)

section \<open>Transactions\<close>



text \<open>
  The instrumented transaction sends the same statements, raises and releases the same, with or
  without a profiler; the stages it times are those of the statements it sends.
\<close>

theorem instrumented_transaction_equiv:
  "fst (instrumented_transaction profiled run has_execute stmts body) = transaction run has_execute stmts body
   \<and> (\<not> profiled \<longrightarrow> snd (instrumented_transaction profiled run has_execute stmts body) = [])"
  by (auto simp: instrumented_transaction_def transaction_def staged_def Let_def split: option.splits)

text \<open>
  A connection-level error inside a transaction: the dead connection is released as healthy.
\<close>

theorem transaction_releases_dead_connection:
  "\<exists>x. rz_exception x \<and> is_connection_level_error (rz_type x) (rz_message x)
     \<and> (\<forall>run stmts. snd (snd (transaction run True stmts (Some x))) = False)"
proof -
  let ?x = "\<lparr>rz_type = ''OperationalError'', rz_message = ''Broken pipe'', rz_exception = True\<rparr>"
  have "is_connection_level_error (rz_type ?x) (rz_message ?x)" by code_simp
  moreover have "snd (snd (transaction run True stmts (Some ?x))) = False" for run stmts
    by (simp add: transaction_def Let_def split: option.splits)
  ultimately show ?thesis by (intro exI [of _ ?x]) simp
qed

end
