(* ===== verification/Service_Db.thy ===== *)
theory Service_Db
  imports Prelude Regex
begin

text \<open>
  \<open>src/core/storage/service_db.py\<close> (tables \<open>api_keys\<close>, \<open>users\<close> and \<open>query_cache\<close>), with the thin
  repositories \<open>src/core/auth/api_key_repository.py\<close> and \<open>src/core/auth/user_repository.py\<close>.  A
  table is the list of its rows in insertion order, constrained as the \<open>CREATE TABLE\<close>
  statements say (SQLite enforces the primary keys and \<open>UNIQUE\<close>; nothing turns its foreign keys
  on).  Every operation catches whatever the database raises; \<open>fails\<close> says that it raised.
\<close>

section \<open>Rows\<close>

record user_row =
  u_user_id :: string
  u_username :: string
  u_email :: string
  u_password_hash :: string
  u_roles :: string
  u_is_active :: bool
  u_created_at :: int
  u_updated_at :: int
  u_last_login_at :: "int option"
  u_login_count :: int

record key_row =
  k_key_id :: string
  k_api_key_hash :: string
  k_owner_id :: string
  k_created_at :: int
  k_expires_at :: "int option"
  k_scopes :: "string option"
  k_is_active :: bool
  k_last_used_at :: "int option"
  k_usage_count :: int

record service_db =
  users :: "user_row list"
  api_keys :: "key_row list"

section \<open>API keys\<close>

definition create_api_key_row :: "bool \<Rightarrow> string \<Rightarrow> string \<Rightarrow> string \<Rightarrow> int \<Rightarrow> int option \<Rightarrow> string option \<Rightarrow> bool
    \<Rightarrow> service_db \<Rightarrow> service_db \<times> bool" where
  "create_api_key_row fails key_id h owner created expires scopes active db =
     (if fails \<or> (\<exists>r \<in> set (api_keys db). k_key_id r = key_id) then (db, False)
      else (db\<lparr>api_keys := api_keys db @
              [\<lparr>k_key_id = key_id, k_api_key_hash = h, k_owner_id = owner, k_created_at = created,
                k_expires_at = expires, k_scopes = scopes, k_is_active = active, k_last_used_at = None,
                k_usage_count = 0\<rparr>]\<rparr>, True))"

text \<open>A falsy expiry (absent or zero) never expires.\<close>

definition key_expired :: "key_row \<Rightarrow> int \<Rightarrow> bool" where
  "key_expired r now = (case k_expires_at r of None \<Rightarrow> False | Some e \<Rightarrow> e \<noteq> 0 \<and> e < now)"

definition validate_api_key_row :: "bool \<Rightarrow> string \<Rightarrow> int \<Rightarrow> service_db \<Rightarrow> key_row option" where
  "validate_api_key_row fails h now db =
     (if fails then None
      else (case filter (\<lambda>r. k_api_key_hash r = h \<and> k_is_active r) (api_keys db) of
              [] \<Rightarrow> None
            | r # _ \<Rightarrow> if key_expired r now then None else Some r))"

definition newest_first :: "('a \<Rightarrow> int) \<Rightarrow> 'a list \<Rightarrow> 'a list" where
  "newest_first f xs = sort_key (\<lambda>r. - f r) xs"

definition list_api_keys_by_owner :: "bool \<Rightarrow> string \<Rightarrow> service_db \<Rightarrow> key_row list" where
  "list_api_keys_by_owner fails owner db =
     (if fails then [] else newest_first k_created_at (filter (\<lambda>r. k_owner_id r = owner) (api_keys db)))"

definition revoke_api_key_row :: "bool \<Rightarrow> string \<Rightarrow> string \<Rightarrow> service_db \<Rightarrow> service_db \<times> bool" where
  "revoke_api_key_row fails key_id owner db =
     (if fails then (db, False)
      else (db\<lparr>api_keys := map (\<lambda>r. if k_key_id r = key_id \<and> k_owner_id r = owner
                                  then r\<lparr>k_is_active := False\<rparr> else r) (api_keys db)\<rparr>, True))"

definition delete_api_key_row :: "bool \<Rightarrow> string \<Rightarrow> string \<Rightarrow> service_db \<Rightarrow> service_db \<times> bool" where
  "delete_api_key_row fails key_id owner db =
     (if fails then (db, False)
      else (db\<lparr>api_keys := filter (\<lambda>r. \<not> (k_key_id r = key_id \<and> k_owner_id r = owner)) (api_keys db)\<rparr>, True))"

section \<open>Users\<close>

definition create_user_row :: "bool \<Rightarrow> string \<Rightarrow> string \<Rightarrow> string \<Rightarrow> string \<Rightarrow> string \<Rightarrow> int \<Rightarrow> service_db \<Rightarrow> service_db \<times> bool" where
  "create_user_row fails user_id username email pw role created db =
     (if fails \<or> (\<exists>r \<in> set (users db). u_user_id r = user_id \<or> u_username r = username \<or> u_email r = email)
      then (db, False)
      else (db\<lparr>users := users db @
              [\<lparr>u_user_id = user_id, u_username = username, u_email = email, u_password_hash = pw, u_roles = role,
                u_is_active = True, u_created_at = created, u_updated_at = created, u_last_login_at = None,
                u_login_count = 0\<rparr>]\<rparr>, True))"

definition get_user_by_id :: "bool \<Rightarrow> string \<Rightarrow> service_db \<Rightarrow> user_row option" where
  "get_user_by_id fails user_id db = (if fails then None else find (\<lambda>r. u_user_id r = user_id) (users db))"

definition get_user_by_username :: "bool \<Rightarrow> string \<Rightarrow> service_db \<Rightarrow> user_row option" where
  "get_user_by_username fails username db = (if fails then None else find (\<lambda>r. u_username r = username) (users db))"

definition update_user_role_row :: "bool \<Rightarrow> string \<Rightarrow> string \<Rightarrow> int \<Rightarrow> service_db \<Rightarrow> service_db \<times> bool" where
  "update_user_role_row fails user_id role now db =
     (if fails then (db, False)
      else (db\<lparr>users := map (\<lambda>r. if u_user_id r = user_id then r\<lparr>u_roles := role, u_updated_at := now\<rparr> else r)
              (users db)\<rparr>, True))"

definition delete_user_row :: "bool \<Rightarrow> string \<Rightarrow> service_db \<Rightarrow> service_db \<times> bool" where
  "delete_user_row fails user_id db =
     (if fails then (db, False) else (db\<lparr>users := filter (\<lambda>r. u_user_id r \<noteq> user_id) (users db)\<rparr>, True))"

definition update_last_login :: "bool \<Rightarrow> string \<Rightarrow> int \<Rightarrow> service_db \<Rightarrow> service_db \<times> bool" where
  "update_last_login fails user_id now db =
     (if fails then (db, False)
      else (db\<lparr>users := map (\<lambda>r. if u_user_id r = user_id then r\<lparr>u_last_login_at := Some now\<rparr> else r) (users db)\<rparr>, True))"

definition list_all_users :: "bool \<Rightarrow> service_db \<Rightarrow> user_row list" where
  "list_all_users fails db = (if fails then [] else newest_first u_created_at (users db))"

text \<open>
  The start-up administrator: \<open>password\<close>, \<open>username\<close> and \<open>email\<close> are the environment variables,
  \<open>now\<close> the clock, \<open>hashed\<close> what \<open>hash_password\<close> gives.  A failing statement raises out of it.
\<close>

definition initialize_admin_user :: "string option \<Rightarrow> string option \<Rightarrow> string option \<Rightarrow> string \<Rightarrow> string \<Rightarrow> int \<Rightarrow> service_db \<Rightarrow> service_db result" where
  "initialize_admin_user password username email hashed now_text now db =
     (let name = (case username of None \<Rightarrow> ''admin'' | Some n \<Rightarrow> n) in
      case password of
        None \<Rightarrow> Inr db
      | Some pw \<Rightarrow>
          if pw = [] \<or> length pw < 8 then Inr db
          else if \<exists>r \<in> set (users db). u_username r = name then Inr db
          else (case create_user_row False (''user_admin_'' @ now_text) name
                       (case email of None \<Rightarrow> name @ ''@preparedata.local'' | Some e \<Rightarrow> e) hashed ''admin'' now db of
                  (db', ok) \<Rightarrow> if ok then Inr db' else Inl (OtherError ''IntegrityError'')))"

section \<open>Invariants\<close>

definition db_inv :: "service_db \<Rightarrow> bool" where
  "db_inv db \<longleftrightarrow> distinct (map k_key_id (api_keys db)) \<and> distinct (map u_user_id (users db))
     \<and> distinct (map u_username (users db)) \<and> distinct (map u_email (users db))"

lemma revoke_keys_ids:
  "map (\<lambda>r. k_key_id (if P r then r\<lparr>k_is_active := b\<rparr> else r)) rs = map k_key_id rs"
  by simp

lemma db_inv_ops [inv_intros]:
  assumes "db_inv db"
  shows "db_inv (fst (create_api_key_row f kid h ow cr ex sc ac db))"
    "db_inv (fst (revoke_api_key_row f kid ow db))" "db_inv (fst (delete_api_key_row f kid ow db))"
    "db_inv (fst (create_user_row f uid un em pw ro cr db))"
    "db_inv (fst (update_user_role_row f uid ro now db))" "db_inv (fst (delete_user_row f uid db))"
    "db_inv (fst (update_last_login f uid now db))"
  using assms
  by (auto simp: db_inv_def create_api_key_row_def revoke_api_key_row_def delete_api_key_row_def
      create_user_row_def update_user_role_row_def delete_user_row_def update_last_login_def comp_def
      distinct_map_filter revoke_keys_ids if_distrib [of u_user_id] if_distrib [of u_username]
      if_distrib [of u_email] cong: if_cong)

lemma find_unique:
  "distinct (map f xs) \<Longrightarrow> x \<in> set xs \<Longrightarrow> find (\<lambda>y. f y = f x) xs = Some x"
  by (induction xs) auto

lemma get_user_by_id_iff:
  assumes "db_inv db"
  shows "get_user_by_id False uid db = Some r \<longleftrightarrow> r \<in> set (users db) \<and> u_user_id r = uid"
proof
  assume "get_user_by_id False uid db = Some r"
  then show "r \<in> set (users db) \<and> u_user_id r = uid"
    by (auto simp: get_user_by_id_def find_Some_iff)
next
  assume "r \<in> set (users db) \<and> u_user_id r = uid"
  with assms find_unique [of u_user_id "users db" r] show "get_user_by_id False uid db = Some r"
    by (simp add: get_user_by_id_def db_inv_def)
qed

lemma validate_sound:
  assumes "validate_api_key_row f h now db = Some r"
  shows "r \<in> set (api_keys db) \<and> k_api_key_hash r = h \<and> k_is_active r \<and> \<not> key_expired r now"
proof -
  from assms obtain rs where "filter (\<lambda>r. k_api_key_hash r = h \<and> k_is_active r) (api_keys db) = r # rs"
      "\<not> key_expired r now"
    by (auto simp: validate_api_key_row_def split: if_splits list.splits)
  then have "r \<in> set (filter (\<lambda>r. k_api_key_hash r = h \<and> k_is_active r) (api_keys db))" by simp
  with \<open>\<not> key_expired r now\<close> show ?thesis by simp
qed

end
