(* ===== verification/Api_Keys.thy ===== *)
theory Api_Keys
  imports Service_Db
begin

text \<open>
  \<open>src/core/auth/api_key_service.py\<close>: creation, validation, revocation and deletion of API keys,
  with the per-process cache of validated keys.  A validation reads the cache, then the database
  on another thread, then writes the cache: these are three steps, and \<open>kstep\<close> interleaves them
  with revocations (whose database write and cache eviction are two steps as well) under a
  monotonic clock.  SHA-256 is a parameter.
\<close>

section \<open>The service\<close>

record key_info =
  ki_key_id :: string
  ki_owner_id :: string
  ki_created_at :: int
  ki_expires_at :: "int option"
  ki_scopes :: "string option"
  ki_is_active :: bool

definition key_info_of :: "key_row \<Rightarrow> key_info" where
  "key_info_of r = \<lparr>ki_key_id = k_key_id r, ki_owner_id = k_owner_id r, ki_created_at = k_created_at r,
     ki_expires_at = k_expires_at r, ki_scopes = k_scopes r, ki_is_active = k_is_active r\<rparr>"

type_synonym validation_cache = "(string, key_info \<times> seconds) odict"

definition cache_ttl_seconds :: seconds where "cache_ttl_seconds = 30"

text \<open>The raw key, the key id and the creation time are drawn by the code and given here.\<close>

definition create_api_key ::
  "(string \<Rightarrow> string) \<Rightarrow> bool \<Rightarrow> string \<Rightarrow> string \<Rightarrow> int \<Rightarrow> string \<Rightarrow> string option \<Rightarrow> int option
     \<Rightarrow> service_db \<Rightarrow> service_db \<times> (key_info \<times> string)" where
  "create_api_key sha fails api_key key_id created owner scopes expires db =
     (fst (create_api_key_row fails key_id (sha api_key) owner created expires scopes True db),
      (\<lparr>ki_key_id = key_id, ki_owner_id = owner, ki_created_at = created, ki_expires_at = expires,
        ki_scopes = scopes, ki_is_active = True\<rparr>, api_key))"

text \<open>The cache lookup: an expired entry is dropped.\<close>

definition validate_cached :: "string \<Rightarrow> seconds \<Rightarrow> validation_cache \<Rightarrow> validation_cache \<times> key_info option" where
  "validate_cached h now_monotonic c =
     (case map_of c h of
        None \<Rightarrow> (c, None)
      | Some (v, expires_at) \<Rightarrow>
          if now_monotonic < expires_at then (c, Some v) else (AList.delete h c, None))"

text \<open>The end of a validation that went to the database, with what the database returned.\<close>

definition validate_finish :: "string \<Rightarrow> seconds \<Rightarrow> key_row option \<Rightarrow> validation_cache \<Rightarrow> validation_cache \<times> key_info option" where
  "validate_finish h now_monotonic result c =
     (case result of
        None \<Rightarrow> (c, None)
      | Some r \<Rightarrow> (AList.update h (key_info_of r, now_monotonic + cache_ttl_seconds) c, Some (key_info_of r)))"

text \<open>A validation that nothing interrupts.\<close>

definition validate_api_key ::
  "(string \<Rightarrow> string) \<Rightarrow> bool \<Rightarrow> string \<Rightarrow> seconds \<Rightarrow> int \<Rightarrow> service_db \<Rightarrow> validation_cache \<Rightarrow> validation_cache \<times> key_info option" where
  "validate_api_key sha fails api_key now_monotonic now db c =
     (let h = sha api_key in
      case validate_cached h now_monotonic c of
        (c1, Some v) \<Rightarrow> (c1, Some v)
      | (c1, None) \<Rightarrow> validate_finish h now_monotonic (validate_api_key_row fails h now db) c1)"

definition list_api_keys :: "bool \<Rightarrow> string \<Rightarrow> service_db \<Rightarrow> key_info list" where
  "list_api_keys fails owner db = map key_info_of (list_api_keys_by_owner fails owner db)"

definition evict_by_key_id :: "string \<Rightarrow> validation_cache \<Rightarrow> validation_cache" where
  "evict_by_key_id key_id c =
     (let stale = map fst (filter (\<lambda>(h, v, e). ki_key_id v = key_id) c)
      in fold AList.delete stale c)"

definition revoke_api_key :: "bool \<Rightarrow> string \<Rightarrow> string \<Rightarrow> service_db \<Rightarrow> validation_cache \<Rightarrow> (service_db \<times> validation_cache) \<times> bool" where
  "revoke_api_key fails key_id owner db c =
     (case revoke_api_key_row fails key_id owner db of
        (db', ok) \<Rightarrow> ((db', if ok then evict_by_key_id key_id c else c), ok))"

definition delete_api_key :: "bool \<Rightarrow> string \<Rightarrow> string \<Rightarrow> service_db \<Rightarrow> validation_cache \<Rightarrow> (service_db \<times> validation_cache) \<times> bool" where
  "delete_api_key fails key_id owner db c =
     (case delete_api_key_row fails key_id owner db of
        (db', ok) \<Rightarrow> ((db', if ok then evict_by_key_id key_id c else c), ok))"

lemma map_of_fold_delete:
  "map_of (fold AList.delete hs c) h = (if h \<in> set hs then None else map_of c h)"
proof (induction hs arbitrary: c)
  case (Cons a hs)
  show ?case by (auto simp: Cons.IH map_of_delete)
qed simp

lemma map_of_evict:
  assumes "wf_odict c"
  shows "map_of (evict_by_key_id key_id c) h =
     (case map_of c h of None \<Rightarrow> None | Some ve \<Rightarrow> if ki_key_id (fst ve) = key_id then None else Some ve)"
proof -
  have "h \<in> set (map fst (filter (\<lambda>(h, v, e). ki_key_id v = key_id) c)) \<longleftrightarrow>
      (\<exists>ve. map_of c h = Some ve \<and> ki_key_id (fst ve) = key_id)"
    using assms by (force simp: wf_odict_def)
  then show ?thesis
    by (auto simp: evict_by_key_id_def map_of_fold_delete Let_def simp del: set_map split: option.splits)
qed

lemma wf_evict: "wf_odict c \<Longrightarrow> wf_odict (evict_by_key_id key_id c)"
proof -
  have "wf_odict c \<Longrightarrow> wf_odict (fold AList.delete hs c)" for hs
    by (induction hs arbitrary: c) simp_all
  then show "wf_odict c \<Longrightarrow> ?thesis" by (simp add: evict_by_key_id_def Let_def)
qed

section \<open>Interleavings\<close>

text \<open>
  A validation in flight: its key hash, the clock reading with which it began and, once the
  database answered, the answer.  \<open>revoked\<close> records when the database took a revocation or
  deletion that matched a row.  \<open>got\<close> is what validations returned, with the time they began.
\<close>

record ksys =
  kdb :: service_db
  kcache :: validation_cache
  kclock :: seconds
  inflight :: "nat \<Rightarrow> (string \<times> seconds \<times> key_row option option) option"
  revoked :: "string \<Rightarrow> seconds option"
  got :: "(key_info \<times> seconds) set"

definition matches_row :: "string \<Rightarrow> string \<Rightarrow> service_db \<Rightarrow> bool" where
  "matches_row key_id owner db \<longleftrightarrow> (\<exists>r \<in> set (api_keys db). k_key_id r = key_id \<and> k_owner_id r = owner)"

inductive kstep :: "ksys \<Rightarrow> ksys \<Rightarrow> bool" where
  tick: "0 \<le> d \<Longrightarrow> kstep s (s\<lparr>kclock := kclock s + d\<rparr>)"
| hit: "validate_cached h (kclock s) (kcache s) = (c, Some v) \<Longrightarrow>
      kstep s (s\<lparr>kcache := c, got := insert (v, kclock s) (got s)\<rparr>)"
| miss: "inflight s i = None \<Longrightarrow> validate_cached h (kclock s) (kcache s) = (c, None) \<Longrightarrow>
      kstep s (s\<lparr>kcache := c, inflight := (inflight s)(i \<mapsto> (h, kclock s, None))\<rparr>)"
| read: "inflight s i = Some (h, t, None) \<Longrightarrow>
      kstep s (s\<lparr>inflight := (inflight s)(i \<mapsto> (h, t, Some (validate_api_key_row fails h now (kdb s))))\<rparr>)"
| finish: "inflight s i = Some (h, t, Some result) \<Longrightarrow> validate_finish h t result (kcache s) = (c, out) \<Longrightarrow>
      kstep s (s\<lparr>kcache := c, inflight := (inflight s)(i := None),
                 got := (case out of None \<Rightarrow> got s | Some v \<Rightarrow> insert (v, t) (got s))\<rparr>)"
| create: "revoked s key_id = None \<Longrightarrow>
      kstep s (s\<lparr>kdb := fst (create_api_key sha fails key key_id now owner scopes expires (kdb s))\<rparr>)"
| revoke_db: "matches_row key_id owner (kdb s) \<Longrightarrow> revoke_api_key_row False key_id owner (kdb s) = (db, True) \<Longrightarrow>
      kstep s (s\<lparr>kdb := db,
                 revoked := (if revoked s key_id = None then (revoked s)(key_id \<mapsto> kclock s) else revoked s)\<rparr>)"
| delete_db: "matches_row key_id owner (kdb s) \<Longrightarrow> delete_api_key_row False key_id owner (kdb s) = (db, True) \<Longrightarrow>
      kstep s (s\<lparr>kdb := db,
                 revoked := (if revoked s key_id = None then (revoked s)(key_id \<mapsto> kclock s) else revoked s)\<rparr>)"
| evict: "kstep s (s\<lparr>kcache := evict_by_key_id key_id (kcache s)\<rparr>)"

inductive kreach :: "ksys \<Rightarrow> bool" where
  start: "db_inv db \<Longrightarrow> kreach \<lparr>kdb = db, kcache = [], kclock = t, inflight = (\<lambda>_. None), revoked = (\<lambda>_. None), got = {}\<rparr>"
| step: "kreach s \<Longrightarrow> kstep s s' \<Longrightarrow> kreach s'"

section \<open>The invariant\<close>

text \<open>
  A revoked key has no active row; what is cached of it runs out within the cache's lifetime of
  its revocation; what is in flight with it began before, and so did what was returned, up to
  that lifetime.
\<close>

definition rows_inv :: "ksys \<Rightarrow> bool" where
  "rows_inv s \<longleftrightarrow> db_inv (kdb s) \<and> wf_odict (kcache s)
     \<and> (\<forall>r \<in> set (api_keys (kdb s)). revoked s (k_key_id r) \<noteq> None \<longrightarrow> \<not> k_is_active r)
     \<and> (\<forall>k t. revoked s k = Some t \<longrightarrow> t \<le> kclock s)"

definition cache_inv :: "ksys \<Rightarrow> bool" where
  "cache_inv s \<longleftrightarrow>
     (\<forall>h v e. map_of (kcache s) h = Some (v, e) \<longrightarrow> e \<le> kclock s + cache_ttl_seconds
        \<and> (\<forall>t. revoked s (ki_key_id v) = Some t \<longrightarrow> e \<le> t + cache_ttl_seconds))"

definition flight_inv :: "ksys \<Rightarrow> bool" where
  "flight_inv s \<longleftrightarrow>
     (\<forall>i h b res. inflight s i = Some (h, b, res) \<longrightarrow> b \<le> kclock s
        \<and> (\<forall>r t. res = Some (Some r) \<longrightarrow> revoked s (k_key_id r) = Some t \<longrightarrow> b \<le> t))"

definition got_inv :: "ksys \<Rightarrow> bool" where
  "got_inv s \<longleftrightarrow>
     (\<forall>v b. (v, b) \<in> got s \<longrightarrow> b \<le> kclock s
        \<and> (\<forall>t. revoked s (ki_key_id v) = Some t \<longrightarrow> b < t + cache_ttl_seconds))"

definition ksys_inv :: "ksys \<Rightarrow> bool" where
  "ksys_inv s \<longleftrightarrow> rows_inv s \<and> cache_inv s \<and> flight_inv s \<and> got_inv s"

lemma validate_cached_cases:
  assumes "validate_cached h now c = (c', out)"
  shows "(\<forall>h' x. map_of c' h' = Some x \<longrightarrow> map_of c h' = Some x) \<and> (wf_odict c \<longrightarrow> wf_odict c')
    \<and> (\<forall>v. out = Some v \<longrightarrow> (\<exists>e. map_of c h = Some (v, e) \<and> now < e))"
  using assms by (auto simp: validate_cached_def map_of_delete split: option.splits prod.splits if_splits)

lemma validate_finish_cases:
  assumes "validate_finish h b result c = (c', out)"
  shows "(result = None \<and> c' = c \<and> out = None)
    \<or> (\<exists>r. result = Some r \<and> c' = AList.update h (key_info_of r, b + cache_ttl_seconds) c \<and> out = Some (key_info_of r))"
  using assms by (auto simp: validate_finish_def split: option.splits)

lemma key_info_of_id [simp]: "ki_key_id (key_info_of r) = k_key_id r"
  by (simp add: key_info_of_def)

lemma revoke_rows:
  assumes "revoke_api_key_row False key_id owner db = (db', ok)" "matches_row key_id owner db" "db_inv db"
    and "r \<in> set (api_keys db')"
  shows "(k_key_id r = key_id \<longrightarrow> \<not> k_is_active r) \<and> (k_key_id r \<noteq> key_id \<longrightarrow> r \<in> set (api_keys db))"
proof -
  have rows: "set (api_keys db') = (\<lambda>r. if k_key_id r = key_id \<and> k_owner_id r = owner
      then r\<lparr>k_is_active := False\<rparr> else r) ` set (api_keys db)"
    using assms(1) by (auto simp: revoke_api_key_row_def)
  then obtain r0 where r0: "r0 \<in> set (api_keys db)"
      "r = (if k_key_id r0 = key_id \<and> k_owner_id r0 = owner then r0\<lparr>k_is_active := False\<rparr> else r0)"
    using assms(4) by blast
  obtain m where m: "m \<in> set (api_keys db)" "k_key_id m = key_id" "k_owner_id m = owner"
    using assms(2) by (auto simp: matches_row_def)
  have "k_key_id r0 = key_id \<Longrightarrow> r0 = m"
    using assms(3) r0(1) m by (auto simp: db_inv_def distinct_map dest: inj_onD)
  with r0 m show ?thesis by auto
qed

lemma delete_rows:
  assumes "delete_api_key_row False key_id owner db = (db', ok)" "matches_row key_id owner db" "db_inv db"
    and "r \<in> set (api_keys db')"
  shows "k_key_id r \<noteq> key_id \<and> r \<in> set (api_keys db)"
proof -
  have r: "r \<in> set (api_keys db)" "\<not> (k_key_id r = key_id \<and> k_owner_id r = owner)"
    using assms(1,4) by (auto simp: delete_api_key_row_def)
  obtain m where m: "m \<in> set (api_keys db)" "k_key_id m = key_id" "k_owner_id m = owner"
    using assms(2) by (auto simp: matches_row_def)
  have "k_key_id r = key_id \<Longrightarrow> r = m"
    using assms(3) r(1) m by (auto simp: db_inv_def distinct_map dest: inj_onD)
  with r m show ?thesis by auto
qed

section \<open>Each step keeps it\<close>

lemma evict_sub:
  "wf_odict c \<Longrightarrow> map_of (evict_by_key_id k c) h = Some x \<Longrightarrow> map_of c h = Some x"
  by (auto simp: map_of_evict split: option.splits if_splits)

lemma revocation_keeps:
  assumes "ksys_inv s" "db_inv db"
    and "\<And>r. r \<in> set (api_keys db) \<Longrightarrow> (k_key_id r = k \<longrightarrow> \<not> k_is_active r) \<and> (k_key_id r \<noteq> k \<longrightarrow> r \<in> set (api_keys (kdb s)))"
  shows "ksys_inv (s\<lparr>kdb := db, revoked := (if revoked s k = None then (revoked s)(k \<mapsto> kclock s) else revoked s)\<rparr>)"
proof -
  let ?R = "if revoked s k = None then (revoked s)(k \<mapsto> kclock s) else revoked s"
  let ?s = "s\<lparr>kdb := db, revoked := ?R\<rparr>"
  have old: "rows_inv s" "cache_inv s" "flight_inv s" "got_inv s" using assms(1) by (simp_all add: ksys_inv_def)
  have R: "?R j = Some t \<Longrightarrow> revoked s j = Some t \<or> t = kclock s" for j t by (auto split: if_splits)
  have rows: "rows_inv ?s"
    using old(1) assms(2,3) by (auto simp: rows_inv_def split: if_splits)
  have cache: "cache_inv ?s"
    using old(2) by (auto simp: cache_inv_def split: if_splits)
  have flight: "flight_inv ?s"
    using old(3) by (auto simp: flight_inv_def split: if_splits)
  have "b < t + cache_ttl_seconds" if "(v, b) \<in> got s" "?R (ki_key_id v) = Some t" for v b t
    using R [OF that(2)]
  proof
    assume "t = kclock s"
    moreover have "b \<le> kclock s" using old(4) that(1) by (auto simp: got_inv_def)
    ultimately show ?thesis by (simp add: cache_ttl_seconds_def)
  qed (use old(4) that(1) in \<open>auto simp: got_inv_def\<close>)
  then have "got_inv ?s" using old(4) by (simp add: got_inv_def)
  with rows cache flight show ?thesis by (simp add: ksys_inv_def)
qed

lemma kstep_inv:
  assumes "kstep s s'" "ksys_inv s"
  shows "ksys_inv s'"
proof -
  have old: "rows_inv s" "cache_inv s" "flight_inv s" "got_inv s" using assms(2) by (simp_all add: ksys_inv_def)
  from assms(1) show ?thesis
  proof (cases rule: kstep.cases)
    case (tick d)
    have later: "x \<le> kclock s \<Longrightarrow> x \<le> kclock s + d" "x \<le> kclock s + y \<Longrightarrow> x \<le> kclock s + d + y" for x y
      using tick(2) by linarith+
    show ?thesis
      using assms(2) later unfolding tick(1) ksys_inv_def rows_inv_def cache_inv_def flight_inv_def got_inv_def
      by simp
  next
    case (hit h c v)
    from validate_cached_cases [OF hit(2)] obtain e where e: "map_of (kcache s) h = Some (v, e)" "kclock s < e"
      and sub: "\<And>h' x. map_of c h' = Some x \<Longrightarrow> map_of (kcache s) h' = Some x" "wf_odict (kcache s) \<Longrightarrow> wf_odict c"
      by blast
    have "kclock s < t + cache_ttl_seconds" if "revoked s (ki_key_id v) = Some t" for t
      using old(2) e that unfolding cache_inv_def by (meson less_le_trans)
    then have "got_inv s'" using old(4) unfolding hit(1) got_inv_def by auto
    moreover have "cache_inv s'" using old(2) sub(1) unfolding hit(1) cache_inv_def by (simp, blast)
    moreover have "rows_inv s'" "flight_inv s'" using old(1,3) sub(2) unfolding hit(1) rows_inv_def flight_inv_def by simp_all
    ultimately show ?thesis by (simp add: ksys_inv_def)
  next
    case (miss i h c)
    from validate_cached_cases [OF miss(3)]
    have sub: "\<And>h' x. map_of c h' = Some x \<Longrightarrow> map_of (kcache s) h' = Some x" "wf_odict (kcache s) \<Longrightarrow> wf_odict c"
      by blast+
    have "cache_inv s'" using old(2) sub(1) unfolding miss(1) cache_inv_def by (simp, blast)
    moreover have "flight_inv s'" using old(3) unfolding miss(1) flight_inv_def by simp
    moreover have "rows_inv s'" "got_inv s'" using old(1,4) sub(2) unfolding miss(1) rows_inv_def got_inv_def by simp_all
    ultimately show ?thesis by (simp add: ksys_inv_def)
  next
    case (read i h t fails now)
    have "b \<le> t'" if "validate_api_key_row fails h now (kdb s) = Some r" "revoked s (k_key_id r) = Some t'" for b r t'
      using validate_sound [OF that(1)] old(1) that(2) unfolding rows_inv_def by blast
    moreover have "t \<le> kclock s" using old(3) read(2) unfolding flight_inv_def by blast
    ultimately have "flight_inv s'" using old(3) unfolding read(1) flight_inv_def by auto
    then show ?thesis using old unfolding read(1) by (simp add: ksys_inv_def rows_inv_def cache_inv_def got_inv_def)
  next
    case (finish i h t result c out)
    have t: "t \<le> kclock s" "\<And>r t'. result = Some r \<Longrightarrow> revoked s (k_key_id r) = Some t' \<Longrightarrow> t \<le> t'"
      using old(3) finish(2) unfolding flight_inv_def by blast+
    have "flight_inv s'" using old(3) unfolding finish(1) flight_inv_def by simp
    moreover have "cache_inv s' \<and> got_inv s' \<and> wf_odict (kcache s')"
      using validate_finish_cases [OF finish(3)]
    proof (elim disjE exE conjE)
      assume "c = kcache s" "out = None"
      then show ?thesis using old unfolding finish(1) by (simp add: cache_inv_def got_inv_def rows_inv_def)
    next
      fix r assume r: "result = Some r" "c = AList.update h (key_info_of r, t + cache_ttl_seconds) (kcache s)"
        "out = Some (key_info_of r)"
      have "t < t' + cache_ttl_seconds" if "revoked s (k_key_id r) = Some t'" for t'
        using t(2) [OF r(1) that] by (simp add: cache_ttl_seconds_def)
      then have "got_inv s'" using old(4) t(1) unfolding finish(1) got_inv_def r(3) by auto
      moreover have "cache_inv s'" using old(2) t r(1) unfolding finish(1) cache_inv_def r(2) by (simp add: map_of_update)
      moreover have "wf_odict (kcache s')" using old(1) unfolding finish(1) r(2) rows_inv_def by simp
      ultimately show ?thesis by blast
    qed
    moreover have "rows_inv s' \<longleftrightarrow> rows_inv s \<and> wf_odict (kcache s')"
      unfolding finish(1) rows_inv_def using old(1) by (auto simp: rows_inv_def)
    ultimately show ?thesis using old(1) by (simp add: ksys_inv_def)
  next
    case (create key_id sha fails key now owner scopes expires)
    have "db_inv (kdb s')" using old(1) unfolding create(1) rows_inv_def by (simp add: create_api_key_def db_inv_ops)
    moreover have "revoked s (k_key_id r) \<noteq> None \<longrightarrow> \<not> k_is_active r" if "r \<in> set (api_keys (kdb s'))" for r
      using that old(1) create(2) unfolding create(1) rows_inv_def
      by (auto simp: create_api_key_def create_api_key_row_def split: if_splits)
    ultimately have "rows_inv s'" using old(1) unfolding create(1) rows_inv_def by simp
    then show ?thesis using old unfolding create(1) by (simp add: ksys_inv_def cache_inv_def flight_inv_def got_inv_def)
  next
    case (revoke_db key_id owner db)
    have "db_inv db" using db_inv_ops(2) [of "kdb s" False key_id owner] revoke_db(3) old(1) by (simp add: rows_inv_def)
    then show ?thesis unfolding revoke_db(1)
      by (rule revocation_keeps [OF assms(2)])
         (use revoke_rows [OF revoke_db(3,2)] old(1) in \<open>simp add: rows_inv_def\<close>)
  next
    case (delete_db key_id owner db)
    have "db_inv db" using db_inv_ops(3) [of "kdb s" False key_id owner] delete_db(3) old(1) by (simp add: rows_inv_def)
    then show ?thesis unfolding delete_db(1)
      by (rule revocation_keeps [OF assms(2)])
         (use delete_rows [OF delete_db(3,2)] old(1) in \<open>auto simp: rows_inv_def\<close>)
  next
    case (evict key_id)
    have wf: "wf_odict (kcache s)" using old(1) by (simp add: rows_inv_def)
    have "cache_inv s'" using old(2) evict_sub [OF wf] unfolding evict(1) cache_inv_def by (simp, blast)
    then show ?thesis using old wf_evict [OF wf] unfolding evict(1)
      by (simp add: ksys_inv_def rows_inv_def flight_inv_def got_inv_def)
  qed
qed

lemma kreach_inv: "kreach s \<Longrightarrow> ksys_inv s"
proof (induction rule: kreach.induct)
  case (start db t)
  then show ?case by (simp add: ksys_inv_def rows_inv_def cache_inv_def flight_inv_def got_inv_def wf_odict_def)
next
  case (step s s')
  then show ?case using kstep_inv by blast
qed

section \<open>Properties\<close>

text \<open>
  C7.  Revocation takes effect within the lifetime of the validation cache: in every interleaving
  of validations (whose database read and cache write are separate steps), revocations, deletions
  and evictions, a validation that accepted a key began less than 30 seconds after the database
  took the key's revocation.
\<close>

theorem revoked_key_rejected_after_ttl:
  assumes "kreach s" "(v, began) \<in> got s" "revoked s (ki_key_id v) = Some t"
  shows "began < t + cache_ttl_seconds"
  using kreach_inv [OF assms(1)] assms(2,3) unfolding ksys_inv_def got_inv_def by blast

text \<open>A key that validates at time 0 through the database and is revoked at once.\<close>

definition demo_row :: key_row where
  "demo_row = \<lparr>k_key_id = ''key_1'', k_api_key_hash = ''h'', k_owner_id = ''u1'', k_created_at = 0,
     k_expires_at = None, k_scopes = Some ''read'', k_is_active = True, k_last_used_at = None, k_usage_count = 0\<rparr>"

definition demo_start :: ksys where
  "demo_start = \<lparr>kdb = \<lparr>users = [], api_keys = [demo_row]\<rparr>, kcache = [], kclock = 0, inflight = (\<lambda>_. None),
     revoked = (\<lambda>_. None), got = {}\<rparr>"

definition demo_validated :: ksys where
  "demo_validated = demo_start\<lparr>kcache := [(''h'', key_info_of demo_row, 30)], got := {(key_info_of demo_row, 0)}\<rparr>"

definition demo_revoked :: ksys where
  "demo_revoked = demo_validated\<lparr>kdb := \<lparr>users = [], api_keys = [demo_row\<lparr>k_is_active := False\<rparr>]\<rparr>,
     revoked := [''key_1'' \<mapsto> 0]\<rparr>"

lemma demo_reach: "kreach demo_revoked"
proof -
  have 0: "kreach demo_start"
    unfolding demo_start_def by (rule kreach.start) (simp add: db_inv_def)
  let ?s1 = "demo_start\<lparr>inflight := [0 \<mapsto> (''h'', 0, None)]\<rparr>"
  have "kstep demo_start ?s1"
    using kstep.miss [of demo_start 0 "''h''" "[]"] by (simp add: demo_start_def validate_cached_def)
  with 0 have 1: "kreach ?s1" by (rule kreach.step)
  let ?s2 = "demo_start\<lparr>inflight := [0 \<mapsto> (''h'', 0, Some (Some demo_row))]\<rparr>"
  have "kstep ?s1 ?s2"
    using kstep.read [of ?s1 0 "''h''" 0 False 0]
    by (simp add: demo_start_def validate_api_key_row_def demo_row_def key_expired_def)
  with 1 have 2: "kreach ?s2" by (rule kreach.step)
  have "kstep ?s2 demo_validated"
    using kstep.finish [of ?s2 0 "''h''" 0 "Some demo_row"]
    by (simp add: demo_validated_def demo_start_def validate_finish_def cache_ttl_seconds_def fun_upd_idem)
  with 2 have 3: "kreach demo_validated" by (rule kreach.step)
  have "kstep demo_validated demo_revoked"
    using kstep.revoke_db [of "''key_1''" "''u1''" demo_validated]
    by (simp add: demo_revoked_def demo_validated_def demo_start_def matches_row_def revoke_api_key_row_def demo_row_def)
  with 3 show ?thesis by (rule kreach.step)
qed

theorem revoked_key_rejected_after_ttl_witness:
  "(key_info_of demo_row, 0) \<in> got demo_revoked \<and> (0 :: seconds) < 0 + cache_ttl_seconds"
  using revoked_key_rejected_after_ttl [OF demo_reach, of "key_info_of demo_row" 0 0]
  by (simp add: demo_revoked_def demo_validated_def demo_row_def)

text \<open>
  Creating, then validating: the raw key that creation returns validates as the key just
  described, at any time before its expiry, provided the database stored it and no earlier active
  key has the same hash.
\<close>

theorem created_key_validates:
  assumes "create_api_key sha False key key_id created owner scopes expires db = (db', info, raw)"
    and "\<forall>r \<in> set (api_keys db). k_key_id r \<noteq> key_id \<and> k_api_key_hash r \<noteq> sha key"
    and "case expires of None \<Rightarrow> True | Some e \<Rightarrow> e = 0 \<or> now \<le> e"
  shows "snd (validate_api_key sha False raw mt now db' []) = Some info"
proof -
  let ?row = "\<lparr>k_key_id = key_id, k_api_key_hash = sha key, k_owner_id = owner, k_created_at = created,
      k_expires_at = expires, k_scopes = scopes, k_is_active = True, k_last_used_at = None, k_usage_count = 0\<rparr>"
  have db': "api_keys db' = api_keys db @ [?row]" and raw: "raw = key" and info: "info = key_info_of ?row"
    using assms(1,2) by (auto simp: create_api_key_def create_api_key_row_def key_info_of_def)
  have "filter (\<lambda>r. k_api_key_hash r = sha key \<and> k_is_active r) (api_keys db) = []"
    using assms(2) by (auto simp: filter_empty_conv)
  moreover have "\<not> key_expired ?row now" using assms(3) by (auto simp: key_expired_def split: option.splits)
  ultimately show ?thesis
    by (simp add: validate_api_key_def validate_cached_def validate_api_key_row_def db' raw info validate_finish_def Let_def)
qed

theorem created_key_validates_witness:
  "snd (validate_api_key id False ''k'' 5 100
     (fst (create_api_key id False ''k'' ''key_2'' 7 ''u1'' (Some ''read'') (Some 200) \<lparr>users = [], api_keys = [demo_row]\<rparr>)) [])
   = Some \<lparr>ki_key_id = ''key_2'', ki_owner_id = ''u1'', ki_created_at = 7, ki_expires_at = Some 200,
       ki_scopes = Some ''read'', ki_is_active = True\<rparr>"
proof -
  let ?db = "\<lparr>users = [], api_keys = [demo_row]\<rparr>"
  have "create_api_key id False ''k'' ''key_2'' 7 ''u1'' (Some ''read'') (Some 200) ?db =
      (fst (create_api_key id False ''k'' ''key_2'' 7 ''u1'' (Some ''read'') (Some 200) ?db),
       \<lparr>ki_key_id = ''key_2'', ki_owner_id = ''u1'', ki_created_at = 7, ki_expires_at = Some 200,
         ki_scopes = Some ''read'', ki_is_active = True\<rparr>, ''k'')"
    by (simp add: create_api_key_def)
  from created_key_validates [OF this, of 100 5] show ?thesis by (simp add: demo_row_def)
qed

text \<open>When the database refuses the row, creation still returns a key, which never validates.\<close>

theorem create_ignores_failure:
  "\<exists>db' info. create_api_key sha True key key_id created owner scopes expires \<lparr>users = [], api_keys = []\<rparr> = (db', info, key)
     \<and> ki_is_active info \<and> (\<forall>f mt now. snd (validate_api_key sha f key mt now db' []) = None)"
  by (auto simp: create_api_key_def create_api_key_row_def validate_api_key_def validate_cached_def
      validate_api_key_row_def validate_finish_def Let_def)

text \<open>Revoking or deleting a key that does not exist reports success.\<close>

theorem revoke_unmatched_succeeds:
  "\<not> matches_row key_id owner db \<Longrightarrow>
   snd (revoke_api_key False key_id owner db c) \<and> snd (delete_api_key False key_id owner db c)
   \<and> fst (fst (revoke_api_key False key_id owner db c)) = db
   \<and> fst (fst (delete_api_key False key_id owner db c)) = db"
proof -
  assume "\<not> matches_row key_id owner db"
  then have "filter (\<lambda>r. \<not> (k_key_id r = key_id \<and> k_owner_id r = owner)) (api_keys db) = api_keys db"
    "map (\<lambda>r. if k_key_id r = key_id \<and> k_owner_id r = owner then r\<lparr>k_is_active := False\<rparr> else r) (api_keys db) = api_keys db"
    by (auto simp: matches_row_def intro!: filter_True map_idI)
  then show ?thesis
    by (simp add: revoke_api_key_def delete_api_key_def revoke_api_key_row_def delete_api_key_row_def)
qed

end
