(* ===== verification/Auth.thy ===== *)
theory Auth
  imports Api_Keys Rate_Limiter Sql_Policy
begin

text \<open>
  Authentication: password hashes (\<open>src/core/auth/passwords.py\<close>), the middleware that decides
  which requests get through and as whom (\<open>src/core/auth/middleware.py\<close>), the caller's identity
  (\<open>src/core/auth/dependencies.py\<close>) and the routes for keys, registration, login and roles
  (\<open>src/core/app/api/routes/auth.py\<close>).  SHA-256, PBKDF2 and the JWT library are parameters; audit
  records are collected in order; a database that fails is a flag of the call.
\<close>

section \<open>Passwords\<close>

definition is_hex :: "char \<Rightarrow> bool" where
  "is_hex c \<longleftrightarrow> is_digit c \<or> (65 \<le> code c \<and> code c \<le> 70) \<or> (97 \<le> code c \<and> code c \<le> 102)"

text \<open>What \<open>bytes.fromhex\<close> accepts: pairs of digits, with blanks between pairs.\<close>

fun fromhex_ok :: "string \<Rightarrow> bool" where
  "fromhex_ok [] = True"
| "fromhex_ok [c] = is_space c"
| "fromhex_ok (c # d # s) = (if is_space c then fromhex_ok (d # s) else is_hex c \<and> is_hex d \<and> fromhex_ok s)"

definition hash_password :: "(string \<Rightarrow> string \<Rightarrow> string) \<Rightarrow> string \<Rightarrow> string \<Rightarrow> string option \<Rightarrow> string result" where
  "hash_password pbkdf2 random_salt password salt =
     (let s = py_or_str salt random_salt
      in if fromhex_ok s then Inr (s @ CHR ''$'' # pbkdf2 password s)
         else Inl (ValueError ''non-hexadecimal number found in fromhex() arg''))"

definition verify_password :: "(string \<Rightarrow> string \<Rightarrow> string) \<Rightarrow> string \<Rightarrow> string \<Rightarrow> string \<Rightarrow> bool result" where
  "verify_password pbkdf2 random_salt password stored =
     (if CHR ''$'' \<notin> set stored then Inr False
      else (case hash_password pbkdf2 random_salt password (Some (takeWhile (\<lambda>c. c \<noteq> CHR ''$'') stored)) of
              Inl e \<Rightarrow> Inl e
            | Inr h \<Rightarrow> Inr (h = stored)))"

section \<open>State\<close>

record claims =
  c_user_id :: string
  c_username :: string
  c_role :: string
  c_iat :: int
  c_exp :: int

record audit_event =
  ae_event_type :: string
  ae_user_id :: string
  ae_resource_id :: string
  ae_action :: string
  ae_success :: bool

record auth_state =
  a_db :: service_db
  a_keys :: validation_cache
  a_users :: "(string, user_row \<times> seconds) odict"
  a_revoked :: "string \<Rightarrow> seconds option"
  a_limiter :: attempts
  a_audit :: "audit_event list"

definition log_audit :: "string \<Rightarrow> string \<Rightarrow> string \<Rightarrow> string \<Rightarrow> bool \<Rightarrow> auth_state \<Rightarrow> auth_state" where
  "log_audit ev user resource act ok s =
     s\<lparr>a_audit := a_audit s @ [\<lparr>ae_event_type = ev, ae_user_id = user, ae_resource_id = resource,
        ae_action = act, ae_success = ok\<rparr>]\<rparr>"

section \<open>The middleware\<close>

definition user_cache_ttl_seconds :: seconds where "user_cache_ttl_seconds = 30"

definition invalidate_user_cache :: "string \<Rightarrow> auth_state \<Rightarrow> auth_state" where
  "invalidate_user_cache uid s = s\<lparr>a_users := AList.delete uid (a_users s)\<rparr>"

definition revoke_tokens_issued_before :: "string \<Rightarrow> seconds \<Rightarrow> auth_state \<Rightarrow> auth_state" where
  "revoke_tokens_issued_before uid since s = s\<lparr>a_revoked := (a_revoked s)(uid \<mapsto> since)\<rparr>"

definition get_cached_user :: "string \<Rightarrow> seconds \<Rightarrow> auth_state \<Rightarrow> auth_state \<times> user_row option" where
  "get_cached_user uid now s =
     (case map_of (a_users s) uid of
        None \<Rightarrow> (s, None)
      | Some (u, expires_at) \<Rightarrow>
          if now \<ge> expires_at then (s\<lparr>a_users := AList.delete uid (a_users s)\<rparr>, None) else (s, Some u))"

definition cache_user :: "string \<Rightarrow> user_row \<Rightarrow> seconds \<Rightarrow> auth_state \<Rightarrow> auth_state" where
  "cache_user uid u now s = s\<lparr>a_users := AList.update uid (u, now + user_cache_ttl_seconds) (a_users s)\<rparr>"

definition public_paths :: "string list" where
  "public_paths = [''/api/auth/users/register'', ''/api/auth/users/login'', ''/debug'', ''/debug/'']"

definition is_protected :: "string \<Rightarrow> bool" where
  "is_protected path \<longleftrightarrow> (starts_with ''/api'' path \<or> starts_with ''/debug'' path)
     \<and> \<not> starts_with ''/docs'' path \<and> path \<notin> set public_paths"

record request =
  rq_path :: string
  rq_x_api_key :: "string option"
  rq_authorization :: string
  rq_session_id :: string

record identity =
  id_user_id :: string
  id_username :: string
  id_role :: string
  id_scopes :: string
  id_session_id :: string

fun replace_first :: "string \<Rightarrow> string \<Rightarrow> string \<Rightarrow> string" where
  "replace_first pat new [] = []"
| "replace_first pat new (c # s) =
     (if starts_with pat (c # s) then new @ drop (length pat) (c # s) else c # replace_first pat new s)"

definition bearer_token :: "string \<Rightarrow> string" where
  "bearer_token header = (if header = [] then [] else strip (replace_first ''Bearer '' [] header))"

definition first_role :: "string \<Rightarrow> string" where
  "first_role roles = (if roles = [] then [] else hd (split_on (CHR '','') roles))"

text \<open>The parameters: the libraries, and what the application was started with.\<close>

record auth_env =
  e_sha :: "string \<Rightarrow> string"
  e_pbkdf2 :: "string \<Rightarrow> string \<Rightarrow> string"
  e_jwt_decode :: "string \<Rightarrow> seconds \<Rightarrow> claims option"
  e_jwt_encode :: "claims \<Rightarrow> string"
  e_service_manager :: bool
  e_settings :: bool
  e_dummy_hash :: string
  e_rate_limit_enabled :: bool
  e_max_attempts :: int
  e_window :: seconds
  e_jwt_expiry :: int

text \<open>\<open>fk\<close> and \<open>fu\<close>: the database fails for the key and for the user; \<open>mt\<close> and \<open>now\<close> are the two clocks.\<close>

definition authenticate_key :: "auth_env \<Rightarrow> bool \<Rightarrow> bool \<Rightarrow> seconds \<Rightarrow> seconds \<Rightarrow> request \<Rightarrow> string \<Rightarrow> auth_state \<Rightarrow> auth_state \<times> identity option" where
  "authenticate_key env fk fu mt now rq raw s =
     (case validate_api_key (e_sha env) fk raw mt \<lfloor>now\<rfloor> (a_db s) (a_keys s) of
        (c, None) \<Rightarrow> (s\<lparr>a_keys := c\<rparr>, None)
      | (c, Some v) \<Rightarrow>
          (let s1 = s\<lparr>a_keys := c\<rparr>; owner = ki_owner_id v;
               who = \<lparr>id_user_id = owner, id_username = [], id_role = [], id_scopes = py_or_str (ki_scopes v) [],
                      id_session_id = (if rq_session_id rq = [] then ''api-key'' else rq_session_id rq)\<rparr>
           in if owner = [] then (s1, Some who)
              else (let (s2, cached) = get_cached_user owner mt s1;
                        (s3, user) = (case cached of
                            Some u \<Rightarrow> (s2, Some u)
                          | None \<Rightarrow> (case get_user_by_id fu owner (a_db s2) of
                              None \<Rightarrow> (s2, None)
                            | Some u \<Rightarrow> (cache_user owner u mt s2, Some u)))
                    in (s3, Some (case user of
                          None \<Rightarrow> who
                        | Some u \<Rightarrow> who\<lparr>id_username := u_username u, id_role := first_role (u_roles u)\<rparr>)))))"

definition authenticate_jwt :: "auth_env \<Rightarrow> seconds \<Rightarrow> request \<Rightarrow> string \<Rightarrow> auth_state \<Rightarrow> identity option" where
  "authenticate_jwt env now rq token s =
     (if \<not> e_settings env then None
      else case e_jwt_decode env token now of
        None \<Rightarrow> None
      | Some c \<Rightarrow>
          if (case a_revoked s (c_user_id c) of None \<Rightarrow> False | Some t \<Rightarrow> of_int (c_iat c) < t) then None
          else Some \<lparr>id_user_id = c_user_id c, id_username = c_username c, id_role = c_role c,
                 id_scopes = (if c_role c = ''admin'' then ''read,write'' else ''read''),
                 id_session_id = (if rq_session_id rq = [] then ''jwt'' else rq_session_id rq)\<rparr>)"

datatype auth_outcome = Unauthorized | PassPublic | PassAs identity

definition enforce_auth :: "auth_env \<Rightarrow> bool \<Rightarrow> bool \<Rightarrow> seconds \<Rightarrow> seconds \<Rightarrow> request \<Rightarrow> auth_state \<Rightarrow> auth_state \<times> auth_outcome" where
  "enforce_auth env fk fu mt now rq s =
     (if \<not> is_protected (rq_path rq) then (s, PassPublic)
      else (let raw = strip (case rq_x_api_key rq of None \<Rightarrow> [] | Some h \<Rightarrow> h);
                token = bearer_token (rq_authorization rq)
            in if \<not> e_service_manager env then (s, Unauthorized)
               else (let (s1, who) = (if raw = [] then (s, None) else authenticate_key env fk fu mt now rq raw s);
                         who' = (case who of
                             Some w \<Rightarrow> Some w
                           | None \<Rightarrow> if token = [] then None else authenticate_jwt env now rq token s1)
                     in (s1, case who' of None \<Rightarrow> Unauthorized | Some w \<Rightarrow> PassAs w))))"

section \<open>The caller and what a caller may do\<close>

definition is_admin :: "identity \<Rightarrow> bool" where
  "is_admin who \<longleftrightarrow> id_role who = ''admin''"

definition require_owner_or_admin :: "identity \<Rightarrow> string \<Rightarrow> unit result" where
  "require_owner_or_admin who owner =
     (if is_admin who then Inr ()
      else if id_user_id who = [] \<or> id_user_id who \<noteq> owner
      then Inl (HTTPException 403 ''Not authorized to access this resource'') else Inr ())"

definition require_admin :: "identity \<Rightarrow> unit result" where
  "require_admin who = (if is_admin who then Inr () else Inl (HTTPException 403 ''Admin privileges required''))"

definition primary_role :: "user_row \<Rightarrow> string" where
  "primary_role u = (if u_roles u = [] then ''user'' else first_role (u_roles u))"

section \<open>Key routes\<close>

definition route_create_key ::
  "auth_env \<Rightarrow> bool \<Rightarrow> identity \<Rightarrow> string \<Rightarrow> string \<Rightarrow> int \<Rightarrow> string \<Rightarrow> string option \<Rightarrow> int option
     \<Rightarrow> auth_state \<Rightarrow> auth_state \<times> (key_info \<times> string) result" where
  "route_create_key env fails who key key_id created owner scopes expires s =
     (case require_owner_or_admin who owner of
        Inl e \<Rightarrow> (s, Inl e)
      | Inr _ \<Rightarrow>
          (case create_api_key (e_sha env) fails key key_id created owner scopes expires (a_db s) of
             (db, r) \<Rightarrow> (log_audit ''api_key.create'' owner (ki_key_id (fst r)) ''create'' True (s\<lparr>a_db := db\<rparr>), Inr r)))"

definition route_list_keys :: "bool \<Rightarrow> identity \<Rightarrow> string \<Rightarrow> auth_state \<Rightarrow> (key_info list \<times> nat) result" where
  "route_list_keys fails who owner s =
     (case require_owner_or_admin who owner of
        Inl e \<Rightarrow> Inl e
      | Inr _ \<Rightarrow> Inr (list_api_keys fails owner (a_db s), length (list_api_keys fails owner (a_db s))))"

definition route_revoke_key :: "bool \<Rightarrow> identity \<Rightarrow> string \<Rightarrow> string \<Rightarrow> auth_state \<Rightarrow> auth_state \<times> string result" where
  "route_revoke_key fails who key_id owner s =
     (case require_owner_or_admin who owner of
        Inl e \<Rightarrow> (s, Inl e)
      | Inr _ \<Rightarrow>
          (case revoke_api_key fails key_id owner (a_db s) (a_keys s) of
             ((db, c), ok) \<Rightarrow>
               (log_audit ''api_key.revoke'' owner key_id ''revoke'' True (s\<lparr>a_db := db, a_keys := c\<rparr>),
                Inr ''API key revoked successfully'')))"

definition route_delete_key :: "bool \<Rightarrow> identity \<Rightarrow> string \<Rightarrow> string \<Rightarrow> auth_state \<Rightarrow> auth_state \<times> string result" where
  "route_delete_key fails who key_id owner s =
     (case require_owner_or_admin who owner of
        Inl e \<Rightarrow> (s, Inl e)
      | Inr _ \<Rightarrow>
          (case delete_api_key fails key_id owner (a_db s) (a_keys s) of
             ((db, c), ok) \<Rightarrow>
               (log_audit ''api_key.delete'' owner key_id ''delete'' True (s\<lparr>a_db := db, a_keys := c\<rparr>),
                Inr ''API key deleted successfully'')))"

section \<open>User routes\<close>

record user_response =
  ur_user_id :: string
  ur_username :: string
  ur_email :: string
  ur_role :: string
  ur_created_at :: int
  ur_is_active :: bool

definition response_of :: "user_row \<Rightarrow> user_response" where
  "response_of u = \<lparr>ur_user_id = u_user_id u, ur_username = u_username u, ur_email = u_email u,
     ur_role = primary_role u, ur_created_at = u_created_at u, ur_is_active = u_is_active u\<rparr>"

definition allowed_attempt :: "auth_env \<Rightarrow> string \<Rightarrow> seconds \<Rightarrow> auth_state \<Rightarrow> auth_state \<times> bool" where
  "allowed_attempt env key mt s =
     (if e_rate_limit_enabled env
      then (case check_and_record key (e_max_attempts env) (e_window env) mt (a_limiter s) of
              (l, ok) \<Rightarrow> (s\<lparr>a_limiter := l\<rparr>, ok))
      else (s, True))"

text \<open>The request's \<open>role\<close> field is ignored, so it is no argument.\<close>

definition route_register ::
  "auth_env \<Rightarrow> bool \<Rightarrow> string \<Rightarrow> seconds \<Rightarrow> string \<Rightarrow> string \<Rightarrow> int \<Rightarrow> string \<Rightarrow> string \<Rightarrow> string \<Rightarrow> auth_state \<Rightarrow> auth_state \<times> user_response result" where
  "route_register env fails ip mt salt user_id now username email password s =
     (case allowed_attempt env (''register:'' @ ip) mt s of
        (s1, False) \<Rightarrow> (s1, Inl (HTTPException 429 ''Too many registration attempts''))
      | (s1, True) \<Rightarrow>
          (case hash_password (e_pbkdf2 env) salt password None of
             Inl e \<Rightarrow> (s1, Inl (HTTPException 400 ''Failed to register user''))
           | Inr h \<Rightarrow>
               (case create_user_row fails user_id username email h ''user'' now (a_db s1) of
                  (db, False) \<Rightarrow> (s1\<lparr>a_db := db\<rparr>, Inl (HTTPException 400 ''Failed to create user''))
                | (db, True) \<Rightarrow>
                    (log_audit ''user.register'' user_id user_id ''create'' True (s1\<lparr>a_db := db\<rparr>),
                     Inr \<lparr>ur_user_id = user_id, ur_username = username, ur_email = email, ur_role = ''user'',
                          ur_created_at = now, ur_is_active = True\<rparr>))))"

datatype login_reply = Denied string | LoggedIn user_response claims

text \<open>Login up to the verified password, and the issue of the token behind it.\<close>

definition login_verify :: "auth_env \<Rightarrow> bool \<Rightarrow> string \<Rightarrow> string \<Rightarrow> string \<Rightarrow> service_db \<Rightarrow> (user_row option \<times> bool) result" where
  "login_verify env fails salt username password db =
     (let user = get_user_by_username fails username db;
          stored = (case user of Some u \<Rightarrow> u_password_hash u | None \<Rightarrow> e_dummy_hash env)
      in case verify_password (e_pbkdf2 env) salt password stored of
           Inl e \<Rightarrow> Inl (HTTPException 400 ''Failed to authenticate user'')
         | Inr ok \<Rightarrow> Inr (user, ok))"

definition issue_token :: "auth_env \<Rightarrow> user_row \<Rightarrow> seconds \<Rightarrow> claims" where
  "issue_token env u now =
     \<lparr>c_user_id = u_user_id u, c_username = u_username u, c_role = primary_role u, c_iat = \<lfloor>now\<rfloor>,
      c_exp = \<lfloor>now\<rfloor> + e_jwt_expiry env\<rparr>"

definition login_finish :: "auth_env \<Rightarrow> bool \<Rightarrow> string \<Rightarrow> seconds \<Rightarrow> user_row option \<times> bool \<Rightarrow> auth_state \<Rightarrow> auth_state \<times> login_reply" where
  "login_finish env fails ip now r s =
     (case r of
        (None, _) \<Rightarrow> (log_audit ''user.login'' ''unknown'' ''unknown'' ''login'' False s, Denied ''Invalid username or password'')
      | (Some u, ok) \<Rightarrow>
          if \<not> ok then (log_audit ''user.login'' (u_user_id u) (u_user_id u) ''login'' False s,
                        Denied ''Invalid username or password'')
          else if \<not> u_is_active u then (s, Denied ''Account is disabled'')
          else (log_audit ''user.login'' (u_user_id u) (u_user_id u) ''login'' True
                  (s\<lparr>a_limiter := reset_attempts (''login:'' @ ip) (a_limiter s),
                     a_db := fst (update_last_login fails (u_user_id u) \<lfloor>now\<rfloor> (a_db s))\<rparr>),
                LoggedIn (response_of u) (issue_token env u now)))"

definition route_login ::
  "auth_env \<Rightarrow> bool \<Rightarrow> bool \<Rightarrow> string \<Rightarrow> seconds \<Rightarrow> seconds \<Rightarrow> string \<Rightarrow> string \<Rightarrow> string \<Rightarrow> auth_state \<Rightarrow> auth_state \<times> login_reply result" where
  "route_login env f1 f2 ip mt now salt username password s =
     (case allowed_attempt env (''login:'' @ ip) mt s of
        (s1, False) \<Rightarrow> (s1, Inl (HTTPException 429 ''Too many login attempts''))
      | (s1, True) \<Rightarrow>
          (case login_verify env f1 salt username password (a_db s1) of
             Inl e \<Rightarrow> (s1, Inl e)
           | Inr r \<Rightarrow> (case login_finish env f2 ip now r s1 of (s2, reply) \<Rightarrow> (s2, Inr reply))))"

definition route_list_users :: "bool \<Rightarrow> identity \<Rightarrow> auth_state \<Rightarrow> (user_response list \<times> nat) result" where
  "route_list_users fails who s =
     (case require_admin who of
        Inl e \<Rightarrow> Inl e
      | Inr _ \<Rightarrow> Inr (map response_of (list_all_users fails (a_db s)), length (list_all_users fails (a_db s))))"

definition role_known :: "string \<Rightarrow> bool" where
  "role_known role \<longleftrightarrow> role \<in> {''user'', ''admin''}"

text \<open>
  A role change reads the target and, for a demotion, all users; then it writes.  The two halves
  are separated by an await, so that two changes can interleave between them.
\<close>

definition role_change_check :: "bool \<Rightarrow> bool \<Rightarrow> identity \<Rightarrow> string \<Rightarrow> string \<Rightarrow> service_db \<Rightarrow> user_row result" where
  "role_change_check f1 f2 who uid role db =
     (case require_admin who of
        Inl e \<Rightarrow> Inl e
      | Inr _ \<Rightarrow>
          (case get_user_by_id f1 uid db of
             None \<Rightarrow> Inl (HTTPException 404 (''User not found: '' @ uid))
           | Some target \<Rightarrow>
               if primary_role target = ''admin'' \<and> role \<noteq> ''admin''
                  \<and> filter (\<lambda>u. u_user_id u \<noteq> uid \<and> primary_role u = ''admin'') (list_all_users f2 db) = []
               then Inl (HTTPException 409 ''Cannot demote the last remaining admin'')
               else Inr target))"

definition role_change_apply ::
  "bool \<Rightarrow> bool \<Rightarrow> identity \<Rightarrow> string \<Rightarrow> string \<Rightarrow> seconds \<Rightarrow> user_row \<Rightarrow> auth_state \<Rightarrow> auth_state \<times> user_response result" where
  "role_change_apply f3 f4 who uid role now target s =
     (case update_user_role_row f3 uid role \<lfloor>now\<rfloor> (a_db s) of
        (db, False) \<Rightarrow> (s\<lparr>a_db := db\<rparr>, Inl (HTTPException 400 ''Failed to update user role''))
      | (db, True) \<Rightarrow>
          (let s1 = log_audit ''user.role_update'' (id_user_id who) uid ''update_role'' True
                      (revoke_tokens_issued_before uid now (invalidate_user_cache uid (s\<lparr>a_db := db\<rparr>)));
               updated = (case get_user_by_id f4 uid db of None \<Rightarrow> target | Some u \<Rightarrow> u)
           in (s1, Inr ((response_of updated)\<lparr>ur_role := (if primary_role updated = [] then role else primary_role updated)\<rparr>))))"

definition route_update_role ::
  "bool \<Rightarrow> bool \<Rightarrow> bool \<Rightarrow> bool \<Rightarrow> identity \<Rightarrow> string \<Rightarrow> string \<Rightarrow> seconds \<Rightarrow> auth_state \<Rightarrow> auth_state \<times> user_response result" where
  "route_update_role f1 f2 f3 f4 who uid role now s =
     (case role_change_check f1 f2 who uid role (a_db s) of
        Inl e \<Rightarrow> (s, Inl e)
      | Inr target \<Rightarrow> role_change_apply f3 f4 who uid role now target s)"

section \<open>Passwords verify against their own hash\<close>

lemma fromhex_no_dollar: "fromhex_ok s \<Longrightarrow> CHR ''$'' \<notin> set s"
  by (induction s rule: fromhex_ok.induct) (auto simp: is_hex_def is_digit_def is_space_def split: if_splits)

text \<open>
  A stored password hash verifies the password it was made from, for every random salt, and
  verifies another password only if PBKDF2 gives both the same digest under that salt.
\<close>

theorem password_verify_roundtrip:
  assumes "hash_password pbkdf2 salt password None = Inr stored" "salt \<noteq> []"
  shows "verify_password pbkdf2 salt' candidate stored = Inr (pbkdf2 candidate salt = pbkdf2 password salt)"
proof -
  have ok: "fromhex_ok salt" and stored: "stored = salt @ CHR ''$'' # pbkdf2 password salt"
    using assms by (auto simp: hash_password_def Let_def split: if_splits)
  have "takeWhile (\<lambda>c. c \<noteq> CHR ''$'') stored = salt"
    using fromhex_no_dollar [OF ok] by (simp add: stored takeWhile_append)
  moreover have "CHR ''$'' \<in> set stored" by (simp add: stored)
  ultimately show ?thesis
    using ok assms(2) by (auto simp: verify_password_def hash_password_def stored)
qed

theorem password_verify_roundtrip_witness:
  "verify_password (\<lambda>p s. p @ s) ''00'' ''secret'' ''a1$secreta1'' = Inr True
   \<and> verify_password (\<lambda>p s. p @ s) ''00'' ''guess'' ''a1$secreta1'' = Inr False"
proof -
  have h: "hash_password (\<lambda>p s. p @ s) ''a1'' ''secret'' None = Inr ''a1$secreta1''" by code_simp
  from password_verify_roundtrip [OF h] show ?thesis by simp
qed

text \<open>A stored hash whose salt is not hexadecimal raises instead of failing to verify.\<close>

theorem malformed_hash_raises:
  "\<exists>stored. \<forall>pbkdf2 salt password. \<exists>e. verify_password pbkdf2 salt password stored = Inl e"
  by (rule exI [of _ "''zz$00''"])
     (simp add: verify_password_def hash_password_def is_hex_def is_digit_def is_space_def)

section \<open>Who gets through\<close>

lemma log_audit_frame [simp]:
  "a_db (log_audit e u r a ok s) = a_db s" "a_keys (log_audit e u r a ok s) = a_keys s"
  "a_users (log_audit e u r a ok s) = a_users s" "a_revoked (log_audit e u r a ok s) = a_revoked s"
  "a_limiter (log_audit e u r a ok s) = a_limiter s"
  by (simp_all add: log_audit_def)

lemma get_cached_user_frame [simp]:
  "a_db (fst (get_cached_user uid t s)) = a_db s" "a_revoked (fst (get_cached_user uid t s)) = a_revoked s"
  by (auto simp: get_cached_user_def split: option.splits prod.splits)

lemma authenticate_key_who:
  assumes "authenticate_key env fk fu mt now rq raw s = (s', Some w)"
  shows "\<exists>v c. validate_api_key (e_sha env) fk raw mt \<lfloor>now\<rfloor> (a_db s) (a_keys s) = (c, Some v)
    \<and> id_user_id w = ki_owner_id v \<and> id_scopes w = py_or_str (ki_scopes v) []"
  using assms
  by (auto simp: authenticate_key_def Let_def split: prod.splits option.splits if_splits)

lemma authenticate_key_revoked:
  "authenticate_key env fk fu mt now rq raw s = (s', w) \<Longrightarrow> a_revoked s' = a_revoked s"
  by (auto simp: authenticate_key_def Let_def cache_user_def get_cached_user_def split: prod.splits option.splits if_splits)

lemma authenticate_jwt_who:
  "authenticate_jwt env now rq tok s = Some w \<Longrightarrow>
   \<exists>c. e_jwt_decode env tok now = Some c \<and> id_user_id w = c_user_id c \<and> id_role w = c_role c
     \<and> (\<forall>t. a_revoked s (c_user_id c) = Some t \<longrightarrow> t \<le> of_int (c_iat c))"
  by (auto simp: authenticate_jwt_def not_less split: option.splits if_splits)

text \<open>
  C6.  No request reaches a protected path without a credential that was accepted: either an API
  key that validates (from the cache or an active, unexpired row), as its owner and with its
  scopes, or a token that decodes and is not older than the last role change of its holder, as
  that holder.  Nothing else of the request decides who the caller is.
\<close>

theorem protected_path_needs_credential:
  assumes "is_protected (rq_path rq)" "enforce_auth env fk fu mt now rq s = (s', r)" "r \<noteq> Unauthorized"
  shows "\<exists>w. r = PassAs w \<and>
     ((\<exists>key v c. validate_api_key (e_sha env) fk key mt \<lfloor>now\<rfloor> (a_db s) (a_keys s) = (c, Some v)
         \<and> (\<exists>h. rq_x_api_key rq = Some h \<and> key = strip h \<and> key \<noteq> [])
         \<and> id_user_id w = ki_owner_id v \<and> id_scopes w = py_or_str (ki_scopes v) [])
      \<or> (\<exists>c. e_jwt_decode env (bearer_token (rq_authorization rq)) now = Some c
         \<and> id_user_id w = c_user_id c \<and> id_role w = c_role c
         \<and> (\<forall>t. a_revoked s (c_user_id c) = Some t \<longrightarrow> t \<le> of_int (c_iat c))))"
proof -
  define raw where "raw = strip (case rq_x_api_key rq of None \<Rightarrow> [] | Some h \<Rightarrow> h)"
  define tok where "tok = bearer_token (rq_authorization rq)"
  obtain s1 who where k: "(if raw = [] then (s, None) else authenticate_key env fk fu mt now rq raw s) = (s1, who)"
    by (cases "if raw = [] then (s, None) else authenticate_key env fk fu mt now rq raw s")
  have rev: "a_revoked s1 = a_revoked s" using k authenticate_key_revoked by (auto split: if_splits)
  have r: "r = (case (case who of Some w \<Rightarrow> Some w | None \<Rightarrow> if tok = [] then None else authenticate_jwt env now rq tok s1)
      of None \<Rightarrow> Unauthorized | Some w \<Rightarrow> PassAs w)"
    using assms k unfolding enforce_auth_def Let_def raw_def [symmetric] tok_def [symmetric]
    by (simp split: if_splits)
  show ?thesis
  proof (cases who)
    case (Some w)
    then have a: "raw \<noteq> []" "authenticate_key env fk fu mt now rq raw s = (s1, Some w)" using k by (auto split: if_splits)
    from authenticate_key_who [OF a(2)] obtain v c where
      v: "validate_api_key (e_sha env) fk raw mt \<lfloor>now\<rfloor> (a_db s) (a_keys s) = (c, Some v)"
        "id_user_id w = ki_owner_id v" "id_scopes w = py_or_str (ki_scopes v) []" by blast
    have "strip [] = []" by (simp add: strip_def)
    with a(1) have "\<exists>h. rq_x_api_key rq = Some h \<and> raw = strip h \<and> raw \<noteq> []"
      by (cases "rq_x_api_key rq") (auto simp: raw_def)
    moreover have "r = PassAs w" using r Some by simp
    ultimately show ?thesis using v by blast
  next
    case None
    then obtain w where w: "authenticate_jwt env now rq tok s1 = Some w" "r = PassAs w"
      using r assms(3) by (auto split: if_splits option.splits)
    from authenticate_jwt_who [OF w(1)] w(2) rev show ?thesis unfolding tok_def by auto
  qed
qed

text \<open>A world for the witnesses: one administrator, one of whose keys is \<open>demo_row\<close>, one token.\<close>

definition demo_admin :: user_row where
  "demo_admin = \<lparr>u_user_id = ''u1'', u_username = ''ann'', u_email = ''a@x'', u_password_hash = ''a1$secreta1'',
     u_roles = ''admin'', u_is_active = True, u_created_at = 0, u_updated_at = 0, u_last_login_at = None,
     u_login_count = 0\<rparr>"

definition demo_env :: auth_env where
  "demo_env = \<lparr>e_sha = id, e_pbkdf2 = (\<lambda>p s. p @ s),
     e_jwt_decode = (\<lambda>tok now. if tok = ''t'' then Some \<lparr>c_user_id = ''u1'', c_username = ''ann'', c_role = ''admin'',
        c_iat = 5, c_exp = 100\<rparr> else None),
     e_jwt_encode = (\<lambda>c. ''t''), e_service_manager = True, e_settings = True, e_dummy_hash = ''a1$x'',
     e_rate_limit_enabled = True, e_max_attempts = 3, e_window = 60, e_jwt_expiry = 3600\<rparr>"

definition demo_state :: auth_state where
  "demo_state = \<lparr>a_db = \<lparr>users = [demo_admin], api_keys = [demo_row]\<rparr>, a_keys = [], a_users = [],
     a_revoked = (\<lambda>_. None), a_limiter = (\<lambda>_. None), a_audit = []\<rparr>"

definition demo_request :: request where
  "demo_request = \<lparr>rq_path = ''/api/query'', rq_x_api_key = Some ''h'', rq_authorization = [], rq_session_id = []\<rparr>"

lemma demo_enforce:
  "snd (enforce_auth demo_env False False 1 10 demo_request demo_state)
   = PassAs \<lparr>id_user_id = ''u1'', id_username = ''ann'', id_role = ''admin'', id_scopes = ''read'', id_session_id = ''api-key''\<rparr>"
  by code_simp

theorem protected_path_needs_credential_witness:
  "is_protected (rq_path demo_request) \<and> (\<exists>w. snd (enforce_auth demo_env False False 1 10 demo_request demo_state) = PassAs w
     \<and> id_user_id w = ''u1'')"
proof -
  have p: "is_protected (rq_path demo_request)" by code_simp
  obtain s' r where e: "enforce_auth demo_env False False 1 10 demo_request demo_state = (s', r)"
    by (cases "enforce_auth demo_env False False 1 10 demo_request demo_state")
  with demo_enforce have "r \<noteq> Unauthorized" by simp
  from protected_path_needs_credential [OF p e this] p e demo_enforce show ?thesis by auto
qed

section \<open>A role change takes effect\<close>

lemma first_role_single: "CHR '','' \<notin> set role \<Longrightarrow> role \<noteq> [] \<Longrightarrow> first_role role = role"
  by (simp add: first_role_def split_on_word)

lemma role_known_first: "role_known role \<Longrightarrow> first_role role = role \<and> role \<noteq> []"
  by (auto simp: role_known_def intro!: first_role_single)

lemma role_change_apply_state:
  assumes "role_change_apply f3 f4 who uid role now target s = (s', Inr r)"
  shows "a_db s' = fst (update_user_role_row False uid role \<lfloor>now\<rfloor> (a_db s))"
    "a_users s' = AList.delete uid (a_users s)" "a_revoked s' = (a_revoked s)(uid \<mapsto> now)" "a_keys s' = a_keys s"
  using assms
  by (auto simp: role_change_apply_def update_user_role_row_def invalidate_user_cache_def
      revoke_tokens_issued_before_def Let_def split: if_splits)

lemma updated_user:
  assumes "db_inv db" "u \<in> set (users db)" "u_user_id u = uid"
  shows "get_user_by_id False uid (fst (update_user_role_row False uid role now db))
    = Some (u\<lparr>u_roles := role, u_updated_at := now\<rparr>)"
proof -
  have "db_inv (fst (update_user_role_row False uid role now db))" using assms(1) by (rule db_inv_ops)
  moreover have "u\<lparr>u_roles := role, u_updated_at := now\<rparr> \<in> set (users (fst (update_user_role_row False uid role now db)))"
    using assms(2,3) by (force simp: update_user_role_row_def)
  ultimately show ?thesis by (simp add: get_user_by_id_iff assms(3))
qed


definition demo_second :: user_row where
  "demo_second = demo_admin\<lparr>u_user_id := ''u2'', u_username := ''bob'', u_email := ''b@x'', u_roles := ''admin''\<rparr>"

definition demo_two :: auth_state where
  "demo_two = demo_state\<lparr>a_db := \<lparr>users = [demo_admin, demo_second], api_keys = [demo_row]\<rparr>\<rparr>"

definition demo_caller :: identity where
  "demo_caller = \<lparr>id_user_id = ''u2'', id_username = ''bob'', id_role = ''admin'', id_scopes = ''read,write'', id_session_id = ''s''\<rparr>"

lemma demo_two_inv: "db_inv (a_db demo_two)"
  by (simp add: demo_two_def db_inv_def demo_second_def demo_admin_def)


section \<open>Sequences of route calls\<close>

datatype auth_op =
    OpRegister bool string seconds string string int string string string
  | OpLogin bool bool string seconds seconds string string string
  | OpCreateKey bool identity string string int string "string option" "int option"
  | OpRevokeKey bool identity string string
  | OpDeleteKey bool identity string string
  | OpUpdateRole bool bool bool bool identity string string seconds
  | OpRequest bool bool seconds seconds request

fun auth_do :: "auth_env \<Rightarrow> auth_op \<Rightarrow> auth_state \<Rightarrow> auth_state" where
  "auth_do env (OpRegister f ip mt salt uid now un em pw) s = fst (route_register env f ip mt salt uid now un em pw s)"
| "auth_do env (OpLogin f1 f2 ip mt now salt un pw) s = fst (route_login env f1 f2 ip mt now salt un pw s)"
| "auth_do env (OpCreateKey f who key kid cr ow sc ex) s = fst (route_create_key env f who key kid cr ow sc ex s)"
| "auth_do env (OpRevokeKey f who kid ow) s = fst (route_revoke_key f who kid ow s)"
| "auth_do env (OpDeleteKey f who kid ow) s = fst (route_delete_key f who kid ow s)"
| "auth_do env (OpUpdateRole f1 f2 f3 f4 who uid role now) s = fst (route_update_role f1 f2 f3 f4 who uid role now s)"
| "auth_do env (OpRequest fk fu mt now rq) s = fst (enforce_auth env fk fu mt now rq s)"

text \<open>What each route does to the users and the keys.\<close>

lemma allowed_attempt_frame [simp]: "allowed_attempt env k t s = (s', ok) \<Longrightarrow> a_db s' = a_db s"
  by (auto simp: allowed_attempt_def split: if_splits prod.splits)

lemma enforce_auth_db: "a_db (fst (enforce_auth env fk fu mt now rq s)) = a_db s"
proof -
  have "a_db (fst (authenticate_key env fk fu mt now rq raw s)) = a_db s" for raw
    by (auto simp: authenticate_key_def Let_def cache_user_def get_cached_user_def split: prod.splits option.splits)
  then show ?thesis by (auto simp: enforce_auth_def Let_def split: prod.splits) (metis fst_conv)+
qed

definition admins :: "service_db \<Rightarrow> string set" where
  "admins db = {u_user_id u | u. u \<in> set (users db) \<and> primary_role u = ''admin''}"

lemma admins_code: "admins db = set (map u_user_id (filter (\<lambda>u. primary_role u = ''admin'') (users db)))"
  by (auto simp: admins_def)

lemma admins_users: "users db = users db' \<Longrightarrow> admins db = admins db'"
  by (simp add: admins_def)

lemma primary_role_user: "u_roles u = ''user'' \<Longrightarrow> primary_role u = ''user''"
  by (simp add: primary_role_def first_role_def)

lemma register_admins: "admins (a_db (fst (route_register env f ip mt salt uid now un em pw s))) = admins (a_db s)"
  by (auto simp: route_register_def admins_def create_user_row_def primary_role_user
      split: prod.splits bool.splits sum.splits if_splits)

lemma admins_map:
  assumes "\<And>r. u_user_id (g r) = u_user_id r"
  shows "admins (db\<lparr>users := map g (users db)\<rparr>) = {u_user_id r | r. r \<in> set (users db) \<and> primary_role (g r) = ''admin''}"
proof -
  have "admins (db\<lparr>users := map g (users db)\<rparr>) = {u_user_id (g r) | r. r \<in> set (users db) \<and> primary_role (g r) = ''admin''}"
    unfolding admins_def by auto
  then show ?thesis by (simp only: assms)
qed

lemma update_last_login_admins: "admins (fst (update_last_login f uid t db)) = admins db"
proof (cases f)
  case False
  let ?g = "\<lambda>r. if u_user_id r = uid then r\<lparr>u_last_login_at := Some t\<rparr> else r"
  have g: "u_user_id (?g r) = u_user_id r" "primary_role (?g r) = primary_role r" for r
    by (simp_all add: primary_role_def)
  from False admins_map [of ?g, OF g(1)] show ?thesis
    by (simp only: update_last_login_def g(2) if_False fst_conv) (simp add: admins_def)
qed (simp add: update_last_login_def)

lemma login_finish_admins: "admins (a_db (fst (login_finish env f ip now r s))) = admins (a_db s)"
  by (cases r; cases "fst r") (auto simp: login_finish_def update_last_login_admins)

lemma login_admins: "admins (a_db (fst (route_login env f1 f2 ip mt now salt un pw s))) = admins (a_db s)"
proof -
  obtain s1 ok where a: "allowed_attempt env (''login:'' @ ip) mt s = (s1, ok)"
    by (cases "allowed_attempt env (''login:'' @ ip) mt s")
  then have s1: "a_db s1 = a_db s" by simp
  show ?thesis
  proof (cases "login_verify env f1 salt un pw (a_db s1)")
    case (Inl e)
    show ?thesis unfolding route_login_def a using Inl s1 by (cases ok) simp_all
  next
    case (Inr r)
    obtain s2 reply where f: "login_finish env f2 ip now r s1 = (s2, reply)" by (cases "login_finish env f2 ip now r s1")
    have "admins (a_db s2) = admins (a_db s)" using login_finish_admins [of env f2 ip now r s1] by (simp add: f s1)
    then show ?thesis unfolding route_login_def a using Inr f s1 by (cases ok) simp_all
  qed
qed

lemma key_routes_users:
  "users (a_db (fst (route_create_key env f who key kid cr ow sc ex s))) = users (a_db s)"
  "users (a_db (fst (route_revoke_key f who kid ow s))) = users (a_db s)"
  "users (a_db (fst (route_delete_key f who kid ow s))) = users (a_db s)"
  by (auto simp: route_create_key_def route_revoke_key_def route_delete_key_def create_api_key_def revoke_api_key_def
      delete_api_key_def create_api_key_row_def revoke_api_key_row_def delete_api_key_row_def
      split: sum.splits prod.splits if_splits)

lemma update_role_admins:
  assumes "db_inv db" "u \<in> set (users db)" "u_user_id u = uid" "role_known role"
  shows "admins (fst (update_user_role_row False uid role now db)) =
    (if role = ''admin'' then insert uid (admins db) else admins db - {uid})"
proof -
  let ?f = "\<lambda>r. if u_user_id r = uid then r\<lparr>u_roles := role, u_updated_at := now\<rparr> else r"
  have id: "u_user_id (?f r) = u_user_id r" for r by simp
  have pr: "primary_role (?f r) = (if u_user_id r = uid then role else primary_role r)" for r
    using role_known_first [OF assms(4)] by (simp add: primary_role_def)
  have "admins (fst (update_user_role_row False uid role now db)) =
      {u_user_id r | r. r \<in> set (users db) \<and> (if u_user_id r = uid then role else primary_role r) = ''admin''}"
    using admins_map [of ?f db, OF id] unfolding pr by (simp only: update_user_role_row_def if_False fst_conv)
  also have "\<dots> = (if role = ''admin'' then insert uid (admins db) else admins db - {uid})"
    using assms(2,3) by (auto simp: admins_def)
  finally show ?thesis .
qed

text \<open>The effect of the role route on the administrators, uninterrupted.\<close>

lemma role_route_admins:
  assumes "db_inv (a_db s)" "role_known role"
  shows "admins (a_db (fst (route_update_role f1 f2 f3 f4 who uid role now s))) = admins (a_db s)
    \<or> (is_admin who \<and> role = ''admin''
        \<and> admins (a_db (fst (route_update_role f1 f2 f3 f4 who uid role now s))) = insert uid (admins (a_db s)))
    \<or> (is_admin who \<and> role = ''user'' \<and> admins (a_db s) - {uid} \<noteq> {}
        \<and> admins (a_db (fst (route_update_role f1 f2 f3 f4 who uid role now s))) = admins (a_db s) - {uid})"
proof (cases "role_change_check f1 f2 who uid role (a_db s)")
  case (Inl e)
  then show ?thesis by (simp add: route_update_role_def)
next
  case (Inr target)
  then have who: "is_admin who" and get: "get_user_by_id f1 uid (a_db s) = Some target"
    by (auto simp: role_change_check_def require_admin_def split: sum.splits option.splits if_splits)
  have "\<not> f1" using get by (auto simp: get_user_by_id_def split: if_splits)
  then have target: "target \<in> set (users (a_db s))" "u_user_id target = uid"
    using get get_user_by_id_iff [OF assms(1)] by auto
  have db: "a_db (fst (route_update_role f1 f2 f3 f4 who uid role now s)) = fst (update_user_role_row f3 uid role \<lfloor>now\<rfloor> (a_db s))"
    using Inr by (auto simp: route_update_role_def role_change_apply_def Let_def invalidate_user_cache_def
        revoke_tokens_issued_before_def split: prod.splits bool.splits)
  show ?thesis
  proof (cases f3)
    case True
    then show ?thesis unfolding db by (simp add: update_user_role_row_def)
  next
    case False
    then have eff: "admins (a_db (fst (route_update_role f1 f2 f3 f4 who uid role now s))) =
        (if role = ''admin'' then insert uid (admins (a_db s)) else admins (a_db s) - {uid})"
      unfolding db using update_role_admins [OF assms(1) target assms(2)] by simp
    show ?thesis
    proof (cases "role = ''admin'' \<or> primary_role target \<noteq> ''admin''")
      case True
      have "uid \<notin> admins (a_db s)" if "primary_role target \<noteq> ''admin''"
        using that target assms(1) by (auto simp: admins_def db_inv_def distinct_map dest: inj_onD)
      with True eff who show ?thesis by (cases "role = ''admin''") auto
    next
      case other: False
      then have "filter (\<lambda>u. u_user_id u \<noteq> uid \<and> primary_role u = ''admin'') (list_all_users f2 (a_db s)) \<noteq> []"
        using Inr get by (auto simp: role_change_check_def split: sum.splits if_splits)
      then obtain u where "u \<in> set (list_all_users f2 (a_db s))" "u_user_id u \<noteq> uid" "primary_role u = ''admin''"
        by (auto simp: filter_empty_conv)
      then have "u_user_id u \<in> admins (a_db s) - {uid}"
        by (auto simp: admins_def list_all_users_def newest_first_def split: if_splits)
      with other eff who assms(2) show ?thesis by (auto simp: role_known_def)
    qed
  qed
qed

section \<open>The last administrator\<close>

text \<open>The roles the request model admits (\<open>UserRoleUpdate\<close> rejects every other).\<close>

fun op_role_known :: "auth_op \<Rightarrow> bool" where
  "op_role_known (OpUpdateRole f1 f2 f3 f4 who uid role now) = role_known role"
| "op_role_known _ = True"

lemma route_login_db_inv:
  assumes "db_inv (a_db s)"
  shows "db_inv (a_db (fst (route_login env f1 f2 ip mt now salt un pw s)))"
proof -
  obtain s1 ok where a: "allowed_attempt env (''login:'' @ ip) mt s = (s1, ok)"
    by (cases "allowed_attempt env (''login:'' @ ip) mt s")
  then have s1: "db_inv (a_db s1)" using assms by simp
  have fin: "db_inv (a_db (fst (login_finish env f2 ip now r s1)))" for r
    using s1 by (cases r; cases "fst r") (auto simp: login_finish_def intro: db_inv_ops)
  show ?thesis
    unfolding route_login_def a using s1 fin
    by (cases ok) (auto split: sum.split prod.split simp: prod.case_eq_if)
qed

lemma auth_do_inv:
  assumes "db_inv (a_db s)"
  shows "db_inv (a_db (auth_do env op s))"
proof (cases op)
  case (OpRegister f ip mt salt uid now un em pw)
  have "db_inv db" if "create_user_row f uid un em h ro cr (a_db s) = (db, ok)" for h ro cr db ok
    using db_inv_ops(4) [OF assms, of f uid un em h ro cr] that by simp
  then show ?thesis using assms
    by (auto simp: OpRegister route_register_def split: prod.splits bool.splits sum.splits)
next
  case (OpCreateKey f who key kid cr ow sc ex)
  then show ?thesis using assms
    by (auto simp: route_create_key_def create_api_key_def intro: db_inv_ops split: sum.splits prod.splits)
next
  case (OpRevokeKey f who kid ow)
  then show ?thesis using assms db_inv_ops(2) [OF assms, of f kid ow]
    by (auto simp: route_revoke_key_def revoke_api_key_def split: sum.splits prod.splits if_splits)
next
  case (OpDeleteKey f who kid ow)
  then show ?thesis using assms db_inv_ops(3) [OF assms, of f kid ow]
    by (auto simp: route_delete_key_def delete_api_key_def split: sum.splits prod.splits if_splits)
next
  case (OpUpdateRole f1 f2 f3 f4 who uid role now)
  then show ?thesis using assms db_inv_ops(5) [OF assms, of f3 uid role "\<lfloor>now\<rfloor>"]
    by (auto simp: route_update_role_def role_change_apply_def Let_def invalidate_user_cache_def
        revoke_tokens_issued_before_def split: sum.splits prod.splits bool.splits)
qed (use assms in \<open>simp_all add: route_login_db_inv enforce_auth_db\<close>)

lemma auth_do_admins:
  assumes "db_inv (a_db s)" "op_role_known op"
  shows "admins (a_db (auth_do env op s)) = admins (a_db s)
    \<or> (\<exists>f1 f2 f3 f4 who uid role now. op = OpUpdateRole f1 f2 f3 f4 who uid role now \<and> is_admin who
        \<and> (role = ''admin'' \<and> admins (a_db (auth_do env op s)) = insert uid (admins (a_db s))
           \<or> role = ''user'' \<and> admins (a_db s) - {uid} \<noteq> {} \<and> admins (a_db (auth_do env op s)) = admins (a_db s) - {uid}))"
proof (cases op)
  case (OpUpdateRole f1 f2 f3 f4 who uid role now)
  then show ?thesis using role_route_admins [OF assms(1), of role f1 f2 f3 f4 who uid now] assms(2) by simp blast
qed (simp_all add: register_admins login_admins enforce_auth_db admins_users [OF key_routes_users(1)]
    admins_users [OF key_routes_users(2)] admins_users [OF key_routes_users(3)])

definition promotes :: "auth_op \<Rightarrow> string \<Rightarrow> bool" where
  "promotes op uid \<longleftrightarrow> (case op of OpUpdateRole f1 f2 f3 f4 who u role now \<Rightarrow> is_admin who \<and> u = uid \<and> role = ''admin'' | _ \<Rightarrow> False)"

lemma auth_run:
  assumes "db_inv (a_db s)" "list_all op_role_known ops"
  shows "db_inv (a_db (fold (auth_do env) ops s))
    \<and> (admins (a_db s) \<noteq> {} \<longrightarrow> admins (a_db (fold (auth_do env) ops s)) \<noteq> {})
    \<and> admins (a_db (fold (auth_do env) ops s)) \<subseteq> admins (a_db s) \<union> {uid. \<exists>op \<in> set ops. promotes op uid}"
  using assms
proof (induction ops arbitrary: s)
  case (Cons op ops)
  have inv: "db_inv (a_db (auth_do env op s))" using Cons.prems by (intro auth_do_inv) simp
  have known: "op_role_known op" "list_all op_role_known ops" using Cons.prems by simp_all
  note step = auth_do_admins [OF Cons.prems(1) known(1), of env] and IH = Cons.IH [OF inv known(2)]
  have keep: "admins (a_db s) \<noteq> {} \<longrightarrow> admins (a_db (auth_do env op s)) \<noteq> {}" using step by auto
  have "admins (a_db (auth_do env op s)) \<subseteq> admins (a_db s) \<union> {uid. promotes op uid}"
    using step by (auto simp: promotes_def)
  with IH keep show ?case by (auto simp: subset_iff)
qed simp

text \<open>
  C3.  Whatever sequence of registrations, logins, key operations, role changes and requests runs,
  each one completed before the next, there is always an administrator left once there was one, and
  every user that ends up administrator was one at the start or was promoted by an administrator.
\<close>

theorem admin_never_lost:
  assumes "db_inv (a_db s)" "admins (a_db s) \<noteq> {}" "list_all op_role_known ops"
  shows "admins (a_db (fold (auth_do env) ops s)) \<noteq> {}
    \<and> (\<forall>uid \<in> admins (a_db (fold (auth_do env) ops s)).
          uid \<in> admins (a_db s) \<or> (\<exists>op \<in> set ops. promotes op uid))"
  using auth_run [OF assms(1,3), of env] assms(2) by auto

lemma demo_two_admins: "admins (a_db demo_two) = {''u1'', ''u2''}"
proof -
  have "map u_user_id (filter (\<lambda>u. primary_role u = ''admin'') (users (a_db demo_two))) = [''u1'', ''u2'']" by code_simp
  then show ?thesis by (simp add: admins_code del: set_map)
qed

theorem admin_never_lost_witness:
  "admins (a_db (fold (auth_do demo_env)
      [OpUpdateRole False False False False demo_caller ''u1'' ''user'' 9,
       OpUpdateRole False False False False demo_caller ''u2'' ''user'' 9] demo_two)) \<noteq> {}"
proof -
  have ne: "admins (a_db demo_two) \<noteq> {}" by (simp add: demo_two_admins)
  show ?thesis by (rule admin_never_lost [OF demo_two_inv ne, THEN conjunct1]) (simp add: role_known_def)
qed

text \<open>
  Two demotions whose checks both run before either write leave no administrator: the check and the
  write are two executor calls with an await between them.
\<close>

theorem concurrent_demotions_lose_admin:
  "\<exists>s t1 t2. db_inv (a_db s) \<and> admins (a_db s) = {''u1'', ''u2''}
     \<and> role_change_check False False demo_caller ''u1'' ''user'' (a_db s) = Inr t1
     \<and> role_change_check False False demo_caller ''u2'' ''user'' (a_db s) = Inr t2
     \<and> admins (a_db (fst (role_change_apply False False demo_caller ''u2'' ''user'' 9 t2
          (fst (role_change_apply False False demo_caller ''u1'' ''user'' 9 t1 s))))) = {}"
proof (rule exI [of _ demo_two], rule exI [of _ demo_admin], rule exI [of _ demo_second], intro conjI)
  show "db_inv (a_db demo_two)" by (rule demo_two_inv)
  show "admins (a_db demo_two) = {''u1'', ''u2''}" by (rule demo_two_admins)
  show "role_change_check False False demo_caller ''u1'' ''user'' (a_db demo_two) = Inr demo_admin" by code_simp
  show "role_change_check False False demo_caller ''u2'' ''user'' (a_db demo_two) = Inr demo_second" by code_simp
  have "filter (\<lambda>u. primary_role u = ''admin'') (users (a_db (fst (role_change_apply False False demo_caller ''u2'' ''user'' 9 demo_second
          (fst (role_change_apply False False demo_caller ''u1'' ''user'' 9 demo_admin demo_two)))))) = []" by code_simp
  then show "admins (a_db (fst (role_change_apply False False demo_caller ''u2'' ''user'' 9 demo_second
          (fst (role_change_apply False False demo_caller ''u1'' ''user'' 9 demo_admin demo_two))))) = {}"
    by (simp add: admins_def filter_empty_conv)
qed

text \<open>
  A login that read the user before a demotion and issues its token after it gets a token that
  still says administrator and is not older than the demotion, so it is accepted.
\<close>

theorem login_race_keeps_stale_role:
  "login_verify demo_env False ''00'' ''ann'' ''secret'' (a_db demo_two) = Inr (Some demo_admin, True)
   \<and> (\<exists>s' resp. route_update_role False False False False demo_caller ''u1'' ''user'' 9 demo_two = (s', Inr resp)
     \<and> c_role (issue_token demo_env demo_admin 10) = ''admin''
     \<and> \<not> (\<exists>t. a_revoked s' (c_user_id (issue_token demo_env demo_admin 10)) = Some t
           \<and> of_int (c_iat (issue_token demo_env demo_admin 10)) < t))"
proof -
  have v: "login_verify demo_env False ''00'' ''ann'' ''secret'' (a_db demo_two) = Inr (Some demo_admin, True)" by code_simp
  have "(case snd (route_update_role False False False False demo_caller ''u1'' ''user'' 9 demo_two) of Inl e \<Rightarrow> False | Inr r \<Rightarrow> True)"
    by code_simp
  then obtain s' resp where r: "route_update_role False False False False demo_caller ''u1'' ''user'' 9 demo_two = (s', Inr resp)"
    by (cases "route_update_role False False False False demo_caller ''u1'' ''user'' 9 demo_two")
       (auto split: sum.splits)
  then have "a_revoked s' ''u1'' = Some 9"
    by (auto simp: route_update_role_def split: sum.splits dest: role_change_apply_state(3))
  moreover have "c_role (issue_token demo_env demo_admin 10) = ''admin''" by code_simp
  ultimately show ?thesis using r v by (auto simp: issue_token_def demo_admin_def)
qed

text \<open>
  A token issued in the second of a role change, but after it, is refused: the issue time is
  truncated to whole seconds, the revocation time is not.
\<close>

theorem fresh_token_refused:
  assumes "\<lfloor>later\<rfloor> = \<lfloor>now\<rfloor>" "of_int \<lfloor>now\<rfloor> < now" "now \<le> later" "now < of_int (\<lfloor>later\<rfloor> + 1)"
    and "e_jwt_decode env tok later = Some (issue_token env u later)"
  shows "authenticate_jwt env later rq tok (revoke_tokens_issued_before (u_user_id u) now s) = None"
  using assms by (simp add: authenticate_jwt_def issue_token_def revoke_tokens_issued_before_def)

section \<open>Callers act on their own keys\<close>

text \<open>
  C32.  A caller that is not an administrator can create, revoke and delete keys of its own only:
  through any of the three routes, the rows of every other owner stay as they are, and a request
  that names another owner is answered 403 with the state unchanged.
\<close>

theorem key_routes_isolated:
  assumes "\<not> is_admin who" "other \<noteq> id_user_id who"
    and "op \<in> {OpCreateKey f who key kid cr ow sc ex, OpRevokeKey f who kid ow, OpDeleteKey f who kid ow}"
  shows "filter (\<lambda>r. k_owner_id r = other) (api_keys (a_db (auth_do env op s)))
       = filter (\<lambda>r. k_owner_id r = other) (api_keys (a_db s))
    \<and> (ow \<noteq> id_user_id who \<longrightarrow> auth_do env op s = s)"
proof (cases "ow = id_user_id who")
  case False
  then have "\<exists>e. require_owner_or_admin who ow = Inl e"
    using assms(1) by (auto simp: require_owner_or_admin_def)
  then show ?thesis using assms(3)
    by (auto simp: route_create_key_def route_revoke_key_def route_delete_key_def)
next
  case True
  have "filter (\<lambda>r. k_owner_id r = other) (map (\<lambda>r. if k_key_id r = kid \<and> k_owner_id r = ow then r\<lparr>k_is_active := False\<rparr> else r) rs)
      = filter (\<lambda>r. k_owner_id r = other) rs" for rs
    using True assms(2) by (induction rs) auto
  moreover have "filter (\<lambda>r. k_owner_id r = other) (filter (\<lambda>r. \<not> (k_key_id r = kid \<and> k_owner_id r = ow)) rs)
      = filter (\<lambda>r. k_owner_id r = other) rs" for rs
    using True assms(2) by (induction rs) auto
  ultimately show ?thesis using True assms
    by (auto simp: route_create_key_def route_revoke_key_def route_delete_key_def create_api_key_def
        revoke_api_key_def delete_api_key_def create_api_key_row_def revoke_api_key_row_def delete_api_key_row_def
        split: sum.splits prod.splits if_splits)
qed

theorem key_routes_isolated_witness:
  "auth_do demo_env (OpRevokeKey False (demo_caller\<lparr>id_role := ''user''\<rparr>) ''k1'' ''u1'') demo_two = demo_two"
  using key_routes_isolated [of "demo_caller\<lparr>id_role := ''user''\<rparr>" "''u1''"
      "OpRevokeKey False (demo_caller\<lparr>id_role := ''user''\<rparr>) ''k1'' ''u1''" False "[]" "''k1''" 0 "''u1''" None None demo_env demo_two]
  by (simp add: is_admin_def demo_caller_def)

end
