(* ===== verification/Persistence_Queue.thy ===== *)
theory Persistence_Queue
  imports Prelude
begin

text \<open>
  \<open>src/core/caching/persistence_queue.py\<close>: the bounded queue of cache-persistence jobs and its
  consumer tasks.  The operations on the queue object are functions; \<open>qstep\<close> interleaves them on
  the event loop: submissions, a worker taking a job, the end of a job, the two halves of
  \<open>stop()\<close>.  A job's coroutine is abstract: a job is known by the number of the submission that
  was accepted, and may end in any way.  \<open>begun\<close>, \<open>aborted\<close> and \<open>submissions\<close> record the history
  and are read by no operation.
\<close>

section \<open>The queue object\<close>

record job =
  j_no :: nat
  j_enqueued_at :: seconds

record pqueue =
  q_maxsize :: int
  q_items :: "job list"
  q_unfinished :: nat
  q_num_workers :: int
  q_worker_tasks :: "nat list"
  q_accepting :: bool
  q_enqueued :: nat
  q_completed :: nat
  q_failed :: nat
  q_dropped :: nat
  q_total_latency :: seconds

definition pq_new :: "int \<Rightarrow> int \<Rightarrow> pqueue" where
  "pq_new maxsize workers =
     \<lparr>q_maxsize = maxsize, q_items = [], q_unfinished = 0, q_num_workers = workers, q_worker_tasks = [],
      q_accepting = False, q_enqueued = 0, q_completed = 0, q_failed = 0, q_dropped = 0, q_total_latency = 0\<rparr>"

text \<open>\<open>asyncio.Queue\<close> is unbounded when its size is not positive.\<close>

definition pq_full :: "pqueue \<Rightarrow> bool" where
  "pq_full q \<longleftrightarrow> 0 < q_maxsize q \<and> q_maxsize q \<le> int (length (q_items q))"

text \<open>\<open>start\<close> takes the number of the first task it creates and returns the tasks.\<close>

definition pq_start :: "nat \<Rightarrow> pqueue \<Rightarrow> pqueue \<times> nat list" where
  "pq_start next q =
     (if q_accepting q then (q, [])
      else (let ts = [next ..< next + nat (q_num_workers q)] in (q\<lparr>q_accepting := True, q_worker_tasks := ts\<rparr>, ts)))"

definition pq_submit :: "seconds \<Rightarrow> pqueue \<Rightarrow> pqueue \<times> bool" where
  "pq_submit now q =
     (if \<not> q_accepting q then (q\<lparr>q_dropped := Suc (q_dropped q)\<rparr>, False)
      else if pq_full q then (q\<lparr>q_dropped := Suc (q_dropped q)\<rparr>, False)
      else (q\<lparr>q_items := q_items q @ [\<lparr>j_no = q_enqueued q, j_enqueued_at = now\<rparr>],
              q_unfinished := Suc (q_unfinished q), q_enqueued := Suc (q_enqueued q)\<rparr>, True))"

text \<open>How a job ends: it returns, raises an \<open>Exception\<close>, or is cancelled (or raises \<open>CancelledError\<close>).\<close>

datatype job_end = JobDone | JobFailed | JobCancelled

definition pq_finish :: "seconds \<Rightarrow> job \<Rightarrow> job_end \<Rightarrow> pqueue \<Rightarrow> pqueue" where
  "pq_finish now j e q =
     (let q1 = (case e of
           JobDone \<Rightarrow> q\<lparr>q_completed := Suc (q_completed q)\<rparr>
         | JobFailed \<Rightarrow> q\<lparr>q_failed := Suc (q_failed q)\<rparr>
         | JobCancelled \<Rightarrow> q)
      in q1\<lparr>q_total_latency := q_total_latency q1 + (now - j_enqueued_at j), q_unfinished := q_unfinished q1 - 1\<rparr>)"

record pq_metrics =
  qm_queue_depth :: nat
  qm_enqueued :: nat
  qm_completed :: nat
  qm_failed :: nat
  qm_dropped :: nat
  qm_avg_latency_ms :: rat

definition pq_metrics_of :: "pqueue \<Rightarrow> pq_metrics" where
  "pq_metrics_of q =
     \<lparr>qm_queue_depth = length (q_items q), qm_enqueued = q_enqueued q, qm_completed = q_completed q,
      qm_failed = q_failed q, qm_dropped = q_dropped q,
      qm_avg_latency_ms = py_round 4 (q_total_latency q / of_nat (max 1 (q_completed q + q_failed q)) * 1000)\<rparr>"

text \<open>The process-wide queue.\<close>

definition get_persistence_queue :: "pqueue option \<Rightarrow> pqueue" where
  "get_persistence_queue g = (case g of None \<Rightarrow> pq_new 1000 3 | Some q \<Rightarrow> q)"

definition submit_persist_job :: "seconds \<Rightarrow> pqueue option \<Rightarrow> pqueue option \<times> bool" where
  "submit_persist_job now g = (case pq_submit now (get_persistence_queue g) of (q, ok) \<Rightarrow> (Some q, ok))"

section \<open>The system\<close>

record qsys =
  pq :: pqueue
  idle_workers :: "nat set"
  running :: "(nat, job) odict"
  next_task :: nat
  stopping :: bool
  begun :: "nat list"
  aborted :: nat
  submissions :: nat

definition qsys_new :: "int \<Rightarrow> int \<Rightarrow> qsys" where
  "qsys_new maxsize workers =
     \<lparr>pq = pq_new maxsize workers, idle_workers = {}, running = [], next_task = 0, stopping = False,
      begun = [], aborted = 0, submissions = 0\<rparr>"

text \<open>
  The second half of \<open>stop()\<close> cancels the worker tasks it knows; a cancelled task that runs a job
  goes through the \<open>finally\<close> of the job.
\<close>

fun cancel_running :: "seconds \<Rightarrow> nat list \<Rightarrow> (nat, job) odict \<Rightarrow> pqueue \<Rightarrow> pqueue \<times> (nat, job) odict \<times> nat" where
  "cancel_running now ts [] q = (q, [], 0)"
| "cancel_running now ts ((w, j) # rs) q =
     (if w \<in> set ts
      then (case cancel_running now ts rs (pq_finish now j JobCancelled q) of (q', rs', n) \<Rightarrow> (q', rs', Suc n))
      else (case cancel_running now ts rs q of (q', rs', n) \<Rightarrow> (q', (w, j) # rs', n)))"

definition stop_finish :: "seconds \<Rightarrow> qsys \<Rightarrow> qsys" where
  "stop_finish now s =
     (case cancel_running now (q_worker_tasks (pq s)) (running s) (pq s) of
        (q, rs, n) \<Rightarrow>
          s\<lparr>pq := q\<lparr>q_worker_tasks := []\<rparr>, idle_workers := idle_workers s - set (q_worker_tasks (pq s)),
            running := rs, stopping := False, aborted := aborted s + n\<rparr>)"

inductive qstep :: "qsys \<Rightarrow> qsys \<Rightarrow> bool" where
  start: "pq_start (next_task s) (pq s) = (q, ts) \<Longrightarrow>
      qstep s (s\<lparr>pq := q, idle_workers := idle_workers s \<union> set ts, next_task := next_task s + length ts\<rparr>)"
| submit: "pq_submit now (pq s) = (q, ok) \<Longrightarrow>
      qstep s (s\<lparr>pq := q, submissions := Suc (submissions s)\<rparr>)"
| take: "w \<in> idle_workers s \<Longrightarrow> q_items (pq s) = j # js \<Longrightarrow>
      qstep s (s\<lparr>pq := (pq s)\<lparr>q_items := js\<rparr>, idle_workers := idle_workers s - {w},
                 running := AList.update w j (running s), begun := begun s @ [j_no j]\<rparr>)"
| finish: "map_of (running s) w = Some j \<Longrightarrow> e \<noteq> JobCancelled \<Longrightarrow>
      qstep s (s\<lparr>pq := pq_finish now j e (pq s), running := AList.delete w (running s),
                 idle_workers := insert w (idle_workers s)\<rparr>)"
| die: "map_of (running s) w = Some j \<Longrightarrow>
      qstep s (s\<lparr>pq := pq_finish now j JobCancelled (pq s), running := AList.delete w (running s),
                 aborted := Suc (aborted s)\<rparr>)"
| stop: "qstep s (s\<lparr>pq := (pq s)\<lparr>q_accepting := False\<rparr>, stopping := True\<rparr>)"
| stopped: "stopping s \<Longrightarrow> q_worker_tasks (pq s) = [] \<Longrightarrow> qstep s (s\<lparr>stopping := False\<rparr>)"
| drained: "stopping s \<Longrightarrow> q_unfinished (pq s) = 0 \<Longrightarrow> qstep s (stop_finish now s)"
| drain_timeout: "stopping s \<Longrightarrow> qstep s (stop_finish now s)"

inductive qreach :: "int \<Rightarrow> int \<Rightarrow> qsys \<Rightarrow> bool" for maxsize workers where
  start: "qreach maxsize workers (qsys_new maxsize workers)"
| step: "qreach maxsize workers s \<Longrightarrow> qstep s s' \<Longrightarrow> qreach maxsize workers s'"

section \<open>The invariant\<close>

definition worker_inv :: "qsys \<Rightarrow> bool" where
  "worker_inv s \<longleftrightarrow> wf_odict (running s) \<and> idle_workers s \<inter> set (keys (running s)) = {}
     \<and> (\<forall>w \<in> idle_workers s \<union> set (keys (running s)). w < next_task s)"

definition tally_inv :: "qsys \<Rightarrow> bool" where
  "tally_inv s \<longleftrightarrow>
     q_unfinished (pq s) = length (q_items (pq s)) + length (running s)
   \<and> q_enqueued (pq s) = q_completed (pq s) + q_failed (pq s) + aborted s + length (running s) + length (q_items (pq s))
   \<and> submissions s = q_enqueued (pq s) + q_dropped (pq s)
   \<and> (0 < q_maxsize (pq s) \<longrightarrow> int (length (q_items (pq s))) \<le> q_maxsize (pq s))"

definition fifo_inv :: "qsys \<Rightarrow> bool" where
  "fifo_inv s \<longleftrightarrow> begun s @ map j_no (q_items (pq s)) = [0 ..< q_enqueued (pq s)]"

lemma pq_finish_sel [simp]:
  "q_items (pq_finish now j e q) = q_items q" "q_enqueued (pq_finish now j e q) = q_enqueued q"
  "q_dropped (pq_finish now j e q) = q_dropped q" "q_maxsize (pq_finish now j e q) = q_maxsize q"
  "q_accepting (pq_finish now j e q) = q_accepting q" "q_worker_tasks (pq_finish now j e q) = q_worker_tasks q"
  "q_unfinished (pq_finish now j e q) = q_unfinished q - 1"
  "q_completed (pq_finish now j e q) = q_completed q + (if e = JobDone then 1 else 0)"
  "q_failed (pq_finish now j e q) = q_failed q + (if e = JobFailed then 1 else 0)"
  by (cases e; simp add: pq_finish_def Let_def)+

lemma cancel_running_effect:
  assumes "cancel_running now ts rs q = (q', rs', n)" "length rs \<le> q_unfinished q"
  shows "rs' = filter (\<lambda>(w, j). w \<notin> set ts) rs \<and> length rs = length rs' + n
     \<and> q_items q' = q_items q \<and> q_enqueued q' = q_enqueued q \<and> q_dropped q' = q_dropped q
     \<and> q_maxsize q' = q_maxsize q \<and> q_completed q' = q_completed q \<and> q_failed q' = q_failed q
     \<and> q_unfinished q' + n = q_unfinished q"
  using assms
proof (induction now ts rs q arbitrary: q' rs' n rule: cancel_running.induct)
  case (2 now ts w j rs q)
  show ?case
  proof (cases "w \<in> set ts")
    case True
    obtain q1 r1 m where r: "cancel_running now ts rs (pq_finish now j JobCancelled q) = (q1, r1, m)"
      by (metis prod_cases3)
    have "length rs \<le> q_unfinished (pq_finish now j JobCancelled q)" using 2(4) by simp
    from 2(1) [OF True r this] 2(3,4) r True show ?thesis by auto
  next
    case False
    obtain q1 r1 m where r: "cancel_running now ts rs q = (q1, r1, m)" by (metis prod_cases3)
    from 2(2) [OF False r] 2(3,4) r False show ?thesis by auto
  qed
qed simp

lemma stop_finish_inv:
  assumes "worker_inv s" "tally_inv s" "fifo_inv s"
  shows "worker_inv (stop_finish now s) \<and> tally_inv (stop_finish now s) \<and> fifo_inv (stop_finish now s)"
proof -
  let ?ts = "q_worker_tasks (pq s)"
  obtain q rs n where c: "cancel_running now ?ts (running s) (pq s) = (q, rs, n)" by (metis prod_cases3)
  have "length (running s) \<le> q_unfinished (pq s)" using assms(2) by (simp add: tally_inv_def)
  note e = cancel_running_effect [OF c this]
  have rs: "rs = filter (\<lambda>(w, j). w \<notin> set ?ts) (running s)" using e by simp
  have k: "set (keys rs) \<subseteq> set (keys (running s))" unfolding rs by auto
  have d: "distinct (keys rs)" unfolding rs using assms(1)
    by (simp add: worker_inv_def wf_odict_def distinct_map_filter case_prod_unfold)
  have w: "worker_inv (stop_finish now s)"
    using assms(1) k d unfolding worker_inv_def wf_odict_def stop_finish_def c by auto
  have t: "tally_inv (stop_finish now s)"
    using assms(2) e unfolding tally_inv_def stop_finish_def c by auto
  have f: "fifo_inv (stop_finish now s)"
    using assms(3) e unfolding fifo_inv_def stop_finish_def c by simp
  from w t f show ?thesis by blast
qed

lemma pq_start_effect:
  assumes "pq_start next q = (q', ts)"
  shows "q_items q' = q_items q \<and> q_unfinished q' = q_unfinished q \<and> q_enqueued q' = q_enqueued q
      \<and> q_completed q' = q_completed q \<and> q_failed q' = q_failed q \<and> q_dropped q' = q_dropped q \<and> q_maxsize q' = q_maxsize q"
    and "\<forall>w \<in> set ts. next \<le> w \<and> w < next + length ts"
  using assms by (auto simp: pq_start_def Let_def split: if_splits)

lemma pq_submit_cases:
  assumes "pq_submit now q = (q', ok)"
  obtains (dropped) "\<not> ok" "\<not> q_accepting q \<or> pq_full q" "q' = q\<lparr>q_dropped := Suc (q_dropped q)\<rparr>"
  | (queued) "ok" "q_accepting q" "\<not> pq_full q"
      "q' = q\<lparr>q_items := q_items q @ [\<lparr>j_no = q_enqueued q, j_enqueued_at = now\<rparr>],
              q_unfinished := Suc (q_unfinished q), q_enqueued := Suc (q_enqueued q)\<rparr>"
  using assms by (auto simp: pq_submit_def split: if_splits)

lemma ended_worker:
  assumes "map_of (running s) w = Some j" "worker_inv s"
  shows "w < next_task s" "length (running s) = Suc (length (AList.delete w (running s)))"
proof -
  have k: "w \<in> set (keys (running s))" using map_of_Some_keys [OF assms(1)] .
  show "w < next_task s" using k assms(2) unfolding worker_inv_def by blast
  have "wf_odict (running s)" using assms(2) unfolding worker_inv_def by blast
  moreover have "0 < length (running s)" using k by (cases "running s") simp_all
  ultimately show "length (running s) = Suc (length (AList.delete w (running s)))" using k by (simp add: length_delete)
qed

lemma qstep_inv:
  assumes "qstep s s'" "worker_inv s" "tally_inv s" "fifo_inv s"
  shows "worker_inv s' \<and> tally_inv s' \<and> fifo_inv s'"
  using assms
proof (cases rule: qstep.cases)
  case (start q ts)
  note e = pq_start_effect [OF start(2)]
  have "worker_inv s'" unfolding start(1) worker_inv_def
  proof (intro conjI ballI)
    show "wf_odict (running (s\<lparr>pq := q, idle_workers := idle_workers s \<union> set ts, next_task := next_task s + length ts\<rparr>))"
      using assms(2) by (simp add: worker_inv_def)
    have "w \<notin> set ts" if "w < next_task s" for w using e(2) that by (meson leD)
    then have "set ts \<inter> set (keys (running s)) = {}" using assms(2) unfolding worker_inv_def by blast
    then show "idle_workers (s\<lparr>pq := q, idle_workers := idle_workers s \<union> set ts, next_task := next_task s + length ts\<rparr>)
        \<inter> set (keys (running (s\<lparr>pq := q, idle_workers := idle_workers s \<union> set ts, next_task := next_task s + length ts\<rparr>))) = {}"
      using assms(2) unfolding worker_inv_def by (simp del: set_map) blast
  next
    fix w assume "w \<in> idle_workers (s\<lparr>pq := q, idle_workers := idle_workers s \<union> set ts, next_task := next_task s + length ts\<rparr>)
        \<union> set (keys (running (s\<lparr>pq := q, idle_workers := idle_workers s \<union> set ts, next_task := next_task s + length ts\<rparr>)))"
    then have "w \<in> set ts \<or> w < next_task s" using assms(2) unfolding worker_inv_def by (simp del: set_map) blast
    then show "w < next_task (s\<lparr>pq := q, idle_workers := idle_workers s \<union> set ts, next_task := next_task s + length ts\<rparr>)"
      using e(2) by auto
  qed
  moreover have "tally_inv s'" using assms(3) e(1) unfolding start(1) tally_inv_def by simp
  moreover have "fifo_inv s'" using assms(4) e(1) unfolding start(1) fifo_inv_def by simp
  ultimately show ?thesis by blast
next
  case (submit now q ok)
  have "worker_inv s'" using assms(2) unfolding submit(1) worker_inv_def by simp
  moreover from submit(2) have "tally_inv s' \<and> fifo_inv s'" using assms(3,4)
    unfolding submit(1) tally_inv_def fifo_inv_def
    by (cases rule: pq_submit_cases) (simp_all add: pq_full_def, linarith)
  ultimately show ?thesis by blast
next
  case (take w j js)
  have w: "w \<notin> set (keys (running s))" "w < next_task s" using take(2) assms(2) by (auto simp: worker_inv_def)
  then have l: "length (AList.update w j (running s)) = Suc (length (running s))"
    "set (keys (AList.update w j (running s))) = insert w (set (keys (running s)))"
    by (simp_all add: length_update set_keys_update del: set_map)
  have "worker_inv s'" using assms(2) w unfolding take(1) worker_inv_def
    by (simp add: l(2) del: set_map) blast
  moreover have "tally_inv s'" using assms(3) take(3) unfolding take(1) tally_inv_def by (auto simp: l(1))
  moreover have "fifo_inv s'" using assms(4) take(3) unfolding take(1) fifo_inv_def by simp
  ultimately show ?thesis by blast
next
  case (finish w j e now)
  note w = ended_worker [OF finish(2) assms(2)]
  have "worker_inv s'" using assms(2) w(1) unfolding finish(1) worker_inv_def
    by (simp add: set_keys_delete del: set_map) blast
  moreover have "tally_inv s'" using assms(3) finish(3) unfolding finish(1) tally_inv_def w(2)
    by (cases e) simp_all
  moreover have "fifo_inv s'" using assms(4) unfolding finish(1) fifo_inv_def by simp
  ultimately show ?thesis by blast
next
  case (die w j now)
  note w = ended_worker [OF die(2) assms(2)]
  have "worker_inv s'" using assms(2) unfolding die(1) worker_inv_def
    by (simp add: set_keys_delete del: set_map) blast
  moreover have "tally_inv s'" using assms(3) unfolding die(1) tally_inv_def w(2) by simp
  moreover have "fifo_inv s'" using assms(4) unfolding die(1) fifo_inv_def by simp
  ultimately show ?thesis by blast
next
  case stop
  then show ?thesis using assms(2-4) by (simp add: worker_inv_def tally_inv_def fifo_inv_def)
next
  case stopped
  then show ?thesis using assms(2-4) by (simp add: worker_inv_def tally_inv_def fifo_inv_def)
next
  case (drained now)
  then show ?thesis using assms(2-4) stop_finish_inv by blast
next
  case (drain_timeout now)
  then show ?thesis using assms(2-4) stop_finish_inv by blast
qed

lemma qreach_inv:
  assumes "qreach maxsize workers s"
  shows "worker_inv s \<and> tally_inv s \<and> fifo_inv s \<and> q_maxsize (pq s) = maxsize"
  using assms
proof (induction rule: qreach.induct)
  case start
  show ?case by (simp add: worker_inv_def tally_inv_def fifo_inv_def qsys_new_def pq_new_def)
next
  case (step s s')
  have "q_maxsize (pq s') = q_maxsize (pq s)" using step.hyps(2)
  proof (cases rule: qstep.cases)
    case (start q ts)
    then show ?thesis using pq_start_effect(1) [OF start(2)] by simp
  next
    case (submit now q ok)
    then show ?thesis by (auto simp: pq_submit_def split: if_splits)
  next
    case (drained now)
    obtain q rs n where c: "cancel_running now (q_worker_tasks (pq s)) (running s) (pq s) = (q, rs, n)" by (metis prod_cases3)
    have "length (running s) \<le> q_unfinished (pq s)" using step.IH by (simp add: tally_inv_def)
    from cancel_running_effect [OF c this] drained(1) c show ?thesis by (simp add: stop_finish_def)
  next
    case (drain_timeout now)
    obtain q rs n where c: "cancel_running now (q_worker_tasks (pq s)) (running s) (pq s) = (q, rs, n)" by (metis prod_cases3)
    have "length (running s) \<le> q_unfinished (pq s)" using step.IH by (simp add: tally_inv_def)
    from cancel_running_effect [OF c this] drain_timeout(1) c show ?thesis by (simp add: stop_finish_def)
  qed simp_all
  then show ?case using qstep_inv [OF step.hyps(2)] step.IH by blast
qed

section \<open>Properties\<close>

text \<open>
  C11.  However submissions, workers, failing jobs, stops and restarts interleave: no job is lost
  or run twice and jobs start in the order they were accepted (job \<open>n\<close> is the \<open>n\<close>-th to start);
  every submission is accepted or counted as dropped; every accepted job is queued, running,
  completed, failed or was cancelled; and the backlog never exceeds the size of the queue.
\<close>

theorem persistence_queue_accounts:
  assumes "qreach maxsize workers s"
  shows "begun s @ map j_no (q_items (pq s)) = [0 ..< q_enqueued (pq s)]
    \<and> submissions s = q_enqueued (pq s) + q_dropped (pq s)
    \<and> q_enqueued (pq s) = q_completed (pq s) + q_failed (pq s) + aborted s + length (running s) + length (q_items (pq s))
    \<and> (0 < maxsize \<longrightarrow> int (length (q_items (pq s))) \<le> maxsize)"
  using qreach_inv [OF assms] by (auto simp: fifo_inv_def tally_inv_def)

text \<open>A queue of size one with one worker, on which three jobs are submitted and one is taken.\<close>

definition q_started :: qsys where
  "q_started = (let r = pq_start 0 (pq_new 1 1) in
     (qsys_new 1 1)\<lparr>pq := fst r, idle_workers := {} \<union> set (snd r), next_task := length (snd r)\<rparr>)"

definition q_submitted :: "qsys \<Rightarrow> qsys" where
  "q_submitted s = s\<lparr>pq := fst (pq_submit 0 (pq s)), submissions := Suc (submissions s)\<rparr>"

definition q_taken :: "qsys \<Rightarrow> qsys" where
  "q_taken s = s\<lparr>pq := (pq s)\<lparr>q_items := tl (q_items (pq s))\<rparr>, idle_workers := idle_workers s - {0},
     running := AList.update 0 (hd (q_items (pq s))) (running s), begun := begun s @ [j_no (hd (q_items (pq s)))]\<rparr>"

lemma q_started_reach: "qreach 1 1 q_started"
  using qreach.step [OF qreach.start qstep.start [OF surjective_pairing]]
  by (simp add: q_started_def Let_def qsys_new_def)

lemma q_submitted_reach: "qreach mx wk s \<Longrightarrow> qreach mx wk (q_submitted s)"
  unfolding q_submitted_def by (rule qreach.step, assumption, rule qstep.submit [OF surjective_pairing])

lemma q_taken_reach: "qreach mx wk s \<Longrightarrow> 0 \<in> idle_workers s \<Longrightarrow> q_items (pq s) \<noteq> [] \<Longrightarrow> qreach mx wk (q_taken s)"
  unfolding q_taken_def by (rule qreach.step, assumption, rule qstep.take) simp_all

definition q_loaded :: qsys where
  "q_loaded = q_submitted (q_submitted (q_taken (q_submitted q_started)))"

lemma q_loaded_state:
  "begun q_loaded = [0] \<and> map j_no (q_items (pq q_loaded)) = [1] \<and> q_dropped (pq q_loaded) = 1 \<and> submissions q_loaded = 3"
  by (simp add: q_loaded_def q_submitted_def q_taken_def q_started_def pq_start_def pq_submit_def pq_full_def
      pq_new_def qsys_new_def Let_def)

lemma q_loaded_reach: "qreach 1 1 q_loaded"
  unfolding q_loaded_def
  by (intro q_submitted_reach q_taken_reach q_started_reach)
     (simp_all add: q_submitted_def q_started_def pq_start_def pq_submit_def pq_full_def pq_new_def qsys_new_def Let_def)

theorem persistence_queue_accounts_witness:
  "submissions q_loaded = 3 \<and> q_enqueued (pq q_loaded) = 2 \<and> begun q_loaded = [0]"
  using persistence_queue_accounts [OF q_loaded_reach] q_loaded_state by simp

text \<open>
  A job that raises \<open>CancelledError\<close> itself ends its worker for good: a queue can then accept jobs,
  with jobs queued, nothing running and nobody left to take them.
\<close>

theorem cancelled_job_starves_queue:
  "\<exists>s. qreach 1 1 s \<and> q_accepting (pq s) \<and> q_items (pq s) \<noteq> [] \<and> idle_workers s = {} \<and> running s = []"
proof -
  let ?s = "q_loaded\<lparr>pq := pq_finish 0 \<lparr>j_no = 0, j_enqueued_at = 0\<rparr> JobCancelled (pq q_loaded),
      running := AList.delete 0 (running q_loaded), aborted := Suc (aborted q_loaded)\<rparr>"
  have st: "running q_loaded = [(0, \<lparr>j_no = 0, j_enqueued_at = 0\<rparr>)] \<and> idle_workers q_loaded = {} \<and> q_accepting (pq q_loaded)
      \<and> q_items (pq q_loaded) \<noteq> []"
    by (simp add: q_loaded_def q_submitted_def q_taken_def q_started_def pq_start_def pq_submit_def pq_full_def
      pq_new_def qsys_new_def Let_def)
  have "qreach 1 1 ?s" by (rule qreach.step [OF q_loaded_reach], rule qstep.die) (simp add: st)
  with st show ?thesis by (intro exI [of _ ?s]) simp
qed

end
