(* ===== verification/Result_Cache.thy ===== *)
theory Result_Cache
  imports Prelude Sql_Policy
begin

text \<open>
  \<open>src/core/caching/query_result_cache.py\<close>: the persistent (L2) cache of query results, the table
  \<open>query_cache\<close> of the service database, with \<open>cleanup_expired_cache\<close> of
  \<open>src/core/storage/service_db.py\<close>.  The serialised result is kept as the JSON value that
  \<open>json.loads\<close> reads back; the length of its text is a parameter.  \<open>fails\<close> says that the
  database raised, \<open>now\<close> is \<open>int(time.time())\<close>, and SHA-256 is a parameter.
\<close>

section \<open>Values and their JSON form\<close>

datatype sql_value =
    VNull | VBool bool | VInt int | VReal rat | VText string
  | VDate string | VDecimal rat | VBytes string | VOther string

datatype json = JNull | JBool bool | JInt int | JReal rat | JText string

type_synonym 'v row = "(string \<times> 'v) list"

text \<open>
  \<open>json.dumps\<close> with \<open>_json_default\<close>: dates by their ISO text (what \<open>VDate\<close> carries), decimals as
  floats, bytes as text, everything else unknown is a \<open>TypeError\<close>.
\<close>

fun json_default :: "sql_value \<Rightarrow> json result" where
  "json_default (VDate d) = Inr (JText d)"
| "json_default (VDecimal d) = Inr (JReal d)"
| "json_default (VBytes b) = Inr (JText b)"
| "json_default (VOther ty) = Inl (TypeError (''Object of type '' @ ty @ '' is not JSON serializable''))"
| "json_default _ = Inl (TypeError ''not reached'')"

fun json_value :: "sql_value \<Rightarrow> json result" where
  "json_value VNull = Inr JNull"
| "json_value (VBool b) = Inr (JBool b)"
| "json_value (VInt n) = Inr (JInt n)"
| "json_value (VReal x) = Inr (JReal x)"
| "json_value (VText s) = Inr (JText s)"
| "json_value v = json_default v"

fun map_result :: "('a \<Rightarrow> 'b result) \<Rightarrow> 'a list \<Rightarrow> 'b list result" where
  "map_result f [] = Inr []"
| "map_result f (x # xs) =
     (case f x of Inl e \<Rightarrow> Inl e
      | Inr y \<Rightarrow> (case map_result f xs of Inl e \<Rightarrow> Inl e | Inr ys \<Rightarrow> Inr (y # ys)))"

definition json_row :: "sql_value row \<Rightarrow> json row result" where
  "json_row r = map_result (\<lambda>(c, v). case json_value v of Inl e \<Rightarrow> Inl e | Inr j \<Rightarrow> Inr (c, j)) r"

definition dumps_rows :: "sql_value row list \<Rightarrow> json row list result" where
  "dumps_rows rs = map_result json_row rs"

text \<open>The Python value that a JSON value is read as.\<close>

fun loaded :: "json \<Rightarrow> sql_value" where
  "loaded JNull = VNull"
| "loaded (JBool b) = VBool b"
| "loaded (JInt n) = VInt n"
| "loaded (JReal x) = VReal x"
| "loaded (JText s) = VText s"

definition loads_rows :: "json row list \<Rightarrow> sql_value row list" where
  "loads_rows = map (map (\<lambda>(c, j). (c, loaded j)))"

section \<open>The table\<close>

record result_row =
  rr_cache_key :: string
  rr_query_hash :: string
  rr_query_sql :: string
  rr_result_data :: "json row list"
  rr_result_count :: nat
  rr_created_at :: int
  rr_expires_at :: "int option"
  rr_last_accessed_at :: "int option"
  rr_access_count :: nat
  rr_user_id :: string
  rr_session_id :: string
  rr_execution_time_ms :: int
  rr_result_size_bytes :: nat

type_synonym result_table = "result_row list"

definition generate_cache_key :: "(string \<Rightarrow> string) \<Rightarrow> string \<Rightarrow> string \<Rightarrow> string" where
  "generate_cache_key sha query_sql params_text = sha (query_sql @ ''|'' @ params_text)"

definition row_live :: "int \<Rightarrow> result_row \<Rightarrow> bool" where
  "row_live now r \<longleftrightarrow> (case rr_expires_at r of None \<Rightarrow> True | Some e \<Rightarrow> e > now)"

definition get_cached_result :: "bool \<Rightarrow> string \<Rightarrow> int \<Rightarrow> result_table \<Rightarrow> result_row option" where
  "get_cached_result fails key now t =
     (if fails then None else find (\<lambda>r. rr_cache_key r = key \<and> row_live now r) t)"

definition record_row_access :: "bool \<Rightarrow> string \<Rightarrow> int \<Rightarrow> result_table \<Rightarrow> result_table" where
  "record_row_access fails key now t =
     (if fails then t
      else map (\<lambda>r. if rr_cache_key r = key
                    then r\<lparr>rr_last_accessed_at := Some now, rr_access_count := Suc (rr_access_count r)\<rparr> else r) t)"

text \<open>\<open>INSERT OR REPLACE\<close> deletes the row with the same key first.\<close>

definition cache_result ::
  "(string \<Rightarrow> string) \<Rightarrow> (json row list \<Rightarrow> nat) \<Rightarrow> bool \<Rightarrow> int \<Rightarrow> string \<Rightarrow> sql_value row list \<Rightarrow> string \<Rightarrow> string
     \<Rightarrow> string \<Rightarrow> int \<Rightarrow> int \<Rightarrow> result_table \<Rightarrow> result_table \<times> string result" where
  "cache_result sha json_size fails now query_sql data params_text user session exec_ms ttl t =
     (let key = generate_cache_key sha query_sql params_text;
          expires = (if ttl > 0 then Some (now + ttl) else None)
      in case dumps_rows data of
           Inl e \<Rightarrow> (t, Inl e)
         | Inr js \<Rightarrow>
             (if fails then t
              else filter (\<lambda>r. rr_cache_key r \<noteq> key) t @
                [\<lparr>rr_cache_key = key, rr_query_hash = sha query_sql, rr_query_sql = query_sql, rr_result_data = js,
                  rr_result_count = length data, rr_created_at = now, rr_expires_at = expires,
                  rr_last_accessed_at = None, rr_access_count = 0, rr_user_id = user, rr_session_id = session,
                  rr_execution_time_ms = exec_ms, rr_result_size_bytes = json_size js\<rparr>], Inr key))"

definition l2_clear_all :: "bool \<Rightarrow> result_table \<Rightarrow> result_table \<times> nat" where
  "l2_clear_all fails t = (if fails then (t, 0) else ([], length t))"

text \<open>SQLite's \<open>LIKE\<close>: \<open>%\<close> any text, \<open>_\<close> any character, letters in either case.\<close>

fun sql_like :: "string \<Rightarrow> string \<Rightarrow> bool" where
  "sql_like [] s \<longleftrightarrow> s = []"
| "sql_like (p # ps) [] \<longleftrightarrow> p = CHR ''%'' \<and> sql_like ps []"
| "sql_like (p # ps) (c # s) \<longleftrightarrow>
     (if p = CHR ''%'' then sql_like ps (c # s) \<or> sql_like (p # ps) s
      else (p = CHR ''_'' \<or> to_lower p = to_lower c) \<and> sql_like ps s)"

definition invalidate_cache :: "bool \<Rightarrow> string \<Rightarrow> string \<Rightarrow> result_table \<Rightarrow> result_table \<times> nat" where
  "invalidate_cache fails pattern user t =
     (if pattern = [] \<and> user = [] then (t, 0)
      else if fails then (t, 0)
      else (let hit = (\<lambda>r. (pattern = [] \<or> sql_like (''%'' @ pattern @ ''%'') (rr_query_sql r))
                         \<and> (user = [] \<or> rr_user_id r = user))
            in (filter (\<lambda>r. \<not> hit r) t, length (filter hit t))))"

record result_cache_stats =
  rs_total_entries :: nat
  rs_active_entries :: nat
  rs_expired_entries :: int
  rs_total_size_bytes :: nat
  rs_total_access_count :: nat
  rs_average_size_bytes :: nat

text \<open>
  \<open>SUM\<close> over no row is \<open>NULL\<close>: the division then raises, which the handler turns into the empty
  dictionary, here \<open>None\<close>.
\<close>

definition sql_sum :: "nat list \<Rightarrow> nat option" where
  "sql_sum ns = (if ns = [] then None else Some (sum_list ns))"

definition get_cache_stats :: "bool \<Rightarrow> int \<Rightarrow> result_table \<Rightarrow> result_cache_stats option" where
  "get_cache_stats fails now t =
     (if fails then None
      else (case (sql_sum (map rr_result_size_bytes t), sql_sum (map rr_access_count t)) of
              (Some total_size, Some hits) \<Rightarrow>
                Some \<lparr>rs_total_entries = length t, rs_active_entries = length (filter (row_live now) t),
                      rs_expired_entries = int (length t) - int (length (filter (row_live now) t)),
                      rs_total_size_bytes = total_size, rs_total_access_count = hits,
                      rs_average_size_bytes = total_size div max (length t) 1\<rparr>
            | _ \<Rightarrow> None))"

definition cleanup_expired_cache :: "int \<Rightarrow> result_table \<Rightarrow> result_table \<times> nat" where
  "cleanup_expired_cache now t =
     (let old = (\<lambda>r. case rr_expires_at r of None \<Rightarrow> False | Some e \<Rightarrow> e < now)
      in (filter (\<lambda>r. \<not> old r) t, length (filter old t)))"

section \<open>LIKE\<close>

lemma like_any: "sql_like ps s \<Longrightarrow> sql_like (CHR ''%'' # ps) (a @ s)"
proof (induction a)
  case Nil
  then show ?case by (cases s) auto
next
  case (Cons c a)
  then show ?case by simp
qed

lemma like_prefix:
  "lower b = lower p \<Longrightarrow> sql_like ps s \<Longrightarrow> sql_like (p @ ps) (b @ s)"
proof (induction p arbitrary: b)
  case (Cons c p)
  then obtain d b' where b: "b = d # b'" "to_lower d = to_lower c" "lower b' = lower p"
    by (cases b) (auto simp: lower_def)
  then have "sql_like (p @ ps) (b' @ s)" using Cons by blast
  show ?case
  proof (cases "c = CHR ''%''")
    case True
    with like_any [OF \<open>sql_like (p @ ps) (b' @ s)\<close>, of "[d]"] b show ?thesis by simp
  next
    case False
    with b \<open>sql_like (p @ ps) (b' @ s)\<close> show ?thesis by simp
  qed
qed (simp add: lower_def)

lemma like_contains: "lower b = lower p \<Longrightarrow> sql_like (''%'' @ p @ ''%'') (a @ b @ s)"
proof -
  assume b: "lower b = lower p"
  have "sql_like ''%'' (s @ [])" by (rule like_any) simp
  then have "sql_like ''%'' s" by simp
  from like_any [OF like_prefix [OF b this]] show ?thesis by simp
qed

text \<open>The converse, for a pattern without wildcards.\<close>

lemma like_plain:
  "sql_like (p @ ps) s \<Longrightarrow> set p \<inter> {CHR ''%'', CHR ''_''} = {} \<Longrightarrow>
   \<exists>b r. s = b @ r \<and> lower b = lower p \<and> sql_like ps r"
proof (induction p arbitrary: s)
  case Nil
  then show ?case by (auto simp: lower_def)
next
  case (Cons c p)
  then obtain d s' where s: "s = d # s'" "to_lower c = to_lower d" "sql_like (p @ ps) s'"
    by (cases s) auto
  from Cons.IH [OF s(3)] Cons.prems(2) obtain b r where "s' = b @ r" "lower b = lower p" "sql_like ps r" by auto
  with s show ?case by (intro exI [of _ "d # b"] exI [of _ r]) (simp add: lower_def)
qed

lemma like_any_inv: "sql_like (CHR ''%'' # ps) s \<Longrightarrow> \<exists>a r. s = a @ r \<and> sql_like ps r"
proof (induction s)
  case Nil
  then show ?case by auto
next
  case (Cons c s)
  from Cons.prems have "sql_like ps (c # s) \<or> sql_like (CHR ''%'' # ps) s" by simp
  then show ?case
  proof
    assume "sql_like ps (c # s)"
    then show ?thesis by (intro exI [of _ "[]"] exI [of _ "c # s"]) simp
  next
    assume "sql_like (CHR ''%'' # ps) s"
    with Cons.IH obtain a r where "s = a @ r" "sql_like ps r" by blast
    then show ?thesis by (intro exI [of _ "c # a"] exI [of _ r]) simp
  qed
qed

section \<open>Storing and reading back\<close>

fun json_native :: "sql_value \<Rightarrow> bool" where
  "json_native (VDate d) = False"
| "json_native (VDecimal d) = False"
| "json_native (VBytes d) = False"
| "json_native (VOther d) = False"
| "json_native _ = True"

lemma map_result_Inr: "map_result f xs = Inr ys \<Longrightarrow> list_all2 (\<lambda>x y. f x = Inr y) xs ys"
  by (induction xs arbitrary: ys) (auto split: sum.splits)

lemma loaded_native: "json_value v = Inr j \<Longrightarrow> json_native v \<Longrightarrow> loaded j = v"
  by (cases v) auto

lemma loads_dumps:
  assumes "dumps_rows rs = Inr js" "\<forall>r \<in> set rs. \<forall>(c, v) \<in> set r. json_native v"
  shows "loads_rows js = rs"
proof -
  have row: "map (\<lambda>(c, j). (c, loaded j)) jr = r" if "json_row r = Inr jr" "\<forall>(c, v) \<in> set r. json_native v" for r jr
    using map_result_Inr [OF that(1) [unfolded json_row_def]] that(2)
    by (induction rule: list_all2_induct) (auto simp: loaded_native split: sum.splits)
  from map_result_Inr [OF assms(1) [unfolded dumps_rows_def]] assms(2) show ?thesis
    by (induction rule: list_all2_induct) (auto simp: loads_rows_def row)
qed

lemma find_filter_other: "k \<noteq> key \<Longrightarrow>
  find (\<lambda>r. rr_cache_key r = k \<and> P r) (filter (\<lambda>r. rr_cache_key r \<noteq> key) t) = find (\<lambda>r. rr_cache_key r = k \<and> P r) t"
  by (induction t) auto

lemma find_filter_same: "find (\<lambda>r. rr_cache_key r = key \<and> P r) (filter (\<lambda>r. rr_cache_key r \<noteq> key) t) = None"
  by (induction t) auto

lemma find_append: "find P (xs @ ys) = (case find P xs of None \<Rightarrow> find P ys | Some x \<Rightarrow> Some x)"
  by (induction xs) auto

lemma cache_result_effect:
  assumes "cache_result sha sz False now sql data p user sess ms ttl t = (t', Inr key)"
  obtains js where "dumps_rows data = Inr js" "key = generate_cache_key sha sql p"
    "t' = filter (\<lambda>r. rr_cache_key r \<noteq> key) t @
       [\<lparr>rr_cache_key = key, rr_query_hash = sha sql, rr_query_sql = sql, rr_result_data = js,
         rr_result_count = length data, rr_created_at = now, rr_expires_at = (if ttl > 0 then Some (now + ttl) else None),
         rr_last_accessed_at = None, rr_access_count = 0, rr_user_id = user, rr_session_id = sess,
         rr_execution_time_ms = ms, rr_result_size_bytes = sz js\<rparr>]"
  using assms by (auto simp: cache_result_def Let_def split: sum.splits)

text \<open>
  C33.  A result that was stored is found under its key until it expires, is read back as the data
  it was made from when the columns hold only values JSON has, and storing it changes no other key.
\<close>

theorem cached_result_roundtrip:
  assumes "cache_result sha sz False now sql data p user sess ms ttl t = (t', Inr key)"
    and "ttl > 0 \<Longrightarrow> later < now + ttl"
  shows "\<exists>r. get_cached_result False key later t' = Some r \<and> rr_query_sql r = sql
      \<and> dumps_rows data = Inr (rr_result_data r)
      \<and> ((\<forall>r \<in> set data. \<forall>(c, v) \<in> set r. json_native v) \<longrightarrow> loads_rows (rr_result_data r) = data)
      \<and> (\<forall>k. k \<noteq> key \<longrightarrow> get_cached_result False k later t' = get_cached_result False k later t)"
proof -
  from cache_result_effect [OF assms(1)] obtain js where
    js: "dumps_rows data = Inr js" and t': "t' = filter (\<lambda>r. rr_cache_key r \<noteq> key) t @
       [\<lparr>rr_cache_key = key, rr_query_hash = sha sql, rr_query_sql = sql, rr_result_data = js,
         rr_result_count = length data, rr_created_at = now, rr_expires_at = (if ttl > 0 then Some (now + ttl) else None),
         rr_last_accessed_at = None, rr_access_count = 0, rr_user_id = user, rr_session_id = sess,
         rr_execution_time_ms = ms, rr_result_size_bytes = sz js\<rparr>]" by blast
  have "\<exists>r. get_cached_result False key later t' = Some r \<and> rr_query_sql r = sql
      \<and> dumps_rows data = Inr (rr_result_data r)
      \<and> ((\<forall>r \<in> set data. \<forall>(c, v) \<in> set r. json_native v) \<longrightarrow> loads_rows (rr_result_data r) = data)"
    using assms(2) loads_dumps [OF js]
    by (simp add: t' js get_cached_result_def find_append find_filter_same row_live_def)
  moreover have "\<forall>k. k \<noteq> key \<longrightarrow> get_cached_result False k later t' = get_cached_result False k later t"
    by (auto simp: t' get_cached_result_def find_append find_filter_other split: option.splits)
  ultimately show ?thesis by blast
qed

theorem cached_result_roundtrip_witness:
  "\<exists>t' key r. cache_result (\<lambda>s. s) length False 5 ''SELECT 1'' [[(''n'', VInt 1)]] ''()'' ''u'' [] 0 60 [] = (t', Inr key)
     \<and> get_cached_result False key 64 t' = Some r \<and> loads_rows (rr_result_data r) = [[(''n'', VInt 1)]]"
proof -
  obtain t' key where c: "cache_result (\<lambda>s. s) length False 5 ''SELECT 1'' [[(''n'', VInt 1)]] ''()'' ''u'' [] 0 60 []
      = (t', Inr key)" by (simp add: cache_result_def Let_def dumps_rows_def json_row_def)
  have "(0 :: int) < 60 \<Longrightarrow> 64 < 5 + (60 :: int)" by simp
  from cached_result_roundtrip [OF c this] c show ?thesis by auto
qed

section \<open>Invalidation by table name\<close>

definition mentions :: "string \<Rightarrow> string \<Rightarrow> bool" where
  "mentions name sql \<longleftrightarrow> (\<exists>a b c. sql = a @ b @ c \<and> lower b = lower name)"

lemma like_mentions:
  assumes "set name \<inter> {CHR ''%'', CHR ''_''} = {}" "sql_like (''%'' @ name @ ''%'') sql"
  shows "mentions name sql"
proof -
  from assms(2) obtain a r where r: "sql = a @ r" "sql_like (name @ ''%'') r"
    using like_any_inv [of "name @ ''%''" sql] by auto
  from like_plain [OF r(2) assms(1)] obtain b c where "r = b @ c" "lower b = lower name" by blast
  with r(1) show ?thesis unfolding mentions_def by blast
qed

lemma mentions_like: "mentions name sql \<Longrightarrow> sql_like (''%'' @ name @ ''%'') sql"
  by (auto simp: mentions_def like_contains simp del: append.simps)

lemma extracted_mentioned: "name \<in> set (extract_tables sql) \<Longrightarrow> mentions name sql \<and> name \<noteq> []"
proof -
  assume "name \<in> set (extract_tables sql)"
  with extract_tables_text [of sql] have "table_ref sql name" by (rule bspec)
  then obtain a kw sp qt post where
    "sql = a @ kw @ sp @ qt @ name @ post" "name \<noteq> []" unfolding table_ref_def by (elim exE conjE)
  then have "sql = (a @ kw @ sp @ qt) @ name @ post" "name \<noteq> []" by simp_all
  then show ?thesis unfolding mentions_def by blast
qed

lemma filter_length_split: "length (filter P xs) + length (filter (\<lambda>x. \<not> P x) xs) = length xs"
  by (induction xs) auto

text \<open>
  Invalidating by a table name deletes every row whose statement mentions the name in any
  letter case, so every statement from which the name is extracted as one of its tables; if the
  name has no wildcard it deletes no other row; and it reports how many it deleted.
\<close>

theorem invalidate_by_table:
  assumes "name \<noteq> []" "invalidate_cache False name [] t = (t', n)"
  shows "(\<forall>r \<in> set t'. r \<in> set t \<and> \<not> mentions name (rr_query_sql r) \<and> name \<notin> set (extract_tables (rr_query_sql r)))
    \<and> (set name \<inter> {CHR ''%'', CHR ''_''} = {} \<longrightarrow> (\<forall>r \<in> set t. \<not> mentions name (rr_query_sql r) \<longrightarrow> r \<in> set t'))
    \<and> n + length t' = length t"
proof -
  have t': "t' = filter (\<lambda>r. \<not> sql_like (''%'' @ name @ ''%'') (rr_query_sql r)) t"
    and n: "n = length (filter (\<lambda>r. sql_like (''%'' @ name @ ''%'') (rr_query_sql r)) t)"
    using assms by (auto simp: invalidate_cache_def Let_def)
  have "\<forall>r \<in> set t'. r \<in> set t \<and> \<not> mentions name (rr_query_sql r) \<and> name \<notin> set (extract_tables (rr_query_sql r))"
    using mentions_like extracted_mentioned unfolding t' by auto
  moreover have "\<forall>r \<in> set t. \<not> mentions name (rr_query_sql r) \<longrightarrow> r \<in> set t'" if "set name \<inter> {CHR ''%'', CHR ''_''} = {}"
    using like_mentions [OF that] unfolding t' by auto
  moreover have "n + length t' = length t" unfolding t' n by (rule filter_length_split)
  ultimately show ?thesis by blast
qed

definition demo_result :: "string \<Rightarrow> string \<Rightarrow> result_row" where
  "demo_result key sql = \<lparr>rr_cache_key = key, rr_query_hash = [], rr_query_sql = sql, rr_result_data = [],
     rr_result_count = 0, rr_created_at = 0, rr_expires_at = None, rr_last_accessed_at = None, rr_access_count = 0,
     rr_user_id = [], rr_session_id = [], rr_execution_time_ms = 0, rr_result_size_bytes = 0\<rparr>"

theorem invalidate_by_table_witness:
  "\<exists>t' n. invalidate_cache False ''orders'' [] [demo_result ''a'' ''select * from Orders'', demo_result ''b'' ''select 1''] = (t', n)
     \<and> demo_result ''a'' ''select * from Orders'' \<notin> set t' \<and> demo_result ''b'' ''select 1'' \<in> set t'"
proof -
  let ?t = "[demo_result ''a'' ''select * from Orders'', demo_result ''b'' ''select 1'']"
  obtain t' n where i: "invalidate_cache False ''orders'' [] ?t = (t', n)" by (cases "invalidate_cache False ''orders'' [] ?t")
  have ne: "''orders'' \<noteq> []" and plain: "set ''orders'' \<inter> {CHR ''%'', CHR ''_''} = {}" by simp_all
  have "''select * from Orders'' = ''select * from '' @ ''Orders'' @ [] \<and> lower ''Orders'' = lower ''orders''" by code_simp
  then have a: "mentions ''orders'' (rr_query_sql (demo_result ''a'' ''select * from Orders''))"
    unfolding mentions_def demo_result_def result_row.simps by (elim conjE) (intro exI conjI)
  have no: "\<not> sql_like (''%'' @ ''orders'' @ ''%'') ''select 1''" by code_simp
  have "\<not> mentions ''orders'' ''select 1''" by (rule notI, drule mentions_like) (rule notE [OF no])
  then have b: "\<not> mentions ''orders'' (rr_query_sql (demo_result ''b'' ''select 1''))"
    by (simp only: demo_result_def result_row.simps not_False_eq_True)
  from invalidate_by_table [OF ne i] plain a b i show ?thesis
    by (intro exI [of _ t'] exI [of _ n]) (simp only: list.set insert_iff, blast)
qed

text \<open>An empty cache has no statistics.\<close>

theorem empty_cache_has_no_stats: "get_cache_stats False now [] = None"
  by (simp add: get_cache_stats_def sql_sum_def)

end
