(* ===== verification/Cache_Coordinator.thy ===== *)
theory Cache_Coordinator
  imports Query_Cache Result_Cache
begin

text \<open>
  \<open>src/core/caching/query_cache_coordinator.py\<close>: the in-process (L1) cache, the coalescing of
  concurrent identical queries onto one leader, and the index from tables to cached keys.  The
  asyncio lock is never held across a suspension, so everything between two awaits is one step;
  \<open>cstep\<close> interleaves calls, the thread that reads the persistent (L2) cache, executions, failures
  and cancellations, writes to the warehouse, invalidations and the persistence jobs.  \<open>answers\<close> is
  what the warehouse would answer to a key now, and \<open>co_tags\<close> records the tables an L1 entry was
  stored with; no operation of the code reads either.
\<close>

section \<open>The coordinator\<close>

type_synonym rows = "sql_value row list"

datatype source = SrcL1 | SrcL2 | SrcMiss

record lookup_result =
  lk_data :: rows
  lk_source :: source

definition lk_cached :: "lookup_result \<Rightarrow> bool" where
  "lk_cached r \<longleftrightarrow> lk_source r \<in> {SrcL1, SrcL2}"

record coordinator =
  co_l1 :: "(string, rows) hybrid_cache"
  co_l1_ttl :: int
  co_inflight :: "string \<Rightarrow> nat option"
  co_key_tables :: "string \<Rightarrow> string set option"
  co_table_keys :: "string \<Rightarrow> string set option"
  co_tags :: "string \<Rightarrow> string set"

definition co_new :: "int \<Rightarrow> int \<Rightarrow> coordinator" where
  "co_new max_size ttl =
     \<lparr>co_l1 = hybrid_new max_size ttl, co_l1_ttl = ttl, co_inflight = (\<lambda>_. None), co_key_tables = (\<lambda>_. None),
      co_table_keys = (\<lambda>_. None), co_tags = (\<lambda>_. {})\<rparr>"

text \<open>The first part of \<open>get_or_execute\<close>: \<open>next\<close> names the future it would create.\<close>

datatype call_end = CallHit rows | CallLead nat | CallJoin nat

definition co_call :: "string \<Rightarrow> clock4 \<Rightarrow> nat \<Rightarrow> coordinator \<Rightarrow> coordinator \<times> call_end" where
  "co_call key t next c =
     (case hybrid_get key t (co_l1 c) of
        (l1, Some d) \<Rightarrow> (c\<lparr>co_l1 := l1\<rparr>, CallHit d)
      | (l1, None) \<Rightarrow>
          (case co_inflight c key of
             Some f \<Rightarrow> (c\<lparr>co_l1 := l1\<rparr>, CallJoin f)
           | None \<Rightarrow> (c\<lparr>co_l1 := l1, co_inflight := (co_inflight c)(key \<mapsto> next)\<rparr>, CallLead next)))"

definition keys_of :: "coordinator \<Rightarrow> string \<Rightarrow> string set" where
  "keys_of c table = (case co_table_keys c table of None \<Rightarrow> {} | Some ks \<Rightarrow> ks)"

definition tag_tables :: "string \<Rightarrow> string set \<Rightarrow> coordinator \<Rightarrow> coordinator" where
  "tag_tables key tables c =
     (if tables = {} then c
      else c\<lparr>co_key_tables := (co_key_tables c)(key \<mapsto> tables),
             co_table_keys := (\<lambda>t. if t \<in> tables then Some (insert key (keys_of c t)) else co_table_keys c t)\<rparr>)"

text \<open>\<open>_l1.put\<close> and \<open>_tag_tables\<close>; \<open>None\<close> for the tables is the empty set here.\<close>

definition co_store :: "string \<Rightarrow> rows \<Rightarrow> string set \<Rightarrow> clock4 \<Rightarrow> coordinator \<Rightarrow> coordinator result" where
  "co_store key d tables t c =
     (case hybrid_put key (Some d) (Some (co_l1_ttl c)) t (co_l1 c) of
        Inl e \<Rightarrow> Inl e
      | Inr l1 \<Rightarrow> Inr (tag_tables key tables (c\<lparr>co_l1 := l1, co_tags := (co_tags c)(key := tables)\<rparr>)))"

text \<open>The \<open>finally\<close> of the leader.\<close>

definition co_leave :: "string \<Rightarrow> nat \<Rightarrow> coordinator \<Rightarrow> coordinator" where
  "co_leave key f c =
     (if co_inflight c key = Some f then c\<lparr>co_inflight := (co_inflight c)(key := None)\<rparr> else c)"

definition co_invalidate :: "string \<Rightarrow> coordinator \<Rightarrow> coordinator" where
  "co_invalidate key c = c\<lparr>co_l1 := hybrid_invalidate key (co_l1 c)\<rparr>"

text \<open>What \<open>clear_all\<close> and \<open>invalidate_tables\<close> do before their first await.\<close>

definition co_clear :: "coordinator \<Rightarrow> coordinator" where
  "co_clear c = c\<lparr>co_key_tables := (\<lambda>_. None), co_table_keys := (\<lambda>_. None), co_l1 := hybrid_clear (co_l1 c)\<rparr>"

definition drop_keys :: "string list \<Rightarrow> (string, rows) hybrid_cache \<Rightarrow> (string, rows) hybrid_cache" where
  "drop_keys ks l1 = fold hybrid_invalidate ks l1"

text \<open>\<open>ks\<close> lists the keys of \<open>keys_to_drop\<close> in the order the set is iterated.\<close>

definition keys_to_drop :: "string list \<Rightarrow> coordinator \<Rightarrow> string set" where
  "keys_to_drop tables c = (\<Union>t \<in> set tables. keys_of c t)"

definition co_invalidate_tables :: "string list \<Rightarrow> string list \<Rightarrow> coordinator \<Rightarrow> coordinator \<times> bool" where
  "co_invalidate_tables tables ks c =
     (if tables = [] then (c, False)
      else (let c1 = c\<lparr>co_table_keys := (\<lambda>t. if t \<in> set tables then None else co_table_keys c t),
                      co_key_tables := (\<lambda>k. if k \<in> set ks then None else co_key_tables c k)\<rparr>
            in if ks = [] then (c1, False) else (c1\<lparr>co_l1 := drop_keys ks (co_l1 c)\<rparr>, True)))"

definition co_stats :: "coordinator \<Rightarrow> (cache_stats \<times> cache_stats \<times> nat) \<times> nat" where
  "co_stats c = (hybrid_stats (co_l1 c), card (dom (co_inflight c)))"

section \<open>Tasks, futures and jobs\<close>

datatype fut_state = Pending | FValue lookup_result | FRaised py_exc | FCancelled

text \<open>\<open>fut.set_result\<close> and \<open>fut.set_exception\<close> behind \<open>if not fut.done()\<close>.\<close>

definition settle :: "nat \<Rightarrow> fut_state \<Rightarrow> (nat \<Rightarrow> fut_state) \<Rightarrow> nat \<Rightarrow> fut_state" where
  "settle f st futs = (if futs f = Pending then futs(f := st) else futs)"

fun awaited :: "fut_state \<Rightarrow> lookup_result result" where
  "awaited (FValue r) = Inr r"
| "awaited (FRaised e) = Inl e"
| "awaited FCancelled = Inl CancelledError"
| "awaited Pending = Inl (OtherError ''not done'')"

record query_call =
  qc_key :: string
  qc_tables :: "string set"
  qc_persist :: "(string \<times> string \<times> string) option"

datatype persist_job = RecordAccess string | PersistL2 string string string rows

definition run_job :: "(string \<Rightarrow> string) \<Rightarrow> (json row list \<Rightarrow> nat) \<Rightarrow> bool \<Rightarrow> int \<Rightarrow> persist_job \<Rightarrow> result_table \<Rightarrow> result_table" where
  "run_job sha json_size fails now j t =
     (case j of
        RecordAccess key \<Rightarrow> record_row_access fails key now t
      | PersistL2 sql params user d \<Rightarrow> fst (cache_result sha json_size fails now sql d params user [] 0 3600 t))"

text \<open>The job of a miss: none without \<open>on_miss_persist\<close> or for an empty result.\<close>

definition miss_jobs :: "query_call \<Rightarrow> rows \<Rightarrow> persist_job list" where
  "miss_jobs q d =
     (case qc_persist q of
        None \<Rightarrow> []
      | Some (sql, params, user) \<Rightarrow> if d = [] then [] else [PersistL2 sql params user d])"

datatype ctask =
    Out
  | Reading query_call nat
  | GotL2 query_call nat "result_row option"
  | Running query_call nat "rows option"
  | Following string nat
  | Ended "lookup_result result"
  | DroppingL2 "string list"
  | ClearingL2

record csys =
  co :: coordinator
  l2 :: result_table
  futs :: "nat \<Rightarrow> fut_state"
  next_fut :: nat
  tasks :: "nat \<Rightarrow> ctask"
  jobs :: "persist_job list"
  answers :: "string \<Rightarrow> rows"

definition csys_new :: "int \<Rightarrow> int \<Rightarrow> result_table \<Rightarrow> (string \<Rightarrow> rows) \<Rightarrow> csys" where
  "csys_new max_size ttl table world =
     \<lparr>co = co_new max_size ttl, l2 = table, futs = (\<lambda>_. Pending), next_fut = 0, tasks = (\<lambda>_. Out), jobs = [],
      answers = world\<rparr>"

fun leads :: "ctask \<Rightarrow> query_call \<Rightarrow> nat \<Rightarrow> bool" where
  "leads (Reading q f) q' f' \<longleftrightarrow> q' = q \<and> f' = f"
| "leads (GotL2 q f r) q' f' \<longleftrightarrow> q' = q \<and> f' = f"
| "leads (Running q f d) q' f' \<longleftrightarrow> q' = q \<and> f' = f"
| "leads _ q' f' \<longleftrightarrow> False"

text \<open>
  \<open>set_task\<close> advances one task.  A leader that ends with an exception (its own cancellation
  included) hands it to its future; a follower that is cancelled cancels the future it awaits,
  which is the shared one.
\<close>

abbreviation set_task :: "nat \<Rightarrow> ctask \<Rightarrow> csys \<Rightarrow> csys" where
  "set_task i x s \<equiv> s\<lparr>tasks := (tasks s)(i := x)\<rparr>"

inductive cstep :: "(string \<Rightarrow> string) \<Rightarrow> (json row list \<Rightarrow> nat) \<Rightarrow> csys \<Rightarrow> csys \<Rightarrow> bool" for sha json_size where
  hit: "tasks s i = Out \<Longrightarrow> co_call k t (next_fut s) (co s) = (c, CallHit d) \<Longrightarrow>
      cstep sha json_size s (set_task i (Ended (Inr \<lparr>lk_data = d, lk_source = SrcL1\<rparr>)) (s\<lparr>co := c\<rparr>))"
| join: "tasks s i = Out \<Longrightarrow> co_call k t (next_fut s) (co s) = (c, CallJoin f) \<Longrightarrow>
      cstep sha json_size s (set_task i (Following k f) (s\<lparr>co := c\<rparr>))"
| lead: "tasks s i = Out \<Longrightarrow> co_call (qc_key q) t (next_fut s) (co s) = (c, CallLead f) \<Longrightarrow>
      cstep sha json_size s (set_task i (Reading q f) (s\<lparr>co := c, next_fut := Suc (next_fut s), futs := (futs s)(f := Pending)\<rparr>))"
| read: "tasks s i = Reading q f \<Longrightarrow>
      cstep sha json_size s (set_task i (GotL2 q f (get_cached_result fails (qc_key q) now (l2 s))) s)"
| l2_hit: "tasks s i = GotL2 q f (Some r) \<Longrightarrow> co_store (qc_key q) (loads_rows (rr_result_data r)) (qc_tables q) t (co s) = Inr c \<Longrightarrow>
      set js \<subseteq> {RecordAccess (qc_key q)} \<Longrightarrow>
      cstep sha json_size s (set_task i (Ended (Inr \<lparr>lk_data = loads_rows (rr_result_data r), lk_source = SrcL2\<rparr>))
        (s\<lparr>co := co_leave (qc_key q) f c, jobs := jobs s @ js,
           futs := settle f (FValue \<lparr>lk_data = loads_rows (rr_result_data r), lk_source = SrcL2\<rparr>) (futs s)\<rparr>))"
| l2_miss: "tasks s i = GotL2 q f None \<Longrightarrow> cstep sha json_size s (set_task i (Running q f None) s)"
| execute: "tasks s i = Running q f None \<Longrightarrow>
      cstep sha json_size s (set_task i (Running q f (Some (answers s (qc_key q)))) s)"
| finish: "tasks s i = Running q f (Some d) \<Longrightarrow> co_store (qc_key q) d (qc_tables q) t (co s) = Inr c \<Longrightarrow>
      set js \<subseteq> set (miss_jobs q d) \<Longrightarrow>
      cstep sha json_size s (set_task i (Ended (Inr \<lparr>lk_data = d, lk_source = SrcMiss\<rparr>))
        (s\<lparr>co := co_leave (qc_key q) f c, jobs := jobs s @ js,
           futs := settle f (FValue \<lparr>lk_data = d, lk_source = SrcMiss\<rparr>) (futs s)\<rparr>))"
| fail: "leads (tasks s i) q f \<Longrightarrow>
      cstep sha json_size s (set_task i (Ended (Inl e))
        (s\<lparr>co := co_leave (qc_key q) f (co s), futs := settle f (FRaised e) (futs s)\<rparr>))"
| wake: "tasks s i = Following k f \<Longrightarrow> futs s f \<noteq> Pending \<Longrightarrow>
      cstep sha json_size s (set_task i (Ended (awaited (futs s f))) s)"
| cancel: "tasks s i = Following k f \<Longrightarrow>
      cstep sha json_size s (set_task i (Ended (Inl CancelledError)) (s\<lparr>futs := settle f FCancelled (futs s)\<rparr>))"
| return: "tasks s i = Ended r \<Longrightarrow> cstep sha json_size s (set_task i Out s)"
| warehouse_write: "cstep sha json_size s (s\<lparr>answers := world\<rparr>)"
| invalidate: "cstep sha json_size s (s\<lparr>co := co_invalidate k (co s)\<rparr>)"
| clear: "tasks s i = Out \<Longrightarrow> cstep sha json_size s (set_task i ClearingL2 (s\<lparr>co := co_clear (co s)\<rparr>))"
| clear_l2: "tasks s i = ClearingL2 \<Longrightarrow> cstep sha json_size s (set_task i Out (s\<lparr>l2 := fst (l2_clear_all fails (l2 s))\<rparr>))"
| scoped: "tasks s i = Out \<Longrightarrow> set ks = keys_to_drop ts (co s) \<Longrightarrow> co_invalidate_tables ts ks (co s) = (c, ok) \<Longrightarrow>
      cstep sha json_size s (set_task i (if ok then DroppingL2 ts else Out) (s\<lparr>co := c\<rparr>))"
| drop_l2: "tasks s i = DroppingL2 (n # ts) \<Longrightarrow>
      cstep sha json_size s (set_task i (DroppingL2 ts) (s\<lparr>l2 := fst (invalidate_cache fails n [] (l2 s))\<rparr>))"
| dropped: "tasks s i = DroppingL2 [] \<Longrightarrow> cstep sha json_size s (set_task i Out s)"
| job: "j \<in> set (jobs s) \<Longrightarrow>
      cstep sha json_size s (s\<lparr>l2 := run_job sha json_size fails now j (l2 s), jobs := remove1 j (jobs s)\<rparr>)"

inductive creach :: "(string \<Rightarrow> string) \<Rightarrow> (json row list \<Rightarrow> nat) \<Rightarrow> int \<Rightarrow> int \<Rightarrow> csys \<Rightarrow> bool" for sha json_size mx ttl where
  start: "creach sha json_size mx ttl (csys_new mx ttl table world)"
| step: "creach sha json_size mx ttl s \<Longrightarrow> cstep sha json_size s s' \<Longrightarrow> creach sha json_size mx ttl s'"

section \<open>Flights\<close>

definition flights_inv :: "csys \<Rightarrow> bool" where
  "flights_inv s \<longleftrightarrow>
     (\<forall>i q f. leads (tasks s i) q f \<longrightarrow> co_inflight (co s) (qc_key q) = Some f)
   \<and> (\<forall>i j q f q' f'. leads (tasks s i) q f \<longrightarrow> leads (tasks s j) q' f' \<longrightarrow> qc_key q = qc_key q' \<or> f = f' \<longrightarrow> i = j)
   \<and> (\<forall>k f. co_inflight (co s) k = Some f \<longrightarrow> f < next_fut s \<and> (\<exists>i q. leads (tasks s i) q f \<and> qc_key q = k))
   \<and> (\<forall>i k f. tasks s i = Following k f \<longrightarrow> f < next_fut s \<and> (futs s f = Pending \<longrightarrow> co_inflight (co s) k = Some f))"

lemma flights_parts:
  assumes "flights_inv s"
  shows "leads (tasks s i) q f \<Longrightarrow> co_inflight (co s) (qc_key q) = Some f"
    "leads (tasks s i) q f \<Longrightarrow> leads (tasks s j) q' f' \<Longrightarrow> qc_key q = qc_key q' \<or> f = f' \<Longrightarrow> i = j"
    "co_inflight (co s) k = Some f \<Longrightarrow> f < next_fut s"
    "co_inflight (co s) k = Some f \<Longrightarrow> \<exists>i q. leads (tasks s i) q f \<and> qc_key q = k"
    "tasks s i = Following k f \<Longrightarrow> f < next_fut s"
    "tasks s i = Following k f \<Longrightarrow> futs s f = Pending \<Longrightarrow> co_inflight (co s) k = Some f"
  using assms unfolding flights_inv_def by blast+

lemma flights_invI:
  assumes "\<And>i q f. leads (tasks s i) q f \<Longrightarrow> co_inflight (co s) (qc_key q) = Some f"
    and "\<And>i j q f q' f'. leads (tasks s i) q f \<Longrightarrow> leads (tasks s j) q' f' \<Longrightarrow> qc_key q = qc_key q' \<or> f = f' \<Longrightarrow> i = j"
    and "\<And>k f. co_inflight (co s) k = Some f \<Longrightarrow> f < next_fut s \<and> (\<exists>i q. leads (tasks s i) q f \<and> qc_key q = k)"
    and "\<And>i k f. tasks s i = Following k f \<Longrightarrow> f < next_fut s \<and> (futs s f = Pending \<longrightarrow> co_inflight (co s) k = Some f)"
  shows "flights_inv s"
  using assms unfolding flights_inv_def by blast

lemma leads_unique: "leads x q f \<Longrightarrow> leads x q' f' \<Longrightarrow> q = q' \<and> f = f'"
  by (cases x) auto

text \<open>Steps that leave the leaders alone, or everything.\<close>

lemma flights_other:
  assumes "flights_inv s"
    and "\<And>j q f. leads (tasks s' j) q f \<longleftrightarrow> leads (tasks s j) q f"
    and "\<And>j k f. tasks s' j = Following k f \<Longrightarrow> f < next_fut s \<and> (futs s' f = Pending \<longrightarrow> co_inflight (co s) k = Some f)"
    and "co_inflight (co s') = co_inflight (co s)" "next_fut s' = next_fut s"
  shows "flights_inv s'"
  using assms(1) unfolding flights_inv_def assms(2,4,5) using assms(3) by blast

lemma flights_same:
  assumes "flights_inv s"
    and "\<And>j q f. leads (tasks s' j) q f \<longleftrightarrow> leads (tasks s j) q f"
    and "\<And>j k f. tasks s' j = Following k f \<Longrightarrow> tasks s j = Following k f"
    and "co_inflight (co s') = co_inflight (co s)" "futs s' = futs s" "next_fut s' = next_fut s"
  shows "flights_inv s'"
  using assms(1) unfolding flights_inv_def assms(2,4-6) using assms(3) by blast

text \<open>A leader that ends.\<close>

lemma flights_end:
  assumes inv: "flights_inv s" and l: "leads (tasks s i) q f" and st: "st \<noteq> Pending"
    and s': "tasks s' = (tasks s)(i := Ended r)" "co_inflight (co s') = (co_inflight (co s))(qc_key q := None)"
      "futs s' = settle f st (futs s)" "next_fut s' = next_fut s"
  shows "flights_inv s'"
proof -
  note p = flights_parts [OF inv]
  have other: "qc_key q' \<noteq> qc_key q \<and> f' \<noteq> f" if "leads (tasks s j) q' f'" "j \<noteq> i" for j q' f'
    using p(2) [OF that(1) l] that(2) by blast
  have settled: "futs s' f \<noteq> Pending" using st by (simp add: s'(3) settle_def)
  show ?thesis
  proof (rule flights_invI)
    fix j q' f' assume a: "leads (tasks s' j) q' f'"
    then have "j \<noteq> i" "leads (tasks s j) q' f'" by (auto simp: s'(1) split: if_splits)
    with other p(1) show "co_inflight (co s') (qc_key q') = Some f'" by (simp add: s'(2))
  next
    fix j j' q' f' q'' f'' assume a: "leads (tasks s' j) q' f'" "leads (tasks s' j') q'' f''" "qc_key q' = qc_key q'' \<or> f' = f''"
    then have "leads (tasks s j) q' f'" "leads (tasks s j') q'' f''" by (auto simp: s'(1) split: if_splits)
    then show "j = j'" using p(2) a(3) by blast
  next
    fix k f' assume a: "co_inflight (co s') k = Some f'"
    then have k: "k \<noteq> qc_key q" "co_inflight (co s) k = Some f'" by (auto simp: s'(2) split: if_splits)
    then obtain j q' where j: "leads (tasks s j) q' f'" "qc_key q' = k" using p(4) by blast
    then have "j \<noteq> i" using leads_unique [OF l] k(1) by blast
    then have "leads (tasks s' j) q' f'" using j(1) by (simp add: s'(1))
    with p(3) [OF k(2)] j(2) show "f' < next_fut s' \<and> (\<exists>i q. leads (tasks s' i) q f' \<and> qc_key q = k)"
      by (auto simp: s'(4))
  next
    fix j k f' assume a: "tasks s' j = Following k f'"
    then have j: "tasks s j = Following k f'" by (auto simp: s'(1) split: if_splits)
    have "co_inflight (co s') k = Some f'" if pend: "futs s' f' = Pending"
    proof -
      have ne: "f' \<noteq> f" using settled pend by blast
      then have "futs s f' = Pending" using pend by (auto simp: s'(3) settle_def split: if_splits)
      from p(6) [OF j this] have k: "co_inflight (co s) k = Some f'" .
      have "k \<noteq> qc_key q" using k p(1) [OF l] ne by auto
      with k show ?thesis by (simp add: s'(2))
    qed
    with p(5) [OF j] show "f' < next_fut s' \<and> (futs s' f' = Pending \<longrightarrow> co_inflight (co s') k = Some f')"
      by (simp add: s'(4))
  qed
qed

lemma co_call_cases:
  assumes "co_call k t n c = (c', r)"
  obtains (hit) d where "r = CallHit d" "snd (hybrid_get k t (co_l1 c)) = Some d"
      "c' = c\<lparr>co_l1 := fst (hybrid_get k t (co_l1 c))\<rparr>"
  | (join) f where "r = CallJoin f" "co_inflight c k = Some f" "snd (hybrid_get k t (co_l1 c)) = None"
      "c' = c\<lparr>co_l1 := fst (hybrid_get k t (co_l1 c))\<rparr>"
  | (lead) "r = CallLead n" "co_inflight c k = None" "snd (hybrid_get k t (co_l1 c)) = None"
      "c' = c\<lparr>co_l1 := fst (hybrid_get k t (co_l1 c)), co_inflight := (co_inflight c)(k \<mapsto> n)\<rparr>"
  using assms by (auto simp: co_call_def split: prod.splits option.splits)

lemma co_store_inflight: "co_store k d ts t c = Inr c' \<Longrightarrow> co_inflight c' = co_inflight c"
  by (auto simp: co_store_def tag_tables_def split: sum.splits)

lemma co_leave_inflight:
  "co_inflight c k = Some f \<Longrightarrow> co_inflight (co_leave k f c) = (co_inflight c)(k := None)"
  by (simp add: co_leave_def)

lemma flights_join:
  assumes inv: "flights_inv s" and i: "tasks s i = Out" and k: "co_inflight (co s) k = Some f"
    and s': "tasks s' = (tasks s)(i := Following k f)" "co_inflight (co s') = co_inflight (co s)"
      "futs s' = futs s" "next_fut s' = next_fut s"
  shows "flights_inv s'"
proof -
  note p = flights_parts [OF inv]
  have l: "leads (tasks s' j) q g \<longleftrightarrow> leads (tasks s j) q g" for j q g using i by (auto simp: s'(1))
  show ?thesis
  proof (rule flights_other [OF inv l _ s'(2,4)])
    fix j k' f' assume "tasks s' j = Following k' f'"
    then show "f' < next_fut s \<and> (futs s' f' = Pending \<longrightarrow> co_inflight (co s) k' = Some f')"
      using p(3) [OF k] k p(5,6) unfolding s'(1,3) by (cases "j = i") auto
  qed
qed

lemma flights_lead:
  assumes inv: "flights_inv s" and i: "tasks s i = Out" and k: "co_inflight (co s) (qc_key q) = None"
    and s': "tasks s' = (tasks s)(i := Reading q (next_fut s))"
      "co_inflight (co s') = (co_inflight (co s))(qc_key q \<mapsto> next_fut s)"
      "futs s' = (futs s)(next_fut s := Pending)" "next_fut s' = Suc (next_fut s)"
  shows "flights_inv s'"
proof -
  note p = flights_parts [OF inv]
  have old: "qc_key q' \<noteq> qc_key q \<and> f' < next_fut s" if "leads (tasks s j) q' f'" for j q' f'
    using p(1) [OF that] p(3) [OF p(1) [OF that]] k by auto
  have l: "(j = i \<and> q' = q \<and> f' = next_fut s) \<or> (j \<noteq> i \<and> leads (tasks s j) q' f')" if "leads (tasks s' j) q' f'" for j q' f'
    using that by (cases "j = i") (auto simp: s'(1))
  show ?thesis
  proof (rule flights_invI)
    fix j q' f' assume "leads (tasks s' j) q' f'"
    then show "co_inflight (co s') (qc_key q') = Some f'" using l [of j q' f'] old p(1) by (auto simp: s'(2))
  next
    fix j j' q' f' q'' f'' assume "leads (tasks s' j) q' f'" "leads (tasks s' j') q'' f''" "qc_key q' = qc_key q'' \<or> f' = f''"
    then show "j = j'" using l [of j q' f'] l [of j' q'' f''] old p(2) by (metis less_irrefl)
  next
    fix k' f' assume a: "co_inflight (co s') k' = Some f'"
    show "f' < next_fut s' \<and> (\<exists>i q. leads (tasks s' i) q f' \<and> qc_key q = k')"
    proof (cases "k' = qc_key q")
      case True
      with a have "f' = next_fut s" by (simp add: s'(2))
      moreover have "leads (tasks s' i) q (next_fut s)" by (simp add: s'(1))
      ultimately show ?thesis using True s'(4) by auto
    next
      case False
      then have b: "co_inflight (co s) k' = Some f'" using a by (simp add: s'(2))
      then obtain j q' where j: "leads (tasks s j) q' f'" "qc_key q' = k'" using p(4) by blast
      then have "j \<noteq> i" using i by auto
      then have "leads (tasks s' j) q' f'" using j(1) by (simp add: s'(1))
      then show ?thesis using p(3) [OF b] j(2) by (auto simp: s'(4))
    qed
  next
    fix j k' f' assume "tasks s' j = Following k' f'"
    then have j: "tasks s j = Following k' f'" by (auto simp: s'(1) split: if_splits)
    have lt: "f' < next_fut s" using p(5) [OF j] .
    have "co_inflight (co s') k' = Some f'" if "futs s' f' = Pending"
    proof -
      have "futs s f' = Pending" using that lt by (simp add: s'(3))
      from p(6) [OF j this] k show ?thesis by (auto simp: s'(2))
    qed
    with lt show "f' < next_fut s' \<and> (futs s' f' = Pending \<longrightarrow> co_inflight (co s') k' = Some f')" by (simp add: s'(4))
  qed
qed

lemma flights_cancel:
  assumes inv: "flights_inv s" and i: "tasks s i = Following k f"
    and s': "tasks s' = (tasks s)(i := Ended r)" "co_inflight (co s') = co_inflight (co s)" "futs s' = settle f FCancelled (futs s)" "next_fut s' = next_fut s"
  shows "flights_inv s'"
proof -
  note p = flights_parts [OF inv]
  have l: "leads (tasks s' j) q g \<longleftrightarrow> leads (tasks s j) q g" for j q g using i by (auto simp: s'(1))
  show ?thesis
  proof (rule flights_other [OF inv l _ s'(2,4)])
    fix j k' f' assume "tasks s' j = Following k' f'"
    then have j: "tasks s j = Following k' f'" by (auto simp: s'(1) split: if_splits)
    have "futs s f' = Pending" if "futs s' f' = Pending" using that by (auto simp: s'(3) settle_def split: if_splits)
    then show "f' < next_fut s \<and> (futs s' f' = Pending \<longrightarrow> co_inflight (co s) k' = Some f')"
      using p(5,6) [OF j] by simp
  qed
qed

lemma cstep_flights:
  assumes "cstep sha json_size s s'" "flights_inv s"
  shows "flights_inv s'"
  using assms(1)
proof (cases rule: cstep.cases)
  case (hit i k t c d)
  from hit(3) show ?thesis unfolding hit(1)
    by (cases rule: co_call_cases; intro flights_same [OF assms(2)]; simp add: hit(2) split: if_splits)
next
  case (join i k t c f)
  from join(3) show ?thesis unfolding join(1)
    by (cases rule: co_call_cases; intro flights_join [OF assms(2) join(2)]; simp)
next
  case (lead i q t c f)
  from lead(3) show ?thesis unfolding lead(1)
    by (cases rule: co_call_cases; intro flights_lead [OF assms(2) lead(2)]; simp)
next
  case (l2_hit i q f r t c js)
  have l: "leads (tasks s i) q f" by (simp add: l2_hit(2))
  have "co_inflight c = co_inflight (co s)" using l2_hit(3) by (rule co_store_inflight)
  with flights_parts(1) [OF assms(2) l] have "co_inflight (co_leave (qc_key q) f c) = (co_inflight (co s))(qc_key q := None)"
    by (simp add: co_leave_inflight)
  then show ?thesis unfolding l2_hit(1)
    by (intro flights_end [OF assms(2) l, of "FValue \<lparr>lk_data = loads_rows (rr_result_data r), lk_source = SrcL2\<rparr>"]) simp_all
next
  case (finish i q f d t c js)
  have l: "leads (tasks s i) q f" by (simp add: finish(2))
  have "co_inflight c = co_inflight (co s)" using finish(3) by (rule co_store_inflight)
  with flights_parts(1) [OF assms(2) l] have "co_inflight (co_leave (qc_key q) f c) = (co_inflight (co s))(qc_key q := None)"
    by (simp add: co_leave_inflight)
  then show ?thesis unfolding finish(1)
    by (intro flights_end [OF assms(2) l, of "FValue \<lparr>lk_data = d, lk_source = SrcMiss\<rparr>"]) simp_all
next
  case (fail i q f e)
  have "co_inflight (co_leave (qc_key q) f (co s)) = (co_inflight (co s))(qc_key q := None)"
    using flights_parts(1) [OF assms(2) fail(2)] by (rule co_leave_inflight)
  then show ?thesis unfolding fail(1)
    by (intro flights_end [OF assms(2) fail(2), of "FRaised e"]) simp_all
next
  case (cancel i k f)
  then show ?thesis by (intro flights_cancel [OF assms(2) cancel(2)]) simp_all
next
  case (scoped i ks ts c ok)
  have "co_inflight c = co_inflight (co s)" using scoped(4) by (auto simp: co_invalidate_tables_def Let_def split: if_splits)
  then show ?thesis unfolding scoped(1)
    by (intro flights_same [OF assms(2)]; simp add: scoped(2) split: if_splits)
qed (intro flights_same [OF assms(2)]; force simp: co_invalidate_def co_clear_def split: if_splits)+

lemma creach_flights:
  assumes "creach sha json_size mx ttl s"
  shows "flights_inv s"
  using assms
proof (induction rule: creach.induct)
  case (start table world)
  show ?case by (simp add: flights_inv_def csys_new_def co_new_def)
next
  case (step s s')
  then show ?case using cstep_flights by blast
qed

section \<open>The table index\<close>

abbreviation l1_entry :: "coordinator \<Rightarrow> string \<Rightarrow> rows cache_entry option" where
  "l1_entry c \<equiv> map_of (lru_dict (hy_lru (co_l1 c)))"

text \<open>An entry of the L1 cache is in the reverse index of every table it was stored with.\<close>

definition index_inv :: "coordinator \<Rightarrow> bool" where
  "index_inv c \<longleftrightarrow> hybrid_inv (co_l1 c) \<and> (\<forall>k. l1_entry c k \<noteq> None \<longrightarrow> (\<forall>t \<in> co_tags c k. k \<in> keys_of c t))"

lemma index_inv_mono:
  assumes "index_inv c" "hybrid_inv (co_l1 c')" "\<And>k. l1_entry c' k \<noteq> None \<Longrightarrow> l1_entry c k \<noteq> None"
    and "co_tags c' = co_tags c" "\<And>t. keys_of c t \<subseteq> keys_of c' t"
  shows "index_inv c'"
  unfolding index_inv_def
proof (intro conjI allI impI ballI)
  show "hybrid_inv (co_l1 c')" by (rule assms(2))
  fix k t assume "l1_entry c' k \<noteq> None" "t \<in> co_tags c' k"
  then have "k \<in> keys_of c t" using assms(1,3,4) unfolding index_inv_def by metis
  then show "k \<in> keys_of c' t" using assms(5) by (rule subsetD [rotated])
qed

lemma hybrid_get_entries:
  assumes "hybrid_inv l1"
  shows "hybrid_inv (fst (hybrid_get k t l1))"
    "map_of (lru_dict (hy_lru (fst (hybrid_get k t l1)))) j \<noteq> None \<Longrightarrow> map_of (lru_dict (hy_lru l1)) j \<noteq> None"
  using hy.get_invar [OF assms] hy.get_look [OF assms, of k t j] by auto

lemma index_call:
  assumes "index_inv c" "co_call k t n c = (c', r)"
  shows "index_inv c'"
proof -
  have h: "hybrid_inv (co_l1 c)" using assms(1) by (simp add: index_inv_def)
  have "co_l1 c' = fst (hybrid_get k t (co_l1 c))" "co_tags c' = co_tags c" "keys_of c' = keys_of c"
    using assms(2) by (cases rule: co_call_cases; simp add: keys_of_def fun_eq_iff)+
  with hybrid_get_entries [OF h] show ?thesis
    by (intro index_inv_mono [OF assms(1)]) auto
qed

lemma index_store:
  assumes "index_inv c" "co_store key d ts t c = Inr c'"
  shows "index_inv c'"
proof -
  obtain l1 where p: "hybrid_put key (Some d) (Some (co_l1_ttl c)) t (co_l1 c) = Inr l1"
    and c': "c' = tag_tables key ts (c\<lparr>co_l1 := l1, co_tags := (co_tags c)(key := ts)\<rparr>)"
    using assms(2) by (auto simp: co_store_def split: sum.splits)
  have h: "hybrid_inv (co_l1 c)" using assms(1) by (simp add: index_inv_def)
  have inv: "hybrid_inv l1" using hy.put_invar [OF h, of key "Some d" "Some (co_l1_ttl c)" t] p by auto
  have l1: "co_l1 c' = l1" "co_tags c' = (co_tags c)(key := ts)" by (simp_all add: c' tag_tables_def)
  have keys: "keys_of c' x = (if x \<in> ts then insert key (keys_of c x) else keys_of c x)" for x
    by (simp add: c' tag_tables_def keys_of_def)
  have old: "l1_entry c j \<noteq> None" if "l1_entry c' j \<noteq> None" "j \<noteq> key" for j
    using hy.put_look_other [OF h p that(2)] that(1) by (auto simp: l1(1))
  show ?thesis unfolding index_inv_def
  proof (intro conjI allI impI ballI)
    show "hybrid_inv (co_l1 c')" using inv by (simp add: l1(1))
  next
    fix k x assume a: "l1_entry c' k \<noteq> None" "x \<in> co_tags c' k"
    show "k \<in> keys_of c' x"
    proof (cases "k = key")
      case True
      with a(2) show ?thesis by (simp add: l1(2) keys)
    next
      case False
      with a old assms(1) have "k \<in> keys_of c x" unfolding index_inv_def by (simp add: l1(2))
      then show ?thesis by (simp add: keys)
    qed
  qed
qed

lemma drop_keys_look:
  assumes "hybrid_inv l1"
  shows "hybrid_inv (drop_keys ks l1)
    \<and> map_of (lru_dict (hy_lru (drop_keys ks l1))) = (\<lambda>k. if k \<in> set ks then None else map_of (lru_dict (hy_lru l1)) k)"
  using assms
proof (induction ks arbitrary: l1)
  case Nil
  then show ?case by (simp add: drop_keys_def)
next
  case (Cons k ks)
  have i: "hybrid_inv (hybrid_invalidate k l1)" using hy.inval_invar [OF Cons.prems] by simp
  from Cons.IH [OF i] hy.inval_look [OF Cons.prems, of k] show ?case
    by (auto simp: drop_keys_def fun_eq_iff)
qed

lemma index_scoped:
  assumes "index_inv c" "set ks = keys_to_drop ts c" "co_invalidate_tables ts ks c = (c', ok)"
  shows "index_inv c' \<and> co_tags c' = co_tags c \<and> (ok \<longleftrightarrow> keys_to_drop ts c \<noteq> {})
    \<and> (\<forall>k. l1_entry c' k = (if k \<in> keys_to_drop ts c then None else l1_entry c k))"
proof -
  have h: "hybrid_inv (co_l1 c)" using assms(1) by (simp add: index_inv_def)
  note d = drop_keys_look [OF h, of ks]
  have ne: "keys_to_drop ts c \<noteq> {} \<longleftrightarrow> ks \<noteq> []" unfolding assms(2) [symmetric] by simp
  have "keys_to_drop [] c = {}" by (simp add: keys_to_drop_def)
  with ne have ne2: "ks \<noteq> [] \<Longrightarrow> ts \<noteq> []" by auto
  have e: "l1_entry c' k = (if k \<in> set ks then None else l1_entry c k)" "hybrid_inv (co_l1 c')"
    "co_tags c' = co_tags c" "ok \<longleftrightarrow> ks \<noteq> []" for k
    using assms(3) d h ne2 by (cases "ks = []"; auto simp: co_invalidate_tables_def Let_def split: if_splits)+
  note e = e [unfolded assms(2), folded ne]
  have keys: "keys_of c' x = (if x \<in> set ts then {} else keys_of c x)" for x
    using assms(3) by (auto simp: co_invalidate_tables_def keys_of_def Let_def split: if_splits)
  have "k \<in> keys_of c' x" if "l1_entry c' k \<noteq> None" "x \<in> co_tags c' k" for k x
  proof -
    have k: "k \<notin> keys_to_drop ts c" "l1_entry c k \<noteq> None" using that(1) e(1) by (auto split: if_splits)
    then have "k \<in> keys_of c x" using assms(1) that(2) e(3) unfolding index_inv_def by simp
    moreover from this k(1) have "x \<notin> set ts" by (auto simp: keys_to_drop_def)
    ultimately show ?thesis by (simp add: keys)
  qed
  with e show ?thesis unfolding index_inv_def by blast
qed

lemma cstep_index:
  assumes "cstep sha json_size s s'" "index_inv (co s)"
  shows "index_inv (co s')"
proof -
  have leave: "index_inv (co_leave k f c)" if "index_inv c" for k f c
    by (rule index_inv_mono [OF that])
       (use that in \<open>auto simp: co_leave_def index_inv_def keys_of_def split: if_splits\<close>)
  have h: "hybrid_inv (co_l1 (co s))" using assms(2) by (simp add: index_inv_def)
  show ?thesis using assms(1)
  proof (cases rule: cstep.cases)
    case (invalidate k)
    show ?thesis unfolding invalidate
      by (rule index_inv_mono [OF assms(2)])
         (use hy.inval_invar [OF h, of k] hy.inval_look [OF h, of k] in \<open>auto simp: co_invalidate_def keys_of_def split: if_splits\<close>)
  next
    case (clear i)
    have "l1_entry (co_clear (co s)) k = None" for k using hy.clear_look [of "co_l1 (co s)" k] by (simp add: co_clear_def)
    moreover have "hybrid_inv (co_l1 (co_clear (co s)))" using hy.clear_invar [OF h] by (simp add: co_clear_def)
    ultimately show ?thesis by (simp add: clear(1) index_inv_def)
  next
    case (scoped i ks ts c ok)
    then show ?thesis using index_scoped [OF assms(2) scoped(3,4)] by simp
  next
    case (l2_hit i q f r t c js)
    then show ?thesis using leave [OF index_store [OF assms(2) l2_hit(3)]] by simp
  next
    case (finish i q f d t c js)
    then show ?thesis using leave [OF index_store [OF assms(2) finish(3)]] by simp
  qed (use index_call [OF assms(2)] leave [OF assms(2)] assms(2) in simp_all)
qed

lemma creach_index:
  assumes "creach sha json_size mx ttl s" "1 \<le> mx"
  shows "index_inv (co s)"
  using assms(1)
proof (induction rule: creach.induct)
  case (start table world)
  show ?case using hybrid_inv_new [OF assms(2)] by (simp add: index_inv_def csys_new_def co_new_def hybrid_new_def lru_new_def)
next
  case (step s s')
  then show ?case using cstep_index by blast
qed

section \<open>Properties\<close>

text \<open>
  C10.  At any moment at most one task leads the flight of a key, so at most one executes a query for
  it; and a caller that waits for an unfinished flight waits for the future of a task that is
  still leading that very key, so it is never left behind.
\<close>

theorem single_flight:
  assumes "creach sha json_size mx ttl s"
  shows "(\<forall>i j q q' f f'. leads (tasks s i) q f \<and> leads (tasks s j) q' f' \<and> qc_key q = qc_key q' \<longrightarrow> i = j)
    \<and> (\<forall>i k f. tasks s i = Following k f \<and> futs s f = Pending \<longrightarrow> (\<exists>j q. leads (tasks s j) q f \<and> qc_key q = k))"
  using flights_parts(2,4,6) [OF creach_flights [OF assms]] by blast

text \<open>
  C18.  Invalidating tables drops exactly the L1 entries indexed under one of them, among these every
  entry that was stored as reading one of the tables: no L1 hit afterwards returns such an entry,
  and every other entry stays.  The answer says whether any key was indexed.
\<close>

theorem invalidate_tables_complete:
  assumes "creach sha json_size mx ttl s" "1 \<le> mx" "set ks = keys_to_drop ts (co s)"
    and "co_invalidate_tables ts ks (co s) = (c, ok)"
  shows "(\<forall>k t d. snd (hybrid_get k t (co_l1 c)) = Some d \<longrightarrow> co_tags c k \<inter> set ts = {})
    \<and> (\<forall>k t. k \<notin> keys_to_drop ts (co s) \<longrightarrow> snd (hybrid_get k t (co_l1 c)) = snd (hybrid_get k t (co_l1 (co s))))
    \<and> (ok \<longleftrightarrow> keys_to_drop ts (co s) \<noteq> {})"
proof -
  have inv: "index_inv (co s)" using creach_index [OF assms(1,2)] .
  note sc = index_scoped [OF inv assms(3,4)]
  have h: "hybrid_inv (co_l1 (co s))" "hybrid_inv (co_l1 c)" using inv sc by (simp_all add: index_inv_def)
  have "co_tags c k \<inter> set ts = {}" if "snd (hybrid_get k t (co_l1 c)) = Some d" for k t d
  proof -
    have "l1_entry c k \<noteq> None" using that hy.get_result [OF h(2), of k t] by (auto split: option.splits)
    then have "k \<notin> keys_to_drop ts (co s)" "l1_entry (co s) k \<noteq> None" using sc by (auto split: if_splits)
    then show ?thesis using inv sc unfolding index_inv_def keys_to_drop_def by auto
  qed
  moreover have "snd (hybrid_get k t (co_l1 c)) = snd (hybrid_get k t (co_l1 (co s)))" if "k \<notin> keys_to_drop ts (co s)" for k t
    using sc that by (simp add: hy.get_result [OF h(1)] hy.get_result [OF h(2)])
  ultimately show ?thesis using sc by blast
qed

text \<open>A world with one key, whose query reads the table \<open>t\<close>, and the runs of the examples.\<close>

definition qx :: query_call where
  "qx = \<lparr>qc_key = ''k'', qc_tables = {''t''}, qc_persist = None\<rparr>"

definition old_rows :: rows where "old_rows = [[(''n'', VInt 1)]]"
definition new_rows :: rows where "new_rows = [[(''n'', VInt 2)]]"

definition w_start :: csys where
  "w_start = csys_new 4 60 [] (\<lambda>_. old_rows)"

definition w_lead :: csys where
  "w_lead = (let r = co_call (qc_key qx) ((0, 0), (0, 0)) (next_fut w_start) (co w_start)
     in set_task 0 (Reading qx 0) (w_start\<lparr>co := fst r, next_fut := Suc (next_fut w_start), futs := (futs w_start)(0 := Pending)\<rparr>))"

definition w_join :: "nat \<Rightarrow> csys \<Rightarrow> csys" where
  "w_join i s = (let r = co_call ''k'' ((0, 0), (0, 0)) (next_fut s) (co s)
     in set_task i (Following ''k'' 0) (s\<lparr>co := fst r\<rparr>))"

lemmas w_simps = w_start_def w_lead_def w_join_def qx_def csys_new_def co_new_def co_call_def hybrid_new_def hybrid_get_def
  lru_new_def lru_get_def ttl_new_def Let_def

lemma w_start_reach: "creach sha js 4 60 w_start"
  unfolding w_start_def by (rule creach.start)

lemma w_lead_reach: "creach sha js 4 60 w_lead"
proof (rule creach.step [OF w_start_reach])
  have "co_call (qc_key qx) ((0, 0), (0, 0)) (next_fut w_start) (co w_start)
      = (fst (co_call (qc_key qx) ((0, 0), (0, 0)) (next_fut w_start) (co w_start)), CallLead 0)"
    by (simp add: w_simps)
  from cstep.lead [OF _ this, of 0] show "cstep sha js w_start w_lead" by (simp add: w_lead_def Let_def) (simp add: w_simps)
qed

lemma w_join_reach:
  assumes "creach sha js 4 60 s" "tasks s i = Out"
    and "snd (co_call ''k'' ((0, 0), (0, 0)) (next_fut s) (co s)) = CallJoin 0"
  shows "creach sha js 4 60 (w_join i s)"
proof (rule creach.step [OF assms(1)])
  have "co_call ''k'' ((0, 0), (0, 0)) (next_fut s) (co s)
      = (fst (co_call ''k'' ((0, 0), (0, 0)) (next_fut s) (co s)), CallJoin 0)"
    using assms(3) by (simp add: prod_eq_iff)
  from cstep.join [OF assms(2) this] show "cstep sha js s (w_join i s)" by (simp add: w_join_def Let_def)
qed

definition w_pair :: csys where "w_pair = w_join 1 w_lead"

lemma w_pair_reach: "creach sha js 4 60 w_pair"
  unfolding w_pair_def by (rule w_join_reach [OF w_lead_reach]) (simp_all add: w_simps)

lemma w_pair_state: "tasks w_pair 0 = Reading qx 0" "tasks w_pair 1 = Following ''k'' 0" "futs w_pair 0 = Pending"
  "tasks w_pair 2 = Out"
  by (simp_all add: w_pair_def w_simps)

theorem single_flight_witness:
  "{i. \<exists>q f. leads (tasks w_pair i) q f \<and> qc_key q = ''k''} = {0} \<and> (\<exists>j q. leads (tasks w_pair j) q 0 \<and> qc_key q = ''k'')"
proof -
  have r: "creach id length 4 60 w_pair" by (rule w_pair_reach)
  have z: "leads (tasks w_pair 0) qx 0 \<and> qc_key qx = ''k''" unfolding w_pair_state by (simp add: qx_def)
  with single_flight [OF r] have "{i. \<exists>q f. leads (tasks w_pair i) q f \<and> qc_key q = ''k''} = {0}" by (auto; metis)
  moreover have "\<exists>j q. leads (tasks w_pair j) q 0 \<and> qc_key q = ''k''"
    using single_flight [OF r] w_pair_state(2,3) by blast
  ultimately show ?thesis by blast
qed

text \<open>
  A follower that is cancelled cancels the future it shares: the other followers, and every caller
  that joins until the leader is done, get \<open>CancelledError\<close> although the query succeeds.
\<close>

definition w_cancelled :: csys where
  "w_cancelled = set_task 1 (Ended (Inl CancelledError)) (w_pair\<lparr>futs := settle 0 FCancelled (futs w_pair)\<rparr>)"

theorem cancelled_follower_cancels_others:
  "\<exists>s. creach sha js 4 60 s \<and> leads (tasks s 0) qx 0 \<and> tasks s 2 = Following ''k'' 0
     \<and> awaited (futs s 0) = Inl CancelledError"
proof (intro exI conjI)
  have c: "creach sha js 4 60 w_cancelled" unfolding w_cancelled_def
    by (rule creach.step [OF w_pair_reach], rule cstep.cancel) (rule w_pair_state(2))
  show "creach sha js 4 60 (w_join 2 w_cancelled)"
    by (rule w_join_reach [OF c]) (simp_all add: w_cancelled_def w_pair_def w_simps)
  show "leads (tasks (w_join 2 w_cancelled) 0) qx 0" "tasks (w_join 2 w_cancelled) 2 = Following ''k'' 0"
    "awaited (futs (w_join 2 w_cancelled) 0) = Inl CancelledError"
    by (simp_all add: w_cancelled_def w_pair_def w_simps settle_def)
qed

text \<open>
  A leader that executed its query before a write and stores the answer after the write's
  invalidation (here the clearing of the whole cache) leaves the old answer in the L1 cache for its
  whole lifetime.
\<close>

definition w_executed :: csys where
  "w_executed = set_task 0 (Running qx 0 (Some old_rows)) w_lead"

definition w_cleared :: csys where
  "w_cleared = set_task 1 ClearingL2 ((w_executed\<lparr>answers := (\<lambda>_. new_rows)\<rparr>)\<lparr>co := co_clear (co w_executed)\<rparr>)"

definition w_settled :: csys where
  "w_settled = set_task 1 Out (w_cleared\<lparr>l2 := fst (l2_clear_all False (l2 w_cleared))\<rparr>)"

definition w_stored :: coordinator where
  "w_stored = (case co_store ''k'' old_rows {''t''} ((0, 0), (0, 0)) (co w_settled) of Inr c \<Rightarrow> c | Inl e \<Rightarrow> co w_settled)"

lemma w_executed_reach: "creach sha js 4 60 w_executed"
proof -
  let ?got = "set_task 0 (GotL2 qx 0 None) w_lead" and ?run = "set_task 0 (Running qx 0 None) w_lead"
  have t: "tasks w_lead 0 = Reading qx 0" "get_cached_result False (qc_key qx) 0 (l2 w_lead) = None"
    "answers w_lead (qc_key qx) = old_rows" by (simp_all add: w_simps get_cached_result_def)
  have "cstep sha js w_lead ?got" using cstep.read [OF t(1), of sha js False 0] unfolding t(2) .
  then have a: "creach sha js 4 60 ?got" by (rule creach.step [OF w_lead_reach])
  have "cstep sha js ?got ?run" using cstep.l2_miss [of ?got 0 qx 0] by simp
  then have b: "creach sha js 4 60 ?run" by (rule creach.step [OF a])
  have "cstep sha js ?run w_executed" using cstep.execute [of ?run 0 qx 0] by (simp add: w_executed_def t(3))
  then show ?thesis by (rule creach.step [OF b])
qed

lemma w_settled_reach: "creach sha js 4 60 w_settled"
proof -
  have "cstep sha js w_executed (w_executed\<lparr>answers := (\<lambda>_. new_rows)\<rparr>)" by (rule cstep.warehouse_write)
  then have a: "creach sha js 4 60 (w_executed\<lparr>answers := (\<lambda>_. new_rows)\<rparr>)" by (rule creach.step [OF w_executed_reach])
  have "tasks (w_executed\<lparr>answers := (\<lambda>_. new_rows)\<rparr>) 1 = Out" by (simp add: w_executed_def w_simps)
  from cstep.clear [OF this, of sha js] have "creach sha js 4 60 w_cleared"
    by (intro creach.step [OF a]) (simp add: w_cleared_def)
  moreover have "tasks w_cleared 1 = ClearingL2" by (simp add: w_cleared_def)
  from cstep.clear_l2 [OF this, of sha js False] have "cstep sha js w_cleared w_settled" by (simp add: w_settled_def)
  ultimately show ?thesis by (rule creach.step)
qed

lemma w_stored_ok: "co_store ''k'' old_rows {''t''} ((0, 0), (0, 0)) (co w_settled) = Inr w_stored"
  "snd (hybrid_get ''k'' ((9, 9), (9, 9)) (co_l1 (co_leave ''k'' 0 w_stored))) = Some old_rows"
  "co_tags w_stored ''k'' = {''t''}" "keys_of w_stored ''t'' = {''k''}" "keys_of (co_leave ''k'' 0 w_stored) ''t'' = {''k''}"
  by (simp_all add: w_stored_def co_store_def hybrid_put_def lru_put_def ttl_put_def tag_tables_def keys_of_def co_leave_def
      w_settled_def w_cleared_def w_executed_def co_clear_def hybrid_clear_def lru_clear_def ttl_clear_def w_simps
      new_entry_def is_expired_def)

definition w_stale :: csys where
  "w_stale = set_task 0 (Ended (Inr \<lparr>lk_data = old_rows, lk_source = SrcMiss\<rparr>))
     (w_settled\<lparr>co := co_leave ''k'' 0 w_stored, jobs := jobs w_settled @ [],
        futs := settle 0 (FValue \<lparr>lk_data = old_rows, lk_source = SrcMiss\<rparr>) (futs w_settled)\<rparr>)"

lemma w_stale_reach: "creach sha js 4 60 w_stale"
proof -
  have t: "tasks w_settled 0 = Running qx 0 (Some old_rows)"
    by (simp add: w_settled_def w_cleared_def w_executed_def)
  have s: "co_store (qc_key qx) old_rows (qc_tables qx) ((0, 0), (0, 0)) (co w_settled) = Inr w_stored"
    using w_stored_ok(1) by (simp add: qx_def)
  have "set [] \<subseteq> set (miss_jobs qx old_rows)" by simp
  from cstep.finish [OF t s this, of sha js] show ?thesis
    by (intro creach.step [OF w_settled_reach]) (simp add: w_stale_def qx_def)
qed

theorem stale_store_after_clear:
  "\<exists>s. creach sha js 4 60 s \<and> (\<forall>i. tasks s i = Out \<or> (\<exists>r. tasks s i = Ended r)) \<and> l2 s = [] \<and> jobs s = []
     \<and> (\<exists>t d. snd (hybrid_get ''k'' t (co_l1 (co s))) = Some d \<and> d \<noteq> answers s ''k'')"
proof (intro exI conjI)
  show "creach sha js 4 60 w_stale" by (rule w_stale_reach)
  show "\<forall>i. tasks w_stale i = Out \<or> (\<exists>r. tasks w_stale i = Ended r)"
    by (simp add: w_stale_def w_settled_def w_cleared_def w_executed_def w_simps)
  show "l2 w_stale = []" "jobs w_stale = []"
    by (simp_all add: w_stale_def w_settled_def w_cleared_def w_executed_def w_simps l2_clear_all_def)
  show "snd (hybrid_get ''k'' ((9, 9), (9, 9)) (co_l1 (co w_stale))) = Some old_rows"
    using w_stored_ok(2) by (simp add: w_stale_def)
  show "old_rows \<noteq> answers w_stale ''k''"
    by (simp add: w_stale_def w_settled_def w_cleared_def old_rows_def new_rows_def)
qed

theorem invalidate_tables_complete_witness:
  "snd (hybrid_get ''k'' ((9, 9), (9, 9)) (co_l1 (co w_stale))) = Some old_rows \<and> co_tags (co w_stale) ''k'' = {''t''}
   \<and> (\<exists>c. co_invalidate_tables [''t''] [''k''] (co w_stale) = (c, True)
      \<and> snd (hybrid_get ''k'' ((9, 9), (9, 9)) (co_l1 c)) = None)"
proof -
  have r: "creach id length 4 60 w_stale" by (rule w_stale_reach)
  have k: "set [''k''] = keys_to_drop [''t''] (co w_stale)"
    using w_stored_ok(5) by (simp add: keys_to_drop_def w_stale_def)
  obtain c ok where i: "co_invalidate_tables [''t''] [''k''] (co w_stale) = (c, ok)"
    by (cases "co_invalidate_tables [''t''] [''k''] (co w_stale)")
  have tags: "co_tags (co w_stale) ''k'' = {''t''}" using w_stored_ok(3) by (simp add: w_stale_def co_leave_def)
  moreover have "co_tags c = co_tags (co w_stale)" using i by (auto simp: co_invalidate_tables_def Let_def split: if_splits)
  ultimately have "co_tags c ''k'' \<inter> set [''t''] \<noteq> {}" by simp
  moreover note inv = invalidate_tables_complete [OF r _ k i]
  ultimately have "snd (hybrid_get ''k'' ((9, 9), (9, 9)) (co_l1 c)) = None" by (cases "snd (hybrid_get ''k'' ((9, 9), (9, 9)) (co_l1 c))") force+
  moreover have "keys_to_drop [''t''] (co w_stale) \<noteq> {}" using k by force
  then have "ok" using inv by simp
  moreover have "snd (hybrid_get ''k'' ((9, 9), (9, 9)) (co_l1 (co w_stale))) = Some old_rows"
    using w_stored_ok(2) by (simp add: w_stale_def)
  ultimately show ?thesis using i tags by auto
qed

text \<open>
  Tags keep the letter case and the qualifier of a statement: a write to \<open>orders\<close> does not reach the
  entries of a query that reads \<open>Orders\<close> or \<open>main.orders\<close>.
\<close>

theorem tags_are_literal:
  "extract_tables ''UPDATE orders SET n = 2'' = [''orders'']
   \<and> extract_tables ''SELECT n FROM Orders'' = [''Orders''] \<and> extract_tables ''SELECT n FROM main.orders'' = [''main'']
   \<and> extract_tables ''SELECT 1 FROM a, orders'' = [''a'']"
  by code_simp

end
