(* ===== verification/Query_Service.thy ===== *)
theory Query_Service
  imports Cache_Coordinator "HOL-Library.List_Lexorder" "HOL-Library.Char_ord"
begin

text \<open>
  \<open>src/core/services/query_service.py\<close> and \<open>query_limits.py\<close>: one \<open>/api/query\<close> request from the
  authorization of the statement over the cost gate, the caches and the execution to the result
  limits and the invalidation after a write; and the process-wide gates and limits.  The warehouse
  is the parameter \<open>exec\<close> (a statement, the text of its parameters and a database give the new
  database and the rows or the exception).  \<open>qs_run\<close> is a request that nothing interrupts,
  together with the persistence job it submits; the interleavings of the caches are in
  \<open>Cache_Coordinator\<close>.
\<close>

section \<open>Limits and gates\<close>

record query_limits =
  ql_max_result_rows :: int
  ql_max_result_bytes :: int
  ql_max_query_duration_seconds :: seconds

definition default_query_limits :: query_limits where
  "default_query_limits = \<lparr>ql_max_result_rows = 10000, ql_max_result_bytes = 10 * 1024 * 1024,
     ql_max_query_duration_seconds = 30\<rparr>"

text \<open>A semaphore by its permits left; \<open>capacity\<close> is what it was made with.\<close>

record gates =
  g_limits :: query_limits
  g_value :: "cost \<Rightarrow> int"
  g_capacity :: "cost \<Rightarrow> int"

definition or_keep :: "'a option \<Rightarrow> 'a \<Rightarrow> 'a" where
  "or_keep x old = (case x of None \<Rightarrow> old | Some v \<Rightarrow> v)"

definition resize_gate :: "cost \<Rightarrow> int option \<Rightarrow> gates \<Rightarrow> gates" where
  "resize_gate c n g =
     (case n of None \<Rightarrow> g | Some k \<Rightarrow> g\<lparr>g_value := (g_value g)(c := k), g_capacity := (g_capacity g)(c := k)\<rparr>)"

definition configure_query_limits ::
  "int option \<Rightarrow> int option \<Rightarrow> seconds option \<Rightarrow> int option \<Rightarrow> int option \<Rightarrow> int option \<Rightarrow> gates \<Rightarrow> gates" where
  "configure_query_limits rows bytes duration fast normal expensive g =
     resize_gate Expensive expensive (resize_gate Normal normal (resize_gate Fast fast
       (g\<lparr>g_limits := \<lparr>ql_max_result_rows = or_keep rows (ql_max_result_rows (g_limits g)),
            ql_max_result_bytes = or_keep bytes (ql_max_result_bytes (g_limits g)),
            ql_max_query_duration_seconds = or_keep duration (ql_max_query_duration_seconds (g_limits g))\<rparr>\<rparr>)))"

record gate_metrics =
  gm_limit :: int
  gm_in_use :: int

definition query_concurrency_metrics :: "gates \<Rightarrow> cost \<Rightarrow> gate_metrics" where
  "query_concurrency_metrics g c =
     \<lparr>gm_limit = g_capacity g c, gm_in_use = max 0 (g_capacity g c - g_value g c)\<rparr>"

text \<open>\<open>async with semaphore\<close>: a task enters while a permit is left, and gives it back at the end.\<close>

record gate_sys =
  gs_gates :: gates
  gs_inside :: "(nat, cost) odict"

inductive gate_step :: "gate_sys \<Rightarrow> gate_sys \<Rightarrow> bool" where
  enter: "i \<notin> set (keys (gs_inside s)) \<Longrightarrow> 0 < g_value (gs_gates s) c \<Longrightarrow>
      gate_step s (s\<lparr>gs_gates := (gs_gates s)\<lparr>g_value := (g_value (gs_gates s))(c := g_value (gs_gates s) c - 1)\<rparr>,
                     gs_inside := AList.update i c (gs_inside s)\<rparr>)"
| leave: "map_of (gs_inside s) i = Some c \<Longrightarrow>
      gate_step s (s\<lparr>gs_gates := (gs_gates s)\<lparr>g_value := (g_value (gs_gates s))(c := g_value (gs_gates s) c + 1)\<rparr>,
                     gs_inside := AList.delete i (gs_inside s)\<rparr>)"
| configure: "gs_inside s = [] \<Longrightarrow> \<forall>n \<in> set_option f \<union> set_option m \<union> set_option x. 0 \<le> n \<Longrightarrow>
      gate_step s (s\<lparr>gs_gates := configure_query_limits rows bytes duration f m x (gs_gates s)\<rparr>)"

inductive gate_reach :: "(cost \<Rightarrow> int) \<Rightarrow> gate_sys \<Rightarrow> bool" for capacity where
  start: "gate_reach capacity \<lparr>gs_gates = \<lparr>g_limits = default_query_limits, g_value = capacity, g_capacity = capacity\<rparr>, gs_inside = []\<rparr>"
| step: "gate_reach capacity s \<Longrightarrow> gate_step s s' \<Longrightarrow> gate_reach capacity s'"

section \<open>Result limits\<close>

text \<open>Python's \<open>xs[:n]\<close>, for a negative \<open>n\<close> as well.\<close>

definition py_prefix :: "int \<Rightarrow> 'a list \<Rightarrow> 'a list" where
  "py_prefix n xs = (if 0 \<le> n then take (nat n) xs else take (length xs - nat (- n)) xs)"

fun limit_bytes :: "('a \<Rightarrow> nat) \<Rightarrow> int \<Rightarrow> int \<Rightarrow> 'a list \<Rightarrow> 'a list \<times> bool" where
  "limit_bytes row_bytes max_bytes total_bytes [] = ([], False)"
| "limit_bytes row_bytes max_bytes total_bytes (r # rs) =
     (if total_bytes + int (row_bytes r) > max_bytes then ([], True)
      else (case limit_bytes row_bytes max_bytes (total_bytes + int (row_bytes r)) rs of (out, hit_cap) \<Rightarrow> (r # out, hit_cap)))"

text \<open>\<open>row_bytes\<close> is the length of a row's JSON text.\<close>

definition apply_result_limits :: "('a \<Rightarrow> nat) \<Rightarrow> query_limits \<Rightarrow> 'a list \<Rightarrow> 'a list \<times> bool" where
  "apply_result_limits row_bytes l xs =
     (let (row_limited, truncated) =
            (if int (length xs) \<le> ql_max_result_rows l then (xs, False) else (py_prefix (ql_max_result_rows l) xs, True))
      in case limit_bytes row_bytes (ql_max_result_bytes l) 0 row_limited of (out, hit_cap) \<Rightarrow> (out, truncated \<or> hit_cap))"

section \<open>The service\<close>

record query_outcome =
  qo_data :: rows
  qo_cached :: bool
  qo_truncated :: bool

record 'db service =
  sv_co :: coordinator
  sv_l2 :: result_table
  sv_db :: 'db
  sv_next :: nat

type_synonym 'db warehouse = "string \<Rightarrow> string \<Rightarrow> 'db \<Rightarrow> 'db \<times> rows result"

text \<open>The configuration, with the libraries it rests on.\<close>

record qs_config =
  qs_require_write_scope :: bool
  qs_precise :: bool
  qs_limits :: query_limits
  qs_sha :: "string \<Rightarrow> string"
  qs_json_size :: "json row list \<Rightarrow> nat"
  qs_row_bytes :: "sql_value row \<Rightarrow> nat"

text \<open>
  What a request meets: the clocks, whether the persistent cache fails on reads or on deletions,
  whether the execution exceeds its time limit (and the database did the work all the same), and
  whether the persistence job is dropped or runs, and then fails.
\<close>

record circumstances =
  ci_lookup :: clock4
  ci_store :: clock4
  ci_now :: int
  ci_l2_fails :: bool
  ci_drop_fails :: bool
  ci_timeout :: "bool option"
  ci_job :: "bool option"

definition execute_gated :: "'db warehouse \<Rightarrow> circumstances \<Rightarrow> string \<Rightarrow> string \<Rightarrow> 'db \<Rightarrow> 'db \<times> rows result" where
  "execute_gated exec e sql params db =
     (case ci_timeout e of
        None \<Rightarrow> exec sql params db
      | Some applied \<Rightarrow> (if applied then fst (exec sql params db) else db, Inl QueryTimeoutError))"

definition sv_clear_all :: "circumstances \<Rightarrow> 'db service \<Rightarrow> 'db service" where
  "sv_clear_all e s = s\<lparr>sv_co := co_clear (sv_co s), sv_l2 := fst (l2_clear_all (ci_drop_fails e) (sv_l2 s))\<rparr>"

text \<open>The keys of a set are dropped in some order, here the sorted one.\<close>

definition sv_invalidate_tables :: "circumstances \<Rightarrow> string list \<Rightarrow> 'db service \<Rightarrow> 'db service \<times> bool" where
  "sv_invalidate_tables e tables s =
     (case co_invalidate_tables tables (sorted_list_of_set (keys_to_drop tables (sv_co s))) (sv_co s) of
        (c, False) \<Rightarrow> (s\<lparr>sv_co := c\<rparr>, False)
      | (c, True) \<Rightarrow>
          (s\<lparr>sv_co := c, sv_l2 := fold (\<lambda>t l2. fst (invalidate_cache (ci_drop_fails e) t [] l2)) tables (sv_l2 s)\<rparr>, True))"

definition invalidate_after_write :: "qs_config \<Rightarrow> circumstances \<Rightarrow> string \<Rightarrow> 'db service \<Rightarrow> 'db service" where
  "invalidate_after_write cfg e sql s =
     (if qs_precise cfg
      then (case sv_invalidate_tables e (extract_tables sql) s of (s', True) \<Rightarrow> s' | (s', False) \<Rightarrow> sv_clear_all e s')
      else sv_clear_all e s)"

text \<open>
  \<open>get_or_execute\<close> of a caller that nobody else interrupts.  Joining the flight of another caller
  cannot happen then, and is answered with an error.
\<close>

definition sv_store :: "string \<Rightarrow> rows \<Rightarrow> string \<Rightarrow> circumstances \<Rightarrow> nat \<Rightarrow> 'db service \<Rightarrow> 'db service result" where
  "sv_store key d sql e f s =
     (case co_store key d (set (extract_tables sql)) (ci_store e) (sv_co s) of
        Inl x \<Rightarrow> Inl x
      | Inr c \<Rightarrow> Inr (s\<lparr>sv_co := co_leave key f c\<rparr>))"

definition sv_job :: "qs_config \<Rightarrow> circumstances \<Rightarrow> persist_job list \<Rightarrow> 'db service \<Rightarrow> 'db service" where
  "sv_job cfg e js s =
     (case ci_job e of
        None \<Rightarrow> s
      | Some fails \<Rightarrow> s\<lparr>sv_l2 := fold (run_job (qs_sha cfg) (qs_json_size cfg) fails (ci_now e)) js (sv_l2 s)\<rparr>)"

definition sv_get_or_execute ::
  "'db warehouse \<Rightarrow> qs_config \<Rightarrow> circumstances \<Rightarrow> string \<Rightarrow> string \<Rightarrow> string \<Rightarrow> 'db service \<Rightarrow> 'db service \<times> lookup_result result" where
  "sv_get_or_execute exec cfg e sql params user s =
     (let key = generate_cache_key (qs_sha cfg) sql params in
      case co_call key (ci_lookup e) (sv_next s) (sv_co s) of
        (c, CallHit d) \<Rightarrow> (s\<lparr>sv_co := c\<rparr>, Inr \<lparr>lk_data = d, lk_source = SrcL1\<rparr>)
      | (c, CallJoin f) \<Rightarrow> (s\<lparr>sv_co := c\<rparr>, Inl (OtherError ''waits for another flight''))
      | (c, CallLead f) \<Rightarrow>
          (let s1 = s\<lparr>sv_co := c, sv_next := Suc (sv_next s)\<rparr> in
           case get_cached_result (ci_l2_fails e) key (ci_now e) (sv_l2 s1) of
             Some r \<Rightarrow>
               (let d = loads_rows (rr_result_data r) in
                case sv_store key d sql e f s1 of
                  Inl x \<Rightarrow> (s1\<lparr>sv_co := co_leave key f (sv_co s1)\<rparr>, Inl x)
                | Inr s2 \<Rightarrow> (sv_job cfg e [RecordAccess key] s2, Inr \<lparr>lk_data = d, lk_source = SrcL2\<rparr>))
           | None \<Rightarrow>
               (case execute_gated exec e sql params (sv_db s1) of
                  (db, Inl x) \<Rightarrow> (s1\<lparr>sv_db := db, sv_co := co_leave key f (sv_co s1)\<rparr>, Inl x)
                | (db, Inr d) \<Rightarrow>
                    (case sv_store key d sql e f (s1\<lparr>sv_db := db\<rparr>) of
                       Inl x \<Rightarrow> (s1\<lparr>sv_db := db, sv_co := co_leave key f (sv_co s1)\<rparr>, Inl x)
                     | Inr s2 \<Rightarrow>
                         (sv_job cfg e (miss_jobs \<lparr>qc_key = key, qc_tables = set (extract_tables sql),
                             qc_persist = Some (sql, params, user)\<rparr> d) s2, Inr \<lparr>lk_data = d, lk_source = SrcMiss\<rparr>)))))"

definition qs_run ::
  "'db warehouse \<Rightarrow> qs_config \<Rightarrow> circumstances \<Rightarrow> string \<Rightarrow> string \<Rightarrow> string option \<Rightarrow> string \<Rightarrow> 'db service
     \<Rightarrow> 'db service \<times> query_outcome result" where
  "qs_run exec cfg e sql params user scopes s =
     (if classify_operation sql = Write \<and> qs_require_write_scope cfg \<and> \<not> has_scope (Some scopes) ''write''
      then (s, Inl QueryAuthorizationError)
      else if classify_operation sql = Write
      then (case execute_gated exec e sql params (sv_db s) of
              (db, Inl x) \<Rightarrow> (s\<lparr>sv_db := db\<rparr>, Inl x)
            | (db, Inr d) \<Rightarrow>
                (invalidate_after_write cfg e sql (s\<lparr>sv_db := db\<rparr>),
                 Inr \<lparr>qo_data = d, qo_cached = False, qo_truncated = False\<rparr>))
      else (case sv_get_or_execute exec cfg e sql params (py_or_str user []) s of
              (s', Inl x) \<Rightarrow> (s', Inl x)
            | (s', Inr r) \<Rightarrow>
                (case apply_result_limits (qs_row_bytes cfg) (qs_limits cfg) (lk_data r) of
                   (d, hit_cap) \<Rightarrow> (s', Inr \<lparr>qo_data = d, qo_cached = lk_cached r, qo_truncated = hit_cap\<rparr>))))"

text \<open>The same request without any cache: what the service promises to compute.\<close>

definition qs_reference ::
  "'db warehouse \<Rightarrow> qs_config \<Rightarrow> string \<Rightarrow> string \<Rightarrow> string \<Rightarrow> 'db \<Rightarrow> 'db \<times> (rows \<times> bool) result" where
  "qs_reference exec cfg sql params scopes db =
     (if classify_operation sql = Write \<and> qs_require_write_scope cfg \<and> \<not> has_scope (Some scopes) ''write''
      then (db, Inl QueryAuthorizationError)
      else (case exec sql params db of
              (db', Inl x) \<Rightarrow> (db', Inl x)
            | (db', Inr d) \<Rightarrow>
                (db', Inr (if classify_operation sql = Write then (d, False)
                           else apply_result_limits (qs_row_bytes cfg) (qs_limits cfg) d))))"

section \<open>The gates\<close>

definition inside :: "cost \<Rightarrow> gate_sys \<Rightarrow> nat" where
  "inside c s = length (filter (\<lambda>p. snd p = c) (gs_inside s))"

lemma inside_enter:
  "i \<notin> set (keys d) \<Longrightarrow> length (filter (\<lambda>p. snd p = c) (AList.update i x d)) = length (filter (\<lambda>p. snd p = c) d) + (if x = c then 1 else 0)"
  by (simp add: update_new)

lemma inside_leave:
  "wf_odict d \<Longrightarrow> map_of d i = Some x \<Longrightarrow>
   length (filter (\<lambda>p. snd p = c) d) = length (filter (\<lambda>p. snd p = c) (AList.delete i d)) + (if x = c then 1 else 0)"
proof (induction d)
  case (Cons p d)
  obtain j y where p: "p = (j, y)" by (cases p)
  show ?case
  proof (cases "j = i")
    case True
    then have "i \<notin> set (keys d)" using Cons.prems(1) by (simp add: p wf_odict_def)
    then have "AList.delete i d = d" by (simp add: AList.delete_idem)
    then show ?thesis using Cons.prems(2) True by (simp add: p)
  next
    case False
    then show ?thesis using Cons by (simp add: p wf_odict_def)
  qed
qed simp

definition all_free :: "gates \<Rightarrow> bool" where
  "all_free g \<longleftrightarrow> (\<forall>c. g_value g c = g_capacity g c \<and> 0 \<le> g_capacity g c)"

lemma all_free_resize: "all_free g \<Longrightarrow> \<forall>k \<in> set_option n. 0 \<le> k \<Longrightarrow> all_free (resize_gate c n g)"
  by (auto simp: all_free_def resize_gate_def split: option.split)

lemma all_free_configure:
  assumes "all_free g" "\<forall>n \<in> set_option f \<union> set_option m \<union> set_option x. 0 \<le> n"
  shows "all_free (configure_query_limits rows bytes duration f m x g)"
  unfolding configure_query_limits_def
  by (intro all_free_resize) (use assms in \<open>auto simp: all_free_def\<close>)

lemma gate_inv:
  assumes "gate_reach capacity s" "\<forall>c. 0 \<le> capacity c"
  shows "wf_odict (gs_inside s) \<and> (\<forall>c. g_value (gs_gates s) c + int (inside c s) = g_capacity (gs_gates s) c \<and> 0 \<le> g_value (gs_gates s) c)"
  using assms(1)
proof (induction rule: gate_reach.induct)
  case start
  then show ?case using assms(2) by (simp add: inside_def)
next
  case (step s s')
  from step.hyps(2) show ?case
  proof (cases rule: gate_step.cases)
    case (enter i c)
    then show ?thesis using step.IH inside_enter [OF enter(2)] by (auto simp: inside_def)
  next
    case (leave i c)
    have "g_value (gs_gates s') d + int (inside d s') = g_capacity (gs_gates s') d \<and> 0 \<le> g_value (gs_gates s') d" for d
      using step.IH inside_leave [of "gs_inside s" i c d] leave(2) spec [OF conjunct2 [OF step.IH], of d]
      unfolding leave(1) by (auto simp: inside_def)
    moreover have "wf_odict (gs_inside s')" using step.IH by (simp add: leave(1))
    ultimately show ?thesis by blast
  next
    case (configure f m x rows bytes duration)
    have "all_free (gs_gates s)" using step.IH configure(2) unfolding all_free_def inside_def
      by (auto; metis)
    from all_free_configure [OF this configure(3)] show ?thesis
      by (simp add: configure(1,2) all_free_def inside_def)
  qed
qed


definition one_inside :: gate_sys where
  "one_inside = \<lparr>gs_gates = \<lparr>g_limits = default_query_limits, g_value = (\<lambda>_. 2)(Fast := 2 - 1), g_capacity = (\<lambda>_. 2)\<rparr>,
     gs_inside = AList.update 7 Fast []\<rparr>"


section \<open>The limits\<close>

definition total_bytes :: "('a \<Rightarrow> nat) \<Rightarrow> 'a list \<Rightarrow> int" where
  "total_bytes f xs = int (sum_list (map f xs))"

lemma limit_bytes_prefix:
  "limit_bytes f m t xs = (out, hit) \<Longrightarrow>
   out = take (length out) xs \<and> length out \<le> length xs \<and> (out = [] \<or> t + total_bytes f out \<le> m) \<and> (hit \<longleftrightarrow> length out < length xs)
   \<and> (length out < length xs \<longrightarrow> t + total_bytes f out + int (f (xs ! length out)) > m)"
proof (induction xs arbitrary: t out hit)
  case (Cons x xs)
  show ?case
  proof (cases "t + int (f x) > m")
    case True
    with Cons.prems show ?thesis by (auto simp: total_bytes_def)
  next
    case False
    obtain o' h' where r: "limit_bytes f m (t + int (f x)) xs = (o', h')" by (cases "limit_bytes f m (t + int (f x)) xs")
    with False Cons.prems have o: "out = x # o'" "hit = h'" by auto
    from Cons.IH [OF r] show ?thesis unfolding o using False
      by (auto simp: total_bytes_def algebra_simps)
  qed
qed (simp add: total_bytes_def)

text \<open>
  C20.  The limits cut a result to a prefix of its rows that has at most the configured number of
  rows and of bytes; the prefix is the longest one for these limits, and \<open>truncated\<close> is set exactly
  when a row was dropped.
\<close>

theorem result_limits_longest_prefix:
  assumes "0 \<le> ql_max_result_rows l" "0 \<le> ql_max_result_bytes l" "apply_result_limits f l xs = (out, truncated)"
  shows "out = take (length out) xs \<and> int (length out) \<le> ql_max_result_rows l \<and> total_bytes f out \<le> ql_max_result_bytes l
    \<and> (truncated \<longleftrightarrow> length out < length xs)
    \<and> (length out < length xs \<longrightarrow> int (length out) = ql_max_result_rows l
        \<or> total_bytes f (take (Suc (length out)) xs) > ql_max_result_bytes l)"
proof -
  define ys where "ys = (if int (length xs) \<le> ql_max_result_rows l then xs else take (nat (ql_max_result_rows l)) xs)"
  obtain hit where lb: "limit_bytes f (ql_max_result_bytes l) 0 ys = (out, hit)"
    and t: "truncated \<longleftrightarrow> (\<not> int (length xs) \<le> ql_max_result_rows l) \<or> hit"
    using assms by (auto simp: apply_result_limits_def ys_def py_prefix_def split: prod.splits if_splits)
  from limit_bytes_prefix [OF lb] have p: "out = take (length out) ys" "length out \<le> length ys"
    "out = [] \<or> total_bytes f out \<le> ql_max_result_bytes l" "hit \<longleftrightarrow> length out < length ys"
    "length out < length ys \<Longrightarrow> total_bytes f out + int (f (ys ! length out)) > ql_max_result_bytes l" by auto
  have ys: "ys = take (length ys) xs" "int (length ys) \<le> ql_max_result_rows l"
    "length ys < length xs \<longleftrightarrow> \<not> int (length xs) \<le> ql_max_result_rows l"
    "length ys < length xs \<Longrightarrow> int (length ys) = ql_max_result_rows l" "length ys \<le> length xs"
    using assms(1) by (auto simp: ys_def)
  have pre: "out = take (length out) xs" using p(1,2) ys(1) by (metis min.absorb1 take_take)
  have next_row: "total_bytes f (take (Suc (length out)) xs) > ql_max_result_bytes l" if lt: "length out < length ys"
  proof -
    have "take (Suc (length out)) xs = take (length out) xs @ [xs ! length out]"
      using lt ys(5) by (simp add: take_Suc_conv_app_nth)
    moreover have "xs ! length out = ys ! length out" using lt ys(1) by (metis nth_take)
    ultimately show ?thesis using p(5) [OF lt] pre by (simp add: total_bytes_def)
  qed
  have "total_bytes f out \<le> ql_max_result_bytes l" using p(3) assms(2) by (auto simp: total_bytes_def)
  moreover have "int (length out) \<le> ql_max_result_rows l" using p(2) ys(2) by simp
  moreover have "truncated \<longleftrightarrow> length out < length xs" using t p(2,4) ys(3,5) by auto
  moreover have "int (length out) = ql_max_result_rows l \<or> total_bytes f (take (Suc (length out)) xs) > ql_max_result_bytes l"
    if "length out < length xs"
    using that next_row ys(4) p(2) by (cases "length out < length ys") auto
  ultimately show ?thesis using pre by blast
qed

theorem result_limits_longest_prefix_witness:
  "apply_result_limits (\<lambda>r. length r) \<lparr>ql_max_result_rows = 5, ql_max_result_bytes = 4, ql_max_query_duration_seconds = 1\<rparr>
     [''ab'', ''cd'', ''e''] = ([''ab'', ''cd''], True) \<and> total_bytes length [''ab'', ''cd''] \<le> 4"
proof -
  let ?l = "\<lparr>ql_max_result_rows = 5, ql_max_result_bytes = 4, ql_max_query_duration_seconds = 1\<rparr>"
  have r: "apply_result_limits (\<lambda>r. length r) ?l [''ab'', ''cd'', ''e''] = ([''ab'', ''cd''], True)" by code_simp
  from result_limits_longest_prefix [OF _ _ r] r show ?thesis by simp
qed

section \<open>Authorization\<close>

text \<open>A run of requests, each one completed before the next.\<close>

record ask =
  as_env :: circumstances
  as_sql :: string
  as_params :: string
  as_user :: "string option"
  as_scopes :: string

fun qs_run_all :: "'db warehouse \<Rightarrow> qs_config \<Rightarrow> ask list \<Rightarrow> 'db service \<Rightarrow> 'db service \<times> query_outcome result list" where
  "qs_run_all exec cfg [] s = (s, [])"
| "qs_run_all exec cfg (a # as) s =
     (case qs_run exec cfg (as_env a) (as_sql a) (as_params a) (as_user a) (as_scopes a) s of
        (s', r) \<Rightarrow> (case qs_run_all exec cfg as s' of (s'', rs) \<Rightarrow> (s'', r # rs)))"

fun qs_reference_all :: "'db warehouse \<Rightarrow> qs_config \<Rightarrow> ask list \<Rightarrow> 'db \<Rightarrow> 'db \<times> (rows \<times> bool) result list" where
  "qs_reference_all exec cfg [] db = (db, [])"
| "qs_reference_all exec cfg (a # as) db =
     (case qs_reference exec cfg (as_sql a) (as_params a) (as_scopes a) db of
        (db', r) \<Rightarrow> (case qs_reference_all exec cfg as db' of (db'', rs) \<Rightarrow> (db'', r # rs)))"

lemma execute_gated_read:
  "(\<And>db. fst (exec sql p db) = db) \<Longrightarrow> fst (execute_gated exec e sql p db) = db"
  by (simp add: execute_gated_def split: option.split)

lemma sv_frames [simp]:
  "sv_store key d sql e f s = Inr s' \<Longrightarrow> sv_db s' = sv_db s" "sv_db (sv_job cfg e js s) = sv_db s"
  "sv_co (sv_job cfg e js s) = sv_co s" "sv_next (sv_job cfg e js s) = sv_next s"
  "sv_store key d sql e f s = Inr s' \<Longrightarrow> sv_l2 s' = sv_l2 s" "sv_store key d sql e f s = Inr s' \<Longrightarrow> sv_next s' = sv_next s"
  by (auto simp: sv_store_def sv_job_def split: sum.splits option.splits)

lemma sv_get_or_execute_db:
  assumes "\<And>db. fst (exec sql p db) = db"
  shows "sv_db (fst (sv_get_or_execute exec cfg e sql p user s)) = sv_db s"
proof -
  have g: "db' = db" if "execute_gated exec e sql p db = (db', r)" for db db' r
    using execute_gated_read [of exec sql p e db] assms that by simp
  show ?thesis
    by (auto simp: sv_get_or_execute_def Let_def split: prod.splits call_end.splits option.splits sum.splits dest!: g)
qed

lemma qs_run_unscoped:
  assumes "qs_require_write_scope cfg" "\<not> has_scope (Some scopes) ''write''"
    and "\<And>sql p db. classify_operation sql = Read \<Longrightarrow> fst (exec sql p db) = db"
  shows "sv_db (fst (qs_run exec cfg e sql params user scopes s)) = sv_db s"
proof (cases "classify_operation sql")
  case Read
  then have "fst (exec sql params db) = db" for db using assms(3) by blast
  then have "sv_db (fst (sv_get_or_execute exec cfg e sql params (py_or_str user []) s)) = sv_db s"
    by (rule sv_get_or_execute_db)
  with Read show ?thesis
    by (cases "sv_get_or_execute exec cfg e sql params (py_or_str user []) s")
       (auto simp: qs_run_def split: prod.splits sum.splits)
qed (use assms(1,2) in \<open>simp add: qs_run_def\<close>)


definition counting_warehouse :: "nat warehouse" where
  "counting_warehouse sql p n = (if classify_operation sql = Read then (n, Inr [[(''n'', VInt (int n))]]) else (Suc n, Inr []))"

definition demo_config :: qs_config where
  "demo_config = \<lparr>qs_require_write_scope = True, qs_precise = True, qs_limits = default_query_limits, qs_sha = id,
     qs_json_size = length, qs_row_bytes = length\<rparr>"

definition calm :: circumstances where
  "calm = \<lparr>ci_lookup = ((0, 0), (0, 0)), ci_store = ((0, 0), (0, 0)), ci_now = 0, ci_l2_fails = False, ci_drop_fails = False,
     ci_timeout = None, ci_job = Some False\<rparr>"

definition fresh_service :: "'db \<Rightarrow> 'db service" where
  "fresh_service db = \<lparr>sv_co = co_new 4 60, sv_l2 = [], sv_db = db, sv_next = 0\<rparr>"

definition ask_of :: "string \<Rightarrow> string \<Rightarrow> ask" where
  "ask_of sql scopes = \<lparr>as_env = calm, as_sql = sql, as_params = ''()'', as_user = None, as_scopes = scopes\<rparr>"


section \<open>The caches are transparent\<close>

text \<open>
  What the caches rely on, for the statements \<open>U\<close> (with their parameters) that are asked: reads do
  not write, their columns hold values that JSON has, different statements have different keys,
  a failing statement changes nothing; and, for the precise invalidation only, a write that names
  tables changes the answers only of reads that name one of them too.
\<close>

definition warehouse_ok :: "'db warehouse \<Rightarrow> (string \<Rightarrow> string) \<Rightarrow> bool \<Rightarrow> (string \<times> string) set \<Rightarrow> bool" where
  "warehouse_ok exec sha precise U \<longleftrightarrow>
     (\<forall>q p db. (q, p) \<in> U \<longrightarrow> classify_operation q = Read \<longrightarrow> fst (exec q p db) = db)
   \<and> (\<forall>q p db d. (q, p) \<in> U \<longrightarrow> classify_operation q = Read \<longrightarrow> snd (exec q p db) = Inr d \<longrightarrow>
        (\<forall>r \<in> set d. \<forall>(c, v) \<in> set r. json_native v))
   \<and> (\<forall>q p q' p'. (q, p) \<in> U \<longrightarrow> (q', p') \<in> U \<longrightarrow> generate_cache_key sha q p = generate_cache_key sha q' p' \<longrightarrow> q = q' \<and> p = p')
   \<and> (\<forall>q p db x. (q, p) \<in> U \<longrightarrow> snd (exec q p db) = Inl x \<longrightarrow> fst (exec q p db) = db)
   \<and> (\<forall>w x q p db. precise \<longrightarrow> (w, x) \<in> U \<longrightarrow> (q, p) \<in> U \<longrightarrow> classify_operation w = Write \<longrightarrow> classify_operation q = Read \<longrightarrow>
        extract_tables w \<noteq> [] \<longrightarrow> set (extract_tables w) \<inter> set (extract_tables q) = {} \<longrightarrow>
        snd (exec q p (fst (exec w x db))) = snd (exec q p db))"

lemma warehouse_okD:
  assumes "warehouse_ok exec sha precise U"
  shows "(q, p) \<in> U \<Longrightarrow> classify_operation q = Read \<Longrightarrow> fst (exec q p db) = db"
    "(q, p) \<in> U \<Longrightarrow> classify_operation q = Read \<Longrightarrow> snd (exec q p db) = Inr d \<Longrightarrow> \<forall>r \<in> set d. \<forall>(c, v) \<in> set r. json_native v"
    "(q, p) \<in> U \<Longrightarrow> (q', p') \<in> U \<Longrightarrow> generate_cache_key sha q p = generate_cache_key sha q' p' \<Longrightarrow> q = q' \<and> p = p'"
    "(q, p) \<in> U \<Longrightarrow> snd (exec q p db) = Inl x \<Longrightarrow> fst (exec q p db) = db"
    "precise \<Longrightarrow> (w, y) \<in> U \<Longrightarrow> (q, p) \<in> U \<Longrightarrow> classify_operation w = Write \<Longrightarrow> classify_operation q = Read \<Longrightarrow>
       extract_tables w \<noteq> [] \<Longrightarrow> set (extract_tables w) \<inter> set (extract_tables q) = {} \<Longrightarrow>
       snd (exec q p (fst (exec w y db))) = snd (exec q p db)"
proof -
  note parts = assms [unfolded warehouse_ok_def]
  show "(q, p) \<in> U \<Longrightarrow> classify_operation q = Read \<Longrightarrow> fst (exec q p db) = db"
    using conjunct1 [OF parts] by blast
  show "(q, p) \<in> U \<Longrightarrow> classify_operation q = Read \<Longrightarrow> snd (exec q p db) = Inr d \<Longrightarrow> \<forall>r \<in> set d. \<forall>(c, v) \<in> set r. json_native v"
    using conjunct1 [OF conjunct2 [OF parts]] by meson
  show "(q, p) \<in> U \<Longrightarrow> (q', p') \<in> U \<Longrightarrow> generate_cache_key sha q p = generate_cache_key sha q' p' \<Longrightarrow> q = q' \<and> p = p'"
    using conjunct1 [OF conjunct2 [OF conjunct2 [OF parts]]] by meson
  show "(q, p) \<in> U \<Longrightarrow> snd (exec q p db) = Inl x \<Longrightarrow> fst (exec q p db) = db"
    using conjunct1 [OF conjunct2 [OF conjunct2 [OF conjunct2 [OF parts]]]] by meson
  show "precise \<Longrightarrow> (w, y) \<in> U \<Longrightarrow> (q, p) \<in> U \<Longrightarrow> classify_operation w = Write \<Longrightarrow> classify_operation q = Read \<Longrightarrow>
       extract_tables w \<noteq> [] \<Longrightarrow> set (extract_tables w) \<inter> set (extract_tables q) = {} \<Longrightarrow>
       snd (exec q p (fst (exec w y db))) = snd (exec q p db)"
    using conjunct2 [OF conjunct2 [OF conjunct2 [OF conjunct2 [OF parts]]]] by meson
qed

definition l1_current :: "'db warehouse \<Rightarrow> (string \<Rightarrow> string) \<Rightarrow> (string \<times> string) set \<Rightarrow> 'db \<Rightarrow> coordinator \<Rightarrow> bool" where
  "l1_current exec sha U db c \<longleftrightarrow>
     (\<forall>q p e. (q, p) \<in> U \<longrightarrow> l1_entry c (generate_cache_key sha q p) = Some e \<longrightarrow>
        classify_operation q = Read \<and> co_tags c (generate_cache_key sha q p) = set (extract_tables q)
        \<and> (\<exists>d. ce_value e = Some d \<and> snd (exec q p db) = Inr d))"

definition l2_current :: "'db warehouse \<Rightarrow> (string \<Rightarrow> string) \<Rightarrow> (string \<times> string) set \<Rightarrow> 'db \<Rightarrow> result_table \<Rightarrow> bool" where
  "l2_current exec sha U db t \<longleftrightarrow>
     (\<forall>q p r. (q, p) \<in> U \<longrightarrow> r \<in> set t \<longrightarrow> rr_cache_key r = generate_cache_key sha q p \<longrightarrow>
        rr_query_sql r = q \<and> classify_operation q = Read \<and> snd (exec q p db) = Inr (loads_rows (rr_result_data r)))"

text \<open>Nothing is in flight and every cached answer is the one the warehouse would give now.\<close>

definition coherent :: "'db warehouse \<Rightarrow> (string \<Rightarrow> string) \<Rightarrow> (string \<times> string) set \<Rightarrow> 'db service \<Rightarrow> bool" where
  "coherent exec sha U s \<longleftrightarrow> index_inv (sv_co s) \<and> co_inflight (sv_co s) = (\<lambda>_. None) \<and> (\<forall>t. finite (keys_of (sv_co s) t))
     \<and> l1_current exec sha U (sv_db s) (sv_co s) \<and> l2_current exec sha U (sv_db s) (sv_l2 s)"

lemma l1_current_mono:
  assumes "l1_current exec sha U db c" "co_tags c' = co_tags c"
    and "\<And>k e'. l1_entry c' k = Some e' \<Longrightarrow> \<exists>e. l1_entry c k = Some e \<and> ce_value e' = ce_value e"
  shows "l1_current exec sha U db c'"
  unfolding l1_current_def
proof (intro allI impI)
  fix q p e' assume "(q, p) \<in> U" "l1_entry c' (generate_cache_key sha q p) = Some e'"
  with assms(3) obtain e where "l1_entry c (generate_cache_key sha q p) = Some e" "ce_value e' = ce_value e" by blast
  with assms(1) \<open>(q, p) \<in> U\<close> show "classify_operation q = Read \<and> co_tags c' (generate_cache_key sha q p) = set (extract_tables q)
      \<and> (\<exists>d. ce_value e' = Some d \<and> snd (exec q p db) = Inr d)"
    unfolding l1_current_def assms(2) by simp
qed

lemma l1_current_call:
  assumes "l1_current exec sha U db c" "index_inv c" "co_call k t n c = (c', r)"
  shows "l1_current exec sha U db c'"
proof -
  have h: "hybrid_inv (co_l1 c)" using assms(2) by (simp add: index_inv_def)
  have "co_l1 c' = fst (hybrid_get k t (co_l1 c))" "co_tags c' = co_tags c"
    using assms(3) by (cases rule: co_call_cases; simp)+
  moreover have "\<exists>e. l1_entry c j = Some e \<and> ce_value e' = ce_value e"
    if "map_of (lru_dict (hy_lru (fst (hybrid_get k t (co_l1 c))))) j = Some e'" for j e'
    using hy.get_look [OF h, of k t j] that by (fastforce simp: record_access_def)
  ultimately show ?thesis by (intro l1_current_mono [OF assms(1)]) simp_all
qed

lemma call_hit_current:
  assumes "l1_current exec sha U db c" "index_inv c" "co_call (generate_cache_key sha q p) t n c = (c', CallHit d)" "(q, p) \<in> U"
  shows "snd (exec q p db) = Inr d"
proof -
  have h: "hybrid_inv (co_l1 c)" using assms(2) by (simp add: index_inv_def)
  have "snd (hybrid_get (generate_cache_key sha q p) t (co_l1 c)) = Some d"
    using assms(3) by (cases rule: co_call_cases) simp_all
  then obtain e where "l1_entry c (generate_cache_key sha q p) = Some e" "ce_value e = Some d"
    using hy.get_result [OF h, of "generate_cache_key sha q p" t] by (auto split: option.splits if_splits)
  with assms(1,4) show ?thesis unfolding l1_current_def by fastforce
qed

lemma keys_of_store: "co_store k d ts t c = Inr c' \<Longrightarrow> keys_of c' x = (if x \<in> ts then insert k (keys_of c x) else keys_of c x)"
proof -
  assume "co_store k d ts t c = Inr c'"
  then obtain l1 where c': "c' = tag_tables k ts (c\<lparr>co_l1 := l1, co_tags := (co_tags c)(k := ts)\<rparr>)"
    by (auto simp: co_store_def split: sum.splits)
  show ?thesis by (simp add: c' tag_tables_def keys_of_def)
qed

lemma leave_same [simp]:
  "co_l1 (co_leave k f c) = co_l1 c" "co_tags (co_leave k f c) = co_tags c" "keys_of (co_leave k f c) = keys_of c"
  by (simp_all add: co_leave_def keys_of_def fun_eq_iff)

lemma index_leave [simp]: "index_inv (co_leave k f c) = index_inv c"
  by (simp add: index_inv_def)

lemma l1_current_leave [simp]: "l1_current exec sha U db (co_leave k f c) = l1_current exec sha U db c"
  by (simp add: l1_current_def)

lemma l1_current_store:
  assumes "l1_current exec sha U db c" "index_inv c" "(q, p) \<in> U" "classify_operation q = Read" "snd (exec q p db) = Inr d"
    and "co_store (generate_cache_key sha q p) d (set (extract_tables q)) t c = Inr c'" "warehouse_ok exec sha precise U"
  shows "l1_current exec sha U db c'"
  unfolding l1_current_def
proof (intro allI impI)
  fix q' p' e assume u: "(q', p') \<in> U" and e: "l1_entry c' (generate_cache_key sha q' p') = Some e"
  let ?k = "generate_cache_key sha q p" and ?k' = "generate_cache_key sha q' p'"
  have h: "hybrid_inv (co_l1 c)" using assms(2) by (simp add: index_inv_def)
  obtain l1 where put: "hybrid_put ?k (Some d) (Some (co_l1_ttl c)) t (co_l1 c) = Inr l1"
    and c': "co_l1 c' = l1" "co_tags c' = (co_tags c)(?k := set (extract_tables q))"
    using assms(6) by (auto simp: co_store_def tag_tables_def split: sum.splits)
  show "classify_operation q' = Read \<and> co_tags c' ?k' = set (extract_tables q')
      \<and> (\<exists>d. ce_value e = Some d \<and> snd (exec q' p' db) = Inr d)"
  proof (cases "?k' = ?k")
    case True
    then have "q' = q" "p' = p" using warehouse_okD(3) [OF assms(7) u assms(3)] by blast+
    with hy.put_look_same [OF h put] e assms(4,5) True show ?thesis by (auto simp: c')
  next
    case False
    then have "l1_entry c ?k' = Some e" using hy.put_look_other [OF h put False] e by (auto simp: c'(1))
    with assms(1) u False show ?thesis unfolding l1_current_def by (simp add: c'(2))
  qed
qed

lemma l2_current_subset: "l2_current exec sha U db t \<Longrightarrow> set t' \<subseteq> set t \<Longrightarrow> l2_current exec sha U db t'"
  unfolding l2_current_def by blast

lemma l2_current_access: "l2_current exec sha U db t \<Longrightarrow> l2_current exec sha U db (record_row_access fails k now t)"
  unfolding l2_current_def record_row_access_def by (auto split: if_splits)

lemma l2_current_store:
  assumes "l2_current exec sha U db t" "(q, p) \<in> U" "classify_operation q = Read" "snd (exec q p db) = Inr d"
    and "warehouse_ok exec sha precise U"
  shows "l2_current exec sha U db (fst (cache_result sha sz fails now q d p user [] ms ttl t))"
proof (cases fails)
  case True
  then show ?thesis using assms(1) by (auto simp: cache_result_def Let_def split: sum.split)
next
  case False
  show ?thesis
  proof (cases "dumps_rows d")
    case (Inl x)
    then show ?thesis using assms(1) by (simp add: cache_result_def Let_def)
  next
    case (Inr js)
    have js: "loads_rows js = d" using loads_dumps [OF Inr warehouse_okD(2) [OF assms(5,2-4)]] .
    show ?thesis unfolding l2_current_def
    proof (intro allI impI)
      fix q' p' r assume u: "(q', p') \<in> U" and k: "rr_cache_key r = generate_cache_key sha q' p'"
        and r: "r \<in> set (fst (cache_result sha sz fails now q d p user [] ms ttl t))"
      then consider (old) "r \<in> set t" | (new) "rr_cache_key r = generate_cache_key sha q p" "rr_query_sql r = q" "rr_result_data r = js"
        using Inr False by (auto simp: cache_result_def Let_def)
      then show "rr_query_sql r = q' \<and> classify_operation q' = Read \<and> snd (exec q' p' db) = Inr (loads_rows (rr_result_data r))"
      proof cases
        case old
        then show ?thesis using assms(1) u k unfolding l2_current_def by blast
      next
        case new
        then have "q' = q" "p' = p" using warehouse_okD(3) [OF assms(5) u assms(2)] k by auto
        then show ?thesis using new js assms(3,4) by simp
      qed
    qed
  qed
qed

lemma co_store_total: "index_inv c \<Longrightarrow> \<exists>c'. co_store k d ts t c = Inr c'"
proof -
  assume "index_inv c"
  then have h: "hybrid_inv (co_l1 c)" by (simp add: index_inv_def)
  from hy.put_invar [OF h] obtain l1 where "hybrid_put k (Some d) (Some (co_l1_ttl c)) t (co_l1 c) = Inr l1" by blast
  then show ?thesis by (simp add: co_store_def)
qed

lemma call_keys: "co_call k t n c = (c', r) \<Longrightarrow> keys_of c' = keys_of c"
  by (auto simp: co_call_def keys_of_def fun_eq_iff split: prod.splits option.splits)

text \<open>The end of a lookup that led: a store, and the flight left.\<close>

lemma store_coherent:
  assumes "index_inv c" "l1_current exec sha U db c" "co_inflight c = (\<lambda>_. None)(k \<mapsto> f)" "\<forall>t. finite (keys_of c t)"
    and "k = generate_cache_key sha q p" "(q, p) \<in> U" "classify_operation q = Read" "snd (exec q p db) = Inr d"
    and "warehouse_ok exec sha precise U"
  obtains c' where "co_store k d (set (extract_tables q)) t c = Inr c'"
    "index_inv (co_leave k f c')" "l1_current exec sha U db (co_leave k f c')" "co_inflight (co_leave k f c') = (\<lambda>_. None)"
    "\<forall>t. finite (keys_of (co_leave k f c') t)"
proof -
  obtain c' where st: "co_store k d (set (extract_tables q)) t c = Inr c'" using co_store_total [OF assms(1)] by blast
  have fl: "co_inflight c' = (\<lambda>_. None)(k \<mapsto> f)" using co_store_inflight [OF st] assms(3) by simp
  show thesis
  proof (rule that [OF st])
    show "index_inv (co_leave k f c')" using index_store [OF assms(1) st] by simp
    show "l1_current exec sha U db (co_leave k f c')"
      using l1_current_store [OF assms(2,1,6,7,8) st [unfolded assms(5)] assms(9)] by simp
    show "co_inflight (co_leave k f c') = (\<lambda>_. None)" using fl by (simp add: co_leave_def fun_eq_iff)
    show "\<forall>t. finite (keys_of (co_leave k f c') t)" using keys_of_store [OF st] assms(4) by simp
  qed
qed

lemma job_current:
  assumes "l2_current exec sha U db t" "(q, p) \<in> U" "classify_operation q = Read" "snd (exec q p db) = Inr d"
    and "warehouse_ok exec sha precise U"
    and "js = [RecordAccess k] \<or> js = miss_jobs \<lparr>qc_key = k, qc_tables = ts, qc_persist = Some (q, p, user)\<rparr> d"
  shows "l2_current exec sha U db (fold (run_job sha sz fails now) js t)"
  using assms(6) l2_current_access [OF assms(1)] l2_current_store [OF assms(1-5)] assms(1)
  by (auto simp: run_job_def miss_jobs_def)

lemma read_coherent:
  assumes co: "coherent exec (qs_sha cfg) U s" and ok: "warehouse_ok exec (qs_sha cfg) precise U"
    and u: "(q, p) \<in> U" "classify_operation q = Read" and calm: "ci_timeout e = None"
    and run: "sv_get_or_execute exec cfg e q p user s = (s', r)"
  shows "coherent exec (qs_sha cfg) U s' \<and> sv_db s' = sv_db s \<and> map_sum id lk_data r = snd (exec q p (sv_db s))"
proof -
  let ?k = "generate_cache_key (qs_sha cfg) q p" and ?sha = "qs_sha cfg"
  have inv: "index_inv (sv_co s)" "co_inflight (sv_co s) = (\<lambda>_. None)" "\<forall>t. finite (keys_of (sv_co s) t)"
    "l1_current exec ?sha U (sv_db s) (sv_co s)" "l2_current exec ?sha U (sv_db s) (sv_l2 s)"
    using co by (simp_all add: coherent_def)
  obtain c ce where call: "co_call ?k (ci_lookup e) (sv_next s) (sv_co s) = (c, ce)"
    by (cases "co_call ?k (ci_lookup e) (sv_next s) (sv_co s)")
  have c: "index_inv c" "l1_current exec ?sha U (sv_db s) c" "\<forall>t. finite (keys_of c t)"
    using index_call [OF inv(1) call] l1_current_call [OF inv(4,1) call] inv(3) call_keys [OF call] by simp_all
  from call show ?thesis
  proof (cases rule: co_call_cases)
    case (hit d)
    have "snd (exec q p (sv_db s)) = Inr d" using call_hit_current [OF inv(4,1) call [unfolded hit(1)] u(1)] .
    moreover have "s' = s\<lparr>sv_co := c\<rparr>" "r = Inr \<lparr>lk_data = d, lk_source = SrcL1\<rparr>"
      using run call hit(1) by (simp_all add: sv_get_or_execute_def Let_def)
    moreover have "co_inflight c = (\<lambda>_. None)" using hit(3) inv(2) by simp
    ultimately show ?thesis using c inv(5) by (simp add: coherent_def)
  next
    case (join f)
    then show ?thesis using inv(2) by simp
  next
    case lead
    have fl: "co_inflight c = (\<lambda>_. None)(?k \<mapsto> sv_next s)" using lead(4) inv(2) by simp
    let ?f = "sv_next s" and ?s1 = "s\<lparr>sv_co := c, sv_next := Suc (sv_next s)\<rparr>"
    have gone: "co_inflight (co_leave ?k ?f c) = (\<lambda>_. None)" using fl by (simp add: co_leave_def fun_eq_iff)
    show ?thesis
    proof (cases "get_cached_result (ci_l2_fails e) ?k (ci_now e) (sv_l2 s)")
      case (Some row)
      then have "row \<in> set (sv_l2 s)" "rr_cache_key row = ?k"
        by (auto simp: get_cached_result_def find_Some_iff split: if_splits)
      then have d: "snd (exec q p (sv_db s)) = Inr (loads_rows (rr_result_data row))"
        using inv(5) u(1) unfolding l2_current_def by blast
      from store_coherent [OF c(1,2) fl c(3) refl u d ok] obtain c' where
        st: "co_store ?k (loads_rows (rr_result_data row)) (set (extract_tables q)) (ci_store e) c = Inr c'"
        and c': "index_inv (co_leave ?k ?f c')" "l1_current exec ?sha U (sv_db s) (co_leave ?k ?f c')"
          "co_inflight (co_leave ?k ?f c') = (\<lambda>_. None)" "\<forall>t. finite (keys_of (co_leave ?k ?f c') t)" by blast
      have "s' = sv_job cfg e [RecordAccess ?k] (?s1\<lparr>sv_co := co_leave ?k ?f c'\<rparr>)"
        "r = Inr \<lparr>lk_data = loads_rows (rr_result_data row), lk_source = SrcL2\<rparr>"
        using run call lead(1) Some st by (simp_all add: sv_get_or_execute_def sv_store_def Let_def)
      then show ?thesis using c' d job_current [OF inv(5) u d ok, of "[RecordAccess ?k]" ?k] inv(5)
        by (simp add: coherent_def sv_job_def split: option.split)
    next
      case None
      have pure: "fst (exec q p (sv_db s)) = sv_db s" using warehouse_okD(1) [OF ok u] .
      have ex: "execute_gated exec e q p (sv_db s) = exec q p (sv_db s)" by (simp add: execute_gated_def calm)
      show ?thesis
      proof (cases "snd (exec q p (sv_db s))")
        case (Inl x)
        then have e': "exec q p (sv_db s) = (sv_db s, Inl x)" using pure by (simp add: prod_eq_iff)
        then have "s' = ?s1\<lparr>sv_db := sv_db s, sv_co := co_leave ?k ?f c\<rparr>" "r = Inl x"
          using run call lead(1) None ex by (simp_all add: sv_get_or_execute_def Let_def)
        then show ?thesis using c gone inv(5) e' by (simp add: coherent_def)
      next
        case (Inr d)
        then have e': "exec q p (sv_db s) = (sv_db s, Inr d)" using pure by (simp add: prod_eq_iff)
        from store_coherent [OF c(1,2) fl c(3) refl u Inr ok] obtain c' where
          st: "co_store ?k d (set (extract_tables q)) (ci_store e) c = Inr c'"
          and c': "index_inv (co_leave ?k ?f c')" "l1_current exec ?sha U (sv_db s) (co_leave ?k ?f c')"
            "co_inflight (co_leave ?k ?f c') = (\<lambda>_. None)" "\<forall>t. finite (keys_of (co_leave ?k ?f c') t)" by blast
        let ?js = "miss_jobs \<lparr>qc_key = ?k, qc_tables = set (extract_tables q), qc_persist = Some (q, p, user)\<rparr> d"
        have "s' = sv_job cfg e ?js (?s1\<lparr>sv_db := sv_db s, sv_co := co_leave ?k ?f c'\<rparr>)"
          "r = Inr \<lparr>lk_data = d, lk_source = SrcMiss\<rparr>"
          using run call lead(1) None ex e' st by (simp_all add: sv_get_or_execute_def sv_store_def Let_def)
        then show ?thesis using c' Inr job_current [OF inv(5) u Inr ok, of ?js ?k "set (extract_tables q)" user] inv(5)
          by (simp add: coherent_def sv_job_def split: option.split)
      qed
    qed
  qed
qed

text \<open>Writes.\<close>

lemma clear_coherent:
  assumes "index_inv (sv_co s)" "co_inflight (sv_co s) = (\<lambda>_. None)" "\<not> ci_drop_fails e"
  shows "coherent exec sha U (sv_clear_all e s)"
proof -
  have h: "hybrid_inv (co_l1 (sv_co s))" using assms(1) by (simp add: index_inv_def)
  have "l1_entry (co_clear (sv_co s)) k = None" for k using hy.clear_look [of "co_l1 (sv_co s)" k] by (simp add: co_clear_def)
  moreover have "hybrid_inv (co_l1 (co_clear (sv_co s)))" using hy.clear_invar [OF h] by (simp add: co_clear_def)
  ultimately show ?thesis using assms(2,3)
    by (simp add: coherent_def sv_clear_all_def index_inv_def l1_current_def l2_current_def l2_clear_all_def)
       (simp add: co_clear_def keys_of_def)
qed

lemma invalidate_fold:
  assumes "r \<in> set (fold (\<lambda>t tb. fst (invalidate_cache False t [] tb)) ts tb)" "[] \<notin> set ts"
  shows "r \<in> set tb \<and> (\<forall>t \<in> set ts. t \<notin> set (extract_tables (rr_query_sql r)))"
  using assms
proof (induction ts arbitrary: tb)
  case (Cons t ts)
  have t: "t \<noteq> []" using Cons.prems(2) by auto
  have i: "r \<in> set (fst (invalidate_cache False t [] tb))" "\<forall>x \<in> set ts. x \<notin> set (extract_tables (rr_query_sql r))"
    using Cons by auto
  then have "r \<in> set tb" "\<not> sql_like (''%'' @ t @ ''%'') (rr_query_sql r)"
    using t by (auto simp: invalidate_cache_def Let_def)
  then have "t \<notin> set (extract_tables (rr_query_sql r))" using extracted_mentioned mentions_like by blast
  with i(2) \<open>r \<in> set tb\<close> show ?case by simp
qed simp

lemma scoped_coherent:
  assumes co: "coherent exec sha U s" and ok: "warehouse_ok exec sha True U"
    and w: "(w, x) \<in> U" "classify_operation w = Write" "extract_tables w \<noteq> []" and e: "\<not> ci_drop_fails e"
    and inv: "sv_invalidate_tables e (extract_tables w) (s\<lparr>sv_db := fst (exec w x (sv_db s))\<rparr>) = (s', True)"
  shows "coherent exec sha U s' \<and> sv_db s' = fst (exec w x (sv_db s))"
proof -
  let ?ts = "extract_tables w" and ?db' = "fst (exec w x (sv_db s))"
  let ?ks = "sorted_list_of_set (keys_to_drop ?ts (sv_co s))"
  have i: "index_inv (sv_co s)" "co_inflight (sv_co s) = (\<lambda>_. None)" "\<forall>t. finite (keys_of (sv_co s) t)"
    "l1_current exec sha U (sv_db s) (sv_co s)" "l2_current exec sha U (sv_db s) (sv_l2 s)"
    using co by (simp_all add: coherent_def)
  obtain c b where ci: "co_invalidate_tables ?ts ?ks (sv_co s) = (c, b)"
    by (cases "co_invalidate_tables ?ts ?ks (sv_co s)")
  have b: b and s': "s' = s\<lparr>sv_db := ?db', sv_co := c, sv_l2 := fold (\<lambda>t tb. fst (invalidate_cache False t [] tb)) ?ts (sv_l2 s)\<rparr>"
    using inv ci e by (auto simp: sv_invalidate_tables_def split: bool.splits)
  have "finite (keys_to_drop ?ts (sv_co s))" using i(3) by (simp add: keys_to_drop_def)
  then have ks: "set ?ks = keys_to_drop ?ts (sv_co s)" by simp
  note sc = index_scoped [OF i(1) ks ci]
  have same: "snd (exec q p ?db') = snd (exec q p (sv_db s))"
    if "(q, p) \<in> U" "classify_operation q = Read" "set ?ts \<inter> set (extract_tables q) = {}" for q p
    using warehouse_okD(5) [OF ok TrueI w(1) that(1) w(2) that(2) w(3) that(3)] .
  have l1: "l1_current exec sha U ?db' c" unfolding l1_current_def
  proof (intro allI impI)
    fix q p y assume u: "(q, p) \<in> U" and y: "l1_entry c (generate_cache_key sha q p) = Some y"
    let ?k = "generate_cache_key sha q p"
    have k: "?k \<notin> keys_to_drop ?ts (sv_co s)" and old: "l1_entry (sv_co s) ?k = Some y"
      using y sc by (auto split: if_splits)
    then obtain d where d: "classify_operation q = Read" "co_tags (sv_co s) ?k = set (extract_tables q)" "ce_value y = Some d"
      "snd (exec q p (sv_db s)) = Inr d" using i(4) u unfolding l1_current_def by blast
    have "\<forall>t \<in> set (extract_tables q). ?k \<in> keys_of (sv_co s) t"
      using i(1) old d(2) unfolding index_inv_def by simp
    then have "set ?ts \<inter> set (extract_tables q) = {}" using k unfolding keys_to_drop_def by blast
    from same [OF u d(1) this] d sc show "classify_operation q = Read \<and> co_tags c ?k = set (extract_tables q)
        \<and> (\<exists>d. ce_value y = Some d \<and> snd (exec q p ?db') = Inr d)" by simp
  qed
  have nil: "[] \<notin> set ?ts" using extracted_mentioned by blast
  have tb: "l2_current exec sha U ?db' (fold (\<lambda>t tb. fst (invalidate_cache False t [] tb)) ?ts (sv_l2 s))"
    unfolding l2_current_def
  proof (intro allI impI)
    fix q p r assume u: "(q, p) \<in> U" and k: "rr_cache_key r = generate_cache_key sha q p"
      and "r \<in> set (fold (\<lambda>t tb. fst (invalidate_cache False t [] tb)) ?ts (sv_l2 s))"
    then have r: "r \<in> set (sv_l2 s)" "\<forall>t \<in> set ?ts. t \<notin> set (extract_tables (rr_query_sql r))"
      using invalidate_fold [OF _ nil] by blast+
    then have c: "rr_query_sql r = q" "classify_operation q = Read" "snd (exec q p (sv_db s)) = Inr (loads_rows (rr_result_data r))"
      using i(5) u k unfolding l2_current_def by blast+
    with same [OF u c(2)] r(2) show "rr_query_sql r = q \<and> classify_operation q = Read \<and> snd (exec q p ?db') = Inr (loads_rows (rr_result_data r))"
      by auto
  qed
  have "co_inflight c = (\<lambda>_. None)" "\<forall>t. finite (keys_of c t)"
    using ci i(2,3) by (auto simp: co_invalidate_tables_def keys_of_def Let_def split: if_splits)
  with sc l1 tb show ?thesis unfolding s' coherent_def by simp
qed

lemma scoped_false:
  assumes "coherent exec sha U s" "sv_invalidate_tables e ts (s\<lparr>sv_db := db\<rparr>) = (s', False)"
  shows "index_inv (sv_co s') \<and> co_inflight (sv_co s') = (\<lambda>_. None) \<and> sv_db s' = db"
proof -
  let ?ks = "sorted_list_of_set (keys_to_drop ts (sv_co s))"
  have i: "index_inv (sv_co s)" "co_inflight (sv_co s) = (\<lambda>_. None)" "\<forall>t. finite (keys_of (sv_co s) t)"
    using assms(1) by (simp_all add: coherent_def)
  obtain c b where ci: "co_invalidate_tables ts ?ks (sv_co s) = (c, b)" by (cases "co_invalidate_tables ts ?ks (sv_co s)")
  have "finite (keys_to_drop ts (sv_co s))" using i(3) by (simp add: keys_to_drop_def)
  then have ks: "set ?ks = keys_to_drop ts (sv_co s)" by simp
  have "co_inflight c = (\<lambda>_. None)" using ci i(2) by (auto simp: co_invalidate_tables_def Let_def split: if_splits)
  moreover have "s' = s\<lparr>sv_db := db, sv_co := c\<rparr>" using assms(2) ci by (auto simp: sv_invalidate_tables_def split: bool.splits)
  ultimately show ?thesis using index_scoped [OF i(1) ks ci] by simp
qed

lemma write_coherent:
  assumes co: "coherent exec (qs_sha cfg) U s" and ok: "warehouse_ok exec (qs_sha cfg) (qs_precise cfg) U"
    and w: "(w, x) \<in> U" "classify_operation w = Write" and e: "\<not> ci_drop_fails e"
  shows "coherent exec (qs_sha cfg) U (invalidate_after_write cfg e w (s\<lparr>sv_db := fst (exec w x (sv_db s))\<rparr>))
    \<and> sv_db (invalidate_after_write cfg e w (s\<lparr>sv_db := fst (exec w x (sv_db s))\<rparr>)) = fst (exec w x (sv_db s))"
proof -
  let ?s = "s\<lparr>sv_db := fst (exec w x (sv_db s))\<rparr>"
  have db: "sv_db (sv_clear_all e t) = sv_db t" for t :: "'a service" by (simp add: sv_clear_all_def)
  show ?thesis
  proof (cases "qs_precise cfg")
    case False
    then show ?thesis using clear_coherent [OF _ _ e, of ?s] co by (simp add: invalidate_after_write_def coherent_def db)
  next
    case True
    obtain s' b where i: "sv_invalidate_tables e (extract_tables w) ?s = (s', b)"
      by (cases "sv_invalidate_tables e (extract_tables w) ?s")
    show ?thesis
    proof (cases b)
      case True
      then have "extract_tables w \<noteq> []" using i by (auto simp: sv_invalidate_tables_def co_invalidate_tables_def)
      moreover have "sv_invalidate_tables e (extract_tables w) ?s = (s', True)" using i True by simp
      ultimately have "coherent exec (qs_sha cfg) U s' \<and> sv_db s' = fst (exec w x (sv_db s))"
        using scoped_coherent [OF co _ w _ e] ok \<open>qs_precise cfg\<close> by simp
      then show ?thesis using \<open>qs_precise cfg\<close> i True by (simp add: invalidate_after_write_def)
    next
      case False
      then have "sv_invalidate_tables e (extract_tables w) ?s = (s', False)" using i by simp
      from scoped_false [OF co this] clear_coherent [OF _ _ e, of s']
      show ?thesis using \<open>qs_precise cfg\<close> i False by (simp add: invalidate_after_write_def db)
    qed
  qed
qed

text \<open>What the caller sees of an outcome, but for the \<open>cached\<close> flag.\<close>

definition answer :: "query_outcome result \<Rightarrow> (rows \<times> bool) result" where
  "answer r = map_sum id (\<lambda>q. (qo_data q, qo_truncated q)) r"

lemma run_coherent:
  assumes co: "coherent exec (qs_sha cfg) U s" and ok: "warehouse_ok exec (qs_sha cfg) (qs_precise cfg) U"
    and u: "(q, p) \<in> U" and e: "ci_timeout e = None" "\<not> ci_drop_fails e"
    and run: "qs_run exec cfg e q p user scopes s = (s', r)"
  shows "coherent exec (qs_sha cfg) U s' \<and> (sv_db s', answer r) = qs_reference exec cfg q p scopes (sv_db s)"
proof (cases "classify_operation q")
  case Read
  obtain t r' where g: "sv_get_or_execute exec cfg e q p (py_or_str user []) s = (t, r')"
    by (cases "sv_get_or_execute exec cfg e q p (py_or_str user []) s")
  note rc = read_coherent [OF co ok u Read e(1) g]
  have s': "s' = t" using run g Read by (auto simp: qs_run_def split: sum.splits prod.splits)
  have pure: "fst (exec q p (sv_db s)) = sv_db s" using warehouse_okD(1) [OF ok u Read] .
  have "answer r = (case r' of Inl x \<Rightarrow> Inl x | Inr lk \<Rightarrow> Inr (apply_result_limits (qs_row_bytes cfg) (qs_limits cfg) (lk_data lk)))"
    using run g Read by (auto simp: qs_run_def answer_def split: sum.splits prod.splits)
  moreover obtain z where "exec q p (sv_db s) = (sv_db s, z)" using pure by (metis prod.collapse)
  ultimately show ?thesis using rc Read s' by (cases r') (auto simp: qs_reference_def)
next
  case Write
  show ?thesis
  proof (cases "qs_require_write_scope cfg \<and> \<not> has_scope (Some scopes) ''write''")
    case True
    then have "s' = s" "r = Inl QueryAuthorizationError" using run Write by (simp_all add: qs_run_def)
    then show ?thesis using True Write co by (simp add: qs_reference_def answer_def)
  next
    case False
    have ex: "execute_gated exec e q p (sv_db s) = exec q p (sv_db s)" by (simp add: execute_gated_def e(1))
    obtain db z where x: "exec q p (sv_db s) = (db, z)" by (cases "exec q p (sv_db s)")
    show ?thesis
    proof (cases z)
      case (Inl y)
      then have "db = sv_db s" using warehouse_okD(4) [OF ok u, of "sv_db s" y] x by simp
      then show ?thesis using run Write False ex x Inl co by (auto simp: qs_run_def qs_reference_def answer_def)
    next
      case (Inr d)
      then have "s' = invalidate_after_write cfg e q (s\<lparr>sv_db := fst (exec q p (sv_db s))\<rparr>)"
        "r = Inr \<lparr>qo_data = d, qo_cached = False, qo_truncated = False\<rparr>"
        using run Write False ex x by (auto simp: qs_run_def)
      then show ?thesis using write_coherent [OF co ok u Write e(2)] x Inr Write False
        by (auto simp: qs_reference_def answer_def)
    qed
  qed
qed


lemma demo_statements:
  "classify_operation ''SELECT n FROM t'' = Read" "classify_operation ''DELETE FROM t'' = Write"
  "extract_tables ''SELECT n FROM t'' = [''t'']" "extract_tables ''DELETE FROM t'' = [''t'']"
  "has_scope (Some ''write'') ''write''"
  "generate_cache_key id ''SELECT n FROM t'' ''()'' \<noteq> generate_cache_key id ''DELETE FROM t'' ''()''"
  by code_simp+


text \<open>
  A write that exceeds its time limit is answered with an error and invalidates nothing, although
  the warehouse may have carried it out: the next read is served the old rows.
\<close>

theorem timed_out_write_leaves_stale_rows:
  "(case qs_run_all counting_warehouse demo_config
      [ask_of ''SELECT n FROM t'' ''read'', (ask_of ''DELETE FROM t'' ''write'')\<lparr>as_env := calm\<lparr>ci_timeout := Some True\<rparr>\<rparr>,
       ask_of ''SELECT n FROM t'' ''read''] (fresh_service 0) of
     (s, rs) \<Rightarrow> sv_db s = 1 \<and> rs = [Inr \<lparr>qo_data = [[(''n'', VInt 0)]], qo_cached = False, qo_truncated = False\<rparr>,
        Inl QueryTimeoutError, Inr \<lparr>qo_data = [[(''n'', VInt 0)]], qo_cached = True, qo_truncated = False\<rparr>])"
  by code_simp

end
