(* ===== verification/Alerts.thy ===== *)
theory Alerts
  imports Persistence_Queue Query_Service Pool_Base
begin

text \<open>
  \<open>src/core/observability/alerts.py\<close>: the alerts evaluated on every health check.  Gauges are
  compared with thresholds; counters with their value at the previous evaluation.  The texts of
  messages (formatted percentages) are left out.
\<close>

section \<open>Alerts and thresholds\<close>

datatype severity = Warning | Critical

datatype alert_value = Ratio rat | Count int | Usage rat int | Flag bool

record alert =
  al_code :: string
  al_severity :: severity
  al_value :: alert_value
  al_threshold :: alert_value

record alert_thresholds =
  th_pool_saturation_warning :: rat
  th_pool_saturation_critical :: rat
  th_executor_utilization_warning :: rat
  th_query_concurrency_warning :: rat
  th_persistence_queue_depth_warning_ratio :: rat

definition default_thresholds :: alert_thresholds where
  "default_thresholds = \<lparr>th_pool_saturation_warning = 80 / 100, th_pool_saturation_critical = 95 / 100,
     th_executor_utilization_warning = 90 / 100, th_query_concurrency_warning = 90 / 100,
     th_persistence_queue_depth_warning_ratio = 75 / 100\<rparr>"

record evaluator =
  ev_thresholds :: alert_thresholds
  ev_prev_counters :: "(string, int) odict"
  ev_firing :: "string list"

definition evaluator_new :: evaluator where
  "evaluator_new = \<lparr>ev_thresholds = default_thresholds, ev_prev_counters = [], ev_firing = []\<rparr>"

record executor_metrics =
  em_name :: string
  em_max_workers :: int
  em_active :: int
  em_approx_queue_depth :: nat

text \<open>A counter that was never seen counts as unchanged.\<close>

definition check_counter_delta :: "string \<Rightarrow> int \<Rightarrow> severity \<Rightarrow> evaluator \<Rightarrow> evaluator \<times> alert list" where
  "check_counter_delta key current_value sev v =
     (let previous = (case map_of (ev_prev_counters v) key of None \<Rightarrow> current_value | Some p \<Rightarrow> p);
          delta = current_value - previous
      in (v\<lparr>ev_prev_counters := AList.update key current_value (ev_prev_counters v)\<rparr>,
          if delta > 0 then [\<lparr>al_code = key, al_severity = sev, al_value = Count delta, al_threshold = Count 0\<rparr>] else []))"

definition pool_saturation_alerts :: "alert_thresholds \<Rightarrow> rat \<Rightarrow> alert list" where
  "pool_saturation_alerts th saturation =
     (if saturation \<ge> th_pool_saturation_critical th
      then [\<lparr>al_code = ''pool_saturated'', al_severity = Critical, al_value = Ratio saturation,
             al_threshold = Ratio (th_pool_saturation_critical th)\<rparr>]
      else if saturation \<ge> th_pool_saturation_warning th
      then [\<lparr>al_code = ''pool_under_pressure'', al_severity = Warning, al_value = Ratio saturation,
             al_threshold = Ratio (th_pool_saturation_warning th)\<rparr>]
      else [])"

definition check_pool :: "pool_metrics \<Rightarrow> evaluator \<Rightarrow> evaluator \<times> alert list" where
  "check_pool m v =
     (case check_counter_delta ''pool_timeouts'' (int (pm_timed_out_acquires m)) Critical v of (v1, a1) \<Rightarrow>
      (case check_counter_delta ''pool_broken_connections'' (int (pm_broken_connections_evicted m)) Warning v1 of (v2, a2) \<Rightarrow>
        (v2, pool_saturation_alerts (ev_thresholds v) (pm_saturation m) @ a1 @ a2)))"

text \<open>\<open>m.get("max_workers", 0) or 1\<close>\<close>

definition at_least_one :: "int \<Rightarrow> int" where
  "at_least_one n = (if n = 0 then 1 else n)"

definition executor_alert :: "alert_thresholds \<Rightarrow> string \<times> executor_metrics \<Rightarrow> alert list" where
  "executor_alert th e =
     (case e of (name, m) \<Rightarrow>
       let utilization = of_int (em_active m) / of_int (at_least_one (em_max_workers m)) in
       if utilization \<ge> th_executor_utilization_warning th \<or> em_approx_queue_depth m > 0
       then [\<lparr>al_code = ''executor_'' @ name @ ''_saturated'', al_severity = Warning,
              al_value = Usage (py_round 2 utilization) (int (em_approx_queue_depth m)),
              al_threshold = Ratio (th_executor_utilization_warning th)\<rparr>]
       else [])"

definition check_executors :: "alert_thresholds \<Rightarrow> (string, executor_metrics) odict \<Rightarrow> alert list" where
  "check_executors th executors = concat (map (executor_alert th) executors)"

fun cost_name :: "cost \<Rightarrow> string" where
  "cost_name Fast = ''fast''"
| "cost_name Normal = ''normal''"
| "cost_name Expensive = ''expensive''"

definition concurrency_alert :: "alert_thresholds \<Rightarrow> cost \<times> gate_metrics \<Rightarrow> alert list" where
  "concurrency_alert th c =
     (case c of (cost, m) \<Rightarrow>
       let ratio = of_int (gm_in_use m) / of_int (at_least_one (gm_limit m)) in
       if ratio \<ge> th_query_concurrency_warning th
       then [\<lparr>al_code = ''query_concurrency_'' @ cost_name cost @ ''_saturated'', al_severity = Warning,
              al_value = Ratio ratio, al_threshold = Ratio (th_query_concurrency_warning th)\<rparr>]
       else [])"

definition check_query_concurrency :: "alert_thresholds \<Rightarrow> (cost, gate_metrics) odict \<Rightarrow> alert list" where
  "check_query_concurrency th classes = concat (map (concurrency_alert th) classes)"

text \<open>\<open>int(x)\<close> of a float\<close>

definition truncated :: "rat \<Rightarrow> int" where
  "truncated x = (if 0 \<le> x then \<lfloor>x\<rfloor> else \<lceil>x\<rceil>)"

definition backlog_alerts :: "alert_thresholds \<Rightarrow> int \<Rightarrow> nat \<Rightarrow> alert list" where
  "backlog_alerts th maxsize depth =
     (let ratio = of_nat depth / of_int (max 1 maxsize) in
      if ratio \<ge> th_persistence_queue_depth_warning_ratio th
      then [\<lparr>al_code = ''persistence_queue_backlog'', al_severity = Warning, al_value = Count (int depth),
             al_threshold = Count (truncated (of_int maxsize * th_persistence_queue_depth_warning_ratio th))\<rparr>]
      else [])"

definition check_persistence :: "pq_metrics \<Rightarrow> int \<Rightarrow> evaluator \<Rightarrow> evaluator \<times> alert list" where
  "check_persistence m maxsize v =
     (case check_counter_delta ''persistence_dropped'' (int (qm_dropped m)) Warning v of (v1, a1) \<Rightarrow>
      (case check_counter_delta ''persistence_failed'' (int (qm_failed m)) Warning v1 of (v2, a2) \<Rightarrow>
        (v2, backlog_alerts (ev_thresholds v) maxsize (qm_queue_depth m) @ a1 @ a2)))"

text \<open>What a health check hands over; the sampler's metrics count by their flag \<open>escalated\<close> only.\<close>

record health_snapshot =
  hs_pool :: "pool_metrics option"
  hs_executors :: "(string, executor_metrics) odict"
  hs_concurrency :: "(cost, gate_metrics) odict"
  hs_persistence :: "pq_metrics option"
  hs_escalated :: "bool option"

text \<open>Which alerts are logged as new and which codes as resolved, and the codes firing afterwards.\<close>

definition log_newly_firing :: "alert list \<Rightarrow> string list \<Rightarrow> alert list \<times> string list \<times> string list" where
  "log_newly_firing alerts firing =
     (let current = remdups (map al_code alerts) in
      (filter (\<lambda>a. al_code a \<notin> set firing) alerts, filter (\<lambda>c. c \<notin> set current) firing, current))"

definition evaluate :: "int \<Rightarrow> health_snapshot \<Rightarrow> evaluator \<Rightarrow> evaluator \<times> alert list" where
  "evaluate maxsize h v =
     (let (v1, pool) = (case hs_pool h of None \<Rightarrow> (v, []) | Some m \<Rightarrow> check_pool m v);
          ex = check_executors (ev_thresholds v) (hs_executors h);
          qc = check_query_concurrency (ev_thresholds v) (hs_concurrency h);
          (v2, ps) = (case hs_persistence h of None \<Rightarrow> (v1, []) | Some m \<Rightarrow> check_persistence m maxsize v1);
          sa = (if hs_escalated h = Some True
                then [\<lparr>al_code = ''sampling_escalated'', al_severity = Warning, al_value = Flag True, al_threshold = Flag False\<rparr>]
                else []);
          alerts = pool @ ex @ qc @ ps @ sa
      in (v2\<lparr>ev_firing := snd (snd (log_newly_firing alerts (ev_firing v)))\<rparr>, alerts))"

definition get_alert_evaluator :: "evaluator option \<Rightarrow> evaluator" where
  "get_alert_evaluator v = (case v of None \<Rightarrow> evaluator_new | Some e \<Rightarrow> e)"

section \<open>Counters alert once for every new occurrence\<close>

text \<open>The counters a snapshot carries, by the key of their alert.\<close>

definition counter_of :: "string \<Rightarrow> health_snapshot \<Rightarrow> int option" where
  "counter_of key h =
     (if key = ''pool_timeouts'' then map_option (\<lambda>m. int (pm_timed_out_acquires m)) (hs_pool h)
      else if key = ''pool_broken_connections'' then map_option (\<lambda>m. int (pm_broken_connections_evicted m)) (hs_pool h)
      else if key = ''persistence_dropped'' then map_option (\<lambda>m. int (qm_dropped m)) (hs_persistence h)
      else if key = ''persistence_failed'' then map_option (\<lambda>m. int (qm_failed m)) (hs_persistence h)
      else None)"

definition counter_codes :: "string set" where
  "counter_codes = {''pool_timeouts'', ''pool_broken_connections'', ''persistence_dropped'', ''persistence_failed''}"

definition reported :: "string \<Rightarrow> alert list \<Rightarrow> int" where
  "reported key als = sum_list (map (\<lambda>a. case al_value a of Count n \<Rightarrow> n | _ \<Rightarrow> 0) (filter (\<lambda>a. al_code a = key) als))"

fun evaluate_all :: "int \<Rightarrow> health_snapshot list \<Rightarrow> evaluator \<Rightarrow> evaluator \<times> alert list" where
  "evaluate_all maxsize [] v = (v, [])"
| "evaluate_all maxsize (h # hs) v =
     (case evaluate maxsize h v of (v1, a) \<Rightarrow> (case evaluate_all maxsize hs v1 of (v2, b) \<Rightarrow> (v2, a @ b)))"

lemma reported_simps [simp]:
  "reported key [] = 0" "reported key (as @ bs) = reported key as + reported key bs"
  by (simp_all add: reported_def)

lemma reported_other: "\<forall>a \<in> set als. al_code a \<noteq> key \<Longrightarrow> reported key als = 0"
  by (simp add: reported_def)

lemma counter_delta:
  assumes "check_counter_delta k c sev v = (v', als)"
  shows "map_of (ev_prev_counters v') = (map_of (ev_prev_counters v))(k \<mapsto> c)"
    "ev_thresholds v' = ev_thresholds v"
    "reported k als = (case map_of (ev_prev_counters v) k of None \<Rightarrow> 0 | Some p \<Rightarrow> max 0 (c - p))"
    "key \<noteq> k \<Longrightarrow> reported key als = 0"
  using assms by (auto simp: check_counter_delta_def Let_def map_of_update reported_def split: option.splits)

lemma saturation_other: "key \<in> counter_codes \<Longrightarrow> reported key (pool_saturation_alerts th x) = 0"
  by (rule reported_other) (auto simp: pool_saturation_alerts_def counter_codes_def)

lemma backlog_other: "key \<in> counter_codes \<Longrightarrow> reported key (backlog_alerts th x d) = 0"
  by (rule reported_other) (auto simp: backlog_alerts_def counter_codes_def Let_def)

lemma executors_other: "key \<in> counter_codes \<Longrightarrow> reported key (check_executors th ex) = 0"
  by (rule reported_other) (auto simp: check_executors_def executor_alert_def counter_codes_def Let_def split: if_splits)

lemma concurrency_other: "key \<in> counter_codes \<Longrightarrow> reported key (check_query_concurrency th ex) = 0"
  by (rule reported_other) (auto simp: check_query_concurrency_def concurrency_alert_def counter_codes_def Let_def split: if_splits)

text \<open>One part of an evaluation that reads two counters.\<close>

definition counted :: "string \<Rightarrow> int option \<Rightarrow> evaluator \<Rightarrow> evaluator \<Rightarrow> alert list \<Rightarrow> bool" where
  "counted key c v v' als \<longleftrightarrow>
     map_of (ev_prev_counters v') key = (case c of None \<Rightarrow> map_of (ev_prev_counters v) key | Some n \<Rightarrow> Some n)
     \<and> reported key als = (case (c, map_of (ev_prev_counters v) key) of (Some n, Some p) \<Rightarrow> max 0 (n - p) | _ \<Rightarrow> 0)"

lemma check_pool_counted:
  assumes "check_pool m v = (v', als)" "key \<in> counter_codes" "hs_pool h = Some m" "hs_persistence h = None"
  shows "counted key (counter_of key h) v v' als"
proof -
  obtain v1 a1 where 1: "check_counter_delta ''pool_timeouts'' (int (pm_timed_out_acquires m)) Critical v = (v1, a1)"
    by (cases "check_counter_delta ''pool_timeouts'' (int (pm_timed_out_acquires m)) Critical v")
  obtain v2 a2 where 2: "check_counter_delta ''pool_broken_connections'' (int (pm_broken_connections_evicted m)) Warning v1 = (v2, a2)"
    by (cases "check_counter_delta ''pool_broken_connections'' (int (pm_broken_connections_evicted m)) Warning v1")
  have r: "v' = v2" "reported key als = reported key a1 + reported key a2"
    using assms(1,2) 1 2 by (auto simp: check_pool_def saturation_other)
  show ?thesis
    using assms(2-4) unfolding counted_def r counter_codes_def
    by (auto simp: counter_of_def counter_delta(1,3,4) [OF 1] counter_delta(1,3,4) [OF 2] split: option.split)
qed

lemma check_persistence_counted:
  assumes "check_persistence m maxsize v = (v', als)" "key \<in> counter_codes" "hs_pool h = None" "hs_persistence h = Some m"
  shows "counted key (counter_of key h) v v' als"
proof -
  obtain v1 a1 where 1: "check_counter_delta ''persistence_dropped'' (int (qm_dropped m)) Warning v = (v1, a1)"
    by (cases "check_counter_delta ''persistence_dropped'' (int (qm_dropped m)) Warning v")
  obtain v2 a2 where 2: "check_counter_delta ''persistence_failed'' (int (qm_failed m)) Warning v1 = (v2, a2)"
    by (cases "check_counter_delta ''persistence_failed'' (int (qm_failed m)) Warning v1")
  have r: "v' = v2" "reported key als = reported key a1 + reported key a2"
    using assms(1,2) 1 2 by (auto simp: check_persistence_def backlog_other)
  show ?thesis
    using assms(2-4) unfolding counted_def r counter_codes_def
    by (auto simp: counter_of_def counter_delta(1,3,4) [OF 1] counter_delta(1,3,4) [OF 2] split: option.split)
qed

lemma counted_none: "counted key None v v []"
  by (simp add: counted_def)

lemma counted_compose:
  assumes "counted key c v v1 a" "counted key c' v1 v2 b" "c = None \<or> c' = None"
  shows "counted key (case c of None \<Rightarrow> c' | Some n \<Rightarrow> Some n) v v2 (a @ b)"
  using assms by (auto simp: counted_def split: option.splits)

lemma counter_parts:
  "counter_of key h = (case counter_of key (h\<lparr>hs_persistence := None\<rparr>) of None \<Rightarrow> counter_of key (h\<lparr>hs_pool := None\<rparr>) | Some n \<Rightarrow> Some n)"
  "counter_of key (h\<lparr>hs_persistence := None\<rparr>) = None \<or> counter_of key (h\<lparr>hs_pool := None\<rparr>) = None"
  by (auto simp: counter_of_def split: option.split)

lemma counter_absent [simp]: "hs_pool h = None \<Longrightarrow> hs_persistence h = None \<Longrightarrow> counter_of key h = None"
  by (simp add: counter_of_def)

lemma evaluate_counted:
  assumes "evaluate maxsize h v = (v', als)" "key \<in> counter_codes"
  shows "counted key (counter_of key h) v v' als"
proof -
  obtain v1 pool where p: "(case hs_pool h of None \<Rightarrow> (v, []) | Some m \<Rightarrow> check_pool m v) = (v1, pool)"
    by (cases "case hs_pool h of None \<Rightarrow> (v, []) | Some m \<Rightarrow> check_pool m v")
  obtain v2 ps where q: "(case hs_persistence h of None \<Rightarrow> (v1, []) | Some m \<Rightarrow> check_persistence m maxsize v1) = (v2, ps)"
    by (cases "case hs_persistence h of None \<Rightarrow> (v1, []) | Some m \<Rightarrow> check_persistence m maxsize v1")
  define ex where "ex = check_executors (ev_thresholds v) (hs_executors h) @ check_query_concurrency (ev_thresholds v) (hs_concurrency h)"
  define sa where "sa = (if hs_escalated h = Some True
      then [\<lparr>al_code = ''sampling_escalated'', al_severity = Warning, al_value = Flag True, al_threshold = Flag False\<rparr>] else [])"
  have als: "als = pool @ ex @ ps @ sa" and v': "ev_prev_counters v' = ev_prev_counters v2"
    using assms(1) p q by (auto simp: evaluate_def Let_def ex_def sa_def)
  have zero: "reported key ex = 0" "reported key sa = 0"
    using executors_other concurrency_other assms(2) by (auto simp: ex_def sa_def reported_def counter_codes_def)
  have 1: "counted key (counter_of key (h\<lparr>hs_persistence := None\<rparr>)) v v1 pool"
  proof (cases "hs_pool h")
    case None
    then show ?thesis using p counted_none by simp
  next
    case (Some m)
    then show ?thesis using p check_pool_counted [of m v v1 pool key "h\<lparr>hs_persistence := None\<rparr>"] assms(2) by simp
  qed
  have 2: "counted key (counter_of key (h\<lparr>hs_pool := None\<rparr>)) v1 v2 ps"
  proof (cases "hs_persistence h")
    case None
    then show ?thesis using q counted_none by simp
  next
    case (Some m)
    then show ?thesis using q check_persistence_counted [of m maxsize v1 v2 ps key "h\<lparr>hs_pool := None\<rparr>"] assms(2) by simp
  qed
  have "counted key (counter_of key h) v v2 (pool @ ps)"
    using counted_compose [OF 1 2 counter_parts(2)] by (simp only: counter_parts(1) [of key h, symmetric])
  then show ?thesis by (simp add: counted_def als v' zero)
qed

lemma reported_sum:
  assumes "evaluate_all maxsize hs v = (v', als)" "key \<in> counter_codes" "map_of (ev_prev_counters v) key = Some p"
    and "sorted (p # List.map_filter (counter_of key) hs)"
  shows "reported key als = last (p # List.map_filter (counter_of key) hs) - p"
  using assms
proof (induction hs arbitrary: v v' als p)
  case (Cons h hs)
  obtain v1 a where 1: "evaluate maxsize h v = (v1, a)" by (cases "evaluate maxsize h v")
  obtain b where 2: "evaluate_all maxsize hs v1 = (v', b)" "als = a @ b"
    using Cons.prems(1) 1 by (auto split: prod.splits)
  note c = evaluate_counted [OF 1 Cons.prems(2), unfolded counted_def Cons.prems(3)]
  show ?case
  proof (cases "counter_of key h")
    case None
    with c have "map_of (ev_prev_counters v1) key = Some p" "reported key a = 0" by simp_all
    with Cons.IH [OF 2(1) Cons.prems(2)] Cons.prems(4) None 2(2) show ?thesis
      by (simp add: List.map_filter_simps)
  next
    case (Some n)
    with c have "map_of (ev_prev_counters v1) key = Some n" "reported key a = max 0 (n - p)" by simp_all
    moreover have "p \<le> n" "sorted (n # List.map_filter (counter_of key) hs)"
      using Cons.prems(4) Some by (simp_all add: List.map_filter_simps)
    ultimately show ?thesis using Cons.IH [OF 2(1) Cons.prems(2)] Some 2(2)
      by (simp add: List.map_filter_simps)
  qed
qed (simp add: List.map_filter_simps)

text \<open>
  However often and with whatever gaps the alerts are evaluated, the increases reported for a
  counter (timeouts, broken connections, dropped and failed persistence jobs) add up to exactly its
  increase between the first and the last time it was read: every new occurrence is reported once,
  none twice, and an old one never again.
\<close>

theorem alerts_report_every_increase:
  assumes "evaluate_all maxsize hs evaluator_new = (v, als)" "key \<in> counter_codes"
    and "List.map_filter (counter_of key) hs = x # xs" "sorted (x # xs)"
  shows "reported key als = last (x # xs) - x"
proof -
  have main: "reported key als = last (x # xs) - x"
    if "evaluate_all maxsize hs w = (v, als)" "map_of (ev_prev_counters w) key = None"
      "List.map_filter (counter_of key) hs = x # xs" for w hs als
    using that
  proof (induction hs arbitrary: w als)
    case (Cons h hs)
    obtain v1 a where 1: "evaluate maxsize h w = (v1, a)" by (cases "evaluate maxsize h w")
    obtain b where 2: "evaluate_all maxsize hs v1 = (v, b)" "als = a @ b"
      using Cons.prems(1) 1 by (auto split: prod.splits)
    note c = evaluate_counted [OF 1 assms(2), unfolded counted_def Cons.prems(2)]
    show ?case
    proof (cases "counter_of key h")
      case None
      with c have "map_of (ev_prev_counters v1) key = None" "reported key a = 0" by simp_all
      with Cons.IH [OF 2(1)] Cons.prems(3) None 2(2) show ?thesis by (simp add: List.map_filter_simps)
    next
      case (Some n)
      with c Cons.prems(3) have n: "n = x" "map_of (ev_prev_counters v1) key = Some x" "reported key a = 0"
        "List.map_filter (counter_of key) hs = xs"
        by (simp_all add: List.map_filter_simps)
      with reported_sum [OF 2(1) assms(2) n(2)] assms(4) 2(2) show ?thesis by simp
    qed
  qed (simp add: List.map_filter_simps)
  show ?thesis by (rule main [OF assms(1) _ assms(3)]) (simp add: evaluator_new_def)
qed

definition dropped_snapshot :: "nat \<Rightarrow> health_snapshot" where
  "dropped_snapshot n = \<lparr>hs_pool = None, hs_executors = [], hs_concurrency = [],
     hs_persistence = Some \<lparr>qm_queue_depth = 0, qm_enqueued = 9, qm_completed = 9, qm_failed = 0, qm_dropped = n, qm_avg_latency_ms = 0\<rparr>,
     hs_escalated = None\<rparr>"

theorem alerts_report_every_increase_witness:
  "reported ''persistence_dropped'' (snd (evaluate_all 1000 (map dropped_snapshot [1, 1, 4, 6]) evaluator_new)) = 5"
proof -
  obtain v als where e: "evaluate_all 1000 (map dropped_snapshot [1, 1, 4, 6]) evaluator_new = (v, als)"
    by (cases "evaluate_all 1000 (map dropped_snapshot [1, 1, 4, 6]) evaluator_new")
  have "List.map_filter (counter_of ''persistence_dropped'') (map dropped_snapshot [1, 1, 4, 6]) = [1, 1, 4, 6]"
    by (simp add: List.map_filter_simps counter_of_def dropped_snapshot_def)
  from alerts_report_every_increase [OF e _ this] e show ?thesis by (simp add: counter_codes_def)
qed

text \<open>
  The counters are remembered per process, not per reader: of two readers that check the same state
  one after the other, only the first one sees an increase.
\<close>

theorem second_reader_sees_no_increase:
  assumes "evaluate maxsize h v = (v1, a)" "evaluate maxsize h v1 = (v2, b)" "key \<in> counter_codes"
  shows "reported key b = 0"
  using evaluate_counted [OF assms(1,3)] evaluate_counted [OF assms(2,3)]
  by (auto simp: counted_def split: option.splits)

section \<open>Gauges\<close>

text \<open>A health check raises the critical or the warning alert of the pool, never both, and one of them exactly from the warning threshold on.\<close>

lemma pool_alert_levels:
  assumes "th_pool_saturation_warning th \<le> th_pool_saturation_critical th"
  shows "length (pool_saturation_alerts th x) = (if th_pool_saturation_warning th \<le> x then 1 else 0)"
    "map al_severity (pool_saturation_alerts th x) = [Critical] \<longleftrightarrow> th_pool_saturation_critical th \<le> x"
  using assms by (auto simp: pool_saturation_alerts_def)

end
