(* ===== verification/App_Settings.thy ===== *)
theory App_Settings
  imports Db_Settings
begin

text \<open>
  \<open>src/core/app/settings.py\<close> and \<open>src/core/concurrency/cpu.py\<close>: the settings read from the
  environment, with every way of refusing to start, and the sizes derived from the number of CPUs.
  The environment is a partial map; what the host reports about its CPUs is the record \<open>machine\<close>.
  \<open>int(text)\<close> and \<open>float(text)\<close> of Python are written out over ASCII text.
\<close>

section \<open>Numbers from text\<close>

definition digit_value :: "char \<Rightarrow> int" where
  "digit_value c = int (code c) - 48"

text \<open>Digits, with single underscores between them.\<close>

fun dec_digits :: "int \<Rightarrow> string \<Rightarrow> int option" where
  "dec_digits acc [] = Some acc"
| "dec_digits acc (c # cs) =
     (if is_digit c then dec_digits (10 * acc + digit_value c) cs
      else if c = CHR ''_'' \<and> cs \<noteq> [] \<and> is_digit (hd cs) then dec_digits acc cs
      else None)"

definition py_digits :: "string \<Rightarrow> int option" where
  "py_digits s = (if s \<noteq> [] \<and> is_digit (hd s) then dec_digits 0 s else None)"

definition split_sign :: "string \<Rightarrow> bool \<times> string" where
  "split_sign s =
     (case s of [] \<Rightarrow> (False, [])
      | c # cs \<Rightarrow> if c = CHR ''-'' then (True, cs) else if c = CHR ''+'' then (False, cs) else (False, s))"

definition py_int :: "string \<Rightarrow> int result" where
  "py_int s =
     (case split_sign (strip s) of
        (neg, t) \<Rightarrow> (case py_digits t of
           None \<Rightarrow> Inl (ValueError ''invalid literal for int() with base 10'')
         | Some n \<Rightarrow> Inr (if neg then - n else n)))"

datatype py_float = Finite rat | Infinite bool | NotANumber

text \<open>A run of digits that may be missing, with its value and its number of digits.\<close>

definition opt_digits :: "string \<Rightarrow> (int \<times> nat) option" where
  "opt_digits s = (if s = [] then Some (0, 0) else map_option (\<lambda>n. (n, length (filter is_digit s))) (py_digits s))"

definition is_digit_or_underscore :: "char \<Rightarrow> bool" where
  "is_digit_or_underscore c \<longleftrightarrow> is_digit c \<or> c = CHR ''_''"

definition py_exponent :: "string \<Rightarrow> int option" where
  "py_exponent s =
     (case s of [] \<Rightarrow> Some 0
      | c # cs \<Rightarrow>
          if c = CHR ''e'' \<or> c = CHR ''E''
          then (case split_sign cs of (neg, t) \<Rightarrow> map_option (\<lambda>n. if neg then - n else n) (py_digits t))
          else None)"

definition scale10 :: "int \<Rightarrow> rat \<Rightarrow> rat" where
  "scale10 e x = (if 0 \<le> e then x * 10 ^ nat e else x / 10 ^ nat (- e))"

definition py_decimal :: "string \<Rightarrow> rat option" where
  "py_decimal s =
     (let whole = takeWhile is_digit_or_underscore s;
          rest = dropWhile is_digit_or_underscore s;
          frac = (if rest \<noteq> [] \<and> hd rest = CHR ''.'' then takeWhile is_digit_or_underscore (tl rest) else []);
          rest' = (if rest \<noteq> [] \<and> hd rest = CHR ''.'' then dropWhile is_digit_or_underscore (tl rest) else rest)
      in if whole = [] \<and> frac = [] then None
         else (case (opt_digits whole, opt_digits frac, py_exponent rest') of
                 (Some (w, _), Some (f, k), Some e) \<Rightarrow> Some (scale10 e (of_int w + of_int f / 10 ^ k))
               | _ \<Rightarrow> None))"

definition py_float :: "string \<Rightarrow> py_float result" where
  "py_float s =
     (case split_sign (strip s) of
        (neg, t) \<Rightarrow>
          if lower t \<in> {''inf'', ''infinity''} then Inr (Infinite neg)
          else if lower t = ''nan'' then Inr NotANumber
          else (case py_decimal t of
                  None \<Rightarrow> Inl (ValueError ''could not convert string to float'')
                | Some x \<Rightarrow> Inr (Finite (if neg then - x else x))))"

text \<open>\<open>str(n)\<close>\<close>

fun string_of_nat :: "nat \<Rightarrow> string" where
  "string_of_nat n =
     (if n < 10 then [char_of (48 + n)] else string_of_nat (n div 10) @ [char_of (48 + n mod 10)])"

declare string_of_nat.simps [simp del]

definition string_of_int :: "int \<Rightarrow> string" where
  "string_of_int n = (if n < 0 then CHR ''-'' # string_of_nat (nat (- n)) else string_of_nat (nat n))"

section \<open>CPUs and sizes\<close>

text \<open>\<open>s.split()\<close>\<close>

fun words_from :: "nat \<Rightarrow> string \<Rightarrow> string list" where
  "words_from 0 s = []"
| "words_from (Suc fuel) s =
     (let t = dropWhile is_space s in
      if t = [] then []
      else takeWhile (\<lambda>c. \<not> is_space c) t # words_from fuel (dropWhile (\<lambda>c. \<not> is_space c) t))"

definition py_split :: "string \<Rightarrow> string list" where
  "py_split s = words_from (Suc (length s)) s"

text \<open>
  What the process can read about the host: the size of its affinity mask, the texts of the files
  of the two cgroup versions, the number of CPUs.  \<open>None\<close> is a call that is missing or fails, or a
  file that cannot be read.
\<close>

record machine =
  mc_affinity :: "nat option"
  mc_cpu_max :: "string option"
  mc_cfs_quota :: "string option"
  mc_cfs_period :: "string option"
  mc_cpu_count :: "int option"

text \<open>\<open>int(a / b)\<close>\<close>

definition quotient_towards_zero :: "int \<Rightarrow> int \<Rightarrow> int" where
  "quotient_towards_zero a b = sgn a * sgn b * (\<bar>a\<bar> div \<bar>b\<bar>)"

definition cpus_of :: "int \<Rightarrow> int \<Rightarrow> int option result" where
  "cpus_of quota period =
     (if period = 0 then Inl (OtherError ''ZeroDivisionError'')
      else Inr (Some (max 1 (quotient_towards_zero quota period))))"

definition cgroup_v1 :: "machine \<Rightarrow> int option result" where
  "cgroup_v1 mc =
     (case mc_cfs_quota mc of None \<Rightarrow> Inr None | Some q \<Rightarrow>
       (case py_int (strip q) of Inl _ \<Rightarrow> Inr None | Inr quota_us \<Rightarrow>
         if quota_us > 0
         then (case mc_cfs_period mc of None \<Rightarrow> Inr None | Some p \<Rightarrow>
                 (case py_int (strip p) of Inl _ \<Rightarrow> Inr None | Inr period_us \<Rightarrow> cpus_of quota_us period_us))
         else Inr None))"

definition cgroup_cpu_quota :: "machine \<Rightarrow> int option result" where
  "cgroup_cpu_quota mc =
     (case map_option py_split (mc_cpu_max mc) of
        Some [max_str, period_str] \<Rightarrow>
          (if max_str = ''max'' then cgroup_v1 mc
           else (case (py_int max_str, py_int period_str) of
                   (Inr q, Inr p) \<Rightarrow> cpus_of q p
                 | _ \<Rightarrow> cgroup_v1 mc))
      | _ \<Rightarrow> cgroup_v1 mc)"

definition detect_cpu_count :: "machine \<Rightarrow> int result" where
  "detect_cpu_count mc =
     (case cgroup_cpu_quota mc of
        Inl e \<Rightarrow> Inl e
      | Inr quota \<Rightarrow>
          (let affinity = map_option int (mc_affinity mc);
               count = (case quota of None \<Rightarrow> affinity
                        | Some q \<Rightarrow> Some (case affinity of None \<Rightarrow> q | Some a \<Rightarrow> min a q));
               count' = (case count of None \<Rightarrow> mc_cpu_count mc | Some c \<Rightarrow> Some c)
           in Inr (max 1 (py_or_int count' 1))))"

record concurrency_sizing =
  cz_cpu_count :: int
  cz_db_pool_min :: int
  cz_db_pool_max :: int
  cz_service_pool_min :: int
  cz_service_pool_max :: int
  cz_db_executor_workers :: int
  cz_service_executor_workers :: int
  cz_background_executor_workers :: int
  cz_fast_query_concurrency :: int
  cz_normal_query_concurrency :: int
  cz_expensive_query_concurrency :: int

definition sizing_for :: "int \<Rightarrow> concurrency_sizing" where
  "sizing_for n =
     \<lparr>cz_cpu_count = n,
      cz_db_pool_min = max 2 (n div 2),
      cz_db_pool_max = max 4 n,
      cz_service_pool_min = max 2 (n div 2),
      cz_service_pool_max = max 4 (n * 2),
      cz_db_executor_workers = max 4 n + 2,
      cz_service_executor_workers = max 4 (n * 2) + 2,
      cz_background_executor_workers = max 2 n,
      cz_fast_query_concurrency = max 20 (n * 25),
      cz_normal_query_concurrency = max 8 (n * 10),
      cz_expensive_query_concurrency = max 2 n\<rparr>"

definition recommended_sizing :: "int option \<Rightarrow> machine \<Rightarrow> concurrency_sizing result" where
  "recommended_sizing cpu_count mc =
     (case cpu_count of Some n \<Rightarrow> Inr (sizing_for n)
      | None \<Rightarrow> (case detect_cpu_count mc of Inl e \<Rightarrow> Inl e | Inr n \<Rightarrow> Inr (sizing_for n)))"

section \<open>Settings\<close>

record app_settings =
  st_app_name :: string
  st_debug :: bool
  st_log_level :: string
  st_database_url :: "string option"
  st_service_db_path :: string
  st_pool_size :: int
  st_max_overflow :: int
  st_jwt_secret_key :: "string option"
  st_jwt_algorithm :: string
  st_jwt_expiry_seconds :: int
  st_cors_allow_origins :: "string list"
  st_cors_allow_credentials :: bool
  st_require_write_scope_for_mutations :: bool
  st_max_result_rows :: int
  st_max_result_bytes :: int
  st_max_query_duration_seconds :: py_float
  st_fast_query_concurrency_limit :: "int option"
  st_normal_query_concurrency_limit :: "int option"
  st_expensive_query_concurrency_limit :: "int option"
  st_cache_invalidation_precise :: bool
  st_auth_rate_limit_enabled :: bool
  st_auth_rate_limit_max_attempts :: int
  st_auth_rate_limit_window_seconds :: py_float

definition default_app_settings :: app_settings where
  "default_app_settings =
     \<lparr>st_app_name = ''preparedata'', st_debug = False, st_log_level = ''INFO'', st_database_url = None,
      st_service_db_path = ''data/service.db'', st_pool_size = 5, st_max_overflow = 10,
      st_jwt_secret_key = None, st_jwt_algorithm = ''HS256'', st_jwt_expiry_seconds = 3600,
      st_cors_allow_origins = [''*''], st_cors_allow_credentials = False,
      st_require_write_scope_for_mutations = True, st_max_result_rows = 10000,
      st_max_result_bytes = 10 * 1024 * 1024, st_max_query_duration_seconds = Finite 30,
      st_fast_query_concurrency_limit = None, st_normal_query_concurrency_limit = None,
      st_expensive_query_concurrency_limit = None, st_cache_invalidation_precise = True,
      st_auth_rate_limit_enabled = True, st_auth_rate_limit_max_attempts = 10,
      st_auth_rate_limit_window_seconds = Finite 60\<rparr>"

type_synonym environment = "string \<Rightarrow> string option"

definition getenv :: "environment \<Rightarrow> string \<Rightarrow> string \<Rightarrow> string" where
  "getenv env k d = (case env k of None \<Rightarrow> d | Some v \<Rightarrow> v)"

definition flag_env :: "environment \<Rightarrow> string \<Rightarrow> string \<Rightarrow> bool" where
  "flag_env env k d \<longleftrightarrow> lower (getenv env k d) = ''true''"

definition and_then :: "'a result \<Rightarrow> ('a \<Rightarrow> 'b result) \<Rightarrow> 'b result" where
  "and_then r f = (case r of Inl e \<Rightarrow> Inl e | Inr x \<Rightarrow> f x)"

text \<open>\<open>int(limit if limit is not None else recommended)\<close>\<close>

definition limit_env :: "environment \<Rightarrow> string \<Rightarrow> int \<Rightarrow> int result" where
  "limit_env env k recommended = (case env k of None \<Rightarrow> Inr recommended | Some v \<Rightarrow> py_int v)"

definition cors_origins :: "environment \<Rightarrow> string list" where
  "cors_origins env =
     map strip (filter (\<lambda>o'. strip o' \<noteq> []) (split_on (CHR '','') (getenv env ''CORS_ALLOW_ORIGINS'' ''*'')))"

definition jwt_missing :: string where
  "jwt_missing = ''JWT_SECRET_KEY environment variable must be set. Refusing to start with no signing secret or a hardcoded default.''"

definition cors_wildcard :: string where
  "cors_wildcard = ''CORS_ALLOW_ORIGINS cannot be '*' when CORS_ALLOW_CREDENTIALS is true. List explicit origins instead.''"

text \<open>The numbers are parsed in the order of the constructor's arguments; the first bad one raises.\<close>

definition build_settings :: "environment \<Rightarrow> string \<Rightarrow> concurrency_sizing \<Rightarrow> app_settings result" where
  "build_settings env jwt sizing =
     and_then (py_int (getenv env ''POOL_SIZE'' ''5'')) (\<lambda>pool_size.
     and_then (py_int (getenv env ''MAX_OVERFLOW'' ''10'')) (\<lambda>max_overflow.
     and_then (py_int (getenv env ''JWT_EXPIRY_SECONDS'' ''3600'')) (\<lambda>jwt_expiry.
     and_then (py_int (getenv env ''MAX_RESULT_ROWS'' ''10000'')) (\<lambda>max_rows.
     and_then (py_int (getenv env ''MAX_RESULT_BYTES'' (string_of_int (10 * 1024 * 1024)))) (\<lambda>max_bytes.
     and_then (py_float (getenv env ''MAX_QUERY_DURATION_SECONDS'' ''30.0'')) (\<lambda>max_duration.
     and_then (limit_env env ''FAST_QUERY_CONCURRENCY_LIMIT'' (cz_fast_query_concurrency sizing)) (\<lambda>fast.
     and_then (limit_env env ''NORMAL_QUERY_CONCURRENCY_LIMIT'' (cz_normal_query_concurrency sizing)) (\<lambda>normal.
     and_then (limit_env env ''EXPENSIVE_QUERY_CONCURRENCY_LIMIT'' (cz_expensive_query_concurrency sizing)) (\<lambda>expensive.
     and_then (py_int (getenv env ''AUTH_RATE_LIMIT_MAX_ATTEMPTS'' ''10'')) (\<lambda>max_attempts.
     and_then (py_float (getenv env ''AUTH_RATE_LIMIT_WINDOW_SECONDS'' ''60.0'')) (\<lambda>window.
       Inr \<lparr>st_app_name = getenv env ''APP_NAME'' ''salesinfo-api'',
         st_debug = flag_env env ''DEBUG'' ''false'',
         st_log_level = getenv env ''LOG_LEVEL'' ''INFO'',
         st_database_url = env ''DATABASE_URL'',
         st_service_db_path = getenv env ''SERVICE_DB_PATH'' ''data/service.db'',
         st_pool_size = pool_size, st_max_overflow = max_overflow,
         st_jwt_secret_key = Some jwt,
         st_jwt_algorithm = getenv env ''JWT_ALGORITHM'' ''HS256'',
         st_jwt_expiry_seconds = jwt_expiry,
         st_cors_allow_origins = cors_origins env,
         st_cors_allow_credentials = flag_env env ''CORS_ALLOW_CREDENTIALS'' ''false'',
         st_require_write_scope_for_mutations = flag_env env ''REQUIRE_WRITE_SCOPE_FOR_MUTATIONS'' ''true'',
         st_max_result_rows = max_rows, st_max_result_bytes = max_bytes,
         st_max_query_duration_seconds = max_duration,
         st_fast_query_concurrency_limit = Some fast, st_normal_query_concurrency_limit = Some normal,
         st_expensive_query_concurrency_limit = Some expensive,
         st_cache_invalidation_precise = flag_env env ''CACHE_INVALIDATION_PRECISE'' ''true'',
         st_auth_rate_limit_enabled = flag_env env ''AUTH_RATE_LIMIT_ENABLED'' ''true'',
         st_auth_rate_limit_max_attempts = max_attempts,
         st_auth_rate_limit_window_seconds = window\<rparr>)))))))))))"

definition from_env :: "environment \<Rightarrow> machine \<Rightarrow> app_settings result" where
  "from_env env mc =
     (case env ''JWT_SECRET_KEY'' of
        None \<Rightarrow> Inl (RuntimeError jwt_missing)
      | Some jwt \<Rightarrow>
          if jwt = [] then Inl (RuntimeError jwt_missing)
          else if flag_env env ''CORS_ALLOW_CREDENTIALS'' ''false'' \<and> ''*'' \<in> set (cors_origins env)
          then Inl (RuntimeError cors_wildcard)
          else and_then (recommended_sizing None mc) (build_settings env jwt))"

section \<open>Sizes fit the pools\<close>

lemma cpus_of_pos: "cpus_of q p = Inr (Some n) \<Longrightarrow> 1 \<le> n"
  by (auto simp: cpus_of_def split: if_splits)

lemma cgroup_v1_pos: "cgroup_v1 mc = Inr (Some n) \<Longrightarrow> 1 \<le> n"
  by (auto simp: cgroup_v1_def dest: cpus_of_pos split: option.splits sum.splits if_splits)

lemma cgroup_quota_pos: "cgroup_cpu_quota mc = Inr (Some n) \<Longrightarrow> 1 \<le> n"
  by (auto simp: cgroup_cpu_quota_def dest: cpus_of_pos cgroup_v1_pos split: option.splits sum.splits if_splits list.splits)

lemma py_or_int_pos: "max 1 (py_or_int x 1) \<ge> 1" by simp

text \<open>
  The number of CPUs found is at least one, and never more than a cgroup quota allows or a
  non-empty affinity mask holds, whichever is smaller; the number of CPUs of the host counts only
  when neither is known.
\<close>

theorem detected_cpus_bounded:
  assumes "detect_cpu_count mc = Inr n"
  shows "1 \<le> n \<and> (\<forall>q. cgroup_cpu_quota mc = Inr (Some q) \<longrightarrow> n \<le> q)
    \<and> (\<forall>a. mc_affinity mc = Some a \<longrightarrow> 0 < a \<longrightarrow> n \<le> int a)
    \<and> (cgroup_cpu_quota mc = Inr None \<longrightarrow> mc_affinity mc = None \<longrightarrow> n = max 1 (py_or_int (mc_cpu_count mc) 1))"
proof -
  obtain q where q: "cgroup_cpu_quota mc = Inr q"
    and n: "n = max 1 (py_or_int (case (case q of None \<Rightarrow> map_option int (mc_affinity mc)
        | Some q \<Rightarrow> Some (case map_option int (mc_affinity mc) of None \<Rightarrow> q | Some a \<Rightarrow> min a q))
      of None \<Rightarrow> mc_cpu_count mc | Some c \<Rightarrow> Some c) 1)"
    using assms by (auto simp: detect_cpu_count_def Let_def split: sum.splits)
  show ?thesis
  proof (cases q)
    case None
    with n q show ?thesis by (cases "mc_affinity mc") auto
  next
    case (Some k)
    then have "1 \<le> k" using q cgroup_quota_pos by blast
    with n q Some show ?thesis by (cases "mc_affinity mc") auto
  qed
qed

definition quota_host :: machine where
  "quota_host = \<lparr>mc_affinity = Some 8, mc_cpu_max = Some ''250000 100000'', mc_cfs_quota = None, mc_cfs_period = None,
     mc_cpu_count = Some 8\<rparr>"

theorem detected_cpus_bounded_witness:
  "detect_cpu_count quota_host = Inr 2 \<and> cgroup_cpu_quota quota_host = Inr (Some 2)"
proof -
  have d: "detect_cpu_count quota_host = Inr 2" "cgroup_cpu_quota quota_host = Inr (Some 2)" by code_simp+
  from detected_cpus_bounded [OF d(1)] d show ?thesis by simp
qed

text \<open>
  For every number of CPUs the recommended sizes are valid pool settings, every executor has
  more threads than its pool has connections, and the concurrency limits of the query classes are
  ordered from expensive to fast and let at least two queries run.
\<close>

theorem sizing_fits_pools:
  assumes "recommended_sizing c mc = Inr z"
  shows "pool_settings_validate (default_pool_settings\<lparr>ps_min_size := cz_db_pool_min z, ps_max_size := cz_db_pool_max z\<rparr>) = Inr ()
    \<and> pool_settings_validate (default_pool_settings\<lparr>ps_min_size := cz_service_pool_min z, ps_max_size := cz_service_pool_max z\<rparr>) = Inr ()
    \<and> cz_db_pool_max z < cz_db_executor_workers z \<and> cz_service_pool_max z < cz_service_executor_workers z
    \<and> 2 \<le> cz_expensive_query_concurrency z \<and> cz_expensive_query_concurrency z \<le> cz_normal_query_concurrency z
    \<and> cz_normal_query_concurrency z \<le> cz_fast_query_concurrency z"
proof -
  obtain n where "z = sizing_for n"
    using assms by (auto simp: recommended_sizing_def split: option.splits sum.splits)
  then show ?thesis
    by (auto simp: sizing_for_def pool_settings_validate_def default_pool_settings_def)
qed

theorem sizing_fits_pools_witness:
  "cz_db_pool_max (sizing_for 2) < cz_db_executor_workers (sizing_for 2)
   \<and> recommended_sizing None quota_host = Inr (sizing_for 2)"
proof -
  have r: "recommended_sizing None quota_host = Inr (sizing_for 2)" by code_simp
  from sizing_fits_pools [OF r] r show ?thesis by simp
qed

section \<open>Refusing to start\<close>

lemma py_int_error: "py_int s = Inl e \<Longrightarrow> \<exists>m. e = ValueError m"
  by (auto simp: py_int_def split: prod.splits option.splits)

lemma py_float_error: "py_float s = Inl e \<Longrightarrow> \<exists>m. e = ValueError m"
  by (auto simp: py_float_def split: prod.splits option.splits if_splits)

lemma limit_env_error: "limit_env env k r = Inl e \<Longrightarrow> \<exists>m. e = ValueError m"
  by (auto simp: limit_env_def dest: py_int_error split: option.splits)

lemma and_then_Inl: "and_then r f = Inl e \<longleftrightarrow> r = Inl e \<or> (\<exists>x. r = Inr x \<and> f x = Inl e)"
  by (auto simp: and_then_def split: sum.splits)

lemma and_then_Inr: "and_then r f = Inr y \<longleftrightarrow> (\<exists>x. r = Inr x \<and> f x = Inr y)"
  by (auto simp: and_then_def split: sum.splits)

lemma build_settings_error: "build_settings env jwt z = Inl e \<Longrightarrow> \<exists>m. e = ValueError m"
  unfolding build_settings_def and_then_Inl
  by (elim disjE exE conjE) (simp_all add: py_int_error py_float_error limit_env_error)

lemma cpus_of_error: "cpus_of q p = Inl e \<Longrightarrow> e = OtherError ''ZeroDivisionError''"
  by (auto simp: cpus_of_def split: if_splits)

lemma cgroup_v1_error: "cgroup_v1 mc = Inl e \<Longrightarrow> e = OtherError ''ZeroDivisionError''"
  by (auto simp: cgroup_v1_def dest: cpus_of_error split: option.splits sum.splits if_splits)

lemma cgroup_quota_error: "cgroup_cpu_quota mc = Inl e \<Longrightarrow> e = OtherError ''ZeroDivisionError''"
  by (auto simp: cgroup_cpu_quota_def dest: cpus_of_error cgroup_v1_error split: option.splits sum.splits if_splits list.splits)

lemma recommended_sizing_error: "recommended_sizing c mc = Inl e \<Longrightarrow> e = OtherError ''ZeroDivisionError''"
  by (auto simp: recommended_sizing_def detect_cpu_count_def Let_def dest: cgroup_quota_error split: option.splits sum.splits)

lemma build_settings_fields:
  assumes "build_settings env jwt z = Inr st"
  shows "st_jwt_secret_key st = Some jwt" "st_cors_allow_origins st = cors_origins env"
    "st_cors_allow_credentials st = flag_env env ''CORS_ALLOW_CREDENTIALS'' ''false''"
proof -
  have "st_jwt_secret_key st = Some jwt \<and> st_cors_allow_origins st = cors_origins env
      \<and> st_cors_allow_credentials st = flag_env env ''CORS_ALLOW_CREDENTIALS'' ''false''"
    using assms unfolding build_settings_def and_then_Inr
    by (elim exE conjE) (drule sum.inject(2) [THEN iffD1], erule subst, simp only: app_settings.simps simp_thms)
  then show "st_jwt_secret_key st = Some jwt" "st_cors_allow_origins st = cors_origins env"
    "st_cors_allow_credentials st = flag_env env ''CORS_ALLOW_CREDENTIALS'' ''false''" by blast+
qed

text \<open>
  C35.  The application refuses to start without a signing secret and, with a secret, when
  credentials are allowed for every origin, in exactly these cases; otherwise only a number that does not parse or a
  cgroup period of zero stops it.  Settings that are read have a secret and never allow credentials
  together with the wildcard origin.
\<close>

theorem from_env_refusals:
  "(from_env env mc = Inl (RuntimeError jwt_missing) \<longleftrightarrow> env ''JWT_SECRET_KEY'' \<in> {None, Some []})
   \<and> (from_env env mc = Inl (RuntimeError cors_wildcard) \<longleftrightarrow>
        env ''JWT_SECRET_KEY'' \<notin> {None, Some []} \<and> flag_env env ''CORS_ALLOW_CREDENTIALS'' ''false'' \<and> ''*'' \<in> set (cors_origins env))
   \<and> (\<forall>e. from_env env mc = Inl e \<longrightarrow> e \<in> {RuntimeError jwt_missing, RuntimeError cors_wildcard, OtherError ''ZeroDivisionError''}
        \<or> (\<exists>m. e = ValueError m))
   \<and> (\<forall>st. from_env env mc = Inr st \<longrightarrow> st_jwt_secret_key st \<notin> {None, Some []}
        \<and> \<not> (st_cors_allow_credentials st \<and> ''*'' \<in> set (st_cors_allow_origins st)))"
proof -
  have ne: "jwt_missing \<noteq> cors_wildcard" by (simp add: jwt_missing_def cors_wildcard_def)
  show ?thesis
  proof (cases "env ''JWT_SECRET_KEY'' \<in> {None, Some []}")
    case True
    then show ?thesis using ne by (auto simp: from_env_def)
  next
    case False
    then obtain jwt where j: "env ''JWT_SECRET_KEY'' = Some jwt" "jwt \<noteq> []" by auto
    show ?thesis
    proof (cases "flag_env env ''CORS_ALLOW_CREDENTIALS'' ''false'' \<and> ''*'' \<in> set (cors_origins env)")
      case True
      then show ?thesis using j ne by (simp add: from_env_def)
    next
      case False
      then have f: "from_env env mc = and_then (recommended_sizing None mc) (build_settings env jwt)"
        using j by (auto simp: from_env_def)
      have e: "e = OtherError ''ZeroDivisionError'' \<or> (\<exists>m. e = ValueError m)" if "from_env env mc = Inl e" for e
        using that unfolding f and_then_Inl using recommended_sizing_error build_settings_error by blast
      have s: "st_jwt_secret_key st = Some jwt \<and> \<not> (st_cors_allow_credentials st \<and> ''*'' \<in> set (st_cors_allow_origins st))"
        if "from_env env mc = Inr st" for st
        using that False unfolding f and_then_Inr by (auto simp: build_settings_fields)
      have "env ''JWT_SECRET_KEY'' \<notin> {None, Some []}" "Some jwt \<notin> {None, Some []}" using j by simp_all
      moreover have "\<not> (from_env env mc = Inl (RuntimeError m))" for m using e [of "RuntimeError m"] by auto
      ultimately show ?thesis using e s False by (metis insertCI)
    qed
  qed
qed

definition wildcard_env :: environment where
  "wildcard_env = map_of [(''JWT_SECRET_KEY'', ''secret''), (''CORS_ALLOW_CREDENTIALS'', ''True'')]"

theorem from_env_refusals_witness:
  "from_env wildcard_env quota_host = Inl (RuntimeError cors_wildcard)"
proof -
  have "wildcard_env ''JWT_SECRET_KEY'' \<notin> {None, Some []}" "flag_env wildcard_env ''CORS_ALLOW_CREDENTIALS'' ''false''"
    "''*'' \<in> set (cors_origins wildcard_env)" by code_simp+
  with from_env_refusals [of wildcard_env quota_host] show ?thesis by blast
qed

section \<open>Settings written to the environment read back\<close>

lemma dec_digits_foldl:
  "\<forall>c \<in> set s. is_digit c \<Longrightarrow> dec_digits a s = Some (foldl (\<lambda>a c. 10 * a + digit_value c) a s)"
  by (induction s arbitrary: a) simp_all

lemma digit_char:
  assumes "n < 10"
  shows "is_digit (char_of (48 + n))" "digit_value (char_of (48 + n)) = int n"
proof -
  have "(of_char (char_of (48 + n) :: char) :: nat) = 48 + n" using assms by simp
  then show "is_digit (char_of (48 + n))" "digit_value (char_of (48 + n)) = int n"
    using assms by (simp_all add: is_digit_def digit_value_def)
qed

lemma string_of_nat_digits: "\<forall>c \<in> set (string_of_nat n). is_digit c"
proof (induction n rule: string_of_nat.induct)
  case (1 n)
  show ?case
  proof (cases "n < 10")
    case True
    then show ?thesis using digit_char(1) by (subst string_of_nat.simps) simp
  next
    case False
    have "n mod 10 < 10" by simp
    then show ?thesis using 1 [OF False] False digit_char(1) by (subst string_of_nat.simps) auto
  qed
qed

lemma string_of_nat_nonempty [simp]: "string_of_nat n \<noteq> []"
  by (subst string_of_nat.simps) simp

lemma string_of_nat_value: "foldl (\<lambda>a c. 10 * a + digit_value c) 0 (string_of_nat n) = int n"
proof (induction n rule: string_of_nat.induct)
  case (1 n)
  show ?case
  proof (cases "n < 10")
    case True
    then show ?thesis using digit_char(2) [of n] by (subst string_of_nat.simps) simp
  next
    case False
    have "n mod 10 < 10" by simp
    with 1 [OF False] digit_char(2) [of "n mod 10"] have
      "foldl (\<lambda>a c. 10 * a + digit_value c) 0 (string_of_nat n) = 10 * int (n div 10) + int (n mod 10)"
      using False by (subst string_of_nat.simps) simp
    also have "\<dots> = int n" by presburger
    finally show ?thesis .
  qed
qed

lemma py_digits_string_of_nat: "py_digits (string_of_nat n) = Some (int n)"
proof -
  have "is_digit (hd (string_of_nat n))" using string_of_nat_digits [of n] by (cases "string_of_nat n") auto
  then show ?thesis
    by (simp add: py_digits_def dec_digits_foldl string_of_nat_digits string_of_nat_value)
qed

lemma strip_solid: "\<forall>c \<in> set s. \<not> is_space c \<Longrightarrow> strip s = s"
proof -
  assume a: "\<forall>c \<in> set s. \<not> is_space c"
  have d: "dropWhile is_space t = t" if "\<forall>c \<in> set t. \<not> is_space c" for t using that by (cases t) auto
  show ?thesis using a by (simp add: strip_def d)
qed

lemma digit_solid: "is_digit c \<Longrightarrow> \<not> is_space c \<and> c \<noteq> CHR ''-'' \<and> c \<noteq> CHR ''+''"
  by (auto simp: is_digit_def is_space_def)

lemma py_int_string_of_int [simp]: "py_int (string_of_int n) = Inr n"
proof -
  have s: "strip (string_of_int n) = string_of_int n"
    using string_of_nat_digits digit_solid by (intro strip_solid) (auto simp: string_of_int_def is_space_def)
  have "split_sign (string_of_nat k) = (False, string_of_nat k)" for k
    using string_of_nat_digits [of k] digit_solid by (cases "string_of_nat k") (auto simp: split_sign_def)
  then have "split_sign (string_of_int n) = (n < 0, string_of_nat (nat \<bar>n\<bar>))"
    by (auto simp: string_of_int_def split_sign_def)
  then show ?thesis by (simp add: py_int_def s py_digits_string_of_nat)
qed

definition bool_text :: "bool \<Rightarrow> string" where
  "bool_text b = (if b then ''true'' else ''false'')"

lemma lower_bool_text [simp]: "lower (bool_text b) = ''true'' \<longleftrightarrow> b"
proof -
  have "lower ''true'' = ''true''" "lower ''false'' \<noteq> ''true''" by code_simp+
  then show ?thesis by (simp add: bool_text_def)
qed

definition optional :: "string \<Rightarrow> 'a option \<Rightarrow> ('a \<Rightarrow> string) \<Rightarrow> (string \<times> string) list" where
  "optional k x f = (case x of None \<Rightarrow> [] | Some v \<Rightarrow> [(k, f v)])"

definition env_of :: "app_settings \<Rightarrow> environment" where
  "env_of st = map_of (
     optional ''JWT_SECRET_KEY'' (st_jwt_secret_key st) id @ optional ''DATABASE_URL'' (st_database_url st) id @
     optional ''FAST_QUERY_CONCURRENCY_LIMIT'' (st_fast_query_concurrency_limit st) string_of_int @
     optional ''NORMAL_QUERY_CONCURRENCY_LIMIT'' (st_normal_query_concurrency_limit st) string_of_int @
     optional ''EXPENSIVE_QUERY_CONCURRENCY_LIMIT'' (st_expensive_query_concurrency_limit st) string_of_int @
     [(''APP_NAME'', st_app_name st), (''DEBUG'', bool_text (st_debug st)), (''LOG_LEVEL'', st_log_level st),
      (''SERVICE_DB_PATH'', st_service_db_path st), (''POOL_SIZE'', string_of_int (st_pool_size st)),
      (''MAX_OVERFLOW'', string_of_int (st_max_overflow st)), (''JWT_ALGORITHM'', st_jwt_algorithm st),
      (''JWT_EXPIRY_SECONDS'', string_of_int (st_jwt_expiry_seconds st)),
      (''CORS_ALLOW_ORIGINS'', join_with (CHR '','') (st_cors_allow_origins st)),
      (''CORS_ALLOW_CREDENTIALS'', bool_text (st_cors_allow_credentials st)),
      (''REQUIRE_WRITE_SCOPE_FOR_MUTATIONS'', bool_text (st_require_write_scope_for_mutations st)),
      (''MAX_RESULT_ROWS'', string_of_int (st_max_result_rows st)),
      (''MAX_RESULT_BYTES'', string_of_int (st_max_result_bytes st)),
      (''CACHE_INVALIDATION_PRECISE'', bool_text (st_cache_invalidation_precise st)),
      (''AUTH_RATE_LIMIT_ENABLED'', bool_text (st_auth_rate_limit_enabled st)),
      (''AUTH_RATE_LIMIT_MAX_ATTEMPTS'', string_of_int (st_auth_rate_limit_max_attempts st))])"

text \<open>What makes settings expressible: the two durations have their defaults, the limits are given.\<close>

definition wf_settings :: "app_settings \<Rightarrow> bool" where
  "wf_settings st \<longleftrightarrow> st_jwt_secret_key st \<notin> {None, Some []}
     \<and> \<not> (st_cors_allow_credentials st \<and> ''*'' \<in> set (st_cors_allow_origins st))
     \<and> (\<forall>x \<in> set (st_cors_allow_origins st). strip x = x \<and> x \<noteq> [] \<and> CHR '','' \<notin> set x)
     \<and> st_max_query_duration_seconds st = Finite 30 \<and> st_auth_rate_limit_window_seconds st = Finite 60
     \<and> st_fast_query_concurrency_limit st \<noteq> None \<and> st_normal_query_concurrency_limit st \<noteq> None
     \<and> st_expensive_query_concurrency_limit st \<noteq> None"

lemma map_of_optional:
  "map_of (optional k x f @ rest) k' = (if k' = k then (case x of None \<Rightarrow> map_of rest k | Some v \<Rightarrow> Some (f v)) else map_of rest k')"
  by (simp add: optional_def map_add_def split: option.split)

lemma case_map_option: "(case x of None \<Rightarrow> None | Some v \<Rightarrow> Some (f v)) = map_option f x"
  by (cases x) simp_all

lemma env_of_lookups:
  "env_of st ''JWT_SECRET_KEY'' = st_jwt_secret_key st" "env_of st ''DATABASE_URL'' = st_database_url st"
  "env_of st ''FAST_QUERY_CONCURRENCY_LIMIT'' = map_option string_of_int (st_fast_query_concurrency_limit st)"
  "env_of st ''NORMAL_QUERY_CONCURRENCY_LIMIT'' = map_option string_of_int (st_normal_query_concurrency_limit st)"
  "env_of st ''EXPENSIVE_QUERY_CONCURRENCY_LIMIT'' = map_option string_of_int (st_expensive_query_concurrency_limit st)"
  "env_of st ''MAX_QUERY_DURATION_SECONDS'' = None" "env_of st ''AUTH_RATE_LIMIT_WINDOW_SECONDS'' = None"
  by (simp_all add: env_of_def map_of_optional case_map_option option.map_ident del: map_of_append cong: option.case_cong)

lemma getenv_env_of:
  "getenv (env_of st) ''APP_NAME'' d = st_app_name st" "getenv (env_of st) ''LOG_LEVEL'' d = st_log_level st"
  "getenv (env_of st) ''SERVICE_DB_PATH'' d = st_service_db_path st"
  "getenv (env_of st) ''POOL_SIZE'' d = string_of_int (st_pool_size st)"
  "getenv (env_of st) ''MAX_OVERFLOW'' d = string_of_int (st_max_overflow st)"
  "getenv (env_of st) ''JWT_ALGORITHM'' d = st_jwt_algorithm st"
  "getenv (env_of st) ''JWT_EXPIRY_SECONDS'' d = string_of_int (st_jwt_expiry_seconds st)"
  "getenv (env_of st) ''CORS_ALLOW_ORIGINS'' d = join_with (CHR '','') (st_cors_allow_origins st)"
  "getenv (env_of st) ''MAX_RESULT_ROWS'' d = string_of_int (st_max_result_rows st)"
  "getenv (env_of st) ''MAX_RESULT_BYTES'' d = string_of_int (st_max_result_bytes st)"
  "getenv (env_of st) ''AUTH_RATE_LIMIT_MAX_ATTEMPTS'' d = string_of_int (st_auth_rate_limit_max_attempts st)"
  by (simp_all add: getenv_def env_of_def map_of_optional del: map_of_append)

lemma flag_env_env_of:
  "flag_env (env_of st) ''DEBUG'' d \<longleftrightarrow> st_debug st"
  "flag_env (env_of st) ''CORS_ALLOW_CREDENTIALS'' d \<longleftrightarrow> st_cors_allow_credentials st"
  "flag_env (env_of st) ''REQUIRE_WRITE_SCOPE_FOR_MUTATIONS'' d \<longleftrightarrow> st_require_write_scope_for_mutations st"
  "flag_env (env_of st) ''CACHE_INVALIDATION_PRECISE'' d \<longleftrightarrow> st_cache_invalidation_precise st"
  "flag_env (env_of st) ''AUTH_RATE_LIMIT_ENABLED'' d \<longleftrightarrow> st_auth_rate_limit_enabled st"
  by (simp_all add: flag_env_def getenv_def env_of_def map_of_optional del: map_of_append)

lemma cors_origins_env_of:
  assumes "\<forall>x \<in> set (st_cors_allow_origins st). strip x = x \<and> x \<noteq> [] \<and> CHR '','' \<notin> set x"
  shows "cors_origins (env_of st) = st_cors_allow_origins st"
proof (cases "st_cors_allow_origins st")
  case Nil
  then show ?thesis by (simp add: cors_origins_def getenv_env_of strip_def)
next
  case Cons
  then have "split_on (CHR '','') (join_with (CHR '','') (st_cors_allow_origins st)) = st_cors_allow_origins st"
    using assms by (intro split_on_join) auto
  moreover have "filter (\<lambda>x. strip x \<noteq> []) (st_cors_allow_origins st) = st_cors_allow_origins st"
    using assms by (intro filter_True) auto
  moreover have "map strip (st_cors_allow_origins st) = st_cors_allow_origins st"
    using assms by (intro map_idI) auto
  ultimately show ?thesis by (simp add: cors_origins_def getenv_env_of)
qed

text \<open>
  Settings written out as environment variables, integers in decimal, switches as true or
  false and origins separated by commas, read back as exactly the same settings: no variable is
  confused with another, lost or misread.
\<close>

theorem settings_roundtrip:
  assumes "wf_settings st" "recommended_sizing None mc = Inr z"
  shows "from_env (env_of st) mc = Inr st"
proof -
  have f: "py_float ''30.0'' = Inr (Finite 30)" "py_float ''60.0'' = Inr (Finite 60)" by code_simp+
  from assms(1) obtain jwt fast normal expensive where o: "st_jwt_secret_key st = Some jwt" "jwt \<noteq> []"
    "st_fast_query_concurrency_limit st = Some fast" "st_normal_query_concurrency_limit st = Some normal"
    "st_expensive_query_concurrency_limit st = Some expensive"
    by (auto simp: wf_settings_def)
  have c: "cors_origins (env_of st) = st_cors_allow_origins st"
    using assms(1) by (intro cors_origins_env_of) (simp add: wf_settings_def)
  have d: "getenv (env_of st) ''MAX_QUERY_DURATION_SECONDS'' ''30.0'' = ''30.0''"
    "getenv (env_of st) ''AUTH_RATE_LIMIT_WINDOW_SECONDS'' ''60.0'' = ''60.0''"
    by (simp_all add: getenv_def env_of_lookups)
  have "build_settings (env_of st) jwt z = Inr st"
    unfolding build_settings_def
    by (simp add: getenv_env_of flag_env_env_of env_of_lookups limit_env_def o c d f and_then_def)
       (use assms(1) o in \<open>simp add: wf_settings_def\<close>)
  then show ?thesis
    using assms o by (simp add: from_env_def env_of_lookups flag_env_env_of c and_then_def wf_settings_def)
qed

definition strict_settings :: app_settings where
  "strict_settings = default_app_settings\<lparr>st_jwt_secret_key := Some ''0123456789abcdef'', st_max_result_rows := 500,
     st_cors_allow_origins := [''https://a.example'', ''https://b.example''], st_cors_allow_credentials := True,
     st_fast_query_concurrency_limit := Some 50, st_normal_query_concurrency_limit := Some 20,
     st_expensive_query_concurrency_limit := Some 2\<rparr>"

theorem settings_roundtrip_witness: "from_env (env_of strict_settings) quota_host = Inr strict_settings"
proof -
  have "wf_settings strict_settings" "recommended_sizing None quota_host = Inr (sizing_for 2)" by code_simp+
  then show ?thesis by (rule settings_roundtrip)
qed

text \<open>
  With nothing but a secret in the environment the settings are the declared defaults, except for
  the application's name, and with limits derived from the CPUs.
\<close>

lemma env_defaults:
  "from_env (map_of [(''JWT_SECRET_KEY'', ''s'')]) quota_host =
     Inr (default_app_settings\<lparr>st_app_name := ''salesinfo-api'', st_jwt_secret_key := Some ''s'',
       st_fast_query_concurrency_limit := Some 50, st_normal_query_concurrency_limit := Some 20,
       st_expensive_query_concurrency_limit := Some 2\<rparr>)"
proof -
  have m: "string_of_int (10 * 1024 * 1024) = ''10485760''" by (simp add: string_of_int_def string_of_nat.simps) code_simp
  show ?thesis by (unfold from_env_def build_settings_def m) code_simp
qed

end
