(* ===== verification/Sampling.thy ===== *)
theory Sampling
  imports App_Settings
begin

text \<open>
  \<open>src/core/performance/adaptive_sampler.py\<close>, \<open>config.py\<close> and the sampling decision of
  \<open>middleware/fastapi.py\<close>: which requests are profiled.  The clock and the random numbers are
  arguments, one for each read.
\<close>

section \<open>Configuration\<close>

record performance_config =
  pc_enabled :: bool
  pc_sample_rate_percent :: int
  pc_max_trace_nodes :: int
  pc_max_request_history :: int
  pc_adaptive_sampling :: bool
  pc_target_samples_per_second :: py_float
  pc_min_sample_rate_percent :: py_float
  pc_max_sample_rate_percent :: py_float
  pc_slow_request_threshold_seconds :: py_float
  pc_escalation_seconds :: py_float

definition default_performance_config :: performance_config where
  "default_performance_config = \<lparr>pc_enabled = False, pc_sample_rate_percent = 100, pc_max_trace_nodes = 256,
     pc_max_request_history = 1000, pc_adaptive_sampling = False, pc_target_samples_per_second = Finite 5,
     pc_min_sample_rate_percent = Finite 1, pc_max_sample_rate_percent = Finite 100,
     pc_slow_request_threshold_seconds = Finite 2, pc_escalation_seconds = Finite 30\<rparr>"

definition configuration_error :: "string \<Rightarrow> py_exc" where
  "configuration_error m = OtherError (''PerformanceConfigurationError: '' @ m)"

definition config_post_init :: "performance_config \<Rightarrow> performance_config result" where
  "config_post_init c =
     (if \<not> (0 \<le> pc_sample_rate_percent c \<and> pc_sample_rate_percent c \<le> 100)
      then Inl (configuration_error ''sample_rate_percent must be between 0 and 100'')
      else if pc_max_trace_nodes c < 1 then Inl (configuration_error ''max_trace_nodes must be positive'')
      else if pc_max_request_history c < 0 then Inl (configuration_error ''max_request_history cannot be negative'')
      else Inr c)"

text \<open>\<open>draw\<close> is \<open>random.randint(1, 100)\<close>.\<close>

definition config_should_sample :: "int \<Rightarrow> performance_config \<Rightarrow> bool" where
  "config_should_sample draw c =
     (if \<not> pc_enabled c then False
      else if pc_sample_rate_percent c \<ge> 100 then True
      else if pc_sample_rate_percent c \<le> 0 then False
      else draw \<le> pc_sample_rate_percent c)"

definition read_bool :: "environment \<Rightarrow> string \<Rightarrow> bool \<Rightarrow> bool result" where
  "read_bool env k d =
     (case env k of None \<Rightarrow> Inr d
      | Some v \<Rightarrow>
          (let n = lower (strip v) in
           if n \<in> {''1'', ''true'', ''yes'', ''on''} then Inr True
           else if n \<in> {''0'', ''false'', ''no'', ''off''} then Inr False
           else Inl (configuration_error (k @ '' must be a boolean value''))))"

definition read_int :: "environment \<Rightarrow> string \<Rightarrow> int \<Rightarrow> int result" where
  "read_int env k d =
     (case env k of None \<Rightarrow> Inr d
      | Some v \<Rightarrow> (case py_int v of Inl _ \<Rightarrow> Inl (configuration_error (k @ '' must be an integer'')) | Inr n \<Rightarrow> Inr n))"

definition read_float :: "environment \<Rightarrow> string \<Rightarrow> rat \<Rightarrow> py_float result" where
  "read_float env k d =
     (case env k of None \<Rightarrow> Inr (Finite d)
      | Some v \<Rightarrow> (case py_float v of Inl _ \<Rightarrow> Inl (configuration_error (k @ '' must be a number'')) | Inr x \<Rightarrow> Inr x))"

definition performance_from_env :: "environment \<Rightarrow> performance_config result" where
  "performance_from_env env =
     and_then (read_bool env ''PERF_ENABLED'' False) (\<lambda>enabled.
     and_then (read_int env ''PERF_SAMPLE_RATE_PERCENT'' 100) (\<lambda>rate.
     and_then (read_int env ''PERF_MAX_TRACE_NODES'' 256) (\<lambda>nodes.
     and_then (read_int env ''PERF_MAX_REQUEST_HISTORY'' 1000) (\<lambda>history.
     and_then (read_bool env ''PERF_ADAPTIVE_SAMPLING'' False) (\<lambda>adaptive.
     and_then (read_float env ''PERF_TARGET_SAMPLES_PER_SECOND'' 5) (\<lambda>target.
     and_then (read_float env ''PERF_MIN_SAMPLE_RATE_PERCENT'' 1) (\<lambda>min_rate.
     and_then (read_float env ''PERF_MAX_SAMPLE_RATE_PERCENT'' 100) (\<lambda>max_rate.
     and_then (read_float env ''PERF_SLOW_REQUEST_THRESHOLD_SECONDS'' 2) (\<lambda>slow.
     and_then (read_float env ''PERF_ESCALATION_SECONDS'' 30) (\<lambda>escalation.
       config_post_init \<lparr>pc_enabled = enabled, pc_sample_rate_percent = rate, pc_max_trace_nodes = nodes,
         pc_max_request_history = history, pc_adaptive_sampling = adaptive,
         pc_target_samples_per_second = target, pc_min_sample_rate_percent = min_rate,
         pc_max_sample_rate_percent = max_rate, pc_slow_request_threshold_seconds = slow,
         pc_escalation_seconds = escalation\<rparr>))))))))))"

section \<open>The adaptive sampler\<close>

record sampler_config =
  sc_target :: rat
  sc_min_rate :: rat
  sc_max_rate :: rat
  sc_interval :: seconds
  sc_slow :: seconds
  sc_escalation :: seconds

definition default_sampler_config :: sampler_config where
  "default_sampler_config = \<lparr>sc_target = 5, sc_min_rate = 1, sc_max_rate = 100, sc_interval = 5, sc_slow = 2, sc_escalation = 30\<rparr>"

record sampler =
  sm_config :: sampler_config
  sm_rate :: rat
  sm_window_start :: seconds
  sm_window_sampled :: nat
  sm_window_requests :: nat
  sm_escalated_until :: seconds
  sm_total_requests :: nat
  sm_total_sampled :: nat
  sm_total_escalations :: nat
  sm_total_bad_outcomes :: nat

definition sampler_new :: "sampler_config \<Rightarrow> seconds \<Rightarrow> sampler" where
  "sampler_new c now = \<lparr>sm_config = c, sm_rate = sc_max_rate c, sm_window_start = now, sm_window_sampled = 0,
     sm_window_requests = 0, sm_escalated_until = 0, sm_total_requests = 0, sm_total_sampled = 0,
     sm_total_escalations = 0, sm_total_bad_outcomes = 0\<rparr>"

definition adjusted_rate :: "sampler_config \<Rightarrow> rat \<Rightarrow> rat \<Rightarrow> rat" where
  "adjusted_rate c actual_rate rate =
     (if actual_rate < sc_target c then min (sc_max_rate c) (rate * (3 / 2) + 1)
      else if actual_rate > sc_target c * (6 / 5) then max (sc_min_rate c) (rate * (7 / 10))
      else rate)"

text \<open>\<open>t1\<close> is read for the elapsed time, \<open>t2\<close> for the start of the new window.\<close>

definition maybe_adjust :: "seconds \<Rightarrow> seconds \<Rightarrow> sampler \<Rightarrow> sampler" where
  "maybe_adjust t1 t2 s =
     (let elapsed = t1 - sm_window_start s in
      if elapsed < sc_interval (sm_config s) then s
      else s\<lparr>sm_rate := adjusted_rate (sm_config s)
               (if elapsed > 0 then of_nat (sm_window_sampled s) / elapsed else 0) (sm_rate s),
             sm_window_start := t2, sm_window_sampled := 0, sm_window_requests := 0\<rparr>)"

definition should_sample :: "seconds \<times> seconds \<times> seconds \<Rightarrow> rat \<Rightarrow> sampler \<Rightarrow> sampler \<times> bool" where
  "should_sample ts draw s =
     (case ts of (t1, t2, t3) \<Rightarrow>
       let s1 = maybe_adjust t1 t2 (s\<lparr>sm_total_requests := Suc (sm_total_requests s), sm_window_requests := Suc (sm_window_requests s)\<rparr>);
           sampled = (t3 < sm_escalated_until s1 \<or> draw < sm_rate s1)
       in (if sampled then s1\<lparr>sm_window_sampled := Suc (sm_window_sampled s1), sm_total_sampled := Suc (sm_total_sampled s1)\<rparr> else s1,
           sampled))"

definition escalate :: "seconds \<Rightarrow> sampler \<Rightarrow> sampler" where
  "escalate now s = s\<lparr>sm_total_escalations := Suc (sm_total_escalations s),
     sm_escalated_until := now + sc_escalation (sm_config s), sm_rate := sc_max_rate (sm_config s)\<rparr>"

text \<open>The flag of the source's \<open>was_sampled\<close> only decides about a log line.\<close>

definition record_outcome :: "nat \<Rightarrow> seconds \<Rightarrow> seconds \<Rightarrow> sampler \<Rightarrow> sampler" where
  "record_outcome status_code duration now s =
     (if status_code \<ge> 500 \<or> duration \<ge> sc_slow (sm_config s)
      then escalate now (s\<lparr>sm_total_bad_outcomes := Suc (sm_total_bad_outcomes s)\<rparr>)
      else s)"

record sampler_metrics =
  sx_rate_percent :: rat
  sx_target :: rat
  sx_escalated :: bool
  sx_total_requests :: nat
  sx_total_sampled :: nat
  sx_total_escalations :: nat
  sx_total_bad_outcomes :: nat

definition sampler_metrics_at :: "seconds \<Rightarrow> sampler \<Rightarrow> sampler_metrics" where
  "sampler_metrics_at now s = \<lparr>sx_rate_percent = py_round 2 (sm_rate s), sx_target = sc_target (sm_config s),
     sx_escalated = (now < sm_escalated_until s), sx_total_requests = sm_total_requests s,
     sx_total_sampled = sm_total_sampled s, sx_total_escalations = sm_total_escalations s,
     sx_total_bad_outcomes = sm_total_bad_outcomes s\<rparr>"

section \<open>The middleware's decision\<close>

text \<open>
  Whether the request that arrives is profiled: by the sampler when there is one, else by the
  configuration.
\<close>

definition sampling_decision ::
  "seconds \<times> seconds \<times> seconds \<Rightarrow> rat \<Rightarrow> int \<Rightarrow> performance_config \<Rightarrow> sampler option \<Rightarrow> sampler option \<times> bool" where
  "sampling_decision ts draw dice c s =
     (case s of None \<Rightarrow> (None, config_should_sample dice c)
      | Some sm \<Rightarrow> (case should_sample ts draw sm of (sm', b) \<Rightarrow> (Some sm', b)))"

text \<open>Every request reports its outcome to the sampler; one without a response counts as status 500.\<close>

definition report_outcome :: "nat option \<Rightarrow> seconds \<Rightarrow> seconds \<Rightarrow> sampler option \<Rightarrow> sampler option" where
  "report_outcome response duration now s =
     map_option (record_outcome (case response of None \<Rightarrow> 500 | Some status \<Rightarrow> status) duration now) s"

section \<open>Bounds\<close>

datatype sampler_event = Ask "seconds \<times> seconds \<times> seconds" rat | Outcome nat seconds seconds

fun sampler_do :: "sampler_event \<Rightarrow> sampler \<Rightarrow> sampler" where
  "sampler_do (Ask ts draw) s = fst (should_sample ts draw s)"
| "sampler_do (Outcome status duration now) s = record_outcome status duration now s"

definition sampler_run :: "sampler_event list \<Rightarrow> sampler \<Rightarrow> sampler" where
  "sampler_run es s = fold sampler_do es s"

definition rate_ok :: "sampler \<Rightarrow> bool" where
  "rate_ok s \<longleftrightarrow> sc_min_rate (sm_config s) \<le> sm_rate s \<and> sm_rate s \<le> sc_max_rate (sm_config s)"

definition sane_rates :: "sampler_config \<Rightarrow> bool" where
  "sane_rates c \<longleftrightarrow> 0 \<le> sc_min_rate c \<and> sc_min_rate c \<le> sc_max_rate c"

lemma sampler_frames [simp]:
  "sm_config (maybe_adjust t1 t2 s) = sm_config s" "sm_config (fst (should_sample ts draw s)) = sm_config s"
  "sm_config (record_outcome st d now s) = sm_config s" "sm_config (sampler_do e s) = sm_config s"
  "sm_escalated_until (maybe_adjust t1 t2 s) = sm_escalated_until s"
  "sm_escalated_until (fst (should_sample ts draw s)) = sm_escalated_until s"
proof -
  have m: "sm_config (maybe_adjust t1 t2 s) = sm_config s" "sm_escalated_until (maybe_adjust t1 t2 s) = sm_escalated_until s" for t1 t2 s
    by (simp_all add: maybe_adjust_def Let_def)
  have q: "sm_config (fst (should_sample ts draw s)) = sm_config s"
    "sm_escalated_until (fst (should_sample ts draw s)) = sm_escalated_until s" for ts draw
    by (simp_all add: should_sample_def Let_def m split: prod.split)
  have r: "sm_config (record_outcome st d now s) = sm_config s" for st d now
    by (simp add: record_outcome_def escalate_def)
  have "sm_config (sampler_do e s) = sm_config s" by (cases e) (simp_all add: q r)
  then show "sm_config (maybe_adjust t1 t2 s) = sm_config s" "sm_config (fst (should_sample ts draw s)) = sm_config s"
    "sm_config (record_outcome st d now s) = sm_config s" "sm_config (sampler_do e s) = sm_config s"
    "sm_escalated_until (maybe_adjust t1 t2 s) = sm_escalated_until s"
    "sm_escalated_until (fst (should_sample ts draw s)) = sm_escalated_until s"
    by (simp_all add: m q r)
qed

lemma sampler_run_config [simp]: "sm_config (sampler_run es s) = sm_config s"
  by (induction es arbitrary: s) (simp_all add: sampler_run_def)

lemma adjusted_rate_bounds:
  assumes "sane_rates c" "sc_min_rate c \<le> r" "r \<le> sc_max_rate c"
  shows "sc_min_rate c \<le> adjusted_rate c a r \<and> adjusted_rate c a r \<le> sc_max_rate c"
  using assms by (auto simp: adjusted_rate_def sane_rates_def)

lemma should_sample_rate: "sm_rate (fst (should_sample (t1, t2, t3) draw s)) =
    (if t1 - sm_window_start s < sc_interval (sm_config s) then sm_rate s
     else adjusted_rate (sm_config s) (if t1 - sm_window_start s > 0 then of_nat (sm_window_sampled s) / (t1 - sm_window_start s) else 0) (sm_rate s))"
  by (simp add: should_sample_def maybe_adjust_def Let_def)

lemma rate_ok_step:
  assumes "sane_rates (sm_config s)" "rate_ok s"
  shows "rate_ok (sampler_do e s)"
proof (cases e)
  case (Ask ts draw)
  obtain t1 t2 t3 where "ts = (t1, t2, t3)" by (metis prod_cases3)
  then show ?thesis
    using assms adjusted_rate_bounds [OF assms(1), of "sm_rate s"] Ask
    by (simp add: rate_ok_def should_sample_rate)
next
  case (Outcome st d now)
  then show ?thesis using assms by (simp add: rate_ok_def record_outcome_def escalate_def sane_rates_def)
qed

text \<open>
  Whatever the traffic, the outcomes and the clock, the sampling rate stays between the
  configured minimum and maximum.
\<close>

theorem sampler_rate_bounded:
  assumes "sane_rates c"
  shows "rate_ok (sampler_run es (sampler_new c now))"
proof -
  have run: "rate_ok (sampler_run es s)" if "sane_rates (sm_config s)" "rate_ok s" for s
    using that
  proof (induction es arbitrary: s)
    case (Cons e es)
    then show ?case using rate_ok_step [of s e] by (simp add: sampler_run_def)
  qed (simp add: sampler_run_def)
  show ?thesis
    by (rule run) (use assms in \<open>simp_all add: sampler_new_def rate_ok_def sane_rates_def\<close>)
qed

theorem sampler_rate_bounded_witness:
  "rate_ok (sampler_run [Ask (6, 6, 6) 3, Outcome 500 1 7] (sampler_new default_sampler_config 0))"
  by (rule sampler_rate_bounded) (simp add: sane_rates_def default_sampler_config_def)

section \<open>Escalation\<close>

definition bad_outcome :: "sampler_config \<Rightarrow> nat \<Rightarrow> seconds \<Rightarrow> bool" where
  "bad_outcome c status duration \<longleftrightarrow> status \<ge> 500 \<or> duration \<ge> sc_slow c"

text \<open>
  After a failed or slow request every request that asks within the escalation time is
  sampled, whatever its random number and whatever happened in between, as long as later outcomes
  are reported at later times.
\<close>

theorem escalation_samples_everything:
  assumes "bad_outcome (sm_config s) status duration"
    and "\<forall>e \<in> set es. case e of Outcome _ _ now' \<Rightarrow> now \<le> now' | Ask _ _ \<Rightarrow> True"
    and "t3 < now + sc_escalation (sm_config s)"
  shows "snd (should_sample (t1, t2, t3) draw (sampler_run es (record_outcome status duration now s)))"
proof -
  have keep: "now + sc_escalation (sm_config u) \<le> sm_escalated_until (sampler_run es u)"
    if "now + sc_escalation (sm_config u) \<le> sm_escalated_until u" for u
    using assms(2) that
  proof (induction es arbitrary: u)
    case (Cons e es)
    have "now + sc_escalation (sm_config u) \<le> sm_escalated_until (sampler_do e u)"
      using Cons.prems by (cases e) (simp_all add: record_outcome_def escalate_def)
    with Cons.IH [of "sampler_do e u"] Cons.prems(1) show ?case by (simp add: sampler_run_def)
  qed (simp add: sampler_run_def)
  let ?s = "record_outcome status duration now s"
  have "now + sc_escalation (sm_config ?s) \<le> sm_escalated_until ?s"
    using assms(1) by (simp add: record_outcome_def escalate_def bad_outcome_def)
  from keep [OF this] assms(3) have "t3 < sm_escalated_until (sampler_run es ?s)" by simp
  then show ?thesis by (simp add: should_sample_def Let_def)
qed

theorem escalation_samples_everything_witness:
  "snd (should_sample (20, 20, 20) 100 (sampler_run [Ask (12, 12, 12) 0, Outcome 200 9 13]
      (record_outcome 503 0 10 (sampler_new default_sampler_config 0))))"
  by (rule escalation_samples_everything) (simp_all add: bad_outcome_def sampler_new_def default_sampler_config_def)

section \<open>Recovery\<close>

text \<open>Requests so far apart that each of them closes a window.\<close>

fun spaced :: "seconds \<Rightarrow> seconds \<Rightarrow> ((seconds \<times> seconds \<times> seconds) \<times> rat) list \<Rightarrow> bool" where
  "spaced interval start [] = True"
| "spaced interval start (((t1, t2, t3), draw) # rs) \<longleftrightarrow> start + interval \<le> t1 \<and> spaced interval t2 rs"

definition ask_all :: "((seconds \<times> seconds \<times> seconds) \<times> rat) list \<Rightarrow> sampler \<Rightarrow> sampler" where
  "ask_all rs s = sampler_run (map (\<lambda>(ts, draw). Ask ts draw) rs) s"

text \<open>
  C36.  Sparse traffic ends up fully sampled: when the requests come further apart than the
  adjustment interval and one sample in an interval is below the target, the rate reaches the maximum
  after at most as many requests as the maximum has percents, from any rate it may have
  fallen to.
\<close>

theorem sparse_traffic_reaches_maximum:
  assumes "sane_rates (sm_config s)" "rate_ok s" "0 < sc_interval (sm_config s)"
    and "1 < sc_target (sm_config s) * sc_interval (sm_config s)" "sm_window_sampled s \<le> 1"
    and "spaced (sc_interval (sm_config s)) (sm_window_start s) rs"
    and "sc_max_rate (sm_config s) \<le> of_nat (length rs)"
  shows "sm_rate (ask_all rs s) = sc_max_rate (sm_config s)"
proof -
  have main: "min (sc_max_rate (sm_config u)) (sm_rate u + of_nat (length rs)) \<le> sm_rate (ask_all rs u)
      \<and> rate_ok (ask_all rs u)"
    if "sane_rates (sm_config u)" "rate_ok u" "0 < sc_interval (sm_config u)"
      "1 < sc_target (sm_config u) * sc_interval (sm_config u)" "sm_window_sampled u \<le> 1"
      "spaced (sc_interval (sm_config u)) (sm_window_start u) rs" for u rs
    using that
  proof (induction rs arbitrary: u)
    case (Cons r rs)
    obtain t1 t2 t3 draw where r: "r = ((t1, t2, t3), draw)" by (metis prod_cases3 surj_pair)
    let ?c = "sm_config u" and ?v = "sampler_do (Ask (t1, t2, t3) draw) u"
    define e where "e = t1 - sm_window_start u"
    have e: "sc_interval ?c \<le> e" "0 < e" using Cons.prems(3,6) r by (auto simp: e_def)
    have "of_nat (sm_window_sampled u) / e \<le> 1 / e" using e(2) Cons.prems(5) by (simp add: divide_right_mono)
    also have "\<dots> \<le> 1 / sc_interval ?c" using e Cons.prems(3) by (simp add: frac_le)
    also have "\<dots> < sc_target ?c" using Cons.prems(3,4) by (simp add: divide_less_eq)
    finally have low: "of_nat (sm_window_sampled u) / e < sc_target ?c" .
    then have rate: "sm_rate ?v = min (sc_max_rate ?c) (sm_rate u * (3 / 2) + 1)"
      using e by (simp add: should_sample_rate adjusted_rate_def flip: e_def)
    have v: "sm_window_sampled ?v \<le> 1" "sm_window_start ?v = t2"
      using e by (simp_all add: should_sample_def maybe_adjust_def Let_def flip: e_def)
    have ih: "min (sc_max_rate ?c) (sm_rate ?v + of_nat (length rs)) \<le> sm_rate (ask_all rs ?v) \<and> rate_ok (ask_all rs ?v)"
      using Cons.IH [of ?v] Cons.prems r v rate_ok_step [OF Cons.prems(1,2), of "Ask (t1, t2, t3) draw"] by simp
    have "0 \<le> sm_rate u" using Cons.prems(1,2) by (simp add: sane_rates_def rate_ok_def)
    then have "min (sc_max_rate ?c) (sm_rate u + 1) \<le> sm_rate ?v" unfolding rate by (simp add: min_def)
    then have "min (sc_max_rate ?c) (sm_rate u + of_nat (length (r # rs))) \<le> min (sc_max_rate ?c) (sm_rate ?v + of_nat (length rs))"
      by (auto simp: min_def split: if_splits)
    also have "\<dots> \<le> sm_rate (ask_all rs ?v)" using ih by (rule conjunct1)
    finally have "min (sc_max_rate ?c) (sm_rate u + of_nat (length (r # rs))) \<le> sm_rate (ask_all rs ?v)" .
    moreover have "ask_all (r # rs) u = ask_all rs ?v" by (simp add: ask_all_def sampler_run_def r)
    ultimately show ?case using ih by (simp only:)
  qed (simp add: ask_all_def sampler_run_def rate_ok_def)
  have "0 \<le> sm_rate s" using assms(1,2) by (simp add: sane_rates_def rate_ok_def)
  then have "min (sc_max_rate (sm_config s)) (sm_rate s + of_nat (length rs)) = sc_max_rate (sm_config s)"
    using assms(7) by simp
  moreover have "sm_config (ask_all rs s) = sm_config s" by (simp add: ask_all_def)
  ultimately show ?thesis using main [OF assms(1-6)] by (simp add: rate_ok_def)
qed

definition decayed :: sampler where
  "decayed = (sampler_new (default_sampler_config\<lparr>sc_max_rate := 4\<rparr>) 0)\<lparr>sm_rate := 1\<rparr>"

theorem sparse_traffic_reaches_maximum_witness:
  "sm_rate (ask_all [((5, 5, 5), 0), ((10, 10, 10), 0), ((15, 15, 15), 0), ((20, 20, 20), 0)] decayed) = 4"
  using sparse_traffic_reaches_maximum [of decayed "[((5, 5, 5), 0), ((10, 10, 10), 0), ((15, 15, 15), 0), ((20, 20, 20), 0)]"]
  by (simp add: decayed_def sampler_new_def default_sampler_config_def sane_rates_def rate_ok_def)

text \<open>
  A sampler decides without asking whether profiling is enabled: with adaptive sampling switched
  on, requests are profiled although \<open>PERF_ENABLED\<close> is off.
\<close>

theorem adaptive_sampling_ignores_enabled:
  assumes "\<not> pc_enabled c"
  shows "snd (sampling_decision ts draw dice c None) = False"
    "snd (sampling_decision (0, 0, 0) 0 dice c (Some (sampler_new default_sampler_config 0))) = True"
  using assms by (simp_all add: sampling_decision_def config_should_sample_def should_sample_def maybe_adjust_def
      sampler_new_def default_sampler_config_def)

end
