(* ===== verification/Query_Routes.thy ===== *)
theory Query_Routes
  imports Auth Alerts Sampling
begin

text \<open>
  \<open>src/core/app/api/routes/query.py\<close>, \<open>src/core/app/health.py\<close>, the request and response models
  of \<open>schemas.py\<close> and the dependencies of \<open>dependencies.py\<close>: the handlers that answer a query, list
  and describe tables and report the health of the service, and a query from its credential
  through the authentication middleware to the warehouse.
\<close>

section \<open>Requests and responses\<close>

record query_request =
  qr_sql :: string
  qr_params :: "string list option"

record query_response =
  qp_success :: bool
  qp_data :: "rows option"
  qp_error :: "string option"
  qp_row_count :: nat
  qp_cached :: bool
  qp_truncated :: bool

record tables_response =
  tr_tables :: "string list"
  tr_count :: nat

record health_response =
  hr_status :: string
  hr_db_connected :: bool
  hr_snapshot :: "health_snapshot option"
  hr_alerts :: "alert list"

section \<open>Dependencies\<close>

definition get_db_session :: "'a option \<Rightarrow> 'a result" where
  "get_db_session s = (case s of None \<Rightarrow> Inl (HTTPException 503 ''Database is not configured or unavailable'') | Some x \<Rightarrow> Inr x)"

definition get_service_manager :: "'a option \<Rightarrow> 'a result" where
  "get_service_manager s = (case s of None \<Rightarrow> Inl (HTTPException 503 ''Service manager is not configured or unavailable'') | Some x \<Rightarrow> Inr x)"

definition get_settings :: "app_settings option \<Rightarrow> app_settings result" where
  "get_settings s = (case s of None \<Rightarrow> Inl (RuntimeError ''AppSettings not configured'') | Some x \<Rightarrow> Inr x)"

text \<open>What the middleware left in the request's state; nothing for a public path.\<close>

definition get_current_user :: "auth_outcome \<Rightarrow> identity" where
  "get_current_user r =
     (case r of PassAs w \<Rightarrow> w
      | _ \<Rightarrow> \<lparr>id_user_id = [], id_username = [], id_role = [], id_scopes = [], id_session_id = []\<rparr>)"

section \<open>Queries\<close>

definition write_scope_detail :: string where
  "write_scope_detail = ''This statement requires the 'write' scope. Mint an API key with scopes='read,write', or use a SELECT/WITH statement instead.''"

text \<open>The service a request gets: the shared configuration with the two switches of the settings.\<close>

definition route_config :: "app_settings \<Rightarrow> qs_config \<Rightarrow> qs_config" where
  "route_config st cfg = cfg\<lparr>qs_require_write_scope := st_require_write_scope_for_mutations st,
     qs_precise := st_cache_invalidation_precise st\<rparr>"

text \<open>\<open>CancelledError\<close> is no \<open>Exception\<close> and passes through every handler.\<close>

definition execute_query ::
  "(py_exc \<Rightarrow> string) \<Rightarrow> (string list \<Rightarrow> string) \<Rightarrow> 'db warehouse \<Rightarrow> app_settings \<Rightarrow> qs_config \<Rightarrow> circumstances \<Rightarrow> query_request \<Rightarrow> identity
     \<Rightarrow> 'db service \<Rightarrow> 'db service \<times> query_response result" where
  "execute_query exc_text params_text exec st cfg e q who s =
     (case qs_run exec (route_config st cfg) e (qr_sql q) (params_text (case qr_params q of None \<Rightarrow> [] | Some ps \<Rightarrow> ps))
         (Some (id_user_id who)) (id_scopes who) s of
        (s', Inr r) \<Rightarrow>
          (s', Inr \<lparr>qp_success = True, qp_data = Some (qo_data r), qp_error = None, qp_row_count = length (qo_data r),
             qp_cached = qo_cached r, qp_truncated = qo_truncated r\<rparr>)
      | (s', Inl x) \<Rightarrow>
          (s', if x = QueryAuthorizationError then Inl (HTTPException 403 write_scope_detail)
               else if x = CancelledError then Inl x
               else Inr \<lparr>qp_success = False, qp_data = None, qp_error = Some (exc_text x), qp_row_count = 0,
                      qp_cached = False, qp_truncated = False\<rparr>))"

text \<open>A query as it arrives: the middleware, then the handler; a caller without a credential gets an empty 401.\<close>

definition handle_query ::
  "auth_env \<Rightarrow> bool \<Rightarrow> bool \<Rightarrow> seconds \<Rightarrow> seconds \<Rightarrow> request
     \<Rightarrow> (py_exc \<Rightarrow> string) \<Rightarrow> (string list \<Rightarrow> string) \<Rightarrow> 'db warehouse \<Rightarrow> app_settings \<Rightarrow> qs_config \<Rightarrow> circumstances \<Rightarrow> query_request
     \<Rightarrow> auth_state \<Rightarrow> 'db service \<Rightarrow> (auth_state \<times> 'db service) \<times> query_response result" where
  "handle_query env fk fu mt now rq exc_text params_text exec st cfg e q a s =
     (case enforce_auth env fk fu mt now rq a of
        (a', Unauthorized) \<Rightarrow> ((a', s), Inl (HTTPException 401 []))
      | (a', r) \<Rightarrow>
          (case execute_query exc_text params_text exec st cfg e q (get_current_user r) s of
             (s', reply) \<Rightarrow> ((a', s'), reply)))"

section \<open>Tables\<close>

text \<open>The adapter's catalog, read outside the pool.\<close>

record 'db catalog =
  cat_tables :: "'db \<Rightarrow> string list result"
  cat_schema :: "string \<Rightarrow> 'db \<Rightarrow> rows result"

definition list_tables :: "'db catalog \<Rightarrow> 'db \<Rightarrow> tables_response result" where
  "list_tables cat db =
     (case cat_tables cat db of
        Inr ts \<Rightarrow> Inr \<lparr>tr_tables = ts, tr_count = length ts\<rparr>
      | Inl x \<Rightarrow> Inl (if x = CancelledError then x else HTTPException 500 ''Failed to list tables''))"

definition unknown_table :: "string \<Rightarrow> py_exc" where
  "unknown_table t = HTTPException 404 (''Unknown table: '' @ t)"

definition get_table_schema :: "'db catalog \<Rightarrow> string \<Rightarrow> 'db \<Rightarrow> (string \<times> rows) result" where
  "get_table_schema cat t db =
     (let failed = (\<lambda>x. if x = CancelledError then x else HTTPException 404 (''Table or schema not found: '' @ t)) in
      case cat_tables cat db of
        Inl x \<Rightarrow> Inl (failed x)
      | Inr ts \<Rightarrow>
          if t \<notin> set ts then Inl (unknown_table t)
          else (case cat_schema cat t db of Inl x \<Rightarrow> Inl (failed x) | Inr cols \<Rightarrow> Inr (t, cols)))"

definition count_statement :: "string \<Rightarrow> string" where
  "count_statement t = ''SELECT COUNT(*) as count FROM '' @ t"

text \<open>\<open>params_text\<close> of no parameters is the argument \<open>none\<close>.\<close>

definition get_table_count :: "'db warehouse \<Rightarrow> string \<Rightarrow> 'db catalog \<Rightarrow> string \<Rightarrow> 'db \<Rightarrow> 'db \<times> (string \<times> sql_value) result" where
  "get_table_count exec none cat t db =
     (let failed = (\<lambda>x. if x = CancelledError then x else HTTPException 404 (''Failed to count table: '' @ t)) in
      case cat_tables cat db of
        Inl x \<Rightarrow> (db, Inl (failed x))
      | Inr ts \<Rightarrow>
          if t \<notin> set ts then (db, Inl (unknown_table t))
          else (case exec (count_statement t) none db of
                  (db', Inl x) \<Rightarrow> (db', Inl (failed x))
                | (db', Inr []) \<Rightarrow> (db', Inr (t, VInt 0))
                | (db', Inr (r # rs)) \<Rightarrow>
                    (db', case map_of r ''count'' of None \<Rightarrow> Inl (failed KeyError) | Some n \<Rightarrow> Inr (t, n))))"

section \<open>Health\<close>

text \<open>\<open>DatabaseSession.health_check\<close>: \<open>probe\<close> is how the session and its \<open>SELECT 1\<close> end.\<close>

definition session_health :: "unit result \<Rightarrow> bool result" where
  "session_health probe = (case probe of Inr _ \<Rightarrow> Inr True | Inl x \<Rightarrow> if x = CancelledError then Inl x else Inr False)"

record health_status =
  he_status :: string
  he_database :: bool

definition health_check_status :: "unit result option \<Rightarrow> health_status result" where
  "health_check_status session =
     (case session of
        None \<Rightarrow> Inr \<lparr>he_status = ''healthy'', he_database = False\<rparr>
      | Some probe \<Rightarrow>
          (case session_health probe of
             Inl x \<Rightarrow> Inl x
           | Inr ok \<Rightarrow> Inr \<lparr>he_status = (if ok then ''healthy'' else ''degraded''), he_database = ok\<rparr>))"

text \<open>The route: \<open>snapshot\<close> is what reading the metrics gives.\<close>

definition health_route :: "unit result \<Rightarrow> health_snapshot result \<Rightarrow> evaluator \<Rightarrow> evaluator \<times> health_response result" where
  "health_route probe snapshot v =
     (let failed = (\<lambda>x. if x = CancelledError then Inl x
                        else Inr \<lparr>hr_status = ''unhealthy'', hr_db_connected = False, hr_snapshot = None, hr_alerts = []\<rparr>) in
      case health_check_status (Some probe) of
        Inl x \<Rightarrow> (v, failed x)
      | Inr h \<Rightarrow>
          (case snapshot of
             Inl x \<Rightarrow> (v, failed x)
           | Inr m \<Rightarrow>
               (case evaluate 1000 m v of (v', als) \<Rightarrow>
                 (v', Inr \<lparr>hr_status = he_status h, hr_db_connected = he_database h, hr_snapshot = Some m, hr_alerts = als\<rparr>))))"

section \<open>What reaches the warehouse\<close>

lemma count_statement_read: "classify_operation (count_statement t) = Read"
proof -
  have a: "list_all is_alpha ''SELECT''" "upper ''SELECT'' = ''SELECT''" "\<not> is_alpha (CHR '' '')" by code_simp+
  have "first_keyword ([] @ ''SELECT'' @ ('' COUNT(*) as count FROM '' @ t)) = upper ''SELECT''"
    by (rule first_keyword_blank_word) (use a in auto)
  then show ?thesis using a(2) by (simp add: classify_read_cases count_statement_def)
qed

lemma scopes_of_token:
  "authenticate_jwt env now rq tok a = Some w \<Longrightarrow> has_scope (Some (id_scopes w)) ''write'' \<Longrightarrow>
   \<exists>c. e_jwt_decode env tok now = Some c \<and> c_role c = ''admin''"
proof -
  have r: "\<not> has_scope (Some ''read'') ''write''" by code_simp
  assume "authenticate_jwt env now rq tok a = Some w" "has_scope (Some (id_scopes w)) ''write''"
  then show ?thesis using r by (auto simp: authenticate_jwt_def split: option.splits if_splits)
qed


definition token_request :: request where
  "token_request = demo_request\<lparr>rq_x_api_key := None, rq_authorization := ''Bearer t''\<rparr>"

definition delete_request :: query_request where
  "delete_request = \<lparr>qr_sql = ''DELETE FROM t'', qr_params = None\<rparr>"

definition demo_handle :: "(auth_state \<times> nat service) \<times> query_response result" where
  "demo_handle = handle_query demo_env False False 1 10 token_request (\<lambda>_. []) concat counting_warehouse
     default_app_settings demo_config calm delete_request demo_state (fresh_service 0)"


section \<open>Answers\<close>

definition response_ok :: "query_response \<Rightarrow> bool" where
  "response_ok r \<longleftrightarrow>
     (if qp_success r then qp_error r = None \<and> (\<exists>d. qp_data r = Some d \<and> qp_row_count r = length d)
      else qp_error r \<noteq> None \<and> qp_data r = None \<and> qp_row_count r = 0 \<and> \<not> qp_cached r \<and> \<not> qp_truncated r)"

lemma limit_bytes_length: "length (fst (limit_bytes rb mb t xs)) \<le> length xs"
  by (induction rb mb t xs rule: limit_bytes.induct) (auto split: prod.splits)

lemma result_limits_length:
  "0 \<le> ql_max_result_rows l \<Longrightarrow> int (length (fst (apply_result_limits rb l xs))) \<le> ql_max_result_rows l"
proof -
  assume n: "0 \<le> ql_max_result_rows l"
  have "length (fst (limit_bytes rb (ql_max_result_bytes l) 0 ys)) \<le> length ys" for ys :: "'a list"
    by (rule limit_bytes_length)
  from this [of xs] this [of "py_prefix (ql_max_result_rows l) xs"] show ?thesis
    using n by (auto simp: apply_result_limits_def Let_def py_prefix_def split: prod.splits if_splits)
qed

text \<open>The refusal of a write is raised by the guard and by nothing else of the service.\<close>

lemma hybrid_put_error: "hybrid_put k v ttl t c = Inl x \<Longrightarrow> x \<noteq> QueryAuthorizationError"
  by (auto simp: hybrid_put_def lru_put_def ttl_put_def Let_def split: sum.splits if_splits list.splits option.splits)

lemma sv_store_error: "sv_store k d sql e f s = Inl x \<Longrightarrow> x \<noteq> QueryAuthorizationError"
  by (auto simp: sv_store_def co_store_def dest: hybrid_put_error split: sum.splits)

definition never_refuses :: "'db warehouse \<Rightarrow> bool" where
  "never_refuses exec \<longleftrightarrow> (\<forall>sql p db. snd (exec sql p db) \<noteq> Inl QueryAuthorizationError)"

lemma gated_error:
  assumes "never_refuses exec"
  shows "execute_gated exec e sql p db \<noteq> (db', Inl QueryAuthorizationError)"
  using assms unfolding never_refuses_def
  by (auto simp: execute_gated_def split: option.splits) (metis snd_conv)

lemma get_or_execute_error:
  assumes "never_refuses exec"
  shows "snd (sv_get_or_execute exec cfg e sql p u s) \<noteq> Inl QueryAuthorizationError"
  using gated_error [OF assms] sv_store_error
  by (fastforce simp: sv_get_or_execute_def Let_def split: prod.splits call_end.splits option.splits sum.splits)

definition refused :: "qs_config \<Rightarrow> string \<Rightarrow> string \<Rightarrow> bool" where
  "refused cfg sql scopes \<longleftrightarrow> classify_operation sql = Write \<and> qs_require_write_scope cfg \<and> \<not> has_scope (Some scopes) ''write''"

lemma qs_run_refusal:
  assumes "never_refuses exec" "qs_run exec cfg e sql p u scopes s = (s', r)"
  shows "(r = Inl QueryAuthorizationError \<longleftrightarrow> refused cfg sql scopes) \<and> (refused cfg sql scopes \<longrightarrow> s' = s)"
proof (cases "refused cfg sql scopes")
  case True
  then show ?thesis using assms(2) by (simp add: qs_run_def refused_def)
next
  case False
  show ?thesis
  proof (cases "classify_operation sql")
    case Read
    obtain s2 lr where g: "sv_get_or_execute exec cfg e sql p (py_or_str u []) s = (s2, lr)"
      by (cases "sv_get_or_execute exec cfg e sql p (py_or_str u []) s")
    have "lr \<noteq> Inl QueryAuthorizationError"
      using get_or_execute_error [OF assms(1), where cfg = cfg and e = e and sql = sql and p = p and u = "py_or_str u []" and s = s] g by simp
    then show ?thesis using False Read assms(2) g by (cases lr) (auto simp: qs_run_def split: prod.splits)
  next
    case Write
    obtain db x where g: "execute_gated exec e sql p (sv_db s) = (db, x)" by (cases "execute_gated exec e sql p (sv_db s)")
    have "x \<noteq> Inl QueryAuthorizationError" using gated_error [OF assms(1)] g by metis
    then show ?thesis using False Write assms(2) g by (cases x) (auto simp: qs_run_def refused_def)
  qed
qed

lemma qs_run_read_limited:
  assumes "qs_run exec cfg e sql p u scopes s = (s', Inr r)" "classify_operation sql = Read" "0 \<le> ql_max_result_rows (qs_limits cfg)"
  shows "int (length (qo_data r)) \<le> ql_max_result_rows (qs_limits cfg)"
proof -
  obtain s2 lr where g: "sv_get_or_execute exec cfg e sql p (py_or_str u []) s = (s2, lr)"
    by (cases "sv_get_or_execute exec cfg e sql p (py_or_str u []) s")
  then obtain lk where "lr = Inr lk" using assms(1,2) by (cases lr) (simp_all add: qs_run_def)
  then have "qo_data r = fst (apply_result_limits (qs_row_bytes cfg) (qs_limits cfg) (lk_data lk))"
    using assms(1,2) g by (auto simp: qs_run_def split: prod.splits)
  then show ?thesis using result_limits_length [OF assms(3), of "qs_row_bytes cfg" "lk_data lk"] by simp
qed

text \<open>
  The answer to a query is well formed: a success carries rows, their number and no error, a
  failure an error and nothing else; the route raises only the 403 of a refused write, exactly when
  the statement writes and the caller lacks the scope that is required, and the cancellation of the
  request; and the rows of a read never exceed the configured number and bytes.
\<close>


theorem query_route_answers:
  assumes "never_refuses exec"
    and "execute_query exc_text params_text exec st cfg e q who s = (s', r)"
  shows "(r = Inl (HTTPException 403 write_scope_detail) \<longleftrightarrow> refused (route_config st cfg) (qr_sql q) (id_scopes who))
    \<and> (refused (route_config st cfg) (qr_sql q) (id_scopes who) \<longrightarrow> s' = s)
    \<and> (\<forall>x. r = Inl x \<longrightarrow> x \<in> {HTTPException 403 write_scope_detail, CancelledError})
    \<and> (\<forall>resp. r = Inr resp \<longrightarrow> response_ok resp
         \<and> (classify_operation (qr_sql q) = Read \<longrightarrow> 0 \<le> ql_max_result_rows (qs_limits cfg) \<longrightarrow>
              int (qp_row_count resp) \<le> ql_max_result_rows (qs_limits cfg)))"
proof -
  let ?ps = "params_text (case qr_params q of None \<Rightarrow> [] | Some ps \<Rightarrow> ps)"
  obtain s1 o' where run: "qs_run exec (route_config st cfg) e (qr_sql q) ?ps (Some (id_user_id who)) (id_scopes who) s = (s1, o')"
    by (cases "qs_run exec (route_config st cfg) e (qr_sql q) ?ps (Some (id_user_id who)) (id_scopes who) s")
  note f = qs_run_refusal [OF assms(1) run]
  show ?thesis
  proof (cases o')
    case (Inl x)
    then have r: "s' = s1" "r = (if x = QueryAuthorizationError then Inl (HTTPException 403 write_scope_detail)
        else if x = CancelledError then Inl x
        else Inr \<lparr>qp_success = False, qp_data = None, qp_error = Some (exc_text x), qp_row_count = 0, qp_cached = False, qp_truncated = False\<rparr>)"
      using assms(2) run by (simp_all add: execute_query_def)
    have "x = QueryAuthorizationError \<longleftrightarrow> refused (route_config st cfg) (qr_sql q) (id_scopes who)" using f Inl by simp
    then show ?thesis using f r by (auto simp: response_ok_def)
  next
    case (Inr o'')
    have "int (length (qo_data o'')) \<le> ql_max_result_rows (qs_limits cfg)"
      if "classify_operation (qr_sql q) = Read" "0 \<le> ql_max_result_rows (qs_limits cfg)"
      using qs_run_read_limited [OF run [unfolded Inr] that(1)] that(2) by (simp add: route_config_def)
    moreover have "s' = s1" "r = Inr \<lparr>qp_success = True, qp_data = Some (qo_data o''), qp_error = None,
        qp_row_count = length (qo_data o''), qp_cached = qo_cached o'', qp_truncated = qo_truncated o''\<rparr>"
      using assms(2) run Inr by (simp_all add: execute_query_def)
    moreover have "\<not> refused (route_config st cfg) (qr_sql q) (id_scopes who)" using f Inr by simp
    ultimately show ?thesis by (simp add: response_ok_def)
  qed
qed

theorem query_route_answers_witness:
  "snd (execute_query (\<lambda>_. []) concat counting_warehouse default_app_settings demo_config calm delete_request
      (get_current_user PassPublic) (fresh_service 0)) = Inl (HTTPException 403 write_scope_detail)"
proof -
  obtain s' r where x: "execute_query (\<lambda>_. []) concat counting_warehouse default_app_settings demo_config calm delete_request
      (get_current_user PassPublic) (fresh_service 0) = (s', r)" by (metis surj_pair)
  have "refused (route_config default_app_settings demo_config) (qr_sql delete_request) (id_scopes (get_current_user PassPublic))"
    by code_simp
  moreover have "never_refuses counting_warehouse" by (simp add: never_refuses_def counting_warehouse_def)
  ultimately show ?thesis using query_route_answers [OF _ x] x by simp
qed

section \<open>Introspection\<close>

text \<open>
  The count route interpolates a table name into SQL only when the database lists a table of
  exactly that name: an unknown name is answered with 404 and no statement is sent, whatever it
  contains; for a listed one exactly one statement is sent, which is a read, so the warehouse keeps
  its state.
\<close>

theorem table_count_interpolates_known_names_only:
  assumes "\<And>sql p db. classify_operation sql = Read \<Longrightarrow> fst (exec sql p db) = db" "cat_tables cat db = Inr ts"
  shows "fst (get_table_count exec none cat t db) = db
    \<and> (t \<notin> set ts \<longrightarrow> (\<forall>exec'. get_table_count exec' none cat t db = (db, Inl (HTTPException 404 (''Unknown table: '' @ t)))))
    \<and> (t \<in> set ts \<longrightarrow> (\<forall>n. exec (count_statement t) none db = (db, Inr [[(''count'', VInt n)]]) \<longrightarrow>
          get_table_count exec none cat t db = (db, Inr (t, VInt n))))"
proof -
  have "fst (exec (count_statement t) none db) = db" using assms(1) count_statement_read by blast
  then show ?thesis using assms(2)
    by (auto simp: get_table_count_def Let_def unknown_table_def split: prod.splits sum.splits list.splits)
qed

theorem table_count_interpolates_known_names_only_witness:
  "get_table_count counting_warehouse [] \<lparr>cat_tables = (\<lambda>_. Inr [''t'']), cat_schema = (\<lambda>_ _. Inr [])\<rparr> ''t; DROP TABLE t'' 7
     = (7, Inl (HTTPException 404 (''Unknown table: '' @ ''t; DROP TABLE t'')))"
proof -
  let ?cat = "\<lparr>cat_tables = (\<lambda>_. Inr [''t'']), cat_schema = (\<lambda>_ _. Inr [])\<rparr> :: nat catalog"
  have "cat_tables ?cat 7 = Inr [''t'']" by simp
  moreover have "fst (counting_warehouse sql p db) = db" if "classify_operation sql = Read" for sql p db
    using that by (simp add: counting_warehouse_def)
  ultimately show ?thesis using table_count_interpolates_known_names_only [of counting_warehouse ?cat 7 "[''t'']"] by simp
qed

text \<open>The health route never raises but for a cancellation, and reports a working database as connected and healthy.\<close>

lemma health_route_total:
  assumes "probe \<noteq> Inl CancelledError" "snapshot \<noteq> Inl CancelledError"
  shows "\<exists>h. snd (health_route probe snapshot v) = Inr h
    \<and> (hr_db_connected h \<longleftrightarrow> hr_status h = ''healthy'')
    \<and> (hr_db_connected h \<longleftrightarrow> (\<exists>u m. probe = Inr u \<and> snapshot = Inr m))"
  using assms
  by (auto simp: health_route_def health_check_status_def session_health_def Let_def split: sum.splits prod.splits)

end
