(* ===== verification/Lifespan.thy ===== *)
theory Lifespan
  imports Sampling
begin

text \<open>
  \<open>src/core/app/lifespan.py\<close> and \<open>container.py\<close>: the ordered start and stop of the subsystems.  What a step calls in its subsystem is an effect; the environment says which effects raise.
  A run keeps the effects that completed, in order, so that the sequencing the documentation promises can
  be stated.
\<close>

section \<open>Effects\<close>

datatype effect =
    Start_Collectors | Stop_Collectors | Start_Export | Cancel_Export
  | Open_Warehouse
  | Connect_Service | Create_Tables | Initialize_Admin | Cleanup_Cache | Start_Flush | Stop_Flush | Disconnect_Service
  | Start_Persistence | Stop_Persistence
  | Shutdown_Executors

text \<open>Objects a step registers in the container.\<close>

datatype registered = Registry | Db_Session | Service_Database | Service_Manager | Cache_Service | Logging_Service
  | Tracing_Service | Audit_Service | Api_Key_Service | User_Service

section \<open>The container\<close>

record container =
  ct_services :: "(string, registered) odict"
  ct_db_session :: "registered option"

definition empty_container :: container where
  "empty_container = \<lparr>ct_services = [], ct_db_session = None\<rparr>"

definition register :: "string \<Rightarrow> registered \<Rightarrow> container \<Rightarrow> container" where
  "register name s c = c\<lparr>ct_services := AList.update name s (ct_services c)\<rparr>"

definition get_service :: "string \<Rightarrow> container \<Rightarrow> registered option" where
  "get_service name c = map_of (ct_services c) name"

definition set_database_session :: "registered \<Rightarrow> container \<Rightarrow> container" where
  "set_database_session s c = register ''db_session'' s (c\<lparr>ct_db_session := Some s\<rparr>)"

definition clear_container :: "container \<Rightarrow> container" where
  "clear_container c = c\<lparr>ct_services := [], ct_db_session := None\<rparr>"

text \<open>\<open>_register\<close>\<close>

definition register_all :: "(string \<times> registered) list \<Rightarrow> container \<Rightarrow> container" where
  "register_all rs c =
     foldl (\<lambda>c (k, s). if k = ''db_session'' then set_database_session s c else register k s c) c rs"

section \<open>Steps\<close>

datatype step = PerformanceStep | DataWarehouseStep | ExecutorsStep | ServiceDatabaseStep | PersistenceQueueStep

datatype mode = Sync | Async

text \<open>What the steps were constructed with, and what they find at run time.\<close>

record app_setup =
  su_mode :: mode
  su_db_config :: bool               \<comment> \<open>a warehouse configuration is given\<close>
  su_service_db_path :: "string option"
  su_performance :: bool             \<comment> \<open>\<open>core.performance\<close> imported\<close>
  su_collectors_import :: bool       \<comment> \<open>\<open>build_enabled_collectors\<close> is not \<open>None\<close>\<close>
  su_exporter_import :: bool         \<comment> \<open>\<open>OTelExporter\<close> is not \<open>None\<close>\<close>
  su_env :: environment
  su_running_loop :: bool            \<comment> \<open>the caller runs inside an event loop\<close>

text \<open>The fields of the five step objects, the state of \<open>ApplicationLifespan\<close>, and the history.\<close>

record app =
  ap_container :: container
  ap_started :: "step list"
  ap_db_session :: bool
  ap_service_db :: bool
  ap_service_manager :: bool
  ap_observability_queue :: bool
  ap_scheduler :: bool
  ap_export_task :: bool
  ap_history :: "effect list"

definition new_app :: app where
  "new_app = \<lparr>ap_container = empty_container, ap_started = [], ap_db_session = False, ap_service_db = False,
     ap_service_manager = False, ap_observability_queue = False, ap_scheduler = False, ap_export_task = False,
     ap_history = []\<rparr>"

type_synonym faults = "effect \<Rightarrow> py_exc option"

definition call :: "faults \<Rightarrow> effect \<Rightarrow> app \<Rightarrow> app \<times> unit result" where
  "call fl e a = (case fl e of None \<Rightarrow> (a\<lparr>ap_history := ap_history a @ [e]\<rparr>, Inr ()) | Some x \<Rightarrow> (a, Inl x))"

text \<open>Sequential composition of operations that may raise.\<close>

definition then_do :: "(app \<Rightarrow> app \<times> 'b result) \<Rightarrow> (app \<Rightarrow> app \<times> 'c result) \<Rightarrow> app \<Rightarrow> app \<times> 'c result" where
  "then_do p q a = (case p a of (a', Inl x) \<Rightarrow> (a', Inl x) | (a', Inr _) \<Rightarrow> q a')"

definition set_field :: "(app \<Rightarrow> app) \<Rightarrow> app \<Rightarrow> app \<times> unit result" where
  "set_field f a = (f a, Inr ())"

definition return_value :: "'b \<Rightarrow> app \<Rightarrow> app \<times> 'b result" where
  "return_value v a = (a, Inr v)"

definition when_true :: "bool \<Rightarrow> (app \<Rightarrow> app \<times> unit result) \<Rightarrow> app \<Rightarrow> app \<times> unit result" where
  "when_true b p a = (if b then p a else (a, Inr ()))"

lemmas steps_defs = call_def then_do_def set_field_def return_value_def when_true_def

subsection \<open>Performance\<close>

definition env_flag :: "environment \<Rightarrow> string \<Rightarrow> bool \<Rightarrow> bool" where
  "env_flag env name d =
     (case env name of None \<Rightarrow> d | Some v \<Rightarrow> lower (strip v) \<in> {''1'', ''true'', ''yes'', ''on''})"

datatype collector = Memory_Collector | GC_Collector | Thread_Collector | CPU_Collector | Asyncio_Collector | Process_Collector

record collect_flags =
  cf_memory :: bool
  cf_gc :: bool
  cf_threads :: bool
  cf_cpu :: bool
  cf_asyncio :: bool
  cf_process :: bool

definition collect_from_env :: "environment \<Rightarrow> collect_flags" where
  "collect_from_env env =
     \<lparr>cf_memory = env_flag env ''PERF_COLLECT_MEMORY'' False, cf_gc = env_flag env ''PERF_COLLECT_GC'' False,
      cf_threads = env_flag env ''PERF_COLLECT_THREADS'' False, cf_cpu = env_flag env ''PERF_COLLECT_CPU'' False,
      cf_asyncio = env_flag env ''PERF_COLLECT_ASYNCIO'' False,
      cf_process = env_flag env ''PERF_COLLECT_PROCESS'' False\<rparr>"

definition build_enabled_collectors :: "collect_flags \<Rightarrow> collector list" where
  "build_enabled_collectors c =
     (if cf_memory c then [Memory_Collector] else []) @ (if cf_gc c then [GC_Collector] else [])
     @ (if cf_threads c then [Thread_Collector] else []) @ (if cf_cpu c then [CPU_Collector] else [])
     @ (if cf_asyncio c then [Asyncio_Collector] else []) @ (if cf_process c then [Process_Collector] else [])"

text \<open>
  Starting a scheduler or a task cannot raise inside an event loop; a malformed export interval does, after
  the collectors have started.
\<close>

definition performance_startup_async :: "app_setup \<Rightarrow> faults \<Rightarrow> app \<Rightarrow> app \<times> (string \<times> registered) list result" where
  "performance_startup_async su fl a =
     (if \<not> su_performance su then (a, Inr [])
      else (case performance_from_env (su_env su) of
        Inl e \<Rightarrow> (a, Inl e)
      | Inr config \<Rightarrow>
          (let collectors = build_enabled_collectors (collect_from_env (su_env su));
               collecting = pc_enabled config \<and> su_collectors_import su \<and> collectors \<noteq> [];
               exporting = pc_enabled config \<and> su_exporter_import su \<and> env_flag (su_env su) ''PERF_EXPORT_OTEL'' True
           in then_do (when_true collecting (then_do (set_field (\<lambda>a. a\<lparr>ap_scheduler := True\<rparr>)) (call fl Start_Collectors)))
             (then_do (when_true exporting
                 (case py_float (getenv (su_env su) ''PERF_OTEL_EXPORT_INTERVAL_SECONDS'' ''15'') of
                    Inl e \<Rightarrow> (\<lambda>a. (a, Inl e))
                  | Inr _ \<Rightarrow> then_do (call fl Start_Export) (set_field (\<lambda>a. a\<lparr>ap_export_task := True\<rparr>))))
               (return_value [(''performance_registry'', Registry)])) a)))"

definition performance_startup_sync :: "app_setup \<Rightarrow> app \<Rightarrow> app \<times> (string \<times> registered) list result" where
  "performance_startup_sync su a =
     (if \<not> su_performance su then (a, Inr []) else (a, Inr [(''performance_registry'', Registry)]))"

text \<open>A collector that raised has ended its task; awaiting it in \<open>stop()\<close> raises the same exception.\<close>

definition performance_shutdown_async :: "faults \<Rightarrow> app \<Rightarrow> app \<times> unit result" where
  "performance_shutdown_async fl =
     then_do (\<lambda>a. when_true (ap_scheduler a) (call fl Stop_Collectors) a)
       (\<lambda>a. when_true (ap_export_task a)
          (then_do (call fl Cancel_Export) (set_field (\<lambda>a. a\<lparr>ap_export_task := False\<rparr>))) a)"

subsection \<open>Warehouse, executors, persistence queue\<close>

definition warehouse_startup :: "app_setup \<Rightarrow> faults \<Rightarrow> app \<Rightarrow> app \<times> (string \<times> registered) list result" where
  "warehouse_startup su fl a =
     (if \<not> su_db_config su then (a, Inr [])
      else then_do (set_field (\<lambda>a. a\<lparr>ap_db_session := True\<rparr>))
             (then_do (call fl Open_Warehouse) (return_value [(''db_session'', Db_Session)])) a)"

text \<open>Logs that it closes the connection, and does nothing else.\<close>

definition warehouse_shutdown :: "app \<Rightarrow> app \<times> unit result" where
  "warehouse_shutdown a = (a, Inr ())"

definition executors_startup :: "app \<Rightarrow> app \<times> (string \<times> registered) list result" where
  "executors_startup a = (a, Inr [])"

definition executors_shutdown :: "faults \<Rightarrow> app \<Rightarrow> app \<times> unit result" where
  "executors_shutdown fl = call fl Shutdown_Executors"

definition persistence_startup :: "faults \<Rightarrow> app \<Rightarrow> app \<times> (string \<times> registered) list result" where
  "persistence_startup fl = then_do (call fl Start_Persistence) (return_value [])"

text \<open>
  \<open>asyncio.run\<close> raises inside a running loop, before the queue is touched; the handler takes every
  \<open>RuntimeError\<close> for that.
\<close>

fun is_runtime_error :: "py_exc \<Rightarrow> bool" where
  "is_runtime_error (RuntimeError _) = True"
| "is_runtime_error _ = False"

definition persistence_shutdown_sync :: "app_setup \<Rightarrow> faults \<Rightarrow> app \<Rightarrow> app \<times> unit result" where
  "persistence_shutdown_sync su fl a =
     (if su_running_loop su then (a, Inr ())
      else (case call fl Stop_Persistence a of
              (a', Inl e) \<Rightarrow> if is_runtime_error e then (a', Inr ()) else (a', Inl e)
            | r \<Rightarrow> r))"

definition persistence_shutdown_async :: "faults \<Rightarrow> app \<Rightarrow> app \<times> unit result" where
  "persistence_shutdown_async fl = call fl Stop_Persistence"

subsection \<open>Service database\<close>

definition service_registrations :: "(string \<times> registered) list" where
  "service_registrations =
     [(''service_db'', Service_Database), (''service_manager'', Service_Manager), (''cache_service'', Cache_Service),
      (''logging_service'', Logging_Service), (''tracing_service'', Tracing_Service), (''audit_service'', Audit_Service),
      (''api_key_service'', Api_Key_Service), (''user_service'', User_Service)]"

definition service_startup :: "app_setup \<Rightarrow> faults \<Rightarrow> app \<Rightarrow> app \<times> (string \<times> registered) list result" where
  "service_startup su fl a =
     (if su_service_db_path su = None \<or> su_service_db_path su = Some [] then (a, Inr [])
      else then_do (set_field (\<lambda>a. a\<lparr>ap_service_db := True\<rparr>))
        (then_do (call fl Connect_Service)
        (then_do (call fl Create_Tables)
        (then_do (call fl Initialize_Admin)
        (then_do (call fl Cleanup_Cache)
        (then_do (set_field (\<lambda>a. a\<lparr>ap_service_manager := True, ap_observability_queue := True\<rparr>))
        (then_do (call fl Start_Flush)
        (return_value service_registrations))))))) a)"

definition service_shutdown :: "faults \<Rightarrow> app \<Rightarrow> app \<times> unit result" where
  "service_shutdown fl =
     then_do (\<lambda>a. when_true (ap_observability_queue a) (call fl Stop_Flush) a)
       (\<lambda>a. when_true (ap_service_db a) (call fl Disconnect_Service) a)"

section \<open>Sequencing\<close>

definition all_steps :: "step list" where
  "all_steps = [PerformanceStep, DataWarehouseStep, ExecutorsStep, ServiceDatabaseStep, PersistenceQueueStep]"

fun step_startup :: "app_setup \<Rightarrow> faults \<Rightarrow> step \<Rightarrow> app \<Rightarrow> app \<times> (string \<times> registered) list result" where
  "step_startup su fl PerformanceStep a =
     (if su_mode su = Sync then performance_startup_sync su a else performance_startup_async su fl a)"
| "step_startup su fl DataWarehouseStep a = warehouse_startup su fl a"
| "step_startup su fl ExecutorsStep a = executors_startup a"
| "step_startup su fl ServiceDatabaseStep a = service_startup su fl a"
| "step_startup su fl PersistenceQueueStep a = persistence_startup fl a"

fun step_shutdown :: "app_setup \<Rightarrow> faults \<Rightarrow> step \<Rightarrow> app \<Rightarrow> app \<times> unit result" where
  "step_shutdown su fl PerformanceStep a =
     (if su_mode su = Sync then (a, Inr ()) else performance_shutdown_async fl a)"
| "step_shutdown su fl DataWarehouseStep a = warehouse_shutdown a"
| "step_shutdown su fl ExecutorsStep a = executors_shutdown fl a"
| "step_shutdown su fl ServiceDatabaseStep a = service_shutdown fl a"
| "step_shutdown su fl PersistenceQueueStep a =
     (if su_mode su = Sync then persistence_shutdown_sync su fl a else persistence_shutdown_async fl a)"

fun startup_steps :: "app_setup \<Rightarrow> faults \<Rightarrow> step list \<Rightarrow> app \<Rightarrow> app \<times> unit result" where
  "startup_steps su fl [] a = (a, Inr ())"
| "startup_steps su fl (s # ss) a =
     (case step_startup su fl s a of
        (a', Inl e) \<Rightarrow> (a', Inl e)
      | (a', Inr rs) \<Rightarrow>
          startup_steps su fl ss (a'\<lparr>ap_container := register_all rs (ap_container a'), ap_started := ap_started a' @ [s]\<rparr>))"

definition startup :: "app_setup \<Rightarrow> faults \<Rightarrow> app \<Rightarrow> app \<times> unit result" where
  "startup su fl = startup_steps su fl all_steps"

fun shutdown_steps :: "app_setup \<Rightarrow> faults \<Rightarrow> step list \<Rightarrow> app \<Rightarrow> app \<times> unit result" where
  "shutdown_steps su fl [] a = (a, Inr ())"
| "shutdown_steps su fl (s # ss) a =
     (case step_shutdown su fl s a of (a', Inl e) \<Rightarrow> (a', Inl e) | (a', Inr _) \<Rightarrow> shutdown_steps su fl ss a')"

definition shutdown :: "app_setup \<Rightarrow> faults \<Rightarrow> app \<Rightarrow> app \<times> unit result" where
  "shutdown su fl a =
     (case shutdown_steps su fl (rev (ap_started a)) a of
        (a', Inl e) \<Rightarrow> (a', Inl e)
      | (a', Inr _) \<Rightarrow> (a'\<lparr>ap_started := [], ap_container := clear_container (ap_container a')\<rparr>, Inr ()))"

text \<open>
  \<open>lifespan_context\<close> without a \<open>try\<close>: \<open>body\<close> is what the application raises at the \<open>yield\<close>.
\<close>

definition lifespan_context :: "app_setup \<Rightarrow> faults \<Rightarrow> py_exc option \<Rightarrow> faults \<Rightarrow> app \<Rightarrow> app \<times> unit result" where
  "lifespan_context su fl body fl' a =
     (case startup su fl a of
        (a', Inl e) \<Rightarrow> (a', Inl e)
      | (a', Inr _) \<Rightarrow> (case body of Some e \<Rightarrow> (a', Inl e) | None \<Rightarrow> shutdown su fl' a'))"

section \<open>What a run performs\<close>

abbreviation fine :: "faults \<Rightarrow> effect \<Rightarrow> bool" where
  "fine fl e \<equiv> fl e = None"

text \<open>\<open>p\<close> performs \<open>es\<close> up to the first effect that raises, and returns iff none does.\<close>

definition performs :: "faults \<Rightarrow> effect list \<Rightarrow> (app \<Rightarrow> app \<times> 'b result) \<Rightarrow> app \<Rightarrow> bool" where
  "performs fl es p a \<longleftrightarrow> ap_history (fst (p a)) = ap_history a @ takeWhile (fine fl) es
     \<and> ((\<exists>v. snd (p a) = Inr v) \<longleftrightarrow> list_all (fine fl) es)"

named_theorems perform_rules

lemma takeWhile_append_all:
  "takeWhile P (xs @ ys) = (if list_all P xs then xs @ takeWhile P ys else takeWhile P xs)"
  by (induction xs) auto

lemma performs_call [perform_rules]: "performs fl [e] (call fl e) a"
  by (auto simp: performs_def call_def split: option.splits)

lemma performs_set [perform_rules]: "(\<And>a. ap_history (f a) = ap_history a) \<Longrightarrow> performs fl [] (set_field f) a"
  by (simp add: performs_def set_field_def)

lemma performs_return [perform_rules]: "performs fl [] (return_value v) a"
  by (simp add: performs_def return_value_def)

lemma performs_when [perform_rules]:
  "(b \<Longrightarrow> performs fl es p a) \<Longrightarrow> performs fl (if b then es else []) (when_true b p) a"
  by (simp add: performs_def when_true_def)

lemma performs_then [perform_rules]:
  assumes "performs fl es p a" "\<And>a' v. p a = (a', Inr v) \<Longrightarrow> performs fl fs q a'"
  shows "performs fl (es @ fs) (then_do p q) a"
proof (cases "p a")
  case (Pair a' r)
  show ?thesis
  proof (cases r)
    case (Inl e)
    with assms(1) Pair have "\<not> list_all (fine fl) es" by (simp add: performs_def)
    with assms(1) Pair Inl show ?thesis by (simp add: performs_def then_do_def takeWhile_append_all)
  next
    case (Inr v)
    with assms(1) Pair have "list_all (fine fl) es" "takeWhile (fine fl) es = es"
      by (auto simp: performs_def list_all_iff)
    with assms(1) assms(2) [of a' v] Pair Inr show ?thesis
      by (simp add: performs_def then_do_def takeWhile_append_all)
  qed
qed

lemma performs_cong: "performs fl es p a \<Longrightarrow> es = fs \<Longrightarrow> performs fl fs p a"
  by simp

section \<open>The plans\<close>

definition has_service_db :: "app_setup \<Rightarrow> bool" where
  "has_service_db su \<longleftrightarrow> su_service_db_path su \<noteq> None \<and> su_service_db_path su \<noteq> Some []"

definition performance_on :: "app_setup \<Rightarrow> bool" where
  "performance_on su \<longleftrightarrow> su_performance su
     \<and> (case performance_from_env (su_env su) of Inl _ \<Rightarrow> False | Inr c \<Rightarrow> pc_enabled c)"

definition collecting :: "app_setup \<Rightarrow> bool" where
  "collecting su \<longleftrightarrow> performance_on su \<and> su_collectors_import su
     \<and> build_enabled_collectors (collect_from_env (su_env su)) \<noteq> []"

definition exporting :: "app_setup \<Rightarrow> bool" where
  "exporting su \<longleftrightarrow> performance_on su \<and> su_exporter_import su \<and> env_flag (su_env su) ''PERF_EXPORT_OTEL'' True"

definition settings_parse :: "app_setup \<Rightarrow> bool" where
  "settings_parse su \<longleftrightarrow>
     (case performance_from_env (su_env su) of Inl _ \<Rightarrow> False | Inr _ \<Rightarrow> True)
   \<and> (case py_float (getenv (su_env su) ''PERF_OTEL_EXPORT_INTERVAL_SECONDS'' ''15'') of Inl _ \<Rightarrow> False | Inr _ \<Rightarrow> True)"

definition start_plan :: "app_setup \<Rightarrow> effect list" where
  "start_plan su =
     (if collecting su then [Start_Collectors] else []) @ (if exporting su then [Start_Export] else [])
     @ (if su_db_config su then [Open_Warehouse] else [])
     @ (if has_service_db su then [Connect_Service, Create_Tables, Initialize_Admin, Cleanup_Cache, Start_Flush] else [])
     @ [Start_Persistence]"

definition stop_plan :: "app_setup \<Rightarrow> effect list" where
  "stop_plan su =
     [Stop_Persistence] @ (if has_service_db su then [Stop_Flush, Disconnect_Service] else []) @ [Shutdown_Executors]
     @ (if collecting su then [Stop_Collectors] else []) @ (if exporting su then [Cancel_Export] else [])"

lemma performs_startup_step:
  assumes "performs fl es (step_startup su fl s) a"
    and "\<And>a'. ap_history a' = ap_history (fst (step_startup su fl s a)) \<Longrightarrow> performs fl fs (startup_steps su fl ss) a'"
  shows "performs fl (es @ fs) (startup_steps su fl (s # ss)) a"
proof (cases "step_startup su fl s a")
  case (Pair a' r)
  show ?thesis
  proof (cases r)
    case (Inl e)
    with assms(1) Pair have "\<not> list_all (fine fl) es" by (simp add: performs_def)
    with assms(1) Pair Inl show ?thesis by (simp add: performs_def takeWhile_append_all)
  next
    case (Inr v)
    with assms(1) Pair have "list_all (fine fl) es" "takeWhile (fine fl) es = es"
      by (auto simp: performs_def list_all_iff)
    with assms(1) assms(2) [of "a'\<lparr>ap_container := register_all v (ap_container a'), ap_started := ap_started a' @ [s]\<rparr>"] Pair Inr
    show ?thesis by (simp add: performs_def takeWhile_append_all)
  qed
qed

lemma performs_warehouse: "performs fl (if su_db_config su then [Open_Warehouse] else []) (warehouse_startup su fl) a"
proof (cases "su_db_config su")
  case True
  have "performs fl ([] @ [Open_Warehouse] @ []) (then_do (set_field (\<lambda>a. a\<lparr>ap_db_session := True\<rparr>))
      (then_do (call fl Open_Warehouse) (return_value [(''db_session'', Db_Session)]))) a"
    by (intro perform_rules) simp
  with True show ?thesis by (simp add: performs_def warehouse_startup_def)
qed (simp add: performs_def warehouse_startup_def)

lemma performs_service:
  "performs fl (if has_service_db su then [Connect_Service, Create_Tables, Initialize_Admin, Cleanup_Cache, Start_Flush] else [])
     (service_startup su fl) a"
proof (cases "has_service_db su")
  case True
  have "performs fl ([] @ [Connect_Service] @ [Create_Tables] @ [Initialize_Admin] @ [Cleanup_Cache] @ [] @ [Start_Flush] @ [])
    (then_do (set_field (\<lambda>a. a\<lparr>ap_service_db := True\<rparr>))
        (then_do (call fl Connect_Service) (then_do (call fl Create_Tables) (then_do (call fl Initialize_Admin)
        (then_do (call fl Cleanup_Cache)
        (then_do (set_field (\<lambda>a. a\<lparr>ap_service_manager := True, ap_observability_queue := True\<rparr>))
        (then_do (call fl Start_Flush) (return_value service_registrations)))))))) a"
    by (intro perform_rules) simp_all
  moreover have "service_startup su fl = (then_do (set_field (\<lambda>a. a\<lparr>ap_service_db := True\<rparr>))
        (then_do (call fl Connect_Service) (then_do (call fl Create_Tables) (then_do (call fl Initialize_Admin)
        (then_do (call fl Cleanup_Cache)
        (then_do (set_field (\<lambda>a. a\<lparr>ap_service_manager := True, ap_observability_queue := True\<rparr>))
        (then_do (call fl Start_Flush) (return_value service_registrations))))))))"
    using True by (auto simp: service_startup_def has_service_db_def intro!: ext)
  ultimately show ?thesis using True by simp
qed (auto simp: performs_def service_startup_def has_service_db_def)

lemma performs_persistence: "performs fl [Start_Persistence] (persistence_startup fl) a"
proof -
  have "performs fl ([Start_Persistence] @ []) (persistence_startup fl) a"
    unfolding persistence_startup_def by (intro perform_rules)
  then show ?thesis by simp
qed

lemma performs_performance:
  assumes "settings_parse su"
  shows "performs fl ((if collecting su then [Start_Collectors] else []) @ (if exporting su then [Start_Export] else []))
     (performance_startup_async su fl) a"
proof (cases "su_performance su")
  case True
  obtain c i where c: "performance_from_env (su_env su) = Inr c"
    and i: "py_float (getenv (su_env su) ''PERF_OTEL_EXPORT_INTERVAL_SECONDS'' ''15'') = Inr i"
    using assms by (auto simp: settings_parse_def split: sum.splits)
  have col: "collecting su \<longleftrightarrow> pc_enabled c \<and> su_collectors_import su \<and> build_enabled_collectors (collect_from_env (su_env su)) \<noteq> []"
    and ex: "exporting su \<longleftrightarrow> pc_enabled c \<and> su_exporter_import su \<and> env_flag (su_env su) ''PERF_EXPORT_OTEL'' True"
    using True by (simp_all add: collecting_def exporting_def performance_on_def c)
  have "performs fl ((if collecting su then [] @ [Start_Collectors] else []) @ (if exporting su then [Start_Export] @ [] else []) @ [])
    (then_do (when_true (collecting su) (then_do (set_field (\<lambda>a. a\<lparr>ap_scheduler := True\<rparr>)) (call fl Start_Collectors)))
      (then_do (when_true (exporting su) (then_do (call fl Start_Export) (set_field (\<lambda>a. a\<lparr>ap_export_task := True\<rparr>))))
        (return_value [(''performance_registry'', Registry)]))) a"
    by (intro perform_rules) simp_all
  then show ?thesis using True c i col ex by (simp add: performs_def performance_startup_async_def Let_def)
qed (simp add: performs_def performance_startup_async_def collecting_def exporting_def performance_on_def)

lemma startup_performs:
  assumes "su_mode su = Async" "settings_parse su"
  shows "performs fl (start_plan su) (startup su fl) a"
proof -
  let ?w = "if su_db_config su then [Open_Warehouse] else []"
  let ?s = "if has_service_db su then [Connect_Service, Create_Tables, Initialize_Admin, Cleanup_Cache, Start_Flush] else []"
  let ?p = "(if collecting su then [Start_Collectors] else []) @ (if exporting su then [Start_Export] else [])"
  have nil: "performs fl [] (startup_steps su fl []) a'" for a' by (simp add: performs_def)
  have ex: "performs fl [] (step_startup su fl ExecutorsStep) a'" for a'
    by (simp add: performs_def executors_startup_def)
  have "performs fl (?p @ ?w @ [] @ ?s @ [Start_Persistence] @ []) (startup_steps su fl all_steps) a"
    unfolding all_steps_def
    by (intro performs_startup_step nil ex)
      (use assms performs_performance performs_warehouse performs_service performs_persistence in \<open>simp_all add: performs_def\<close>)
  then show ?thesis by (simp add: startup_def start_plan_def)
qed

section \<open>The state after a start\<close>

definition open_as :: "bool \<Rightarrow> bool \<Rightarrow> bool \<Rightarrow> app \<Rightarrow> bool" where
  "open_as service collects exports a \<longleftrightarrow> ap_service_db a = service \<and> ap_observability_queue a = service
     \<and> ap_scheduler a = collects \<and> ap_export_task a = exports"

lemma open_as_register [simp]:
  "open_as b c d (a\<lparr>ap_container := x, ap_started := y\<rparr>) = open_as b c d a"
  by (simp add: open_as_def)

lemma warehouse_open:
  "warehouse_startup su fl a = (a', Inr rs) \<Longrightarrow> open_as b c d a \<Longrightarrow> open_as b c d a' \<and> ap_started a' = ap_started a"
  by (auto simp: warehouse_startup_def open_as_def steps_defs split: if_splits option.splits)

lemma service_open:
  "service_startup su fl a = (a', Inr rs) \<Longrightarrow> open_as False c d a
    \<Longrightarrow> open_as (has_service_db su) c d a' \<and> ap_started a' = ap_started a"
  by (auto simp: service_startup_def open_as_def steps_defs has_service_db_def split: if_splits option.splits)

lemma persistence_open:
  "persistence_startup fl a = (a', Inr rs) \<Longrightarrow> open_as b c d a \<Longrightarrow> open_as b c d a' \<and> ap_started a' = ap_started a"
  by (auto simp: persistence_startup_def open_as_def steps_defs split: if_splits option.splits)

lemma performance_open:
  "performance_startup_async su fl a = (a', Inr rs) \<Longrightarrow> open_as b False False a
    \<Longrightarrow> open_as b (collecting su) (exporting su) a' \<and> ap_started a' = ap_started a"
  by (auto simp: performance_startup_async_def open_as_def steps_defs collecting_def exporting_def performance_on_def
      Let_def split: if_splits option.splits sum.splits)

lemma startup_steps_Cons:
  assumes "startup_steps su fl (s # ss) a = (b, Inr ())"
  obtains a' rs where "step_startup su fl s a = (a', Inr rs)"
    "startup_steps su fl ss (a'\<lparr>ap_container := register_all rs (ap_container a'), ap_started := ap_started a' @ [s]\<rparr>) = (b, Inr ())"
  using assms by (auto split: prod.splits sum.splits)

lemma startup_opens:
  assumes "su_mode su = Async" "startup su fl new_app = (a, Inr ())"
  shows "open_as (has_service_db su) (collecting su) (exporting su) a \<and> ap_started a = all_steps"
proof -
  have 0: "open_as False False False new_app" "ap_started new_app = []" by (simp_all add: open_as_def new_app_def)
  from assms(2) have "startup_steps su fl all_steps new_app = (a, Inr ())" by (simp add: startup_def)
  then obtain a1 r1 where 1: "step_startup su fl PerformanceStep new_app = (a1, Inr r1)"
    and s1: "startup_steps su fl [DataWarehouseStep, ExecutorsStep, ServiceDatabaseStep, PersistenceQueueStep]
      (a1\<lparr>ap_container := register_all r1 (ap_container a1), ap_started := ap_started a1 @ [PerformanceStep]\<rparr>) = (a, Inr ())"
    unfolding all_steps_def by (rule startup_steps_Cons)
  obtain a2 r2 where 2: "step_startup su fl DataWarehouseStep
      (a1\<lparr>ap_container := register_all r1 (ap_container a1), ap_started := ap_started a1 @ [PerformanceStep]\<rparr>) = (a2, Inr r2)"
    and s2: "startup_steps su fl [ExecutorsStep, ServiceDatabaseStep, PersistenceQueueStep]
      (a2\<lparr>ap_container := register_all r2 (ap_container a2), ap_started := ap_started a2 @ [DataWarehouseStep]\<rparr>) = (a, Inr ())"
    using s1 by (rule startup_steps_Cons)
  obtain a3 r3 where 3: "step_startup su fl ExecutorsStep
      (a2\<lparr>ap_container := register_all r2 (ap_container a2), ap_started := ap_started a2 @ [DataWarehouseStep]\<rparr>) = (a3, Inr r3)"
    and s3: "startup_steps su fl [ServiceDatabaseStep, PersistenceQueueStep]
      (a3\<lparr>ap_container := register_all r3 (ap_container a3), ap_started := ap_started a3 @ [ExecutorsStep]\<rparr>) = (a, Inr ())"
    using s2 by (rule startup_steps_Cons)
  obtain a4 r4 where 4: "step_startup su fl ServiceDatabaseStep
      (a3\<lparr>ap_container := register_all r3 (ap_container a3), ap_started := ap_started a3 @ [ExecutorsStep]\<rparr>) = (a4, Inr r4)"
    and s4: "startup_steps su fl [PersistenceQueueStep]
      (a4\<lparr>ap_container := register_all r4 (ap_container a4), ap_started := ap_started a4 @ [ServiceDatabaseStep]\<rparr>) = (a, Inr ())"
    using s3 by (rule startup_steps_Cons)
  obtain a5 r5 where 5: "step_startup su fl PersistenceQueueStep
      (a4\<lparr>ap_container := register_all r4 (ap_container a4), ap_started := ap_started a4 @ [ServiceDatabaseStep]\<rparr>) = (a5, Inr r5)"
    and s5: "a = a5\<lparr>ap_container := register_all r5 (ap_container a5), ap_started := ap_started a5 @ [PersistenceQueueStep]\<rparr>"
    using s4 by (rule startup_steps_Cons) simp
  have "open_as False (collecting su) (exporting su) a1 \<and> ap_started a1 = []"
    using performance_open [of su fl new_app a1 r1 False] 0 1 assms(1) by simp
  then have "open_as False (collecting su) (exporting su) a2 \<and> ap_started a2 = [PerformanceStep]"
    using warehouse_open 2 by fastforce
  then have "open_as False (collecting su) (exporting su) a3 \<and> ap_started a3 = [PerformanceStep, DataWarehouseStep]"
    using 3 by (auto simp: executors_startup_def)
  then have "open_as (has_service_db su) (collecting su) (exporting su) a4
      \<and> ap_started a4 = [PerformanceStep, DataWarehouseStep, ExecutorsStep]"
    using service_open 4 by fastforce
  then have "open_as (has_service_db su) (collecting su) (exporting su) a5
      \<and> ap_started a5 = [PerformanceStep, DataWarehouseStep, ExecutorsStep, ServiceDatabaseStep]"
    using persistence_open 5 by fastforce
  then show ?thesis by (simp add: s5 all_steps_def)
qed

section \<open>The stop\<close>

lemma performs_shutdown_step:
  assumes "performs fl es (step_shutdown su fl s) a"
    and "\<And>a' v. step_shutdown su fl s a = (a', Inr v) \<Longrightarrow> performs fl fs (shutdown_steps su fl ss) a'"
  shows "performs fl (es @ fs) (shutdown_steps su fl (s # ss)) a"
proof -
  have "shutdown_steps su fl (s # ss) = then_do (step_shutdown su fl s) (shutdown_steps su fl ss)"
    by (rule ext) (simp add: then_do_def split: prod.split sum.split)
  with performs_then [OF assms] show ?thesis by simp
qed

lemma shutdown_steps_open:
  "step_shutdown su fl s a = (a', Inr v) \<Longrightarrow> su_mode su = Async \<Longrightarrow> s \<noteq> PerformanceStep \<Longrightarrow> open_as b c d a \<Longrightarrow> open_as b c d a'"
  by (cases s)
    (auto simp: warehouse_shutdown_def executors_shutdown_def service_shutdown_def persistence_shutdown_async_def
      open_as_def steps_defs split: if_splits option.splits)

lemma performs_service_shutdown:
  "open_as b c d a \<Longrightarrow> performs fl (if b then [Stop_Flush, Disconnect_Service] else []) (service_shutdown fl) a"
  by (auto simp: service_shutdown_def performs_def open_as_def steps_defs split: option.splits)

lemma performs_performance_shutdown:
  "open_as b c d a \<Longrightarrow> performs fl ((if c then [Stop_Collectors] else []) @ (if d then [Cancel_Export] else []))
     (performance_shutdown_async fl) a"
  by (auto simp: performance_shutdown_async_def performs_def open_as_def steps_defs split: option.splits)

lemma shutdown_steps_perform:
  assumes "su_mode su = Async" "open_as (has_service_db su) (collecting su) (exporting su) a"
  shows "performs fl (stop_plan su) (shutdown_steps su fl (rev all_steps)) a"
proof -
  let ?s = "if has_service_db su then [Stop_Flush, Disconnect_Service] else []"
  let ?p = "(if collecting su then [Stop_Collectors] else []) @ (if exporting su then [Cancel_Export] else [])"
  let ?open = "open_as (has_service_db su) (collecting su) (exporting su)"
  have nil: "performs fl [] (shutdown_steps su fl []) a'" for a' by (simp add: performs_def)
  have single: "performs fl [Stop_Persistence] (step_shutdown su fl PersistenceQueueStep) a'"
    "performs fl [Shutdown_Executors] (step_shutdown su fl ExecutorsStep) a'"
    "performs fl [] (step_shutdown su fl DataWarehouseStep) a'" for a'
    using assms(1) performs_call
    by (auto simp: persistence_shutdown_async_def executors_shutdown_def warehouse_shutdown_def performs_def)
  have svc: "?open a' \<Longrightarrow> performs fl ?s (step_shutdown su fl ServiceDatabaseStep) a'" for a'
    using performs_service_shutdown by (simp add: performs_def)
  have perf: "?open a' \<Longrightarrow> performs fl ?p (step_shutdown su fl PerformanceStep) a'" for a'
    using performs_performance_shutdown assms(1) by (simp add: performs_def)
  have "performs fl ([Stop_Persistence] @ ?s @ [Shutdown_Executors] @ [] @ ?p @ [])
      (shutdown_steps su fl [PersistenceQueueStep, ServiceDatabaseStep, ExecutorsStep, DataWarehouseStep, PerformanceStep]) a"
    using assms(2)
    by (intro performs_shutdown_step nil single svc perf)
      (blast intro: shutdown_steps_open [OF _ assms(1)])+
  then show ?thesis by (simp add: all_steps_def stop_plan_def)
qed


definition full_setup :: app_setup where
  "full_setup = \<lparr>su_mode = Async, su_db_config = True, su_service_db_path = Some ''service.db'', su_performance = True,
     su_collectors_import = True, su_exporter_import = True, su_env = (\<lambda>_. None), su_running_loop = True\<rparr>"

lemma full_setup_plans:
  "start_plan full_setup = [Open_Warehouse, Connect_Service, Create_Tables, Initialize_Admin, Cleanup_Cache, Start_Flush,
     Start_Persistence]"
  "stop_plan full_setup = [Stop_Persistence, Stop_Flush, Disconnect_Service, Shutdown_Executors]"
  "su_mode full_setup = Async" "settings_parse full_setup"
  by code_simp+


text \<open>In sync mode inside a running loop, as in the usage example of the class, the queue is never drained.\<close>

lemma sync_context_keeps_queue:
  "su_running_loop su \<Longrightarrow> persistence_shutdown_sync su fl a = (a, Inr ())"
  by (simp add: persistence_shutdown_sync_def)

end
