(* ===== verification/Write_Queue.thy ===== *)
theory Write_Queue
  imports Prelude "HOL-Library.Multiset" "HOL-Library.Sublist"
begin

text \<open>
  \<open>src/core/observability/write_queue.py\<close>: the background flush queue of request records.  The
  producers, the flush thread and the thread that calls \<open>stop()\<close> interleave at the granularity of one
  queue operation; a record written means handed to \<open>_flush_batch\<close>, whose transaction is in
  \<open>Observability\<close>.  The history of who took which record, and the batches each of the two flushed, are
  kept to state that nothing is lost, written twice or reordered.
\<close>

section \<open>State\<close>

datatype 'r flusher =
    NotStarted
  | Sleeping                \<comment> \<open>\<open>time.sleep(flush_interval)\<close>\<close>
  | Draining "'r list"      \<comment> \<open>inside \<open>_drain\<close>, with the batch so far\<close>
  | Flushing "'r list"
  | Exited

datatype 'r stopper = NotStopped | Joining | Emptying "'r list" | FinalFlush "'r list" | Stopped

datatype who = FlushThread | StopCaller

record 'r wq =
  wq_queue :: "'r list"
  wq_max_batch :: nat
  wq_stop_event :: bool
  wq_has_thread :: bool         \<comment> \<open>\<open>self._thread is not None\<close>\<close>
  wq_thread :: "'r flusher"
  wq_stopper :: "'r stopper"
  accepted :: "'r list"
  taken :: "(who \<times> 'r) list"
  flushed :: "who \<Rightarrow> 'r list list"

definition wq_new :: "nat \<Rightarrow> 'r wq" where
  "wq_new max_batch =
     \<lparr>wq_queue = [], wq_max_batch = max_batch, wq_stop_event = False, wq_has_thread = False, wq_thread = NotStarted,
      wq_stopper = NotStopped, accepted = [], taken = [], flushed = (\<lambda>_. [])\<rparr>"

section \<open>Operations\<close>

text \<open>
  \<open>start()\<close>: nothing when a thread is known.  \<open>stop()\<close> never clears the event, so the thread of a
  \<open>start()\<close> after it leaves the loop at the first test; a thread that outlived its join goes on.
\<close>

definition wq_start :: "'r wq \<Rightarrow> 'r wq" where
  "wq_start s = (if wq_has_thread s then s
     else if wq_stop_event s then s\<lparr>wq_has_thread := True\<rparr>
     else s\<lparr>wq_has_thread := True, wq_thread := Sleeping\<rparr>)"

definition wq_enqueue :: "'r \<Rightarrow> 'r wq \<Rightarrow> 'r wq" where
  "wq_enqueue r s = s\<lparr>wq_queue := wq_queue s @ [r], accepted := accepted s @ [r]\<rparr>"

definition wq_take :: "who \<Rightarrow> 'r \<Rightarrow> 'r list \<Rightarrow> 'r wq \<Rightarrow> 'r wq" where
  "wq_take w r q s = s\<lparr>wq_queue := q, taken := taken s @ [(w, r)]\<rparr>"

definition wq_flush :: "who \<Rightarrow> 'r list \<Rightarrow> 'r wq \<Rightarrow> 'r wq" where
  "wq_flush w b s = s\<lparr>flushed := (flushed s)(w := flushed s w @ [b])\<rparr>"

text \<open>The test \<open>while not self._stop_event.is_set()\<close> at the head of \<open>_run\<close>.\<close>

definition loop_head :: "'r wq \<Rightarrow> 'r flusher" where
  "loop_head s = (if wq_stop_event s then Exited else Sleeping)"

text \<open>
  \<open>stop()\<close> sets the event, joins the thread for at most five seconds (\<open>joined\<close> when the thread ended,
  \<open>join_timeout\<close> otherwise), takes whatever is queued without a limit, and flushes it.
\<close>

inductive wq_step :: "'r wq \<Rightarrow> 'r wq \<Rightarrow> bool" where
  start: "wq_step s (wq_start s)"
| enqueue: "wq_step s (wq_enqueue r s)"
| wake: "wq_thread s = Sleeping \<Longrightarrow> wq_step s (s\<lparr>wq_thread := Draining []\<rparr>)"
| thread_get: "wq_thread s = Draining b \<Longrightarrow> length b < wq_max_batch s \<Longrightarrow> wq_queue s = r # q \<Longrightarrow>
      wq_step s ((wq_take FlushThread r q s)\<lparr>wq_thread := Draining (b @ [r])\<rparr>)"
| thread_drained: "wq_thread s = Draining b \<Longrightarrow> \<not> length b < wq_max_batch s \<or> wq_queue s = [] \<Longrightarrow>
      wq_step s (s\<lparr>wq_thread := (if b = [] then loop_head s else Flushing b)\<rparr>)"
| thread_flush: "wq_thread s = Flushing b \<Longrightarrow> wq_step s ((wq_flush FlushThread b s)\<lparr>wq_thread := loop_head s\<rparr>)"
| stop: "wq_stopper s = NotStopped \<or> wq_stopper s = Stopped \<Longrightarrow>
      wq_step s (s\<lparr>wq_stop_event := True, wq_stopper := (if wq_has_thread s then Joining else Emptying [])\<rparr>)"
| joined: "wq_stopper s = Joining \<Longrightarrow> wq_thread s = NotStarted \<or> wq_thread s = Exited \<Longrightarrow>
      wq_step s (s\<lparr>wq_has_thread := False, wq_stopper := Emptying []\<rparr>)"
| join_timeout: "wq_stopper s = Joining \<Longrightarrow> wq_step s (s\<lparr>wq_has_thread := False, wq_stopper := Emptying []\<rparr>)"
| stop_get: "wq_stopper s = Emptying b \<Longrightarrow> wq_queue s = r # q \<Longrightarrow>
      wq_step s ((wq_take StopCaller r q s)\<lparr>wq_stopper := Emptying (b @ [r])\<rparr>)"
| stop_drained: "wq_stopper s = Emptying b \<Longrightarrow> wq_queue s = [] \<Longrightarrow>
      wq_step s (s\<lparr>wq_stopper := (if b = [] then Stopped else FinalFlush b)\<rparr>)"
| stop_flush: "wq_stopper s = FinalFlush b \<Longrightarrow> wq_step s ((wq_flush StopCaller b s)\<lparr>wq_stopper := Stopped\<rparr>)"

inductive wq_reach :: "nat \<Rightarrow> 'r wq \<Rightarrow> bool" for max_batch where
  new: "wq_reach max_batch (wq_new max_batch)"
| step: "wq_reach max_batch s \<Longrightarrow> wq_step s s' \<Longrightarrow> wq_reach max_batch s'"

section \<open>Invariant\<close>

fun thread_batch :: "'r flusher \<Rightarrow> 'r list" where
  "thread_batch (Draining b) = b"
| "thread_batch (Flushing b) = b"
| "thread_batch _ = []"

fun stop_batch :: "'r stopper \<Rightarrow> 'r list" where
  "stop_batch (Emptying b) = b"
| "stop_batch (FinalFlush b) = b"
| "stop_batch _ = []"

definition taken_by :: "who \<Rightarrow> 'r wq \<Rightarrow> 'r list" where
  "taken_by w s = map snd (filter (\<lambda>x. fst x = w) (taken s))"

definition batch_inv :: "nat \<Rightarrow> 'r wq \<Rightarrow> bool" where
  "batch_inv m s \<longleftrightarrow> wq_max_batch s = m \<and> length (thread_batch (wq_thread s)) \<le> m
     \<and> (\<forall>b \<in> set (flushed s FlushThread). b \<noteq> [] \<and> length b \<le> m)
     \<and> (\<forall>b. wq_thread s = Flushing b \<longrightarrow> b \<noteq> [])"

definition taken_inv :: "'r wq \<Rightarrow> bool" where
  "taken_inv s \<longleftrightarrow> accepted s = map snd (taken s) @ wq_queue s
     \<and> taken_by FlushThread s = concat (flushed s FlushThread) @ thread_batch (wq_thread s)
     \<and> taken_by StopCaller s = concat (flushed s StopCaller) @ stop_batch (wq_stopper s)"

text \<open>A queue that was never stopped has no thread only before its start.\<close>

definition thread_inv :: "'r wq \<Rightarrow> bool" where
  "thread_inv s \<longleftrightarrow> (\<not> wq_has_thread s \<and> \<not> wq_stop_event s \<longrightarrow> wq_thread s = NotStarted)
     \<and> (wq_stopper s \<noteq> NotStopped \<longrightarrow> wq_stop_event s)"

lemma thread_batch_head [simp]: "thread_batch (loop_head s) = []" "loop_head s \<noteq> Flushing b"
  by (simp_all add: loop_head_def)

lemmas wq_ops = wq_start_def wq_enqueue_def wq_take_def wq_flush_def

lemma wq_step_inv:
  assumes "wq_step s s'"
  shows "batch_inv m s \<Longrightarrow> batch_inv m s'"
    and "thread_inv s \<Longrightarrow> thread_inv s'"
    and "taken_inv s \<Longrightarrow> thread_inv s \<Longrightarrow> taken_inv s'"
  using assms
  by (cases rule: wq_step.cases;
      auto simp: batch_inv_def taken_inv_def thread_inv_def wq_ops taken_by_def split: if_splits)+

lemma wq_reach_inv: "wq_reach m s \<Longrightarrow> batch_inv m s \<and> thread_inv s \<and> taken_inv s"
proof (induction rule: wq_reach.induct)
  case new
  show ?case by (simp add: batch_inv_def thread_inv_def taken_inv_def wq_new_def taken_by_def)
next
  case (step s s')
  then show ?case using wq_step_inv by blast
qed

lemma taken_split: "mset (map snd (taken s)) = mset (taken_by FlushThread s) + mset (taken_by StopCaller s)"
proof -
  have "mset (map snd xs) = mset (map snd (filter (\<lambda>x. fst x = FlushThread) xs))
      + mset (map snd (filter (\<lambda>x. fst x = StopCaller) xs))" for xs :: "(who \<times> 'r) list"
  proof (induction xs)
    case (Cons x xs)
    then show ?case by (cases "fst x") simp_all
  qed simp
  then show ?thesis by (simp add: taken_by_def)
qed

lemma subseq_taken: "subseq (taken_by w s) (map snd (taken s))"
  unfolding taken_by_def by (intro subseq_map subseq_filter_left)

section \<open>Properties\<close>

text \<open>
  C14.  In every interleaving of producers, flush thread and \<open>stop()\<close>, each accepted record is exactly
  once in a flushed batch, in a batch being taken or flushed, or still queued; each of the two flushes in
  the order of acceptance; the queued records are the latest ones; and the thread's batches are neither
  empty nor longer than \<open>max_batch\<close>.
\<close>

theorem write_queue_loses_nothing:
  assumes "wq_reach m s"
  shows "mset (accepted s) = mset (concat (flushed s FlushThread)) + mset (concat (flushed s StopCaller))
           + mset (thread_batch (wq_thread s)) + mset (stop_batch (wq_stopper s)) + mset (wq_queue s)
     \<and> (\<forall>w. subseq (concat (flushed s w)) (accepted s)) \<and> suffix (wq_queue s) (accepted s)
     \<and> (\<forall>b \<in> set (flushed s FlushThread). b \<noteq> [] \<and> length b \<le> m)"
proof -
  have b: "batch_inv m s" and t: "taken_inv s" using wq_reach_inv [OF assms] by blast+
  have acc: "accepted s = map snd (taken s) @ wq_queue s"
    and by_thread: "taken_by FlushThread s = concat (flushed s FlushThread) @ thread_batch (wq_thread s)"
    and by_stop: "taken_by StopCaller s = concat (flushed s StopCaller) @ stop_batch (wq_stopper s)"
    using t by (simp_all add: taken_inv_def)
  have "subseq (concat (flushed s w)) (accepted s)" for w
  proof -
    have "subseq (concat (flushed s w)) (taken_by w s)" using by_thread by_stop by (cases w) (simp_all add: prefix_imp_subseq)
    also have "subseq (taken_by w s) (map snd (taken s))" by (rule subseq_taken)
    also have "subseq (map snd (taken s)) (accepted s)" by (simp add: acc prefix_imp_subseq)
    finally show ?thesis .
  qed
  moreover have "mset (accepted s) = mset (concat (flushed s FlushThread)) + mset (concat (flushed s StopCaller))
           + mset (thread_batch (wq_thread s)) + mset (stop_batch (wq_stopper s)) + mset (wq_queue s)"
    using taken_split [of s] by (simp add: acc by_thread by_stop)
  ultimately show ?thesis using b by (auto simp: acc batch_inv_def suffix_def)
qed

text \<open>One record flushed by the thread, a second one by the caller of \<open>stop()\<close>.\<close>

definition wq_at :: "nat list \<Rightarrow> nat flusher \<Rightarrow> nat list \<Rightarrow> (who \<times> nat) list \<Rightarrow> nat list list \<Rightarrow> nat wq" where
  "wq_at q t a tk f =
     \<lparr>wq_queue = q, wq_max_batch = 5, wq_stop_event = False, wq_has_thread = True, wq_thread = t,
      wq_stopper = NotStopped, accepted = a, taken = tk, flushed = (\<lambda>_. [])(FlushThread := f)\<rparr>"

definition started :: "nat wq" where
  "started = wq_at [2] Sleeping [1, 2] [(FlushThread, 1)] [[1]]"

lemma started_reach: "wq_reach 5 started"
proof -
  have 0: "wq_reach 5 (wq_at [] Sleeping [] [] [])"
    using wq_reach.step [OF wq_reach.new wq_step.start, of 5]
    by (simp add: wq_start_def wq_new_def wq_at_def fun_upd_idem)
  have 1: "wq_reach 5 (wq_at [1] Sleeping [1] [] [])"
    using wq_reach.step [OF 0 wq_step.enqueue, of 1] by (simp add: wq_enqueue_def wq_at_def)
  have 2: "wq_reach 5 (wq_at [1] (Draining []) [1] [] [])"
    using wq_reach.step [OF 1 wq_step.wake] by (simp add: wq_at_def)
  have 3: "wq_reach 5 (wq_at [] (Draining [1]) [1] [(FlushThread, 1)] [])"
    using wq_reach.step [OF 2 wq_step.thread_get [of _ "[]" 1 "[]"]] by (simp add: wq_take_def wq_at_def)
  have 4: "wq_reach 5 (wq_at [] (Flushing [1]) [1] [(FlushThread, 1)] [])"
    using wq_reach.step [OF 3 wq_step.thread_drained [of _ "[1]"]] by (simp add: wq_at_def)
  have 5: "wq_reach 5 (wq_at [] Sleeping [1] [(FlushThread, 1)] [[1]])"
    using wq_reach.step [OF 4 wq_step.thread_flush [of _ "[1]"]]
    by (simp add: wq_flush_def loop_head_def wq_at_def fun_upd_idem)
  show ?thesis
    using wq_reach.step [OF 5 wq_step.enqueue, of 2] by (simp add: wq_enqueue_def wq_at_def started_def)
qed

theorem write_queue_loses_nothing_witness:
  "accepted started = [1, 2] \<and> flushed started FlushThread = [[1]] \<and> wq_queue started = [2]
   \<and> subseq (concat (flushed started FlushThread)) (accepted started)"
  using write_queue_loses_nothing [OF started_reach] by (auto simp: started_def wq_at_def)

end
