(* ===== verification/Observability.thy ===== *)
theory Observability
  imports Write_Queue Service_Db App_Settings
begin

text \<open>
  \<open>src/core/observability\<close>: what is recorded of a request.  The middleware (\<open>middleware.py\<close>) builds a
  record (\<open>context.py\<close>) and hands it to the write queue; the flush writes it to the tables \<open>logs\<close>,
  \<open>traces\<close> and \<open>audit_log\<close> (\<open>request_logger.py\<close>, \<open>request_tracer.py\<close>, \<open>audit.py\<close>) in one transaction of
  \<open>ServiceDatabase\<close>.  The clock and the failures of the database are arguments, one for each statement;
  identifiers the code draws (\<open>uuid4\<close>, \<open>token_hex\<close>) are arguments too.  A column of JSON text holds the
  dictionary it encodes.
\<close>

section \<open>The request context\<close>

record req_state =
  rs_request_id :: "string option"
  rs_session_id :: "string option"
  rs_user_id :: "string option"
  rs_username :: "string option"
  rs_ip_address :: "string option"
  rs_user_agent :: "string option"

record seen_request =
  sr_method :: string
  sr_url :: string
  sr_header :: "string \<Rightarrow> string option"
  sr_client :: "string option"
  sr_state :: req_state

record request_context =
  cx_request_id :: string
  cx_session_id :: string
  cx_user_id :: string
  cx_username :: string
  cx_ip_address :: string
  cx_user_agent :: string

definition header_or_empty :: "seen_request \<Rightarrow> string \<Rightarrow> string" where
  "header_or_empty q k = (case sr_header q k of None \<Rightarrow> [] | Some v \<Rightarrow> v)"

definition build_request_context :: "string \<Rightarrow> seen_request \<Rightarrow> request_context \<times> seen_request" where
  "build_request_context uuid q =
     (let st = sr_state q;
          c = \<lparr>cx_request_id = py_or_str (rs_request_id st) uuid,
               cx_session_id = py_or_str (rs_session_id st) (header_or_empty q ''x-session-id''),
               cx_user_id = py_or_str (rs_user_id st) [],
               cx_username = py_or_str (rs_username st) (header_or_empty q ''x-username''),
               cx_ip_address = py_or_str (rs_ip_address st) (case sr_client q of None \<Rightarrow> ''unknown'' | Some h \<Rightarrow> h),
               cx_user_agent = py_or_str (rs_user_agent st) (header_or_empty q ''user-agent'')\<rparr>
      in (c, q\<lparr>sr_state := \<lparr>rs_request_id = Some (cx_request_id c), rs_session_id = Some (cx_session_id c),
                rs_user_id = Some (cx_user_id c), rs_username = Some (cx_username c),
                rs_ip_address = Some (cx_ip_address c), rs_user_agent = Some (cx_user_agent c)\<rparr>\<rparr>))"

section \<open>The record of a request\<close>

datatype json_scalar = JStr string | JInt int | JNum rat

type_synonym json_dict = "(string \<times> json_scalar) list"

record log_part =
  lp_method :: string
  lp_url :: string
  lp_status_code :: int
  lp_duration_ms :: rat
  lp_user_id :: string
  lp_ip_address :: string
  lp_user_agent :: string
  lp_request_id :: string
  lp_session_id :: string
  lp_error :: "string option"

record start_part =
  sp_trace_id :: string
  sp_span_id :: string
  sp_operation_name :: string
  sp_service_name :: string
  sp_parent_span_id :: string
  sp_user_id :: string
  sp_session_id :: string
  sp_request_id :: string
  sp_service_version :: string

record end_part =
  ep_trace_id :: string
  ep_span_id :: string
  ep_status :: string
  ep_error_message :: string
  ep_http_method :: string
  ep_http_url :: string
  ep_http_status_code :: int
  ep_db_query :: string
  ep_db_duration_ms :: int
  ep_tags :: json_dict

record audit_part =
  ap_event_type :: string
  ap_action :: string
  ap_user_id :: string
  ap_session_id :: string
  ap_ip_address :: string
  ap_user_agent :: string
  ap_resource_type :: string
  ap_resource_id :: string
  ap_old_values :: json_dict
  ap_new_values :: json_dict
  ap_success :: bool
  ap_error_message :: string
  ap_metadata :: json_dict

record obs_record =
  rec_log :: log_part
  rec_trace_start :: start_part
  rec_trace_end :: end_part
  rec_audit :: audit_part

definition request_meta :: "rat \<Rightarrow> request_context \<Rightarrow> json_dict" where
  "request_meta duration c =
     [(''duration_ms'', JNum (py_round 3 duration)), (''username'', JStr (cx_username c)),
      (''session_id'', JStr (cx_session_id c))]"

definition make_record :: "string \<Rightarrow> seen_request \<Rightarrow> request_context \<Rightarrow> int \<Rightarrow> rat \<Rightarrow> string option \<Rightarrow> string \<Rightarrow> obs_record" where
  "make_record token q c status duration error operation =
     (let trace_id = ''trace-'' @ cx_request_id c; span_id = ''span-'' @ token; message = py_or_str error [] in
      \<lparr>rec_log = \<lparr>lp_method = sr_method q, lp_url = sr_url q, lp_status_code = status, lp_duration_ms = duration,
         lp_user_id = py_or_str (Some (cx_user_id c)) (cx_username c), lp_ip_address = cx_ip_address c,
         lp_user_agent = cx_user_agent c, lp_request_id = cx_request_id c, lp_session_id = cx_session_id c,
         lp_error = error\<rparr>,
       rec_trace_start = \<lparr>sp_trace_id = trace_id, sp_span_id = span_id, sp_operation_name = operation,
         sp_service_name = ''preparedata-api'', sp_parent_span_id = [], sp_user_id = cx_user_id c,
         sp_session_id = cx_session_id c, sp_request_id = cx_request_id c, sp_service_version = ''1.0.0''\<rparr>,
       rec_trace_end = \<lparr>ep_trace_id = trace_id, ep_span_id = span_id,
         ep_status = (if status < 400 then ''OK'' else ''ERROR''), ep_error_message = message,
         ep_http_method = sr_method q, ep_http_url = sr_url q, ep_http_status_code = status, ep_db_query = [],
         ep_db_duration_ms = 0, ep_tags = request_meta duration c\<rparr>,
       rec_audit = \<lparr>ap_event_type = ''request.completed'', ap_action = ''request'', ap_user_id = cx_user_id c,
         ap_session_id = cx_session_id c, ap_ip_address = cx_ip_address c, ap_user_agent = cx_user_agent c,
         ap_resource_type = ''request'', ap_resource_id = cx_request_id c, ap_old_values = [], ap_new_values = [],
         ap_success = (status < 400), ap_error_message = message,
         ap_metadata = (''status_code'', JInt status) # request_meta duration c\<rparr>\<rparr>)"

section \<open>The tables\<close>

record log_row =
  l_log_id :: int
  l_timestamp :: int
  l_level :: string
  l_logger :: string
  l_message :: string
  l_module :: string
  l_function :: string
  l_line :: int
  l_exception :: string
  l_user_id :: string
  l_session_id :: string
  l_request_id :: string
  l_ip_address :: string
  l_user_agent :: string

record trace_row =
  t_trace_id :: string
  t_span_id :: string
  t_parent_span_id :: string
  t_operation_name :: string
  t_start_time :: int
  t_end_time :: "int option"
  t_duration_ms :: "int option"
  t_status :: "string option"
  t_error_message :: "string option"
  t_service_name :: string
  t_service_version :: string
  t_user_id :: string
  t_session_id :: string
  t_request_id :: string
  t_http_method :: "string option"
  t_http_url :: "string option"
  t_http_status_code :: "int option"
  t_db_query :: "string option"
  t_db_duration_ms :: "int option"
  t_tags :: "json_dict option"

record audit_row =
  a_audit_id :: int
  a_timestamp :: int
  a_event_type :: string
  a_user_id :: string
  a_session_id :: string
  a_ip_address :: string
  a_user_agent :: string
  a_resource_type :: string
  a_resource_id :: string
  a_action :: string
  a_old_values :: "json_dict option"
  a_new_values :: "json_dict option"
  a_success :: bool
  a_error_message :: string
  a_metadata :: "json_dict option"

record obs_tables =
  logs :: "log_row list"
  traces :: "trace_row list"
  audit_log :: "audit_row list"
  last_log_id :: int
  last_audit_id :: int

text \<open>The statements one record sends, the clock each of them reads, and whether it raises.\<close>

datatype stmt = Log_Insert | Trace_Insert | Trace_Read | Trace_Update | Audit_Insert

record stmt_env =
  se_clock :: "stmt \<Rightarrow> rat"
  se_raises :: "stmt \<Rightarrow> bool"

text \<open>\<open>int(x)\<close> for a float truncates.\<close>

definition py_trunc :: "rat \<Rightarrow> int" where
  "py_trunc x = (if 0 \<le> x then \<lfloor>x\<rfloor> else \<lceil>x\<rceil>)"

definition micros :: "rat \<Rightarrow> int" where
  "micros t = py_trunc (t * 1000000)"

section \<open>Request log\<close>

record event_args =
  ev_level :: string
  ev_message :: string
  ev_logger_name :: string
  ev_module :: string
  ev_function :: string
  ev_line :: int
  ev_exception :: string
  ev_user_id :: string
  ev_session_id :: string
  ev_request_id :: string
  ev_ip_address :: string
  ev_user_agent :: string

definition log_event :: "stmt_env \<Rightarrow> event_args \<Rightarrow> obs_tables \<Rightarrow> obs_tables" where
  "log_event env e T =
     (if se_raises env Log_Insert then T
      else T\<lparr>logs := logs T @
        [\<lparr>l_log_id = last_log_id T + 1, l_timestamp = py_trunc (se_clock env Log_Insert), l_level = ev_level e,
          l_logger = ev_logger_name e, l_message = ev_message e, l_module = ev_module e, l_function = ev_function e,
          l_line = ev_line e, l_exception = ev_exception e, l_user_id = ev_user_id e, l_session_id = ev_session_id e,
          l_request_id = ev_request_id e, l_ip_address = ev_ip_address e, l_user_agent = ev_user_agent e\<rparr>],
        last_log_id := last_log_id T + 1\<rparr>)"

definition log_request :: "stmt_env \<Rightarrow> log_part \<Rightarrow> obs_tables \<Rightarrow> obs_tables" where
  "log_request env p T =
     log_event env
       \<lparr>ev_level = (if lp_status_code p \<ge> 400 then ''ERROR'' else ''INFO''),
        ev_message = lp_method p @ '' '' @ lp_url p @ '' - '' @ string_of_int (lp_status_code p)
          @ (case lp_error p of None \<Rightarrow> [] | Some e \<Rightarrow> if e = [] then [] else '' - Error: '' @ e),
        ev_logger_name = ''http.request'', ev_module = ''api'', ev_function = ''middleware'', ev_line = 0,
        ev_exception = [], ev_user_id = lp_user_id p, ev_session_id = lp_session_id p, ev_request_id = lp_request_id p,
        ev_ip_address = lp_ip_address p, ev_user_agent = lp_user_agent p\<rparr> T"

section \<open>Request traces\<close>

text \<open>\<open>trace_id\<close> is the primary key of \<open>traces\<close>.\<close>

definition start_trace :: "stmt_env \<Rightarrow> start_part \<Rightarrow> obs_tables \<Rightarrow> obs_tables \<times> string" where
  "start_trace env p T =
     (if se_raises env Trace_Insert \<or> (\<exists>r \<in> set (traces T). t_trace_id r = sp_trace_id p) then (T, sp_span_id p)
      else (T\<lparr>traces := traces T @
        [\<lparr>t_trace_id = sp_trace_id p, t_span_id = sp_span_id p, t_parent_span_id = sp_parent_span_id p,
          t_operation_name = sp_operation_name p, t_start_time = micros (se_clock env Trace_Insert), t_end_time = None,
          t_duration_ms = None, t_status = None, t_error_message = None, t_service_name = sp_service_name p,
          t_service_version = sp_service_version p, t_user_id = sp_user_id p, t_session_id = sp_session_id p,
          t_request_id = sp_request_id p, t_http_method = None, t_http_url = None, t_http_status_code = None,
          t_db_query = None, t_db_duration_ms = None, t_tags = None\<rparr>]\<rparr>, sp_span_id p))"

definition is_span :: "string \<Rightarrow> string \<Rightarrow> trace_row \<Rightarrow> bool" where
  "is_span trace_id span_id r \<longleftrightarrow> t_trace_id r = trace_id \<and> t_span_id r = span_id"

definition finished_row :: "int \<Rightarrow> int \<Rightarrow> end_part \<Rightarrow> trace_row \<Rightarrow> trace_row" where
  "finished_row end_time duration p r =
     r\<lparr>t_end_time := Some end_time, t_duration_ms := Some duration, t_status := Some (ep_status p),
       t_error_message := Some (ep_error_message p), t_http_method := Some (ep_http_method p),
       t_http_url := Some (ep_http_url p), t_http_status_code := Some (ep_http_status_code p),
       t_db_query := Some (ep_db_query p), t_db_duration_ms := Some (ep_db_duration_ms p),
       t_tags := (if ep_tags p = [] then None else Some (ep_tags p))\<rparr>"

text \<open>The look-up of the start time stands outside the \<open>try\<close>: when it raises, so does \<open>end_trace\<close>.\<close>

definition end_trace :: "stmt_env \<Rightarrow> end_part \<Rightarrow> obs_tables \<Rightarrow> obs_tables result" where
  "end_trace env p T =
     (let end_time = micros (se_clock env Trace_Read) in
      if se_raises env Trace_Read then Inl (OtherError ''database'')
      else (let duration = (case find (is_span (ep_trace_id p) (ep_span_id p)) (traces T) of
                              None \<Rightarrow> 0 | Some r \<Rightarrow> (end_time - t_start_time r) div 1000) in
        if se_raises env Trace_Update then Inr T
        else Inr (T\<lparr>traces := map (\<lambda>r. if is_span (ep_trace_id p) (ep_span_id p) r
                                        then finished_row end_time duration p r else r) (traces T)\<rparr>)))"

section \<open>Audit trail\<close>

definition json_column :: "json_dict \<Rightarrow> json_dict option" where
  "json_column d = (if d = [] then None else Some d)"

definition log_audit_event :: "stmt_env \<Rightarrow> audit_part \<Rightarrow> obs_tables \<Rightarrow> obs_tables" where
  "log_audit_event env p T =
     (if se_raises env Audit_Insert then T
      else T\<lparr>audit_log := audit_log T @
        [\<lparr>a_audit_id = last_audit_id T + 1, a_timestamp = py_trunc (se_clock env Audit_Insert),
          a_event_type = ap_event_type p, a_user_id = ap_user_id p, a_session_id = ap_session_id p,
          a_ip_address = ap_ip_address p, a_user_agent = ap_user_agent p, a_resource_type = ap_resource_type p,
          a_resource_id = ap_resource_id p, a_action = ap_action p, a_old_values = json_column (ap_old_values p),
          a_new_values = json_column (ap_new_values p), a_success = ap_success p,
          a_error_message = ap_error_message p, a_metadata = json_column (ap_metadata p)\<rparr>],
        last_audit_id := last_audit_id T + 1\<rparr>)"

section \<open>Writing records\<close>

text \<open>The writes made before an exception stay in the open transaction.\<close>

definition write_observability_record :: "stmt_env \<Rightarrow> obs_record \<Rightarrow> obs_tables \<Rightarrow> obs_tables \<times> unit result" where
  "write_observability_record env r T =
     (let T1 = log_request env (rec_log r) T; T2 = fst (start_trace env (rec_trace_start r) T1) in
      case end_trace env (rec_trace_end r) T2 of
        Inl e \<Rightarrow> (T2, Inl e)
      | Inr T3 \<Rightarrow> (log_audit_event env (rec_audit r) T3, Inr ()))"

text \<open>
  \<open>ServiceDatabase.transaction()\<close>: \<open>opened\<close> when a connection was acquired, \<open>commits\<close> when the commit
  succeeds; otherwise the tables keep their committed contents.
\<close>

record tx_env =
  tx_opened :: bool
  tx_commits :: bool

definition in_transaction :: "tx_env \<Rightarrow> (obs_tables \<Rightarrow> obs_tables \<times> unit result) \<Rightarrow> obs_tables \<Rightarrow> obs_tables \<times> unit result" where
  "in_transaction x body T =
     (if \<not> tx_opened x then (T, Inl MaxConnectionsExceeded)
      else (case body T of
              (T', Inl e) \<Rightarrow> (T, Inl e)
            | (T', Inr _) \<Rightarrow> if tx_commits x then (T', Inr ()) else (T, Inl (OtherError ''commit''))))"

text \<open>\<open>_flush_batch\<close>: a record that raises is logged and skipped, a transaction that fails is logged.\<close>

fun write_all :: "(stmt_env \<times> obs_record) list \<Rightarrow> obs_tables \<Rightarrow> obs_tables" where
  "write_all [] T = T"
| "write_all ((env, r) # rs) T = write_all rs (fst (write_observability_record env r T))"

definition flush_batch :: "tx_env \<Rightarrow> (stmt_env \<times> obs_record) list \<Rightarrow> obs_tables \<Rightarrow> obs_tables" where
  "flush_batch x batch T =
     (if batch = [] then T else fst (in_transaction x (\<lambda>T. (write_all batch T, Inr ())) T))"

section \<open>The middleware\<close>

record obs_app =
  oa_manager :: bool          \<comment> \<open>\<open>hasattr(app.state, 'service_manager')\<close>\<close>
  oa_queue :: "obs_record list option"
  oa_tables :: obs_tables

record emit_env =
  ee_uuid :: string
  ee_token :: string
  ee_tx :: tx_env
  ee_stmts :: stmt_env

definition emit_request_observability ::
  "emit_env \<Rightarrow> seen_request \<Rightarrow> int \<Rightarrow> rat option \<Rightarrow> string option \<Rightarrow> string option \<Rightarrow> string \<Rightarrow> obs_app \<Rightarrow> obs_app \<times> unit result" where
  "emit_request_observability ee q status duration error user operation app =
     (let (c0, q') = build_request_context (ee_uuid ee) q;
          c = c0\<lparr>cx_user_id := py_or_str user (cx_user_id c0)\<rparr>;
          r = make_record (ee_token ee) q' c status (case duration of None \<Rightarrow> 0 | Some d \<Rightarrow> d) error operation
      in case oa_queue app of
           Some rs \<Rightarrow> (app\<lparr>oa_queue := Some (rs @ [r])\<rparr>, Inr ())
         | None \<Rightarrow>
             (case in_transaction (ee_tx ee) (write_observability_record (ee_stmts ee) r) (oa_tables app) of
                (T, res) \<Rightarrow> (app\<lparr>oa_tables := T\<rparr>, res)))"

text \<open>
  \<open>record_observability\<close>: \<open>outcome\<close> is the status of the response of \<open>call_next\<close>, or what it raised with the text
  of the exception; \<open>CancelledError\<close> is no \<open>Exception\<close>.  What the recording raises is logged.
\<close>

type_synonym outcome = "(py_exc \<times> string) + int"

definition record_observability :: "emit_env \<Rightarrow> rat \<Rightarrow> seen_request \<Rightarrow> outcome \<Rightarrow> obs_app \<Rightarrow> obs_app \<times> outcome" where
  "record_observability ee process_time q outcome app =
     (let record_it = (\<lambda>status error. if oa_manager app
            then fst (emit_request_observability ee q status (Some (process_time * 1000)) error
                        (rs_user_id (sr_state q)) ''http.request'' app)
            else app)
      in case outcome of
           Inr status \<Rightarrow> (record_it status None, Inr status)
         | Inl (e, m) \<Rightarrow> (if e = CancelledError then app else record_it 500 (Some m), Inl (e, m)))"

section \<open>Reading back\<close>

text \<open>
  A filter argument that is falsy adds no condition.  SQLite reads a negative \<open>LIMIT\<close> as none and a negative
  \<open>OFFSET\<close> as zero.  Among rows of equal time the order is the order of insertion.
\<close>

definition same_if :: "string \<Rightarrow> string \<Rightarrow> bool" where
  "same_if wanted v \<longleftrightarrow> wanted = [] \<or> v = wanted"

definition since :: "int \<Rightarrow> int \<Rightarrow> bool" where
  "since bound t \<longleftrightarrow> bound = 0 \<or> bound \<le> t"

definition until_time :: "int \<Rightarrow> int \<Rightarrow> bool" where
  "until_time bound t \<longleftrightarrow> bound = 0 \<or> t \<le> bound"

definition page_of :: "int \<Rightarrow> int \<Rightarrow> 'a list \<Rightarrow> 'a list" where
  "page_of limit offset xs =
     (let ys = drop (nat offset) xs in if limit < 0 then ys else take (nat limit) ys)"

record log_filter =
  lf_level :: string
  lf_user_id :: string
  lf_request_id :: string
  lf_start_time :: int
  lf_end_time :: int

definition log_matches :: "log_filter \<Rightarrow> log_row \<Rightarrow> bool" where
  "log_matches f r \<longleftrightarrow> same_if (lf_level f) (l_level r) \<and> same_if (lf_user_id f) (l_user_id r)
     \<and> same_if (lf_request_id f) (l_request_id r) \<and> since (lf_start_time f) (l_timestamp r)
     \<and> until_time (lf_end_time f) (l_timestamp r)"

definition get_logs :: "bool \<Rightarrow> int \<Rightarrow> int \<Rightarrow> log_filter \<Rightarrow> obs_tables \<Rightarrow> log_row list" where
  "get_logs fails limit offset f T =
     (if fails then [] else page_of limit offset (newest_first l_timestamp (filter (log_matches f) (logs T))))"

record trace_filter =
  tf_service_name :: string
  tf_operation_name :: string
  tf_user_id :: string
  tf_request_id :: string
  tf_start_time :: int
  tf_end_time :: int
  tf_status :: string

definition trace_matches :: "trace_filter \<Rightarrow> trace_row \<Rightarrow> bool" where
  "trace_matches f r \<longleftrightarrow> same_if (tf_service_name f) (t_service_name r)
     \<and> same_if (tf_operation_name f) (t_operation_name r) \<and> same_if (tf_user_id f) (t_user_id r)
     \<and> same_if (tf_request_id f) (t_request_id r) \<and> since (tf_start_time f * 1000000) (t_start_time r)
     \<and> until_time (tf_end_time f * 1000000) (t_start_time r)
     \<and> (tf_status f = [] \<or> t_status r = Some (tf_status f))"

definition get_traces :: "bool \<Rightarrow> int \<Rightarrow> int \<Rightarrow> trace_filter \<Rightarrow> obs_tables \<Rightarrow> (trace_row \<times> json_dict) list" where
  "get_traces fails limit offset f T =
     (if fails then [] else
      map (\<lambda>r. (r, case t_tags r of None \<Rightarrow> [] | Some d \<Rightarrow> d))
        (page_of limit offset (newest_first t_start_time (filter (trace_matches f) (traces T)))))"

record audit_filter =
  af_event_type :: string
  af_user_id :: string
  af_resource_type :: string
  af_resource_id :: string
  af_action :: string
  af_start_time :: int
  af_end_time :: int
  af_success :: "bool option"

definition audit_matches :: "audit_filter \<Rightarrow> audit_row \<Rightarrow> bool" where
  "audit_matches f r \<longleftrightarrow> same_if (af_event_type f) (a_event_type r) \<and> same_if (af_user_id f) (a_user_id r)
     \<and> same_if (af_resource_type f) (a_resource_type r) \<and> same_if (af_resource_id f) (a_resource_id r)
     \<and> same_if (af_action f) (a_action r) \<and> since (af_start_time f) (a_timestamp r)
     \<and> until_time (af_end_time f) (a_timestamp r)
     \<and> (case af_success f of None \<Rightarrow> True | Some b \<Rightarrow> a_success r = b)"

definition get_audit_events :: "bool \<Rightarrow> int \<Rightarrow> int \<Rightarrow> audit_filter \<Rightarrow> obs_tables \<Rightarrow> audit_row list" where
  "get_audit_events fails limit offset f T =
     (if fails then [] else page_of limit offset (newest_first a_timestamp (filter (audit_matches f) (audit_log T))))"

section \<open>One record\<close>

lemma log_request_effect:
  "map l_request_id (logs (log_request env p T)) = map l_request_id (logs T)
     @ (if se_raises env Log_Insert then [] else [lp_request_id p])"
  "traces (log_request env p T) = traces T" "audit_log (log_request env p T) = audit_log T"
  by (simp_all add: log_request_def log_event_def)

lemma start_trace_effect:
  "logs (fst (start_trace env p T)) = logs T" "audit_log (fst (start_trace env p T)) = audit_log T"
  "set (traces T) \<subseteq> set (traces (fst (start_trace env p T)))"
  "t_trace_id ` set (traces (fst (start_trace env p T))) \<subseteq> insert (sp_trace_id p) (t_trace_id ` set (traces T))"
  by (auto simp: start_trace_def)

lemma start_trace_new:
  assumes "\<not> se_raises env Trace_Insert" "sp_trace_id p \<notin> t_trace_id ` set (traces T)"
  shows "\<exists>row \<in> set (traces (fst (start_trace env p T))). is_span (sp_trace_id p) (sp_span_id p) row"
proof -
  have "\<not> (\<exists>r \<in> set (traces T). t_trace_id r = sp_trace_id p)" using assms(2) by (metis imageI)
  with assms(1) show ?thesis by (simp add: start_trace_def is_span_def)
qed

lemma end_trace_shape:
  assumes "end_trace env p T = Inr T'"
  obtains t d where "T' = T \<or> T' = T\<lparr>traces := map (\<lambda>r. if is_span (ep_trace_id p) (ep_span_id p) r
      then finished_row t d p r else r) (traces T)\<rparr>"
  using assms unfolding end_trace_def Let_def by (auto split: if_splits)

lemma finished_ids:
  "t_trace_id ` set (map (\<lambda>r. if P r then finished_row t d p r else r) xs) = t_trace_id ` set xs"
  by (induction xs) (simp_all add: finished_row_def)

lemma end_trace_effect:
  assumes "end_trace env p T = Inr T'"
  shows "logs T' = logs T" "audit_log T' = audit_log T" "t_trace_id ` set (traces T') = t_trace_id ` set (traces T)"
    "r \<in> set (traces T) \<Longrightarrow> t_trace_id r \<noteq> ep_trace_id p \<Longrightarrow> r \<in> set (traces T')"
proof -
  obtain t d where T': "T' = T \<or> T' = T\<lparr>traces := map (\<lambda>r. if is_span (ep_trace_id p) (ep_span_id p) r
      then finished_row t d p r else r) (traces T)\<rparr>"
    using end_trace_shape [OF assms] .
  show "logs T' = logs T" "audit_log T' = audit_log T" using T' by auto
  show "t_trace_id ` set (traces T') = t_trace_id ` set (traces T)" using T'
  proof
    assume "T' = T\<lparr>traces := map (\<lambda>r. if is_span (ep_trace_id p) (ep_span_id p) r
      then finished_row t d p r else r) (traces T)\<rparr>"
    then show ?thesis by (simp add: finished_ids del: set_map list.set_map)
  qed simp
  show "r \<in> set (traces T')" if "r \<in> set (traces T)" "t_trace_id r \<noteq> ep_trace_id p"
    using T' that by (auto simp: is_span_def)
qed

lemma end_trace_raises: "end_trace env p T = Inl e \<Longrightarrow> se_raises env Trace_Read"
  "end_trace env p T = Inr T' \<Longrightarrow> \<not> se_raises env Trace_Read"
  by (auto simp: end_trace_def Let_def split: if_splits)

lemma audit_effect:
  "logs (log_audit_event env p T) = logs T" "traces (log_audit_event env p T) = traces T"
  "map a_resource_id (audit_log (log_audit_event env p T)) = map a_resource_id (audit_log T)
     @ (if se_raises env Audit_Insert then [] else [ap_resource_id p])"
  by (simp_all add: log_audit_event_def)

lemma write_record_cases:
  assumes "fst (write_observability_record env r T) = T'"
    and "T2 = fst (start_trace env (rec_trace_start r) (log_request env (rec_log r) T))"
  obtains (raised) "se_raises env Trace_Read" "T' = T2"
  | (written) T3 where "\<not> se_raises env Trace_Read" "end_trace env (rec_trace_end r) T2 = Inr T3"
      "T' = log_audit_event env (rec_audit r) T3"
proof (cases "end_trace env (rec_trace_end r) T2")
  case (Inl e)
  with assms raised show ?thesis
    by (simp add: write_observability_record_def Let_def end_trace_raises)
next
  case (Inr T3)
  with assms written show ?thesis
    by (simp add: write_observability_record_def Let_def end_trace_raises)
qed

lemmas record_effects = log_request_effect start_trace_effect audit_effect

lemma write_record_logs:
  "map l_request_id (logs (fst (write_observability_record env r T))) = map l_request_id (logs T)
     @ (if se_raises env Log_Insert then [] else [lp_request_id (rec_log r)])"
  by (rule write_record_cases [OF refl refl, of env r T]) (simp_all add: record_effects end_trace_effect)

lemma write_record_audit:
  "map a_resource_id (audit_log (fst (write_observability_record env r T))) = map a_resource_id (audit_log T)
     @ (if se_raises env Trace_Read \<or> se_raises env Audit_Insert then [] else [ap_resource_id (rec_audit r)])"
  by (rule write_record_cases [OF refl refl, of env r T]) (simp_all add: record_effects end_trace_effect)

lemma write_record_traces:
  fixes env r T
  defines "T' \<equiv> fst (write_observability_record env r T)"
  shows "t_trace_id ` set (traces T') \<subseteq> insert (sp_trace_id (rec_trace_start r)) (t_trace_id ` set (traces T))"
    and "row \<in> set (traces T) \<Longrightarrow> t_trace_id row \<noteq> ep_trace_id (rec_trace_end r) \<Longrightarrow> row \<in> set (traces T')"
proof -
  let ?T2 = "fst (start_trace env (rec_trace_start r) (log_request env (rec_log r) T))"
  have ids: "t_trace_id ` set (traces ?T2) \<subseteq> insert (sp_trace_id (rec_trace_start r)) (t_trace_id ` set (traces T))"
    using start_trace_effect(4) [of env "rec_trace_start r" "log_request env (rec_log r) T"]
    by (simp add: log_request_effect)
  have keep: "set (traces T) \<subseteq> set (traces ?T2)"
    using start_trace_effect(3) [of "log_request env (rec_log r) T" env "rec_trace_start r"]
    by (simp add: log_request_effect)
  have "t_trace_id ` set (traces T') \<subseteq> insert (sp_trace_id (rec_trace_start r)) (t_trace_id ` set (traces T))
     \<and> (row \<in> set (traces T) \<longrightarrow> t_trace_id row \<noteq> ep_trace_id (rec_trace_end r) \<longrightarrow> row \<in> set (traces T'))"
    by (rule write_record_cases [OF meta_eq_to_obj_eq [OF T'_def, symmetric] refl])
      (use ids keep in \<open>auto simp: audit_effect dest: end_trace_effect(3,4)\<close>)
  then show "t_trace_id ` set (traces T') \<subseteq> insert (sp_trace_id (rec_trace_start r)) (t_trace_id ` set (traces T))"
    and "row \<in> set (traces T) \<Longrightarrow> t_trace_id row \<noteq> ep_trace_id (rec_trace_end r) \<Longrightarrow> row \<in> set (traces T')" by blast+
qed

definition wf_record :: "obs_record \<Rightarrow> bool" where
  "wf_record r \<longleftrightarrow> ep_trace_id (rec_trace_end r) = sp_trace_id (rec_trace_start r)
     \<and> ep_span_id (rec_trace_end r) = sp_span_id (rec_trace_start r)"

definition reports :: "trace_row \<Rightarrow> end_part \<Rightarrow> bool" where
  "reports row p \<longleftrightarrow> t_trace_id row = ep_trace_id p \<and> t_status row = Some (ep_status p)
     \<and> t_http_status_code row = Some (ep_http_status_code p) \<and> t_end_time row \<noteq> None \<and> t_duration_ms row \<noteq> None"

lemma write_record_own_trace:
  assumes "wf_record r" "\<not> se_raises env Trace_Insert" "\<not> se_raises env Trace_Read" "\<not> se_raises env Trace_Update"
    and "sp_trace_id (rec_trace_start r) \<notin> t_trace_id ` set (traces T)"
  shows "\<exists>row \<in> set (traces (fst (write_observability_record env r T))). reports row (rec_trace_end r)"
proof -
  let ?p = "rec_trace_start r" and ?e = "rec_trace_end r"
  let ?T2 = "fst (start_trace env ?p (log_request env (rec_log r) T))"
  obtain row where row: "row \<in> set (traces ?T2)" "is_span (ep_trace_id ?e) (ep_span_id ?e) row"
    using start_trace_new [of env ?p "log_request env (rec_log r) T"] assms(1,2,5)
    by (auto simp: log_request_effect wf_record_def)
  obtain T3 where e: "end_trace env ?e ?T2 = Inr T3" and T': "fst (write_observability_record env r T) = log_audit_event env (rec_audit r) T3"
    by (rule write_record_cases [OF refl refl, of env r T]) (use assms(3) in auto)
  obtain t d where T3: "T3 = ?T2\<lparr>traces := map (\<lambda>r. if is_span (ep_trace_id ?e) (ep_span_id ?e) r
      then finished_row t d ?e r else r) (traces ?T2)\<rparr>"
    using e assms(3,4) unfolding end_trace_def Let_def by (auto split: if_splits)
  have "finished_row t d ?e row \<in> set (traces T3)" using row by (auto simp: T3)
  moreover have "reports (finished_row t d ?e row) ?e" using row(2) by (simp add: reports_def finished_row_def is_span_def)
  ultimately show ?thesis unfolding T' audit_effect by blast
qed

section \<open>A batch\<close>

lemma write_all_logs:
  "map l_request_id (logs (write_all b T)) = map l_request_id (logs T)
     @ map (\<lambda>(env, r). lp_request_id (rec_log r)) (filter (\<lambda>(env, r). \<not> se_raises env Log_Insert) b)"
  by (induction b T rule: write_all.induct) (simp_all add: write_record_logs)

lemma write_all_audit:
  "map a_resource_id (audit_log (write_all b T)) = map a_resource_id (audit_log T)
     @ map (\<lambda>(env, r). ap_resource_id (rec_audit r))
         (filter (\<lambda>(env, r). \<not> se_raises env Trace_Read \<and> \<not> se_raises env Audit_Insert) b)"
  by (induction b T rule: write_all.induct) (auto simp: write_record_audit)

definition record_id :: "stmt_env \<times> obs_record \<Rightarrow> string" where
  "record_id x = sp_trace_id (rec_trace_start (snd x))"

lemma write_all_keeps:
  assumes "row \<in> set (traces T)" "t_trace_id row \<notin> record_id ` set b" "\<forall>x \<in> set b. wf_record (snd x)"
  shows "row \<in> set (traces (write_all b T))"
  using assms
proof (induction b T rule: write_all.induct)
  case (2 env r rs T)
  have "row \<in> set (traces (fst (write_observability_record env r T)))"
    using 2(2-4) by (intro write_record_traces(2)) (auto simp: wf_record_def record_id_def)
  with 2 show ?case by simp
qed simp

lemma write_all_traces:
  assumes "distinct (map record_id b)" "\<forall>x \<in> set b. wf_record (snd x)"
    and "record_id ` set b \<inter> t_trace_id ` set (traces T) = {}"
    and "(env, r) \<in> set b" "\<forall>q \<in> {Trace_Insert, Trace_Read, Trace_Update}. \<not> se_raises env q"
  shows "\<exists>row \<in> set (traces (write_all b T)). reports row (rec_trace_end r)"
  using assms(1-4)
proof (induction b T rule: write_all.induct)
  case (2 env' r' rs T)
  let ?T = "fst (write_observability_record env' r' T)"
  have wf: "\<forall>x \<in> set rs. wf_record (snd x)" and d: "distinct (map record_id rs)"
    and new: "record_id (env', r') \<notin> record_id ` set rs" using 2(2,3) by auto
  show ?case
  proof (cases "(env, r) = (env', r')")
    case True
    then have "wf_record r" "sp_trace_id (rec_trace_start r) \<notin> t_trace_id ` set (traces T)"
      using 2(3,4) by (auto simp: record_id_def)
    then obtain row where row: "row \<in> set (traces ?T)" "reports row (rec_trace_end r)"
      using write_record_own_trace [of r env T] assms(5) True by auto
    then have "t_trace_id row = record_id (env', r')"
      using \<open>wf_record r\<close> True by (simp add: reports_def record_id_def wf_record_def)
    with new have "t_trace_id row \<notin> record_id ` set rs" by simp
    with row wf have "row \<in> set (traces (write_all rs ?T))" by (intro write_all_keeps)
    with row(2) show ?thesis by auto
  next
    case False
    have "record_id ` set rs \<inter> t_trace_id ` set (traces ?T) = {}"
    proof -
      have "record_id ` set rs \<inter> insert (record_id (env', r')) (t_trace_id ` set (traces T)) = {}"
        using 2(4) new by auto
      with write_record_traces(1) [of env' r' T] show ?thesis unfolding record_id_def [of "(env', r')"] snd_conv by blast
    qed
    with 2(1) [OF d wf] False 2(5) show ?thesis by auto
  qed
qed simp

section \<open>Properties\<close>

text \<open>
  A flushed batch writes the log entry of every record whose insert does not raise and the audit entry
  of every record for which neither the look-up of its trace nor the audit insert raises, in the order of
  the batch, whatever happens to the other records; a record whose trace statements succeed ends in a
  finished trace that reports its status.  A batch whose transaction fails leaves nothing.
\<close>

theorem flush_isolates_failures:
  assumes "T' = flush_batch x b T"
  shows "(tx_opened x \<and> tx_commits x \<longrightarrow>
      map l_request_id (logs T') = map l_request_id (logs T)
        @ map (\<lambda>(env, r). lp_request_id (rec_log r)) (filter (\<lambda>(env, r). \<not> se_raises env Log_Insert) b)
    \<and> map a_resource_id (audit_log T') = map a_resource_id (audit_log T)
        @ map (\<lambda>(env, r). ap_resource_id (rec_audit r))
            (filter (\<lambda>(env, r). \<not> se_raises env Trace_Read \<and> \<not> se_raises env Audit_Insert) b)
    \<and> (distinct (map record_id b) \<and> (\<forall>y \<in> set b. wf_record (snd y))
          \<and> record_id ` set b \<inter> t_trace_id ` set (traces T) = {} \<longrightarrow>
        (\<forall>y \<in> set b. (\<forall>q \<in> {Trace_Insert, Trace_Read, Trace_Update}. \<not> se_raises (fst y) q)
              \<longrightarrow> (\<exists>row \<in> set (traces T'). reports row (rec_trace_end (snd y))))))
    \<and> (\<not> (tx_opened x \<and> tx_commits x) \<longrightarrow> T' = T)"
proof (cases "tx_opened x \<and> tx_commits x")
  case True
  then have T': "T' = write_all b T" by (simp add: assms flush_batch_def in_transaction_def)
  have "\<exists>row \<in> set (traces (write_all b T)). reports row (rec_trace_end (snd y))"
    if "distinct (map record_id b) \<and> (\<forall>y \<in> set b. wf_record (snd y))
          \<and> record_id ` set b \<inter> t_trace_id ` set (traces T) = {}"
      and "y \<in> set b" "\<forall>q \<in> {Trace_Insert, Trace_Read, Trace_Update}. \<not> se_raises (fst y) q" for y
    using that by (intro write_all_traces [of b T "fst y" "snd y"]) auto
  with True show ?thesis unfolding T' write_all_logs [of b T] write_all_audit [of b T] by blast
next
  case False
  then have "T' = T" by (auto simp: assms flush_batch_def in_transaction_def)
  with False show ?thesis by blast
qed

definition no_tables :: obs_tables where
  "no_tables = \<lparr>logs = [], traces = [], audit_log = [], last_log_id = 0, last_audit_id = 0\<rparr>"

definition plain_request :: "string \<Rightarrow> seen_request" where
  "plain_request i = \<lparr>sr_method = ''GET'', sr_url = ''/'', sr_header = (\<lambda>_. None), sr_client = None,
     sr_state = \<lparr>rs_request_id = Some i, rs_session_id = None, rs_user_id = None, rs_username = None,
                 rs_ip_address = None, rs_user_agent = None\<rparr>\<rparr>"

definition sample_record :: "string \<Rightarrow> obs_record" where
  "sample_record i = (case build_request_context [] (plain_request i) of
      (c, q) \<Rightarrow> make_record ''ab'' q c 200 1 None ''http.request'')"

definition env_raising :: "stmt \<Rightarrow> stmt_env" where
  "env_raising q = \<lparr>se_clock = (\<lambda>_. 7), se_raises = (\<lambda>p. p = q)\<rparr>"

lemma sample_record_sel [simp]:
  "lp_request_id (rec_log (sample_record (a # i))) = a # i"
  "ap_resource_id (rec_audit (sample_record (a # i))) = a # i"
  "record_id (env, sample_record (a # i)) = ''trace-'' @ a # i" "wf_record (sample_record i)"
  "ep_status (rec_trace_end (sample_record i)) = ''OK''" "ep_trace_id (rec_trace_end (sample_record (a # i))) = ''trace-'' @ a # i"
  by (simp_all add: sample_record_def build_request_context_def plain_request_def make_record_def record_id_def
      wf_record_def Let_def)

text \<open>The look-up of the first record's trace raises; the second record is whole.\<close>

theorem flush_isolates_failures_witness:
  "\<exists>T'. T' = flush_batch \<lparr>tx_opened = True, tx_commits = True\<rparr>
          [(env_raising Trace_Read, sample_record ''a''), (env_raising Log_Insert, sample_record ''b'')] no_tables
     \<and> map l_request_id (logs T') = [''a''] \<and> map a_resource_id (audit_log T') = [''b'']
     \<and> (\<exists>row \<in> set (traces T'). t_trace_id row = ''trace-b'' \<and> t_status row = Some ''OK'')"
proof -
  let ?x = "\<lparr>tx_opened = True, tx_commits = True\<rparr>"
  let ?b = "[(env_raising Trace_Read, sample_record ''a''), (env_raising Log_Insert, sample_record ''b'')]"
  obtain T' where T': "T' = flush_batch ?x ?b no_tables" by blast
  note p = flush_isolates_failures [OF T']
  have no: "logs no_tables = []" "traces no_tables = []" "audit_log no_tables = []" by (simp_all add: no_tables_def)
  have raising: "se_raises (env_raising q) r \<longleftrightarrow> r = q" for q r by (simp add: env_raising_def)
  have kept: "filter (\<lambda>(env, r). \<not> se_raises env Log_Insert) ?b = [(env_raising Trace_Read, sample_record ''a'')]"
    "filter (\<lambda>(env, r). \<not> se_raises env Trace_Read \<and> \<not> se_raises env Audit_Insert) ?b
      = [(env_raising Log_Insert, sample_record ''b'')]"
    by (simp_all add: raising)
  have all: "tx_opened ?x \<and> tx_commits ?x" by simp
  note q = mp [OF conjunct1 [OF p] all, unfolded kept no]
  have ids: "map l_request_id (logs T') = [''a'']" "map a_resource_id (audit_log T') = [''b'']"
    using conjunct1 [OF q] conjunct1 [OF conjunct2 [OF q]] by simp_all
  have "\<forall>y \<in> set ?b. (\<forall>q \<in> {Trace_Insert, Trace_Read, Trace_Update}. \<not> se_raises (fst y) q)
      \<longrightarrow> (\<exists>row \<in> set (traces T'). reports row (rec_trace_end (snd y)))"
    by (rule mp [OF conjunct2 [OF conjunct2 [OF q]]]) simp
  note r = bspec [OF this, of "(env_raising Log_Insert, sample_record ''b'')"]
  have "\<exists>row \<in> set (traces T'). reports row (rec_trace_end (snd (env_raising Log_Insert, sample_record ''b'')))"
    by (rule mp [OF r]) (simp_all add: raising)
  then obtain row where row: "row \<in> set (traces T')" "reports row (rec_trace_end (sample_record ''b''))" by auto
  have "t_trace_id row = ''trace-b''" "t_status row = Some ''OK''" using row(2) by (simp_all add: reports_def)
  then show ?thesis
    by (intro exI [of _ T'] conjI T' ids bexI [OF _ row(1)])
qed

text \<open>The middleware around a sequence of requests.\<close>

type_synonym served = "emit_env \<times> rat \<times> seen_request \<times> outcome"

fun serve :: "served list \<Rightarrow> obs_app \<Rightarrow> obs_app \<times> outcome list" where
  "serve [] app = (app, [])"
| "serve ((ee, d, q, oc) # rs) app =
     (case record_observability ee d q oc app of (app1, oc1) \<Rightarrow>
        (case serve rs app1 of (app2, ocs) \<Rightarrow> (app2, oc1 # ocs)))"

fun recorded_status :: "served \<Rightarrow> int option" where
  "recorded_status (ee, d, q, Inr status) = Some status"
| "recorded_status (ee, d, q, Inl (e, m)) = (if e = CancelledError then None else Some 500)"

definition tells :: "obs_record \<Rightarrow> int \<Rightarrow> bool" where
  "tells r status \<longleftrightarrow> wf_record r \<and> lp_status_code (rec_log r) = status
     \<and> ep_http_status_code (rec_trace_end r) = status
     \<and> ep_status (rec_trace_end r) = (if status < 400 then ''OK'' else ''ERROR'')
     \<and> (ap_success (rec_audit r) \<longleftrightarrow> status < 400)
     \<and> ap_resource_id (rec_audit r) = lp_request_id (rec_log r)
     \<and> sp_trace_id (rec_trace_start r) = ''trace-'' @ lp_request_id (rec_log r)"

lemma make_record_tells: "tells (make_record token q c status d error operation) status"
  by (simp add: tells_def make_record_def wf_record_def Let_def)

lemma emit_queues:
  assumes "oa_queue app = Some rs"
  obtains r where "emit_request_observability ee q status d error user operation app = (app\<lparr>oa_queue := Some (rs @ [r])\<rparr>, Inr ())"
    "tells r status"
proof -
  obtain c0 q' where c: "build_request_context (ee_uuid ee) q = (c0, q')" by fastforce
  show thesis
    by (rule that [OF _ make_record_tells])
      (simp add: emit_request_observability_def c assms)
qed

lemma record_observability_queues:
  assumes "oa_manager app" "oa_queue app = Some rs"
  shows "snd (record_observability ee d q oc app) = oc
     \<and> oa_manager (fst (record_observability ee d q oc app))
     \<and> (case recorded_status (ee, d, q, oc) of
          None \<Rightarrow> oa_queue (fst (record_observability ee d q oc app)) = Some rs
        | Some status \<Rightarrow> \<exists>r. oa_queue (fst (record_observability ee d q oc app)) = Some (rs @ [r]) \<and> tells r status)"
proof (cases oc)
  case (Inl em)
  obtain e m where em: "em = (e, m)" by (cases em)
  obtain r where r: "emit_request_observability ee q 500 (Some (d * 1000)) (Some m) (rs_user_id (sr_state q)) ''http.request'' app
      = (app\<lparr>oa_queue := Some (rs @ [r])\<rparr>, Inr ())" "tells r 500" by (rule emit_queues [OF assms(2)])
  from r(2) show ?thesis by (auto simp add: Inl em record_observability_def r(1) assms)
next
  case (Inr status)
  obtain r where r: "emit_request_observability ee q status (Some (d * 1000)) None (rs_user_id (sr_state q)) ''http.request'' app
      = (app\<lparr>oa_queue := Some (rs @ [r])\<rparr>, Inr ())" "tells r status" by (rule emit_queues [OF assms(2)])
  from r(2) show ?thesis by (auto simp add: Inr record_observability_def r(1) assms)
qed

text \<open>
  With the write queue in place the middleware passes every response and every exception on
  unchanged, and queues one record for each request that was not cancelled, in the order of completion,
  whose log, trace and audit parts carry the status of the response (500 for an exception) and the
  identifier of the request.
\<close>

theorem requests_recorded_once:
  assumes "oa_manager app" "oa_queue app = Some rs"
  shows "snd (serve reqs app) = map (\<lambda>(ee, d, q, oc). oc) reqs
     \<and> (\<exists>new. oa_queue (fst (serve reqs app)) = Some (rs @ new)
          \<and> list_all2 tells new (List.map_filter recorded_status reqs))"
  using assms
proof (induction reqs arbitrary: app rs)
  case Nil
  then show ?case by (simp add: List.map_filter_def)
next
  case (Cons x reqs)
  obtain ee d q oc where x: "x = (ee, d, q, oc)" by (cases x) auto
  obtain app1 oc1 where r: "record_observability ee d q oc app = (app1, oc1)" by fastforce
  obtain new1 where h: "oc1 = oc" "oa_manager app1" "oa_queue app1 = Some (rs @ new1)"
      "list_all2 tells new1 (case recorded_status x of None \<Rightarrow> [] | Some s \<Rightarrow> [s])"
    using record_observability_queues [OF Cons.prems, of ee d q oc]
    unfolding r x fst_conv snd_conv by (cases "recorded_status (ee, d, q, oc)") auto
  obtain new where n: "snd (serve reqs app1) = map (\<lambda>(ee, d, q, oc). oc) reqs"
      "oa_queue (fst (serve reqs app1)) = Some ((rs @ new1) @ new)"
      "list_all2 tells new (List.map_filter recorded_status reqs)"
    using Cons.IH [OF h(2,3)] by blast
  have "list_all2 tells (new1 @ new) (List.map_filter recorded_status (x # reqs))"
    using list_all2_appendI [OF h(4) n(3)] by (cases "recorded_status x") (simp_all add: List.map_filter_simps)
  moreover have "serve (x # reqs) app = (fst (serve reqs app1), oc # snd (serve reqs app1))"
    by (simp add: x r h(1) case_prod_unfold)
  ultimately show ?case using n(1,2) by (auto simp: x)
qed

definition some_env :: emit_env where
  "some_env = \<lparr>ee_uuid = ''u'', ee_token = ''ab'', ee_tx = \<lparr>tx_opened = True, tx_commits = True\<rparr>,
     ee_stmts = \<lparr>se_clock = (\<lambda>_. 7), se_raises = (\<lambda>_. False)\<rparr>\<rparr>"

theorem requests_recorded_once_witness:
  "snd (serve [(some_env, 1, plain_request ''a'', Inr 200), (some_env, 1, plain_request ''b'', Inl (KeyError, ''k''))]
      \<lparr>oa_manager = True, oa_queue = Some [], oa_tables = no_tables\<rparr>) = [Inr 200, Inl (KeyError, ''k'')]
   \<and> (\<exists>new. list_all2 tells new [200, 500])"
  using requests_recorded_once [of "\<lparr>oa_manager = True, oa_queue = Some [], oa_tables = no_tables\<rparr>" "[]"
      "[(some_env, 1, plain_request ''a'', Inr 200), (some_env, 1, plain_request ''b'', Inl (KeyError, ''k''))]"]
  by (auto simp: List.map_filter_simps)

end
