(* ===== verification/Request_Trace.thy ===== *)
theory Request_Trace
  imports Histogram
begin

text \<open>
  \<open>src/core/performance/trace.py\<close>, \<open>timer.py\<close> and \<open>request_profiler.py\<close>: the tree of timed stages of one
  request.  Trace nodes are objects with links to their parent and their children; the heap maps their
  addresses, handed out in order of creation, to nodes.  Every clock reading is an argument.
\<close>

section \<open>Timer\<close>

datatype stage = REQUEST | AUTHENTICATION | AUTHORIZATION | API_KEY_LOOKUP | DEPENDENCY | CONTAINER | CACHE_LOOKUP
  | CACHE_L1_LOOKUP | CACHE_L2_LOOKUP | CACHE_STORE | SINGLE_FLIGHT_WAIT | POOL_WAIT | POOL_ACQUIRE | POOL_RELEASE
  | DB_EXECUTOR_WAIT | TRANSACTION_BEGIN | TRANSACTION_COMMIT | TRANSACTION_ROLLBACK | SQL_PREPARE | SQL_EXECUTE
  | SQL_FETCH | SERIALIZE | RESPONSE | BACKGROUND | GC | CUSTOM

record timer =
  tm_started_ns :: "int option"
  tm_finished_ns :: "int option"
  tm_duration_ns :: "int option"

definition timer_start :: "int \<Rightarrow> timer \<Rightarrow> timer" where
  "timer_start now t = t\<lparr>tm_started_ns := Some now, tm_finished_ns := None, tm_duration_ns := None\<rparr>"

definition timer_stop :: "int \<Rightarrow> timer \<Rightarrow> (timer \<times> int) result" where
  "timer_stop now t =
     (case tm_started_ns t of
        None \<Rightarrow> Inl (TimerStateError ''cannot stop a timer that has not been started'')
      | Some s \<Rightarrow>
          (case tm_duration_ns t of
             Some d \<Rightarrow> Inr (t, d)
           | None \<Rightarrow>
               if now < s then Inl (InvalidTimestampError ''timer finish precedes timer start'')
               else Inr (t\<lparr>tm_finished_ns := Some now, tm_duration_ns := Some (now - s)\<rparr>, now - s)))"

definition timer_is_running :: "timer \<Rightarrow> bool" where
  "timer_is_running t \<longleftrightarrow> tm_started_ns t \<noteq> None \<and> tm_finished_ns t = None"

definition timer_elapsed_ns :: "int \<Rightarrow> timer \<Rightarrow> int option result" where
  "timer_elapsed_ns now t =
     (case tm_started_ns t of
        None \<Rightarrow> Inr None
      | Some s \<Rightarrow>
          (case tm_duration_ns t of
             Some d \<Rightarrow> Inr (Some d)
           | None \<Rightarrow> if now < s then Inl (InvalidTimestampError ''timer clock moved before timer start'')
                     else Inr (Some (now - s))))"

text \<open>Stopping twice gives the same duration, at whatever time.\<close>

lemma timer_stop_idempotent:
  "timer_stop now t = Inr (t', d) \<Longrightarrow> timer_stop later t' = Inr (t', d) \<and> \<not> timer_is_running t' \<or> tm_duration_ns t \<noteq> None"
  by (auto simp: timer_stop_def timer_is_running_def split: option.splits if_splits)

section \<open>Trace nodes\<close>

record trace_node =
  tn_name :: string
  tn_stage :: stage
  tn_started_ns :: int
  tn_tags :: tags
  tn_finished_ns :: "int option"
  tn_duration_ns :: "int option"
  tn_parent :: "nat option"
  tn_children :: "nat list"

definition node_new :: "stage \<Rightarrow> string \<Rightarrow> tags \<Rightarrow> int \<Rightarrow> trace_node" where
  "node_new stage name tags now =
     \<lparr>tn_name = name, tn_stage = stage, tn_started_ns = now, tn_tags = tags, tn_finished_ns = None,
      tn_duration_ns = None, tn_parent = None, tn_children = []\<rparr>"

definition node_finish :: "int \<Rightarrow> trace_node \<Rightarrow> (trace_node \<times> int) result" where
  "node_finish now n =
     (case tn_duration_ns n of
        Some d \<Rightarrow> Inr (n, d)
      | None \<Rightarrow>
          if now < tn_started_ns n then Inl (InvalidTimestampError ''trace node finish precedes node start'')
          else Inr (n\<lparr>tn_finished_ns := Some now, tn_duration_ns := Some (now - tn_started_ns n)\<rparr>,
                    now - tn_started_ns n))"

type_synonym heap = "nat \<Rightarrow> trace_node"

definition trace_state_error :: "string \<Rightarrow> py_exc" where
  "trace_state_error m = OtherError (''TraceStateError: '' @ m)"

definition add_child :: "nat \<Rightarrow> nat \<Rightarrow> heap \<Rightarrow> heap result" where
  "add_child p c h =
     (if tn_parent (h c) \<noteq> None then Inl (trace_state_error ''trace node already has a parent'')
      else (let h1 = h(p := (h p)\<lparr>tn_children := tn_children (h p) @ [c]\<rparr>)
            in Inr (h1(c := (h1 c)\<lparr>tn_parent := Some p\<rparr>))))"

text \<open>\<open>duration_ns or 0\<close>, summed over the children.\<close>

definition node_time :: "heap \<Rightarrow> nat \<Rightarrow> int" where
  "node_time h i = (case tn_duration_ns (h i) of None \<Rightarrow> 0 | Some d \<Rightarrow> d)"

definition child_time :: "heap \<Rightarrow> nat \<Rightarrow> int" where
  "child_time h i = sum_list (map (node_time h) (tn_children (h i)))"

definition exclusive_duration_ns :: "heap \<Rightarrow> nat \<Rightarrow> int option" where
  "exclusive_duration_ns h i =
     (case tn_duration_ns (h i) of None \<Rightarrow> None | Some d \<Rightarrow> Some (max 0 (d - child_time h i)))"

section \<open>Traces\<close>

text \<open>Addresses from \<open>tr_next\<close> on are not allocated.\<close>

record trace =
  tr_heap :: heap
  tr_next :: nat
  tr_root :: "nat option"
  tr_current :: "nat option"

definition trace_new :: trace where
  "trace_new = \<lparr>tr_heap = (\<lambda>_. node_new CUSTOM [] [] 0), tr_next = 0, tr_root = None, tr_current = None\<rparr>"

definition trace_start :: "stage \<Rightarrow> string \<Rightarrow> tags \<Rightarrow> int \<Rightarrow> trace \<Rightarrow> (trace \<times> nat) result" where
  "trace_start stage name tags now tr =
     (if tr_root tr \<noteq> None \<and> tr_current tr = None
      then Inl (trace_state_error ''cannot start a node on a finished trace'')
      else (let n = tr_next tr; h = (tr_heap tr)(n := node_new stage name tags now) in
        case tr_root tr of
          None \<Rightarrow> Inr (tr\<lparr>tr_heap := h, tr_next := Suc n, tr_root := Some n, tr_current := Some n\<rparr>, n)
        | Some _ \<Rightarrow>
            (case tr_current tr of
               None \<Rightarrow> Inl (trace_state_error ''trace has no active parent node'')
             | Some c \<Rightarrow>
                 (case add_child c n h of
                    Inl e \<Rightarrow> Inl e
                  | Inr h' \<Rightarrow> Inr (tr\<lparr>tr_heap := h', tr_next := Suc n, tr_current := Some n\<rparr>, n)))))"

definition trace_finish :: "int \<Rightarrow> trace \<Rightarrow> (trace \<times> int) result" where
  "trace_finish now tr =
     (case tr_current tr of
        None \<Rightarrow> Inl (trace_state_error ''cannot finish a trace without an active node'')
      | Some c \<Rightarrow>
          (case node_finish now (tr_heap tr c) of
             Inl e \<Rightarrow> Inl e
           | Inr (n, d) \<Rightarrow> Inr (tr\<lparr>tr_heap := (tr_heap tr)(c := n), tr_current := tn_parent n\<rparr>, d)))"

definition trace_is_finished :: "trace \<Rightarrow> bool" where
  "trace_is_finished tr \<longleftrightarrow> tr_root tr \<noteq> None \<and> tr_current tr = None"

text \<open>
  \<open>finish_all\<close>: \<open>clk k\<close> is the \<open>k\<close>-th reading of the clock.  Nothing in the code bounds the loop but the
  shape of the heap, so it is a partial function: \<open>None\<close> stands for a loop that never ends.
\<close>

partial_function (option) finish_all :: "(nat \<Rightarrow> int) \<Rightarrow> nat \<Rightarrow> trace \<Rightarrow> (trace \<times> nat) result option" where
  "finish_all clk k tr =
     (if tr_current tr = None then Some (Inr (tr, k))
      else (case trace_finish (clk k) tr of
              Inl e \<Rightarrow> Some (Inl e)
            | Inr (tr', d) \<Rightarrow> finish_all clk (Suc k) tr'))"

section \<open>Profiler\<close>

datatype metric_type = COUNTER | GAUGE | HISTOGRAM | TIMER | EVENT | TRACE

datatype metric_unit = NANOSECONDS | MICROSECONDS | MILLISECONDS | SECONDS | COUNT | BYTES | KILOBYTES | MEGABYTES | PERCENT

record metric_point =
  mp_name :: string
  mp_type :: metric_type
  mp_value :: rat
  mp_timestamp_ns :: int
  mp_unit :: metric_unit
  mp_tags :: tags

record profiler =
  pf_request_id :: string
  pf_tags :: tags
  pf_trace :: trace
  pf_points :: "metric_point list"
  pf_started_ns :: int
  pf_completed :: bool

definition profiler_state_error :: "string \<Rightarrow> py_exc" where
  "profiler_state_error m = OtherError (''ProfilerStateError: '' @ m)"

definition profiler_new :: "string \<Rightarrow> tags \<Rightarrow> int \<Rightarrow> int \<Rightarrow> profiler" where
  "profiler_new rid tags now1 now2 =
     \<lparr>pf_request_id = rid, pf_tags = tags,
      pf_trace = (case trace_start REQUEST ''request'' [] now2 trace_new of Inl _ \<Rightarrow> trace_new | Inr (tr, _) \<Rightarrow> tr),
      pf_points = [], pf_started_ns = now1, pf_completed = False\<rparr>"

definition start_stage :: "stage \<Rightarrow> string \<Rightarrow> tags \<Rightarrow> int \<Rightarrow> profiler \<Rightarrow> (profiler \<times> nat) result" where
  "start_stage stage name tags now p =
     (if pf_completed p then Inl (profiler_state_error ''cannot reuse a profiler that has already completed'')
      else if tr_current (pf_trace p) = None
      then Inl (profiler_state_error ''cannot open a stage before the profiler has started its root trace'')
      else (case trace_start stage name tags now (pf_trace p) of
              Inl e \<Rightarrow> Inl e
            | Inr (tr, n) \<Rightarrow> Inr (p\<lparr>pf_trace := tr\<rparr>, n)))"

text \<open>Leaving a stage finishes the node that is current then, not the node the stage opened.\<close>

definition finish_stage :: "int \<Rightarrow> int \<Rightarrow> profiler \<Rightarrow> profiler result" where
  "finish_stage now1 now2 p =
     (case trace_finish now1 (pf_trace p) of
        Inl e \<Rightarrow> Inl e
      | Inr (tr, d) \<Rightarrow>
          Inr (p\<lparr>pf_trace := tr,
                 pf_points := (case tr_current (pf_trace p) of
                   None \<Rightarrow> pf_points p
                 | Some c \<Rightarrow> pf_points p @
                     [\<lparr>mp_name = tn_name (tr_heap (pf_trace p) c), mp_type = TIMER, mp_value = of_int d,
                       mp_timestamp_ns = now2, mp_unit = NANOSECONDS, mp_tags = tn_tags (tr_heap (pf_trace p) c)\<rparr>])\<rparr>))"

definition emit_point :: "string \<Rightarrow> metric_type \<Rightarrow> rat \<Rightarrow> tags \<Rightarrow> int \<Rightarrow> profiler \<Rightarrow> profiler result" where
  "emit_point name ty v tags now p =
     (if pf_completed p then Inl (profiler_state_error ''cannot reuse a profiler that has already completed'')
      else Inr (p\<lparr>pf_points := pf_points p @
             [\<lparr>mp_name = name, mp_type = ty, mp_value = v, mp_timestamp_ns = now, mp_unit = COUNT, mp_tags = tags\<rparr>]\<rparr>))"

definition emit_counter :: "string \<Rightarrow> rat \<Rightarrow> tags \<Rightarrow> int \<Rightarrow> profiler \<Rightarrow> profiler result" where
  "emit_counter name amount = emit_point name COUNTER amount"

definition emit_gauge :: "string \<Rightarrow> rat \<Rightarrow> tags \<Rightarrow> int \<Rightarrow> profiler \<Rightarrow> profiler result" where
  "emit_gauge name v = emit_point name GAUGE v"

text \<open>An event is recorded on a completed profiler too.\<close>

definition emit_event :: "string \<Rightarrow> tags \<Rightarrow> int \<Rightarrow> profiler \<Rightarrow> profiler" where
  "emit_event name tags now p =
     p\<lparr>pf_points := pf_points p @
       [\<lparr>mp_name = name, mp_type = EVENT, mp_value = 1, mp_timestamp_ns = now, mp_unit = COUNT, mp_tags = tags\<rparr>]\<rparr>"

record request_profile =
  rp_request_id :: string
  rp_trace :: trace
  rp_points :: "metric_point list"
  rp_tags :: tags
  rp_started_ns :: int
  rp_finished_ns :: int
  rp_duration_ns :: int
  rp_status :: string
  rp_error :: "string option"

definition profiler_complete ::
  "string \<Rightarrow> string option \<Rightarrow> (nat \<Rightarrow> int) \<Rightarrow> profiler \<Rightarrow> (profiler \<times> request_profile) result option" where
  "profiler_complete status error clk p =
     (if pf_completed p then Some (Inl (profiler_state_error ''cannot reuse a profiler that has already completed''))
      else (case finish_all clk 0 (pf_trace p) of
        None \<Rightarrow> None
      | Some (Inl e) \<Rightarrow> Some (Inl e)
      | Some (Inr (tr, k)) \<Rightarrow>
          Some (Inr (p\<lparr>pf_trace := tr, pf_completed := True\<rparr>,
            \<lparr>rp_request_id = pf_request_id p, rp_trace = tr, rp_points = pf_points p, rp_tags = pf_tags p,
             rp_started_ns = pf_started_ns p, rp_finished_ns = clk k, rp_duration_ns = clk k - pf_started_ns p,
             rp_status = status, rp_error = error\<rparr>))))"

text \<open>
  What request code does with its profiler, in any interleaving of its tasks, while the clock, last read
  as \<open>t\<close>, does not run backwards.
\<close>

inductive profiled :: "int \<Rightarrow> profiler \<Rightarrow> bool" where
  new: "now1 \<le> now2 \<Longrightarrow> profiled now2 (profiler_new rid tags now1 now2)"
| open_stage: "profiled t p \<Longrightarrow> t \<le> now \<Longrightarrow> start_stage stage name tags now p = Inr (p', n) \<Longrightarrow> profiled now p'"
| leave_stage: "profiled t p \<Longrightarrow> t \<le> now1 \<Longrightarrow> now1 \<le> now2 \<Longrightarrow> finish_stage now1 now2 p = Inr p' \<Longrightarrow> profiled now2 p'"
| emit: "profiled t p \<Longrightarrow> t \<le> now \<Longrightarrow> emit_point name ty v tags now p = Inr p' \<Longrightarrow> profiled now p'"
| event: "profiled t p \<Longrightarrow> t \<le> now \<Longrightarrow> profiled now (emit_event name tags now p)"

section \<open>Invariants\<close>

definition is_open :: "trace \<Rightarrow> nat \<Rightarrow> bool" where
  "is_open tr i \<longleftrightarrow> i < tr_next tr \<and> tn_duration_ns (tr_heap tr i) = None"

text \<open>The nodes form a tree with root 0, in which parents are older than their children.\<close>

definition tree_inv :: "trace \<Rightarrow> bool" where
  "tree_inv tr \<longleftrightarrow> 0 < tr_next tr \<and> tr_root tr = Some 0 \<and> tn_parent (tr_heap tr 0) = None
     \<and> (\<forall>i. 0 < i \<longrightarrow> i < tr_next tr \<longrightarrow> (\<exists>p < i. tn_parent (tr_heap tr i) = Some p))
     \<and> (\<forall>i < tr_next tr. distinct (tn_children (tr_heap tr i))
          \<and> set (tn_children (tr_heap tr i)) = {c. c < tr_next tr \<and> tn_parent (tr_heap tr c) = Some i})"

text \<open>The open nodes are a chain that ends in the current node.\<close>

definition open_inv :: "trace \<Rightarrow> bool" where
  "open_inv tr \<longleftrightarrow>
     (\<forall>c. tr_current tr = Some c \<longrightarrow> is_open tr c \<and> (\<forall>j. is_open tr j \<longrightarrow> tn_parent (tr_heap tr j) \<noteq> Some c))
   \<and> (\<forall>k. is_open tr k \<longrightarrow> tr_current tr = Some k \<or> (\<exists>j. is_open tr j \<and> tn_parent (tr_heap tr j) = Some k))
   \<and> (\<forall>j p. is_open tr j \<longrightarrow> tn_parent (tr_heap tr j) = Some p \<longrightarrow> is_open tr p)
   \<and> (\<forall>i j. is_open tr i \<longrightarrow> is_open tr j \<longrightarrow> tn_parent (tr_heap tr i) = tn_parent (tr_heap tr j) \<longrightarrow> i = j)"

lemma open_invD:
  assumes "open_inv tr"
  shows "tr_current tr = Some c \<Longrightarrow> is_open tr c"
    and "tr_current tr = Some c \<Longrightarrow> is_open tr j \<Longrightarrow> tn_parent (tr_heap tr j) \<noteq> Some c"
    and "is_open tr k \<Longrightarrow> tr_current tr \<noteq> Some k \<Longrightarrow> \<exists>j. is_open tr j \<and> tn_parent (tr_heap tr j) = Some k"
    and "is_open tr j \<Longrightarrow> tn_parent (tr_heap tr j) = Some p \<Longrightarrow> is_open tr p"
    and "is_open tr i \<Longrightarrow> is_open tr j \<Longrightarrow> tn_parent (tr_heap tr i) = tn_parent (tr_heap tr j) \<Longrightarrow> i = j"
  using assms unfolding open_inv_def by blast+

text \<open>The finished children of a node fit into the time it has had, up to the start of its open child.\<close>

definition node_fits :: "int \<Rightarrow> trace \<Rightarrow> nat \<Rightarrow> bool" where
  "node_fits t tr i \<longleftrightarrow> tn_started_ns (tr_heap tr i) \<le> t
     \<and> (case tn_duration_ns (tr_heap tr i) of
          Some d \<Rightarrow> child_time (tr_heap tr) i \<le> d \<and> tn_started_ns (tr_heap tr i) + d \<le> t
        | None \<Rightarrow> child_time (tr_heap tr) i \<le> t - tn_started_ns (tr_heap tr i)
            \<and> (\<forall>k. is_open tr k \<longrightarrow> tn_parent (tr_heap tr k) = Some i \<longrightarrow>
                 child_time (tr_heap tr) i \<le> tn_started_ns (tr_heap tr k) - tn_started_ns (tr_heap tr i)))"

definition time_inv :: "int \<Rightarrow> trace \<Rightarrow> bool" where
  "time_inv t tr \<longleftrightarrow> (\<forall>i < tr_next tr. node_fits t tr i)"

definition trace_inv :: "int \<Rightarrow> trace \<Rightarrow> bool" where
  "trace_inv t tr \<longleftrightarrow> tree_inv tr \<and> open_inv tr \<and> time_inv t tr"

subsection \<open>Starting a node\<close>

definition grown :: "stage \<Rightarrow> string \<Rightarrow> tags \<Rightarrow> int \<Rightarrow> nat \<Rightarrow> trace \<Rightarrow> trace" where
  "grown stage name tags now c tr =
     (let n = tr_next tr in
      tr\<lparr>tr_heap := (tr_heap tr)(c := (tr_heap tr c)\<lparr>tn_children := tn_children (tr_heap tr c) @ [n]\<rparr>,
                                n := (node_new stage name tags now)\<lparr>tn_parent := Some c\<rparr>),
         tr_next := Suc n, tr_current := Some n\<rparr>)"

lemma trace_start_shape:
  assumes "tr_root tr = Some r" "tr_current tr = Some c" "c < tr_next tr"
  shows "trace_start stage name tags now tr = Inr (grown stage name tags now c tr, tr_next tr)"
  using assms by (simp add: trace_start_def add_child_def grown_def node_new_def Let_def fun_upd_twist)

lemma grown_sel:
  assumes "c < tr_next tr"
  shows "tr_next (grown st nm tg now c tr) = Suc (tr_next tr)" "tr_root (grown st nm tg now c tr) = tr_root tr"
    "tr_current (grown st nm tg now c tr) = Some (tr_next tr)"
    "tn_duration_ns (tr_heap (grown st nm tg now c tr) i) = (if i = tr_next tr then None else tn_duration_ns (tr_heap tr i))"
    "tn_started_ns (tr_heap (grown st nm tg now c tr) i) = (if i = tr_next tr then now else tn_started_ns (tr_heap tr i))"
    "tn_parent (tr_heap (grown st nm tg now c tr) i) = (if i = tr_next tr then Some c else tn_parent (tr_heap tr i))"
    "tn_children (tr_heap (grown st nm tg now c tr) i) =
       (if i = tr_next tr then [] else if i = c then tn_children (tr_heap tr c) @ [tr_next tr] else tn_children (tr_heap tr i))"
  using assms by (simp_all add: grown_def Let_def node_new_def)

lemma grown_open:
  "c < tr_next tr \<Longrightarrow> is_open (grown st nm tg now c tr) i \<longleftrightarrow> i = tr_next tr \<or> is_open tr i"
  by (auto simp: is_open_def grown_sel)

lemma grown_node_time:
  "c < tr_next tr \<Longrightarrow> node_time (tr_heap (grown st nm tg now c tr)) i = (if i = tr_next tr then 0 else node_time (tr_heap tr) i)"
  by (simp add: node_time_def grown_sel)

lemma grown_child_time:
  assumes "tree_inv tr" "c < tr_next tr" "i < tr_next tr"
  shows "child_time (tr_heap (grown st nm tg now c tr)) i = child_time (tr_heap tr) i"
proof -
  have kids: "tr_next tr \<notin> set (tn_children (tr_heap tr i))" if "i < tr_next tr" for i
    using assms(1) that by (auto simp: tree_inv_def)
  have "sum_list (map (node_time (tr_heap (grown st nm tg now c tr))) (tn_children (tr_heap tr i)))
      = sum_list (map (node_time (tr_heap tr)) (tn_children (tr_heap tr i)))" if "i < tr_next tr" for i
    by (rule arg_cong [where f = sum_list], rule map_cong [OF refl])
      (use kids [OF that] assms(2) in \<open>auto simp: grown_node_time\<close>)
  with assms(2,3) show ?thesis by (simp add: child_time_def grown_sel grown_node_time)
qed

lemma grown_tree:
  assumes "tree_inv tr" "c < tr_next tr"
  shows "tree_inv (grown st nm tg now c tr)"
proof -
  have "(\<exists>p < i. tn_parent (tr_heap tr i) = Some p)" if "0 < i" "i < tr_next tr" for i
    using assms(1) that by (simp add: tree_inv_def)
  moreover have "distinct (tn_children (tr_heap tr i))"
    "set (tn_children (tr_heap tr i)) = {c. c < tr_next tr \<and> tn_parent (tr_heap tr c) = Some i}" if "i < tr_next tr" for i
    using assms(1) that by (simp_all add: tree_inv_def)
  moreover have "0 < tr_next tr" "tr_root tr = Some 0" "tn_parent (tr_heap tr 0) = None"
    using assms(1) by (simp_all add: tree_inv_def)
  moreover have "\<not> (j < tr_next tr \<and> tn_parent (tr_heap tr j) = Some (tr_next tr))" for j
    using calculation(1) [of j] calculation(6) by (cases "j = 0") force+
  ultimately show ?thesis using assms(2)
    unfolding tree_inv_def grown_sel [OF assms(2)] by (auto simp: less_Suc_eq)
qed

lemma grown_open_inv:
  assumes "tree_inv tr" "open_inv tr" "tr_current tr = Some c"
  shows "open_inv (grown st nm tg now c tr)"
proof -
  have c: "is_open tr c" "\<And>j. is_open tr j \<Longrightarrow> tn_parent (tr_heap tr j) \<noteq> Some c"
    using open_invD(1,2) [OF assms(2,3)] .
  then have lt: "c < tr_next tr" by (simp add: is_open_def)
  have old: "i < tr_next tr" if "is_open tr i" for i using that by (simp add: is_open_def)
  have par: "tn_parent (tr_heap tr j) \<noteq> Some (tr_next tr)" if "is_open tr j" for j
  proof
    assume "tn_parent (tr_heap tr j) = Some (tr_next tr)"
    then have "is_open tr (tr_next tr)" using open_invD(4) [OF assms(2) that] by simp
    then show False by (simp add: is_open_def)
  qed
  show ?thesis
    unfolding open_inv_def grown_open [OF lt] grown_sel [OF lt]
  proof (intro conjI allI impI)
    fix k assume k: "k = tr_next tr \<or> is_open tr k"
    show "Some (tr_next tr) = Some k \<or> (\<exists>j. (j = tr_next tr \<or> is_open tr j)
        \<and> (if j = tr_next tr then Some c else tn_parent (tr_heap tr j)) = Some k)"
    proof (cases "k = tr_next tr")
      case False
      with k have o: "is_open tr k" by simp
      show ?thesis
      proof (cases "k = c")
        case False
        then have "tr_current tr \<noteq> Some k" using assms(3) by simp
        from open_invD(3) [OF assms(2) o this]
        obtain j where j: "is_open tr j" "tn_parent (tr_heap tr j) = Some k" by blast
        with old [of j] show ?thesis by (intro disjI2 exI [of _ j]) simp
      next
        case True
        then show ?thesis by (intro disjI2 exI [of _ "tr_next tr"]) simp
      qed
    qed simp
  next
    fix j p assume "j = tr_next tr \<or> is_open tr j" "(if j = tr_next tr then Some c else tn_parent (tr_heap tr j)) = Some p"
    then show "p = tr_next tr \<or> is_open tr p"
      using c(1) open_invD(4) [OF assms(2), of j p] by (cases "j = tr_next tr") simp_all
  next
    fix i j assume "i = tr_next tr \<or> is_open tr i" "j = tr_next tr \<or> is_open tr j"
      "(if i = tr_next tr then Some c else tn_parent (tr_heap tr i)) = (if j = tr_next tr then Some c else tn_parent (tr_heap tr j))"
    moreover have "i = j" if "is_open tr i" "is_open tr j" "tn_parent (tr_heap tr i) = tn_parent (tr_heap tr j)"
      using open_invD(5) [OF assms(2) that] .
    ultimately show "i = j" using c(2) [of i] c(2) [of j] old [of i] old [of j]
      by (cases "i = tr_next tr"; cases "j = tr_next tr") auto
  next
    fix d j assume "Some (tr_next tr) = Some d" "j = tr_next tr \<or> is_open tr j"
    then show "(if j = tr_next tr then Some c else tn_parent (tr_heap tr j)) \<noteq> Some d"
      using par lt by auto
  qed auto
qed

lemma grown_time:
  assumes "tree_inv tr" "open_inv tr" "time_inv t tr" "tr_current tr = Some c" "t \<le> now"
  shows "time_inv now (grown st nm tg now c tr)"
  unfolding time_inv_def
proof (intro allI impI)
  have c: "is_open tr c" "\<And>j. is_open tr j \<Longrightarrow> tn_parent (tr_heap tr j) \<noteq> Some c"
    using open_invD(1,2) [OF assms(2,4)] .
  then have lt: "c < tr_next tr" by (simp add: is_open_def)
  fix i assume i: "i < tr_next (grown st nm tg now c tr)"
  show "node_fits now (grown st nm tg now c tr) i"
  proof (cases "i = tr_next tr")
    case True
    have "tn_parent (tr_heap tr j) \<noteq> Some (tr_next tr)" if "is_open tr j" for j
    proof
      assume "tn_parent (tr_heap tr j) = Some (tr_next tr)"
      then have "is_open tr (tr_next tr)" using open_invD(4) [OF assms(2) that] by simp
      then show False by (simp add: is_open_def)
    qed
    with True lt show ?thesis
      by (auto simp: node_fits_def grown_sel grown_open child_time_def)
  next
    case False
    with i lt have old: "i < tr_next tr" by (simp add: grown_sel)
    then have f: "node_fits t tr i" using assms(3) by (simp add: time_inv_def)
    note ct = grown_child_time [OF assms(1) lt old]
    show ?thesis
    proof (cases "tn_duration_ns (tr_heap tr i)")
      case (Some d)
      with f False assms(5) lt show ?thesis by (simp add: node_fits_def grown_sel ct)
    next
      case None
      with f have f1: "tn_started_ns (tr_heap tr i) \<le> t" "child_time (tr_heap tr) i \<le> t - tn_started_ns (tr_heap tr i)"
        and f2: "\<And>k. is_open tr k \<Longrightarrow> tn_parent (tr_heap tr k) = Some i \<Longrightarrow>
          child_time (tr_heap tr) i \<le> tn_started_ns (tr_heap tr k) - tn_started_ns (tr_heap tr i)"
        by (simp_all add: node_fits_def)
      have "k \<noteq> tr_next tr" if "is_open tr k" for k using that by (auto simp: is_open_def)
      with None f1 f2 False assms(5) lt show ?thesis
        by (auto simp: node_fits_def grown_sel grown_open ct)
    qed
  qed
qed

subsection \<open>Finishing the current node\<close>

definition node_closed :: "int \<Rightarrow> nat \<Rightarrow> trace \<Rightarrow> trace" where
  "node_closed now c tr =
     tr\<lparr>tr_heap := (tr_heap tr)(c := (tr_heap tr c)\<lparr>tn_finished_ns := Some now,
          tn_duration_ns := Some (now - tn_started_ns (tr_heap tr c))\<rparr>),
        tr_current := tn_parent (tr_heap tr c)\<rparr>"

lemma trace_finish_shape:
  assumes "trace_inv t tr" "tr_current tr = Some c" "t \<le> now"
  shows "trace_finish now tr = Inr (node_closed now c tr, now - tn_started_ns (tr_heap tr c))"
proof -
  have "is_open tr c" using assms(1,2) open_invD(1) unfolding trace_inv_def by blast
  then have c: "c < tr_next tr" "tn_duration_ns (tr_heap tr c) = None" by (simp_all add: is_open_def)
  then have "tn_started_ns (tr_heap tr c) \<le> t" using assms(1) by (simp add: trace_inv_def time_inv_def node_fits_def)
  with c assms(2,3) show ?thesis by (simp add: trace_finish_def node_finish_def node_closed_def)
qed

lemma closed_sel:
  "tr_next (node_closed now c tr) = tr_next tr" "tr_root (node_closed now c tr) = tr_root tr"
  "tr_current (node_closed now c tr) = tn_parent (tr_heap tr c)"
  "tn_duration_ns (tr_heap (node_closed now c tr) i) = (if i = c then Some (now - tn_started_ns (tr_heap tr c)) else tn_duration_ns (tr_heap tr i))"
  "tn_started_ns (tr_heap (node_closed now c tr) i) = tn_started_ns (tr_heap tr i)"
  "tn_parent (tr_heap (node_closed now c tr) i) = tn_parent (tr_heap tr i)"
  "tn_children (tr_heap (node_closed now c tr) i) = tn_children (tr_heap tr i)"
  by (simp_all add: node_closed_def)

lemma closed_open: "is_open (node_closed now c tr) i \<longleftrightarrow> is_open tr i \<and> i \<noteq> c"
  by (auto simp: is_open_def closed_sel)

lemma closed_tree: "tree_inv tr \<Longrightarrow> tree_inv (node_closed now c tr)"
  by (simp add: tree_inv_def closed_sel)

lemma closed_open_inv:
  assumes "open_inv tr" "tr_current tr = Some c"
  shows "open_inv (node_closed now c tr)"
  unfolding open_inv_def closed_open closed_sel
proof (intro conjI allI impI)
  note o = open_invD [OF assms(1)]
  fix d assume d: "tn_parent (tr_heap tr c) = Some d"
  show "is_open tr d" using o(4) [OF o(1) [OF assms(2)] d] .
  show "d \<noteq> c" using d o(2) [OF assms(2) o(1) [OF assms(2)]] by auto
  fix j assume "is_open tr j \<and> j \<noteq> c"
  then show "tn_parent (tr_heap tr j) \<noteq> Some d" using o(5) [OF _ o(1) [OF assms(2)], of j] d by auto
next
  note o = open_invD [OF assms(1)]
  fix k assume k: "is_open tr k \<and> k \<noteq> c"
  then obtain j where j: "is_open tr j" "tn_parent (tr_heap tr j) = Some k" using o(3) [of k] assms(2) by auto
  then show "tn_parent (tr_heap tr c) = Some k \<or> (\<exists>j. (is_open tr j \<and> j \<noteq> c) \<and> tn_parent (tr_heap tr j) = Some k)"
    by (cases "j = c") auto
next
  note o = open_invD [OF assms(1)]
  fix j p assume j: "is_open tr j \<and> j \<noteq> c" "tn_parent (tr_heap tr j) = Some p"
  then show "is_open tr p" using o(4) by blast
  show "p \<noteq> c" using j o(2) [OF assms(2), of j] by auto
next
  fix i j assume "is_open tr i \<and> i \<noteq> c" "is_open tr j \<and> j \<noteq> c" "tn_parent (tr_heap tr i) = tn_parent (tr_heap tr j)"
  then show "i = j" using open_invD(5) [OF assms(1)] by blast
qed

lemma sum_list_upd:
  fixes v :: int
  assumes "distinct xs" "f c = 0" "g = f(c := v)"
  shows "sum_list (map g xs) = sum_list (map f xs) + (if c \<in> set xs then v else 0)"
  using assms by (induction xs) auto

lemma closed_child_time:
  assumes "tree_inv tr" "is_open tr c" "i < tr_next tr"
  shows "child_time (tr_heap (node_closed now c tr)) i = child_time (tr_heap tr) i
    + (if tn_parent (tr_heap tr c) = Some i then now - tn_started_ns (tr_heap tr c) else 0)"
proof -
  have d: "distinct (tn_children (tr_heap tr i))" and m: "c \<in> set (tn_children (tr_heap tr i)) \<longleftrightarrow> tn_parent (tr_heap tr c) = Some i"
    using assms by (simp_all add: tree_inv_def is_open_def)
  have "node_time (tr_heap tr) c = 0" using assms(2) by (simp add: node_time_def is_open_def)
  moreover have "node_time (tr_heap (node_closed now c tr)) = (node_time (tr_heap tr))(c := now - tn_started_ns (tr_heap tr c))"
    by (rule ext) (simp add: node_time_def closed_sel)
  ultimately show ?thesis using sum_list_upd [OF d] by (simp add: child_time_def closed_sel m)
qed

lemma closed_time:
  assumes "trace_inv t tr" "tr_current tr = Some c" "t \<le> now"
  shows "time_inv now (node_closed now c tr)"
  unfolding time_inv_def
proof (intro allI impI)
  have tree: "tree_inv tr" and opn: "open_inv tr" and fits: "\<And>i. i < tr_next tr \<Longrightarrow> node_fits t tr i"
    using assms(1) by (simp_all add: trace_inv_def time_inv_def)
  note o = open_invD [OF opn]
  have c: "is_open tr c" using o(1) [OF assms(2)] .
  then have lt: "c < tr_next tr" and nc: "tn_duration_ns (tr_heap tr c) = None" by (simp_all add: is_open_def)
  fix i assume "i < tr_next (node_closed now c tr)"
  then have i: "i < tr_next tr" by (simp add: closed_sel)
  note ct = closed_child_time [OF tree c i, of now]
  have f: "node_fits t tr i" using fits [OF i] .
  show "node_fits now (node_closed now c tr) i"
  proof (cases "tn_parent (tr_heap tr c) = Some i")
    case True
    have io: "is_open tr i" using o(4) [OF c True] .
    have ic: "i \<noteq> c" using True o(2) [OF assms(2) c] by auto
    have le: "child_time (tr_heap tr) i \<le> tn_started_ns (tr_heap tr c) - tn_started_ns (tr_heap tr i)"
      using f io c True by (simp add: node_fits_def is_open_def)
    have no: "tn_parent (tr_heap tr k) \<noteq> Some i" if "is_open tr k" "k \<noteq> c" for k
      using o(5) [OF that(1) c] that(2) True by auto
    have dn: "tn_duration_ns (tr_heap tr i) = None" using io by (simp add: is_open_def)
    show ?thesis using f ic le assms(3) True
      by (auto simp: node_fits_def closed_sel closed_open ct dn dest: no)
  next
    case False
    show ?thesis
    proof (cases "i = c")
      case True
      with f nc assms(3) False show ?thesis by (simp add: node_fits_def closed_sel ct [unfolded True])
    next
      case ic: False
      with f False assms(3) show ?thesis
        by (cases "tn_duration_ns (tr_heap tr i)") (auto simp: node_fits_def closed_sel closed_open ct)
    qed
  qed
qed

lemma trace_inv_start:
  assumes "trace_inv t tr" "t \<le> now" "trace_start st nm tg now tr = Inr (tr', n)"
  shows "trace_inv now tr'"
proof -
  have tree: "tree_inv tr" and opn: "open_inv tr" and tim: "time_inv t tr" using assms(1) by (simp_all add: trace_inv_def)
  have r: "tr_root tr = Some 0" using tree by (simp add: tree_inv_def)
  then obtain c where c: "tr_current tr = Some c"
    using assms(3) by (cases "tr_current tr") (simp_all add: trace_start_def)
  then have lt: "c < tr_next tr" using open_invD(1) [OF opn c] by (simp add: is_open_def)
  have "tr' = grown st nm tg now c tr" using trace_start_shape [OF r c lt] assms(3) by simp
  then show ?thesis
    using grown_tree [OF tree lt] grown_open_inv [OF tree opn c] grown_time [OF tree opn tim c assms(2)]
    by (simp add: trace_inv_def)
qed

lemma trace_inv_finish:
  assumes "trace_inv t tr" "t \<le> now" "tr_current tr = Some c"
  shows "trace_inv now (node_closed now c tr)"
  using assms(1) closed_tree closed_open_inv [OF _ assms(3)] closed_time [OF assms(1,3,2)]
  by (simp add: trace_inv_def)

lemma trace_inv_later: "trace_inv t tr \<Longrightarrow> t \<le> now \<Longrightarrow> trace_inv now tr"
  unfolding trace_inv_def time_inv_def node_fits_def by (fastforce split: option.splits)

section \<open>Completing a trace\<close>

lemma parent_older:
  assumes "tree_inv tr" "i < tr_next tr" "tn_parent (tr_heap tr i) = Some p"
  shows "p < i"
proof -
  have "0 < i" using assms by (cases "i = 0") (simp_all add: tree_inv_def)
  then obtain q where "q < i" "tn_parent (tr_heap tr i) = Some q" using assms(1,2) unfolding tree_inv_def by blast
  with assms(3) show ?thesis by simp
qed

definition same_shape :: "trace \<Rightarrow> trace \<Rightarrow> bool" where
  "same_shape tr tr' \<longleftrightarrow> tr_next tr' = tr_next tr \<and> tr_root tr' = tr_root tr
     \<and> (\<forall>i. tn_started_ns (tr_heap tr' i) = tn_started_ns (tr_heap tr i) \<and> tn_parent (tr_heap tr' i) = tn_parent (tr_heap tr i)
          \<and> tn_children (tr_heap tr' i) = tn_children (tr_heap tr i))"

lemma same_shape_closed: "same_shape (node_closed now c tr) tr' \<Longrightarrow> same_shape tr tr'"
  by (simp add: same_shape_def closed_sel)

lemma finish_all_current:
  assumes "trace_inv t tr" "tr_current tr = Some c" "t \<le> clk k" "\<And>i j. i \<le> j \<Longrightarrow> clk i \<le> clk j"
  shows "\<exists>tr' k' t'. finish_all clk k tr = Some (Inr (tr', k')) \<and> trace_inv t' tr' \<and> t' \<le> clk k'
    \<and> tr_current tr' = None \<and> same_shape tr tr'"
  using assms(1-3)
proof (induction c arbitrary: t tr k rule: less_induct)
  case (less c)
  let ?tr = "node_closed (clk k) c tr"
  have inv: "trace_inv (clk k) ?tr" by (rule trace_inv_finish [OF less.prems(1,3,2)])
  have later: "clk k \<le> clk (Suc k)" using assms(4) by simp
  have unfold: "finish_all clk k tr = finish_all clk (Suc k) ?tr"
    using less.prems trace_finish_shape [OF less.prems] by (subst finish_all.simps) simp
  show ?case
  proof (cases "tn_parent (tr_heap tr c)")
    case None
    then have "tr_current ?tr = None" by (simp add: closed_sel)
    then have "finish_all clk (Suc k) ?tr = Some (Inr (?tr, Suc k))" by (subst finish_all.simps) simp
    moreover have "same_shape tr ?tr" by (simp add: same_shape_def closed_sel)
    ultimately show ?thesis unfolding unfold using inv later \<open>tr_current ?tr = None\<close>
      by (intro exI [of _ ?tr] exI [of _ "Suc k"] exI [of _ "clk k"]) simp
  next
    case (Some p)
    have "c < tr_next tr"
      using less.prems(1,2) open_invD(1) [of tr c] by (simp add: trace_inv_def is_open_def)
    then have "p < c" using parent_older [of tr c p] less.prems(1) Some by (simp add: trace_inv_def)
    moreover have "tr_current ?tr = Some p" using Some by (simp add: closed_sel)
    ultimately show ?thesis
      using less.IH [OF _ inv _ later, of p] same_shape_closed unfold by metis
  qed
qed

lemma finish_all_returns:
  assumes "trace_inv t tr" "\<And>i. t \<le> clk i" "\<And>i j. i \<le> j \<Longrightarrow> clk i \<le> clk j"
  obtains tr' k t' where "finish_all clk 0 tr = Some (Inr (tr', k))" "trace_inv t' tr'" "t' \<le> clk k"
    "tr_current tr' = None" "same_shape tr tr'"
proof (cases "tr_current tr")
  case None
  then have "finish_all clk 0 tr = Some (Inr (tr, 0))" by (subst finish_all.simps) simp
  with None assms(1,2) that show ?thesis by (simp add: same_shape_def)
next
  case (Some c)
  with finish_all_current [of t tr c clk 0] assms that show ?thesis by blast
qed

lemma all_finished:
  assumes "tree_inv tr" "open_inv tr" "tr_current tr = None"
  shows "\<not> is_open tr i"
proof
  assume "is_open tr i"
  then have ne: "{i. is_open tr i} \<noteq> {}" by blast
  have fin: "finite {i. is_open tr i}" by (rule finite_subset [of _ "{..<tr_next tr}"]) (auto simp: is_open_def)
  let ?m = "Max {i. is_open tr i}"
  have "is_open tr ?m" using Max_in [OF fin ne] by simp
  then obtain j where j: "is_open tr j" "tn_parent (tr_heap tr j) = Some ?m" using open_invD(3) [OF assms(2)] assms(3) by auto
  then have "?m < j" using parent_older [OF assms(1)] by (simp add: is_open_def)
  moreover have "j \<le> ?m" using Max_ge [OF fin] j(1) by simp
  ultimately show False by simp
qed

lemma new_profiler_inv:
  fixes rid tg now1 now2
  defines "tr \<equiv> pf_trace (profiler_new rid tg now1 now2)"
  shows "trace_inv now2 tr" "tr_heap tr 0 = node_new REQUEST ''request'' [] now2"
proof -
  have h: "tr_heap tr 0 = node_new REQUEST ''request'' [] now2" "tr_next tr = Suc 0" "tr_root tr = Some 0" "tr_current tr = Some 0"
    by (simp_all add: tr_def profiler_new_def trace_start_def trace_new_def Let_def)
  then show "tr_heap tr 0 = node_new REQUEST ''request'' [] now2" by blast
  have n: "tn_parent (tr_heap tr 0) = None" "tn_children (tr_heap tr 0) = []" "tn_duration_ns (tr_heap tr 0) = None"
    "tn_started_ns (tr_heap tr 0) = now2" by (simp_all add: h node_new_def)
  have op: "is_open tr i \<longleftrightarrow> i = 0" for i using h n by (auto simp: is_open_def)
  have "tree_inv tr" using h(2,3) n by (auto simp: tree_inv_def)
  moreover have "open_inv tr" using h(4) n by (simp add: open_inv_def op)
  moreover have "time_inv now2 tr" using h(2) n by (simp add: time_inv_def node_fits_def op child_time_def)
  ultimately show "trace_inv now2 tr" by (simp add: trace_inv_def)
qed

lemma profiled_inv:
  "profiled t p \<Longrightarrow> trace_inv t (pf_trace p) \<and> \<not> pf_completed p \<and> pf_started_ns p \<le> tn_started_ns (tr_heap (pf_trace p) 0)"
proof (induction rule: profiled.induct)
  case (new now1 now2 rid tags)
  have "pf_started_ns (profiler_new rid tags now1 now2) = now1" "\<not> pf_completed (profiler_new rid tags now1 now2)"
    by (simp_all add: profiler_new_def)
  with new show ?case by (simp add: new_profiler_inv) (simp add: node_new_def)
next
  case (open_stage t p now st nm tg p' n)
  obtain tr where tr: "trace_start st nm tg now (pf_trace p) = Inr (tr, n)" "p' = p\<lparr>pf_trace := tr\<rparr>"
    using open_stage(3) by (auto simp: start_stage_def split: if_splits sum.splits)
  have inv: "trace_inv now tr" by (rule trace_inv_start [OF _ open_stage(2) tr(1)]) (use open_stage in blast)
  have t: "trace_inv t (pf_trace p)" using open_stage by blast
  have r: "tr_root (pf_trace p) = Some 0" "0 < tr_next (pf_trace p)" using t by (simp_all add: trace_inv_def tree_inv_def)
  obtain c where c: "tr_current (pf_trace p) = Some c" using open_stage(3) by (auto simp: start_stage_def split: if_splits)
  then have lt: "c < tr_next (pf_trace p)" using t open_invD(1) by (auto simp: trace_inv_def is_open_def)
  have "tr = grown st nm tg now c (pf_trace p)" using trace_start_shape [OF r(1) c lt] tr(1) by simp
  then show ?case using inv open_stage(4) tr(2) r(2) by (simp add: grown_sel [OF lt])
next
  case (leave_stage t p now1 now2 p')
  have t: "trace_inv t (pf_trace p)" using leave_stage by blast
  obtain c where c: "tr_current (pf_trace p) = Some c"
    using leave_stage(4) by (cases "tr_current (pf_trace p)") (auto simp: finish_stage_def trace_finish_def)
  have "pf_trace p' = node_closed now1 c (pf_trace p)" "pf_completed p' = pf_completed p" "pf_started_ns p' = pf_started_ns p"
    using leave_stage(4) trace_finish_shape [OF t c leave_stage(2)] by (auto simp: finish_stage_def)
  then show ?case
    using trace_inv_later [OF trace_inv_finish [OF t leave_stage(2) c] leave_stage(3)] leave_stage by (simp add: closed_sel)
next
  case (emit t p now name ty v tags p')
  then show ?case using trace_inv_later by (auto simp: emit_point_def split: if_splits)
next
  case (event t p now name tags)
  then show ?case using trace_inv_later by (auto simp: emit_event_def)
qed

lemma complete_returns:
  assumes "profiled t p" "\<And>i. t \<le> clk i" "\<And>i j. i \<le> j \<Longrightarrow> clk i \<le> clk j"
  obtains p' r t' where "profiler_complete status error clk p = Some (Inr (p', r))" "trace_inv t' (rp_trace r)"
    "t' \<le> pf_started_ns p + rp_duration_ns r" "tr_current (rp_trace r) = None" "same_shape (pf_trace p) (rp_trace r)"
proof -
  have inv: "trace_inv t (pf_trace p)" "\<not> pf_completed p" using profiled_inv [OF assms(1)] by blast+
  obtain tr' k t' where f: "finish_all clk 0 (pf_trace p) = Some (Inr (tr', k))" "trace_inv t' tr'" "t' \<le> clk k"
    "tr_current tr' = None" "same_shape (pf_trace p) tr'"
    by (rule finish_all_returns [OF inv(1) assms(2,3)])
  show thesis
  proof (rule that)
    show "profiler_complete status error clk p = Some (Inr (p\<lparr>pf_trace := tr', pf_completed := True\<rparr>,
      \<lparr>rp_request_id = pf_request_id p, rp_trace = tr', rp_points = pf_points p, rp_tags = pf_tags p,
       rp_started_ns = pf_started_ns p, rp_finished_ns = clk k, rp_duration_ns = clk k - pf_started_ns p,
       rp_status = status, rp_error = error\<rparr>))"
      using inv f(1) by (simp add: profiler_complete_def)
  qed (use f in simp_all)
qed

lemma completed_nodes:
  assumes "trace_inv t tr" "tr_current tr = None" "i < tr_next tr"
  shows "tn_duration_ns (tr_heap tr i) \<noteq> None"
  using all_finished [of tr i] assms by (simp add: trace_inv_def is_open_def)

section \<open>Properties\<close>

text \<open>
  C17.  Completing a profiler ends: whatever stages its tasks opened and left in whatever order, the walk to
  the root stops, every node is finished, and the profile covers the root node.
\<close>

theorem complete_finishes_every_node:
  assumes "profiled t p" "\<And>i. t \<le> clk i" "\<And>i j. i \<le> j \<Longrightarrow> clk i \<le> clk j"
  shows "\<exists>p' r. profiler_complete status error clk p = Some (Inr (p', r)) \<and> trace_is_finished (rp_trace r)
     \<and> (\<forall>i < tr_next (rp_trace r). tn_duration_ns (tr_heap (rp_trace r) i) \<noteq> None)
     \<and> (\<exists>d. tn_duration_ns (tr_heap (rp_trace r) 0) = Some d \<and> d \<le> rp_duration_ns r)"
proof -
  obtain p' r t' where f: "profiler_complete status error clk p = Some (Inr (p', r))" "trace_inv t' (rp_trace r)"
    "t' \<le> pf_started_ns p + rp_duration_ns r" "tr_current (rp_trace r) = None" "same_shape (pf_trace p) (rp_trace r)"
    by (rule complete_returns [OF assms])
  note all = completed_nodes [OF f(2,4)]
  have root: "0 < tr_next (rp_trace r)" "tr_root (rp_trace r) = Some 0" using f(2) by (simp_all add: trace_inv_def tree_inv_def)
  then obtain d where d: "tn_duration_ns (tr_heap (rp_trace r) 0) = Some d" using all by blast
  have "node_fits t' (rp_trace r) 0" using f(2) root by (simp add: trace_inv_def time_inv_def)
  then have "tn_started_ns (tr_heap (pf_trace p) 0) + d \<le> t'" using d f(5) by (simp add: node_fits_def same_shape_def)
  moreover have "pf_started_ns p \<le> tn_started_ns (tr_heap (pf_trace p) 0)" using profiled_inv [OF assms(1)] by blast
  ultimately have "d \<le> rp_duration_ns r" using f(3) by linarith
  moreover have "trace_is_finished (rp_trace r)" using root f(4) by (simp add: trace_is_finished_def)
  ultimately show ?thesis using f(1) d all by blast
qed

definition steady_clock :: "nat \<Rightarrow> int" where
  "steady_clock k = 100 + int k"

definition one_stage :: profiler where
  "one_stage = (case start_stage RESPONSE ''dispatch'' [] 20 (profiler_new ''r'' [] 0 10) of Inr (p, _) \<Rightarrow> p | Inl _ \<Rightarrow> profiler_new ''r'' [] 0 10)"

lemma one_stage_profiled: "profiled 20 one_stage"
proof -
  have "profiled 10 (profiler_new ''r'' [] 0 10)" by (rule profiled.new) simp
  moreover have "\<exists>n. start_stage RESPONSE ''dispatch'' [] 20 (profiler_new ''r'' [] 0 10) = Inr (one_stage, n)"
    by (simp add: one_stage_def start_stage_def profiler_new_def trace_start_def trace_new_def add_child_def node_new_def Let_def)
  ultimately show ?thesis using profiled.open_stage [of 10 "profiler_new ''r'' [] 0 10" 20] by auto
qed

theorem complete_finishes_every_node_witness:
  "\<exists>p' r. profiler_complete ''ok'' None steady_clock one_stage = Some (Inr (p', r)) \<and> trace_is_finished (rp_trace r)"
  using complete_finishes_every_node [OF one_stage_profiled, of steady_clock] by (force simp: steady_clock_def)

text \<open>Time is accounted once: the exclusive times of the nodes add up to the duration of the root.\<close>

lemma exclusive_sum:
  assumes "tree_inv tr" "time_inv t tr" "\<And>i. i < tr_next tr \<Longrightarrow> tn_duration_ns (tr_heap tr i) \<noteq> None"
  shows "(\<Sum>i<tr_next tr. the (exclusive_duration_ns (tr_heap tr) i)) = the (tn_duration_ns (tr_heap tr 0))"
proof -
  let ?n = "tr_next tr" and ?d = "node_time (tr_heap tr)"
  let ?kids = "\<lambda>i. set (tn_children (tr_heap tr i))"
  have kids: "distinct (tn_children (tr_heap tr i))" "?kids i = {c. c < ?n \<and> tn_parent (tr_heap tr c) = Some i}" if "i < ?n" for i
    using assms(1) that by (simp_all add: tree_inv_def)
  have root: "tn_parent (tr_heap tr 0) = None" "0 < ?n" using assms(1) by (simp_all add: tree_inv_def)
  have par: "\<exists>p < i. tn_parent (tr_heap tr i) = Some p" if "0 < i" "i < ?n" for i
    using assms(1) that by (simp add: tree_inv_def)
  have excl: "the (exclusive_duration_ns (tr_heap tr) i) = ?d i - sum ?d (?kids i)" if "i < ?n" for i
  proof -
    obtain d where d: "tn_duration_ns (tr_heap tr i) = Some d" using assms(3) \<open>i < ?n\<close> by blast
    have "node_fits t tr i" using assms(2) that by (simp add: time_inv_def)
    with d have "child_time (tr_heap tr) i \<le> d" by (simp add: node_fits_def)
    moreover have "child_time (tr_heap tr) i = sum ?d (?kids i)"
      using kids(1) [OF that] by (simp add: child_time_def sum_list_distinct_conv_sum_set)
    ultimately show ?thesis by (simp add: exclusive_duration_ns_def d node_time_def)
  qed
  have union: "(\<Union>i \<in> {..<?n}. ?kids i) = {..<?n} - {0}"
  proof (intro equalityI subsetI)
    fix c assume "c \<in> (\<Union>i \<in> {..<?n}. ?kids i)"
    then obtain i where i: "i < ?n" "c \<in> ?kids i" by blast
    then have "c < ?n" "tn_parent (tr_heap tr c) = Some i" using kids(2) by auto
    then show "c \<in> {..<?n} - {0}" using root(1) by (cases "c = 0") auto
  next
    fix c assume c: "c \<in> {..<?n} - {0}"
    then obtain p where "p < c" "tn_parent (tr_heap tr c) = Some p" using par [of c] by auto
    with c kids(2) [of p] show "c \<in> (\<Union>i \<in> {..<?n}. ?kids i)" by (intro UN_I [of p]) auto
  qed
  have "(\<Sum>i<?n. the (exclusive_duration_ns (tr_heap tr) i)) = (\<Sum>i<?n. ?d i - sum ?d (?kids i))"
    by (rule sum.cong) (auto simp: excl)
  also have "\<dots> = sum ?d {..<?n} - (\<Sum>i<?n. sum ?d (?kids i))" by (simp add: sum_subtractf)
  also have "(\<Sum>i<?n. sum ?d (?kids i)) = sum ?d (\<Union>i \<in> {..<?n}. ?kids i)"
  proof (rule sum.UNION_disjoint [symmetric])
    show "\<forall>i \<in> {..<?n}. \<forall>j \<in> {..<?n}. i \<noteq> j \<longrightarrow> ?kids i \<inter> ?kids j = {}" using kids(2) by auto
  qed auto
  also have "\<dots> = sum ?d {..<?n} - ?d 0" using root(2) by (simp add: union sum_diff1)
  finally show ?thesis using root(2) assms(3) [of 0] by (auto simp: node_time_def split: option.splits)
qed

text \<open>
  Time is accounted once: after completion the exclusive times of all nodes, whatever tasks opened
  them, add up to the duration of the root node.
\<close>

theorem exclusive_times_add_up:
  assumes "profiled t p" "\<And>i. t \<le> clk i" "\<And>i j. i \<le> j \<Longrightarrow> clk i \<le> clk j"
    and "profiler_complete status error clk p = Some (Inr (p', r))"
  shows "(\<Sum>i<tr_next (rp_trace r). the (exclusive_duration_ns (tr_heap (rp_trace r)) i))
           = the (tn_duration_ns (tr_heap (rp_trace r) 0))"
proof -
  obtain q r' t' where f: "profiler_complete status error clk p = Some (Inr (q, r'))" "trace_inv t' (rp_trace r')"
    "tr_current (rp_trace r') = None"
    by (rule complete_returns [OF assms(1-3)])
  then have "r' = r" using assms(4) by simp
  moreover have "tree_inv (rp_trace r')" "time_inv t' (rp_trace r')" using f(2) by (simp_all add: trace_inv_def)
  ultimately show ?thesis using exclusive_sum [OF _ _ completed_nodes [OF f(2,3)]] by blast
qed

theorem exclusive_times_add_up_witness:
  "\<exists>p' r. profiler_complete ''ok'' None steady_clock one_stage = Some (Inr (p', r))
     \<and> (\<Sum>i<tr_next (rp_trace r). the (exclusive_duration_ns (tr_heap (rp_trace r)) i))
         = the (tn_duration_ns (tr_heap (rp_trace r) 0))"
proof -
  have clk: "20 \<le> steady_clock i" "i \<le> j \<Longrightarrow> steady_clock i \<le> steady_clock j" for i j by (simp_all add: steady_clock_def)
  obtain p' r and t' :: int where "profiler_complete ''ok'' None steady_clock one_stage = Some (Inr (p', r))"
    by (rule complete_returns [OF one_stage_profiled clk])
  with exclusive_times_add_up [OF one_stage_profiled clk this] show ?thesis by blast
qed

section \<open>Nested and interleaved stages\<close>

text \<open>Leaving a stage that was opened last times that stage.\<close>

lemma leave_own_stage:
  assumes "profiled t p" "t \<le> now" "start_stage stage name tags now p = Inr (p1, n)" "now \<le> now1"
  shows "\<exists>p2. finish_stage now1 now2 p1 = Inr p2 \<and> tr_current (pf_trace p2) = tr_current (pf_trace p)
     \<and> pf_points p2 = pf_points p @ [\<lparr>mp_name = name, mp_type = TIMER, mp_value = of_int (now1 - now),
          mp_timestamp_ns = now2, mp_unit = NANOSECONDS, mp_tags = tags\<rparr>]"
proof -
  note inv = profiled_inv [OF assms(1)]
  have r: "tr_root (pf_trace p) = Some 0" using inv by (simp add: trace_inv_def tree_inv_def)
  obtain c where c: "tr_current (pf_trace p) = Some c" using assms(3) by (auto simp: start_stage_def split: if_splits)
  then have lt: "c < tr_next (pf_trace p)" using inv open_invD(1) by (auto simp: trace_inv_def is_open_def)
  have p1: "p1 = p\<lparr>pf_trace := grown stage name tags now c (pf_trace p)\<rparr>"
    using assms(3) trace_start_shape [OF r c lt] by (auto simp: start_stage_def split: if_splits)
  have "profiled now p1" using profiled.open_stage [OF assms(1-3)] .
  then have i1: "trace_inv now (pf_trace p1)" using profiled_inv by blast
  have cur: "tr_current (pf_trace p1) = Some (tr_next (pf_trace p))" by (simp add: p1 grown_sel [OF lt])
  have node: "tr_heap (grown stage name tags now c (pf_trace p)) (tr_next (pf_trace p))
      = (node_new stage name tags now)\<lparr>tn_parent := Some c\<rparr>"
    by (simp add: grown_def Let_def)
  from trace_finish_shape [OF i1 cur assms(4)] cur c show ?thesis
    by (simp add: finish_stage_def node node_new_def closed_sel p1)
qed

text \<open>
  Two tasks of one request: \<open>A\<close> opens, \<open>B\<close> opens, \<open>A\<close> leaves, \<open>B\<close> leaves.  The stage \<open>A\<close> ran for 20 and is
  recorded with 40, the stage \<open>B\<close> ran for 30 and is recorded with 10.
\<close>

definition and_next :: "'a result \<Rightarrow> ('a \<Rightarrow> 'b result) \<Rightarrow> 'b result" where
  "and_next r f = (case r of Inl e \<Rightarrow> Inl e | Inr x \<Rightarrow> f x)"

lemma interleaved_stages_swap_times:
  "and_next (start_stage CUSTOM ''A'' [] 10 (profiler_new ''r'' [] 0 0)) (\<lambda>(p1, a).
   and_next (start_stage CUSTOM ''B'' [] 20 p1) (\<lambda>(p2, b).
   and_next (finish_stage 30 30 p2) (\<lambda>p3.
   and_next (finish_stage 50 50 p3) (\<lambda>p4. Inr (map (\<lambda>m. (mp_name m, mp_value m)) (pf_points p4))))))
   = Inr [(''B'', 10), (''A'', 40)]"
  by (simp add: and_next_def start_stage_def finish_stage_def profiler_new_def trace_start_def trace_new_def
      trace_finish_def node_finish_def add_child_def node_new_def Let_def)

text \<open>A stage left after \<open>complete()\<close> raises in the code it times.\<close>

lemma stage_left_after_completion_raises:
  "tr_current (pf_trace p) = None \<Longrightarrow> \<exists>e. finish_stage now1 now2 p = Inl e"
  by (simp add: finish_stage_def trace_finish_def)

end
