(* ===== verification/Metrics_Registry.thy ===== *)
theory Metrics_Registry
  imports Request_Trace Sampling "HOL-Library.List_Lexorder" "HOL-Library.Char_ord"
begin

text \<open>
  \<open>src/core/performance\<close>: metric primitives (\<open>metric.py\<close>), the aggregator, the registry of completed
  requests, the flattened snapshot the exporters read, the delta bookkeeping of the OpenTelemetry exporter,
  the Prometheus text, and the middleware that profiles a request and hands the profile to the registry.
\<close>

section \<open>Metric primitives\<close>

record counter =
  cn_name :: string
  cn_tags :: tags
  cn_value :: rat

definition counter_increment :: "rat \<Rightarrow> counter \<Rightarrow> counter result" where
  "counter_increment amount c =
     (if amount < 0 then Inl (MetricStateError ''counter increments cannot be negative'')
      else Inr (c\<lparr>cn_value := cn_value c + amount\<rparr>))"

record gauge =
  gg_name :: string
  gg_tags :: tags
  gg_value :: rat

definition gauge_set :: "rat \<Rightarrow> gauge \<Rightarrow> gauge" where
  "gauge_set v g = g\<lparr>gg_value := v\<rparr>"

definition gauge_increment :: "rat \<Rightarrow> gauge \<Rightarrow> gauge" where
  "gauge_increment v g = g\<lparr>gg_value := gg_value g + v\<rparr>"

definition gauge_decrement :: "rat \<Rightarrow> gauge \<Rightarrow> gauge" where
  "gauge_decrement v g = g\<lparr>gg_value := gg_value g - v\<rparr>"

section \<open>Aggregation\<close>

type_synonym metric_key = "string \<times> (string \<times> string) list"

definition metric_key :: "string \<Rightarrow> tags \<Rightarrow> metric_key" where
  "metric_key name tags = (name, sort_key fst tags)"

record aggregator =
  ag_quantiles :: "rat list"
  ag_counters :: "(metric_key, counter) odict"
  ag_gauges :: "(metric_key, gauge) odict"
  ag_histograms :: "(metric_key, streaming_histogram) odict"
  ag_types :: "(string, metric_type) odict"

definition aggregator_new :: aggregator where
  "aggregator_new = \<lparr>ag_quantiles = default_quantiles, ag_counters = [], ag_gauges = [], ag_histograms = [], ag_types = []\<rparr>"

definition counter_for :: "string \<Rightarrow> tags \<Rightarrow> aggregator \<Rightarrow> counter" where
  "counter_for name tags a =
     (case map_of (ag_counters a) (metric_key name tags) of
        Some c \<Rightarrow> c | None \<Rightarrow> \<lparr>cn_name = name, cn_tags = tags, cn_value = 0\<rparr>)"

definition gauge_for :: "string \<Rightarrow> tags \<Rightarrow> aggregator \<Rightarrow> gauge" where
  "gauge_for name tags a =
     (case map_of (ag_gauges a) (metric_key name tags) of
        Some g \<Rightarrow> g | None \<Rightarrow> \<lparr>gg_name = name, gg_tags = tags, gg_value = 0\<rparr>)"

definition histogram_for :: "string \<Rightarrow> tags \<Rightarrow> aggregator \<Rightarrow> streaming_histogram result" where
  "histogram_for name tags a =
     (case map_of (ag_histograms a) (metric_key name tags) of
        Some h \<Rightarrow> Inr h | None \<Rightarrow> sh_new name tags (ag_quantiles a) default_bucket_bounds)"

text \<open>The second component is what the call raises; what it did before stays done.\<close>

definition ingest_one :: "metric_point \<Rightarrow> aggregator \<Rightarrow> aggregator \<times> unit result" where
  "ingest_one p a =
     (let k = metric_key (mp_name p) (mp_tags p) in
      if map_of (ag_types a) (mp_name p) \<noteq> None \<and> map_of (ag_types a) (mp_name p) \<noteq> Some (mp_type p)
      then (a, Inl (MetricStateError (mp_name p @ '': metric already registered with a different metric type'')))
      else (let a1 = a\<lparr>ag_types := AList.update (mp_name p) (mp_type p) (ag_types a)\<rparr> in
        case mp_type p of
          COUNTER \<Rightarrow>
            (let c = counter_for (mp_name p) (mp_tags p) a1 in
             case counter_increment (mp_value p) c of
               Inl e \<Rightarrow> (a1\<lparr>ag_counters := AList.update k c (ag_counters a1)\<rparr>, Inl e)
             | Inr c' \<Rightarrow> (a1\<lparr>ag_counters := AList.update k c' (ag_counters a1)\<rparr>, Inr ()))
        | GAUGE \<Rightarrow>
            (a1\<lparr>ag_gauges := AList.update k (gauge_set (mp_value p) (gauge_for (mp_name p) (mp_tags p) a1)) (ag_gauges a1)\<rparr>, Inr ())
        | HISTOGRAM \<Rightarrow>
            (case histogram_for (mp_name p) (mp_tags p) a1 of
               Inl e \<Rightarrow> (a1, Inl e)
             | Inr h \<Rightarrow> (a1\<lparr>ag_histograms := AList.update k (sh_observe (mp_value p) h) (ag_histograms a1)\<rparr>, Inr ()))
        | TIMER \<Rightarrow>
            (case histogram_for (mp_name p) (mp_tags p) a1 of
               Inl e \<Rightarrow> (a1, Inl e)
             | Inr h \<Rightarrow> (a1\<lparr>ag_histograms := AList.update k (sh_observe (mp_value p) h) (ag_histograms a1)\<rparr>, Inr ()))
        | EVENT \<Rightarrow> (a1, Inr ())
        | TRACE \<Rightarrow> (a1, Inr ())))"

fun ingest :: "metric_point list \<Rightarrow> aggregator \<Rightarrow> aggregator \<times> unit result" where
  "ingest [] a = (a, Inr ())"
| "ingest (p # ps) a = (case ingest_one p a of (a', Inl e) \<Rightarrow> (a', Inl e) | (a', Inr _) \<Rightarrow> ingest ps a')"

definition aggregator_reset :: "aggregator \<Rightarrow> aggregator" where
  "aggregator_reset a = a\<lparr>ag_counters := [], ag_gauges := [], ag_histograms := [], ag_types := []\<rparr>"

section \<open>The registry\<close>

text \<open>Collectors and exporters are known by name; what a collector raises is an argument.\<close>

record registry =
  rg_max_request_history :: nat
  rg_aggregator :: aggregator
  rg_history :: "request_profile list"
  rg_by_id :: "(string, request_profile) odict"
  rg_collectors :: "string list"
  rg_exporters :: "string list"
  rg_total :: nat

definition perf_registry_new :: "nat \<Rightarrow> registry" where
  "perf_registry_new n = \<lparr>rg_max_request_history = n, rg_aggregator = aggregator_new, rg_history = [], rg_by_id = [],
     rg_collectors = [], rg_exporters = [], rg_total = 0\<rparr>"

text \<open>\<open>deque(maxlen=n or None)\<close>\<close>

definition deque_append :: "nat \<Rightarrow> 'a \<Rightarrow> 'a list \<Rightarrow> 'a list" where
  "deque_append n x xs = (let ys = xs @ [x] in if n = 0 then ys else drop (length ys - n) ys)"

fun notify :: "(string \<Rightarrow> request_profile \<Rightarrow> py_exc option) \<Rightarrow> string list \<Rightarrow> request_profile \<Rightarrow> unit result" where
  "notify collect [] p = Inr ()"
| "notify collect (c # cs) p = (case collect c p of Some e \<Rightarrow> Inl e | None \<Rightarrow> notify collect cs p)"

definition record_completed_request ::
  "(string \<Rightarrow> request_profile \<Rightarrow> py_exc option) \<Rightarrow> request_profile \<Rightarrow> registry \<Rightarrow> registry \<times> unit result" where
  "record_completed_request collect p rg =
     (case ingest (rp_points p) (rg_aggregator rg) of
        (ag, Inl e) \<Rightarrow> (rg\<lparr>rg_aggregator := ag\<rparr>, Inl e)
      | (ag, Inr _) \<Rightarrow>
          (let evicted = (if rg_max_request_history rg \<noteq> 0 \<and> rg_max_request_history rg \<le> length (rg_history rg)
                          then Some (rp_request_id (hd (rg_history rg))) else None);
               by_id = AList.update (rp_request_id p) p (rg_by_id rg);
               rg1 = rg\<lparr>rg_aggregator := ag, rg_total := Suc (rg_total rg),
                        rg_history := deque_append (rg_max_request_history rg) p (rg_history rg), rg_by_id := by_id\<rparr>
           in case evicted of
                None \<Rightarrow> (rg1, notify collect (rg_collectors rg) p)
              | Some i \<Rightarrow>
                  if i = rp_request_id p then (rg1, notify collect (rg_collectors rg) p)
                  else if map_of by_id i = None then (rg1, Inl KeyError)
                  else (rg1\<lparr>rg_by_id := AList.delete i by_id\<rparr>, notify collect (rg_collectors rg) p)))"

definition register_name :: "string \<Rightarrow> string list \<Rightarrow> string list" where
  "register_name n ns = (if n \<in> set ns then ns else ns @ [n])"

definition register_collector :: "string \<Rightarrow> registry \<Rightarrow> registry" where
  "register_collector n rg = rg\<lparr>rg_collectors := register_name n (rg_collectors rg)\<rparr>"

definition register_exporter :: "string \<Rightarrow> registry \<Rightarrow> registry" where
  "register_exporter n rg = rg\<lparr>rg_exporters := register_name n (rg_exporters rg)\<rparr>"

definition unregister_collector :: "string \<Rightarrow> registry \<Rightarrow> registry" where
  "unregister_collector n rg = rg\<lparr>rg_collectors := removeAll n (rg_collectors rg)\<rparr>"

definition unregister_exporter :: "string \<Rightarrow> registry \<Rightarrow> registry" where
  "unregister_exporter n rg = rg\<lparr>rg_exporters := removeAll n (rg_exporters rg)\<rparr>"

definition get_request :: "string \<Rightarrow> registry \<Rightarrow> request_profile option" where
  "get_request i rg = map_of (rg_by_id rg) i"

definition registry_reset :: "registry \<Rightarrow> registry" where
  "registry_reset rg = rg\<lparr>rg_history := [], rg_by_id := [], rg_total := 0, rg_aggregator := aggregator_reset (rg_aggregator rg)\<rparr>"

section \<open>Readers\<close>

datatype snapshot_kind = Counter_Kind | Gauge_Kind | Histogram_Kind

record metric_snapshot =
  ms_name :: string
  ms_kind :: snapshot_kind
  ms_tags :: tags
  ms_value :: "rat option"
  ms_histogram :: "snapshot option"

definition build_snapshot :: "registry \<Rightarrow> metric_snapshot list" where
  "build_snapshot rg =
     map (\<lambda>(_, c). \<lparr>ms_name = cn_name c, ms_kind = Counter_Kind, ms_tags = cn_tags c, ms_value = Some (cn_value c),
                    ms_histogram = None\<rparr>) (ag_counters (rg_aggregator rg))
     @ map (\<lambda>(_, g). \<lparr>ms_name = gg_name g, ms_kind = Gauge_Kind, ms_tags = gg_tags g, ms_value = Some (gg_value g),
                      ms_histogram = None\<rparr>) (ag_gauges (rg_aggregator rg))
     @ map (\<lambda>(_, h). \<lparr>ms_name = h_name (sh_histogram h), ms_kind = Histogram_Kind, ms_tags = h_tags (sh_histogram h),
                      ms_value = None, ms_histogram = Some (sh_snapshot h)\<rparr>) (ag_histograms (rg_aggregator rg))"

record history_entry =
  he_request_id :: string
  he_status :: string
  he_error :: "string option"
  he_duration_ns :: int
  he_tags :: tags

record performance_summary =
  ps_request_count :: nat
  ps_total :: nat
  ps_max_request_history :: nat
  ps_counters :: "counter list"
  ps_gauges :: "gauge list"
  ps_histograms :: "(string \<times> tags \<times> snapshot) list"
  ps_recent :: "history_entry list"

definition history_entry_of :: "request_profile \<Rightarrow> history_entry" where
  "history_entry_of p = \<lparr>he_request_id = rp_request_id p, he_status = rp_status p, he_error = rp_error p,
     he_duration_ns = rp_duration_ns p, he_tags = rp_tags p\<rparr>"

text \<open>The latest \<open>limit\<close> requests, the newest first.\<close>

definition build_performance_summary :: "int \<Rightarrow> registry \<Rightarrow> performance_summary" where
  "build_performance_summary limit rg =
     \<lparr>ps_request_count = length (rg_history rg), ps_total = rg_total rg,
      ps_max_request_history = rg_max_request_history rg,
      ps_counters = map snd (ag_counters (rg_aggregator rg)),
      ps_gauges = map snd (ag_gauges (rg_aggregator rg)),
      ps_histograms = map (\<lambda>(_, h). (h_name (sh_histogram h), h_tags (sh_histogram h), sh_snapshot h))
        (ag_histograms (rg_aggregator rg)),
      ps_recent = map history_entry_of
        (rev (if 0 < limit then drop (length (rg_history rg) - nat limit) (rg_history rg) else []))\<rparr>"

text \<open>The counter part of the OpenTelemetry exporter: the delta it adds to the instrument, if any.\<close>

definition export_counter :: "metric_key \<Rightarrow> rat \<Rightarrow> (metric_key, rat) odict \<Rightarrow> (metric_key, rat) odict \<times> rat option" where
  "export_counter k value known =
     (let previous = (case map_of known k of None \<Rightarrow> 0 | Some v \<Rightarrow> v);
          delta = (if previous \<le> value then value - previous else value)
      in (AList.update k value known, if delta \<le> 0 then None else Some delta))"

text \<open>Prometheus text; \<open>fmt\<close> prints a float.\<close>

fun joined_with :: "string \<Rightarrow> string list \<Rightarrow> string" where
  "joined_with sep [] = []"
| "joined_with sep [s] = s"
| "joined_with sep (s # ss) = s @ sep @ joined_with sep ss"

definition label_suffix :: "tags \<Rightarrow> string" where
  "label_suffix tags =
     (if tags = [] then []
      else ''{'' @ joined_with '','' (map (\<lambda>(k, v). k @ ''=\"'' @ v @ ''\"'') (sort_key fst tags)) @ ''}'')"

definition sample_line :: "string \<Rightarrow> tags \<Rightarrow> string \<Rightarrow> string" where
  "sample_line name tags v = name @ label_suffix tags @ '' '' @ v"

definition histogram_lines :: "(rat \<Rightarrow> string) \<Rightarrow> (rat option \<Rightarrow> string) \<Rightarrow> streaming_histogram \<Rightarrow> string list" where
  "histogram_lines fmt bound_text s =
     (let h = sh_histogram s in
      map (\<lambda>(b, n). h_name h @ ''_bucket'' @ label_suffix (AList.update ''le'' (bound_text b) (h_tags h))
             @ '' '' @ string_of_nat n) (cumulative_counts h)
      @ [sample_line (h_name h @ ''_sum'') (h_tags h) (fmt (h_total h)),
         sample_line (h_name h @ ''_count'') (h_tags h) (string_of_nat (h_count h))])"

definition emit_type :: "string \<Rightarrow> string \<Rightarrow> string list \<times> string list \<Rightarrow> string list \<times> string list" where
  "emit_type name ty s =
     (case s of (lines, emitted) \<Rightarrow>
        if name \<in> set emitted then s else (lines @ [''# TYPE '' @ name @ '' '' @ ty], name # emitted))"

definition render_metric :: "string \<Rightarrow> string \<Rightarrow> string list \<Rightarrow> string list \<times> string list \<Rightarrow> string list \<times> string list" where
  "render_metric name ty ls s = (case emit_type name ty s of (lines, emitted) \<Rightarrow> (lines @ ls, emitted))"

definition render :: "(rat \<Rightarrow> string) \<Rightarrow> (rat option \<Rightarrow> string) \<Rightarrow> registry \<Rightarrow> string" where
  "render fmt bound_text rg =
     (let a = rg_aggregator rg;
          s1 = fold (\<lambda>(_, c). render_metric (cn_name c) ''counter'' [sample_line (cn_name c) (cn_tags c) (fmt (cn_value c))])
                 (ag_counters a) ([], []);
          s2 = fold (\<lambda>(_, g). render_metric (gg_name g) ''gauge'' [sample_line (gg_name g) (gg_tags g) (fmt (gg_value g))])
                 (ag_gauges a) s1;
          lines = fst (fold (\<lambda>(_, h). render_metric (h_name (sh_histogram h)) ''histogram'' (histogram_lines fmt bound_text h))
                 (ag_histograms a) s2)
      in joined_with [CHR 0x0A] lines @ (if lines = [] then [] else [CHR 0x0A]))"

section \<open>The middleware\<close>

text \<open>
  The \<open>finally\<close> block of a sampled request: the response, if \<open>call_next\<close> returned one, by its status, and what
  was raised, if anything, with its text (leaving the stage can raise after the response is there).  The
  profiler is completed and its profile recorded; what that raises replaces the outcome.
\<close>

type_synonym dispatched = "(py_exc \<times> string) + nat"

definition finish_request ::
  "(string \<Rightarrow> request_profile \<Rightarrow> py_exc option) \<Rightarrow> (nat \<Rightarrow> string) \<Rightarrow> (nat \<Rightarrow> int) \<Rightarrow> string \<Rightarrow> seconds \<Rightarrow> seconds \<Rightarrow>
   nat option \<Rightarrow> (py_exc \<times> string) option \<Rightarrow> profiler \<Rightarrow> registry \<Rightarrow> sampler option
     \<Rightarrow> (registry \<times> sampler option \<times> dispatched) option" where
  "finish_request collect show_status clk route duration now response raised p rg sm =
     (let routed = AList.update ''route'' route (pf_tags p);
          tagged = p\<lparr>pf_tags := (case response of
                      Some st \<Rightarrow> AList.update ''status_code'' (show_status st) routed | None \<Rightarrow> routed)\<rparr>;
          status = (case raised of None \<Rightarrow> ''ok'' | Some _ \<Rightarrow> ''error'');
          error = (case raised of None \<Rightarrow> None | Some (e, m) \<Rightarrow> Some (if e = CancelledError then ''cancelled'' else m))
      in case profiler_complete status error clk tagged of
           None \<Rightarrow> None
         | Some (Inl e) \<Rightarrow> Some (rg, sm, Inl (e, []))
         | Some (Inr (_, profile)) \<Rightarrow>
             (case record_completed_request collect profile rg of
                (rg', Inl e) \<Rightarrow> Some (rg', sm, Inl (e, []))
              | (rg', Inr _) \<Rightarrow>
                  Some (rg', report_outcome response duration now sm,
                    (case raised of Some x \<Rightarrow> Inl x
                     | None \<Rightarrow> (case response of Some st \<Rightarrow> Inr st
                        | None \<Rightarrow> Inl (OtherError ''AssertionError'', []))))))"

section \<open>Aggregates\<close>

definition counter_value :: "aggregator \<Rightarrow> metric_key \<Rightarrow> rat" where
  "counter_value a k = (case map_of (ag_counters a) k of None \<Rightarrow> 0 | Some c \<Rightarrow> cn_value c)"

definition gauge_value :: "aggregator \<Rightarrow> metric_key \<Rightarrow> rat option" where
  "gauge_value a k = map_option gg_value (map_of (ag_gauges a) k)"

definition sample_count :: "aggregator \<Rightarrow> metric_key \<Rightarrow> nat" where
  "sample_count a k = (case map_of (ag_histograms a) k of None \<Rightarrow> 0 | Some h \<Rightarrow> h_count (sh_histogram h))"

abbreviation point_key :: "metric_point \<Rightarrow> metric_key" where
  "point_key p \<equiv> metric_key (mp_name p) (mp_tags p)"

definition points_of :: "metric_type set \<Rightarrow> metric_key \<Rightarrow> metric_point list \<Rightarrow> metric_point list" where
  "points_of ty k ps = filter (\<lambda>p. mp_type p \<in> ty \<and> point_key p = k) ps"

lemma h_count_observe [simp]: "h_count (sh_histogram (sh_observe v h)) = Suc (h_count (sh_histogram h))"
  by (simp add: sh_observe_def hist_observe_def Let_def)

lemma h_count_new [simp]: "sh_new n tg qs bs = Inr h \<Longrightarrow> h_count (sh_histogram h) = 0"
  by (auto simp: sh_new_def hist_new_def split: if_splits sum.splits)

lemma ingest_one_effect:
  assumes "ingest_one p a = (a', Inr ())"
  shows "counter_value a' k = counter_value a k + (if mp_type p = COUNTER \<and> point_key p = k then mp_value p else 0)"
    and "gauge_value a' k = (if mp_type p = GAUGE \<and> point_key p = k then Some (mp_value p) else gauge_value a k)"
    and "sample_count a' k = sample_count a k + (if mp_type p \<in> {HISTOGRAM, TIMER} \<and> point_key p = k then 1 else 0)"
    and "map_of (ag_types a') (mp_name p) = Some (mp_type p)"
    and "map_of (ag_types a) n = Some ty \<Longrightarrow> map_of (ag_types a') n = Some ty"
  using assms
  by (cases "mp_type p"; auto simp: ingest_one_def Let_def counter_value_def gauge_value_def sample_count_def map_of_update
      counter_for_def gauge_for_def histogram_for_def counter_increment_def gauge_set_def
      split: if_splits option.splits sum.splits)+

lemma ingest_Cons:
  assumes "ingest (p # ps) a = (b, Inr ())"
  obtains a' where "ingest_one p a = (a', Inr ())" "ingest ps a' = (b, Inr ())"
  using assms by (auto split: prod.splits sum.splits)

lemma ingest_types:
  "ingest ps a = (b, Inr ()) \<Longrightarrow> map_of (ag_types a) n = Some ty \<Longrightarrow> map_of (ag_types b) n = Some ty"
proof (induction ps arbitrary: a)
  case (Cons p ps)
  from Cons.prems(1) obtain a' where "ingest_one p a = (a', Inr ())" "ingest ps a' = (b, Inr ())" by (rule ingest_Cons)
  with Cons ingest_one_effect(5) show ?case by blast
qed simp

lemma ingest_typed:
  "ingest ps a = (b, Inr ()) \<Longrightarrow> p \<in> set ps \<Longrightarrow> map_of (ag_types b) (mp_name p) = Some (mp_type p)"
proof (induction ps arbitrary: a)
  case (Cons q ps)
  from Cons.prems(1) obtain a' where a': "ingest_one q a = (a', Inr ())" "ingest ps a' = (b, Inr ())" by (rule ingest_Cons)
  show ?case
  proof (cases "p \<in> set ps")
    case True
    with Cons.IH a'(2) show ?thesis by blast
  next
    case False
    then have "p = q" using Cons.prems(2) by simp
    with ingest_types [OF a'(2) ingest_one_effect(4) [OF a'(1)]] show ?thesis by simp
  qed
qed simp

lemma ingest_values:
  assumes "ingest ps a = (b, Inr ())"
  shows "counter_value b k = counter_value a k + sum_list (map mp_value (points_of {COUNTER} k ps))"
    and "gauge_value b k = (if points_of {GAUGE} k ps = [] then gauge_value a k
                            else Some (mp_value (last (points_of {GAUGE} k ps))))"
    and "sample_count b k = sample_count a k + length (points_of {HISTOGRAM, TIMER} k ps)"
  using assms
proof (induction ps arbitrary: a)
  case (Cons p ps)
  {
    case 1
    then obtain a' where a': "ingest_one p a = (a', Inr ())" "ingest ps a' = (b, Inr ())" by (rule ingest_Cons)
    from Cons.IH(1) [OF a'(2)] ingest_one_effect(1) [OF a'(1), of k] show ?case by (simp add: points_of_def)
  next
    case 2
    then obtain a' where a': "ingest_one p a = (a', Inr ())" "ingest ps a' = (b, Inr ())" by (rule ingest_Cons)
    from Cons.IH(2) [OF a'(2)] ingest_one_effect(2) [OF a'(1), of k] show ?case by (simp add: points_of_def)
  next
    case 3
    then obtain a' where a': "ingest_one p a = (a', Inr ())" "ingest ps a' = (b, Inr ())" by (rule ingest_Cons)
    from Cons.IH(3) [OF a'(2)] ingest_one_effect(3) [OF a'(1), of k] show ?case by (simp add: points_of_def)
  }
qed (simp_all add: points_of_def)

text \<open>
  When a sequence of points is taken in without an error, each counter is the sum of its increments,
  each gauge the value set last, each histogram has seen every sample once, whatever the order of the tags,
  and no name carries two types.
\<close>

theorem aggregates_are_exact:
  assumes "ingest ps aggregator_new = (a, Inr ())"
  shows "counter_value a k = sum_list (map mp_value (points_of {COUNTER} k ps))
     \<and> gauge_value a k = (if points_of {GAUGE} k ps = [] then None else Some (mp_value (last (points_of {GAUGE} k ps))))
     \<and> sample_count a k = length (points_of {HISTOGRAM, TIMER} k ps)
     \<and> (\<forall>p \<in> set ps. \<forall>q \<in> set ps. mp_name p = mp_name q \<longrightarrow> mp_type p = mp_type q)"
proof -
  have empty: "counter_value aggregator_new k = 0" "gauge_value aggregator_new k = None" "sample_count aggregator_new k = 0"
    by (simp_all add: counter_value_def gauge_value_def sample_count_def aggregator_new_def)
  have types: "mp_type p = mp_type q" if "p \<in> set ps" "q \<in> set ps" "mp_name p = mp_name q" for p q
    using ingest_typed [OF assms that(1)] ingest_typed [OF assms that(2)] that(3) by simp
  show ?thesis
    unfolding ingest_values(1) [OF assms, of k] ingest_values(2) [OF assms, of k] ingest_values(3) [OF assms, of k] empty
    by (intro conjI ballI impI types) simp_all
qed

definition point :: "string \<Rightarrow> metric_type \<Rightarrow> rat \<Rightarrow> metric_point" where
  "point name ty v = \<lparr>mp_name = name, mp_type = ty, mp_value = v, mp_timestamp_ns = 0, mp_unit = COUNT, mp_tags = []\<rparr>"

theorem aggregates_are_exact_witness:
  "\<exists>a. ingest [point ''hits'' COUNTER 2, point ''depth'' GAUGE 7, point ''hits'' COUNTER 3, point ''depth'' GAUGE 1] aggregator_new = (a, Inr ())
     \<and> counter_value a (''hits'', []) = 5 \<and> gauge_value a (''depth'', []) = Some 1"
proof -
  let ?ps = "[point ''hits'' COUNTER 2, point ''depth'' GAUGE 7, point ''hits'' COUNTER 3, point ''depth'' GAUGE 1]"
  have "snd (ingest ?ps aggregator_new) = Inr ()" by code_simp
  then obtain a where a: "ingest ?ps aggregator_new = (a, Inr ())" by (metis prod.collapse)
  have pts: "points_of {COUNTER} (''hits'', []) ?ps = [point ''hits'' COUNTER 2, point ''hits'' COUNTER 3]"
    "points_of {GAUGE} (''depth'', []) ?ps = [point ''depth'' GAUGE 7, point ''depth'' GAUGE 1]"
    by (simp_all add: points_of_def point_def metric_key_def)
  have "counter_value a (''hits'', []) = 5"
    using conjunct1 [OF aggregates_are_exact [OF a, of "(''hits'', [])"]] unfolding pts by (simp add: point_def)
  moreover have "gauge_value a (''depth'', []) = Some 1"
    using conjunct1 [OF conjunct2 [OF aggregates_are_exact [OF a, of "(''depth'', [])"]]] unfolding pts by (simp add: point_def)
  ultimately show ?thesis using a by blast
qed

text \<open>A counter point with a negative amount, or a name used for two kinds of metric, raises out of the request.\<close>

lemma type_clash_raises:
  "map_of (ag_types a) (mp_name p) = Some ty \<Longrightarrow> ty \<noteq> mp_type p \<Longrightarrow> \<exists>e. ingest_one p a = (a, Inl (MetricStateError e))"
  by (simp add: ingest_one_def Let_def)

section \<open>The history\<close>

fun registry_run :: "(string \<Rightarrow> request_profile \<Rightarrow> py_exc option) \<Rightarrow> request_profile list \<Rightarrow> registry \<Rightarrow> registry \<times> unit result" where
  "registry_run collect [] rg = (rg, Inr ())"
| "registry_run collect (p # ps) rg =
     (case record_completed_request collect p rg of
        (rg', Inl e) \<Rightarrow> (rg', Inl e) | (rg', Inr _) \<Rightarrow> registry_run collect ps rg')"

definition latest :: "nat \<Rightarrow> 'a list \<Rightarrow> 'a list" where
  "latest n xs = (if n = 0 then xs else drop (length xs - n) xs)"

text \<open>After recording \<open>ps\<close>, with different identifiers, the registry keeps the latest ones under their identifiers.\<close>

definition keeps :: "request_profile list \<Rightarrow> registry \<Rightarrow> bool" where
  "keeps ps rg \<longleftrightarrow> rg_history rg = latest (rg_max_request_history rg) ps \<and> rg_total rg = length ps
     \<and> (\<forall>i. map_of (rg_by_id rg) i = map_of (map (\<lambda>p. (rp_request_id p, p)) (rg_history rg)) i)"

lemma latest_append:
  "latest n (xs @ [x]) = (if n \<noteq> 0 \<and> n \<le> length (latest n xs) then tl (latest n xs) @ [x] else latest n xs @ [x])"
  by (auto simp: latest_def drop_Suc tl_drop Suc_diff_le)

lemma deque_append_latest: "deque_append n x (latest n xs) = latest n (xs @ [x])"
  unfolding latest_append by (auto simp: deque_append_def Let_def latest_def tl_drop drop_Suc Suc_diff_le split: if_splits)

abbreviation by_request :: "request_profile list \<Rightarrow> (string \<times> request_profile) list" where
  "by_request ps \<equiv> map (\<lambda>p. (rp_request_id p, p)) ps"

lemma keys_by_request: "keys (by_request ps) = map rp_request_id ps"
  by simp

lemma map_of_by_request_snoc:
  assumes "rp_request_id p \<notin> set (map rp_request_id ps)"
  shows "map_of (by_request (ps @ [p])) = (map_of (by_request ps))(rp_request_id p \<mapsto> p)"
proof (rule ext)
  fix i
  have none: "map_of (by_request ps) (rp_request_id p) = None"
    unfolding map_of_None_keys keys_by_request using assms .
  show "map_of (by_request (ps @ [p])) i = ((map_of (by_request ps))(rp_request_id p \<mapsto> p)) i"
    using none by (cases "i = rp_request_id p") (simp_all add: map_add_def split: option.splits)
qed

lemma map_of_by_request_tl:
  assumes "distinct (map rp_request_id (q # qs))"
  shows "(map_of (by_request (q # qs)))(rp_request_id q := None) = map_of (by_request qs)"
proof -
  have "map_of (by_request qs) (rp_request_id q) = None"
    unfolding map_of_None_keys keys_by_request using assms by simp
  then show ?thesis by (auto simp: fun_eq_iff)
qed

lemma latest_subset: "set (latest n xs) \<subseteq> set xs"
  by (auto simp: latest_def dest: in_set_dropD)

lemma latest_distinct: "distinct (map f xs) \<Longrightarrow> distinct (map f (latest n xs))"
  by (simp add: latest_def drop_map [symmetric] del: drop_map)

lemma ingest_one_no_key_error: "ingest_one p a = (b, Inl e) \<Longrightarrow> e \<noteq> KeyError"
proof -
  have p2: "new_estimators qs d \<noteq> Inl KeyError" for qs d
    by (induction qs d rule: new_estimators.induct) (auto simp: p2_new_def split: sum.splits if_splits)
  have "sh_new n tg qs bs \<noteq> Inl KeyError" for n tg qs bs
    using p2 by (auto simp: sh_new_def hist_new_def split: sum.splits if_splits)
  moreover assume "ingest_one p a = (b, Inl e)"
  ultimately show ?thesis
    by (cases "mp_type p"; auto simp: ingest_one_def Let_def counter_increment_def histogram_for_def
        split: if_splits option.splits sum.splits)
qed

lemma ingest_no_key_error: "ingest ps a = (b, Inl e) \<Longrightarrow> e \<noteq> KeyError"
  by (induction ps a rule: ingest.induct) (auto split: prod.splits sum.splits dest: ingest_one_no_key_error)

lemma notify_raises: "notify collect cs p = Inl e \<Longrightarrow> \<exists>c. collect c p = Some e"
  by (induction cs) (auto split: option.splits)

lemma keeps_record:
  assumes k: "keeps ps rg" and d: "distinct (map rp_request_id (ps @ [p]))"
    and ig: "ingest (rp_points p) (rg_aggregator rg) = (ag, Inr ())"
  shows "keeps (ps @ [p]) (fst (record_completed_request collect p rg))
     \<and> snd (record_completed_request collect p rg) = notify collect (rg_collectors rg) p
     \<and> rg_max_request_history (fst (record_completed_request collect p rg)) = rg_max_request_history rg"
proof -
  let ?n = "rg_max_request_history rg" and ?h = "rg_history rg"
  let ?upd = "AList.update (rp_request_id p) p (rg_by_id rg)"
  have h: "?h = latest ?n ps" and tot: "rg_total rg = length ps"
    and ids: "map_of (rg_by_id rg) = map_of (by_request ?h)" using k by (auto simp: keeps_def)
  have dp: "distinct (map rp_request_id ?h)" unfolding h using d by (intro latest_distinct) simp
  have new: "rp_request_id p \<notin> set (map rp_request_id ?h)"
    unfolding h using d latest_subset [of ?n ps] by auto
  have upd: "map_of ?upd = map_of (by_request (?h @ [p]))"
    unfolding map_of_update ids map_of_by_request_snoc [OF new] ..
  have app: "deque_append ?n p ?h = latest ?n (ps @ [p])" unfolding h by (rule deque_append_latest)
  show ?thesis
  proof (cases "?n \<noteq> 0 \<and> ?n \<le> length ?h")
    case True
    then obtain q qs where q: "?h = q # qs" by (cases ?h) auto
    have ne: "rp_request_id q \<noteq> rp_request_id p" using new q by auto
    have lat: "latest ?n (ps @ [p]) = qs @ [p]" using True q latest_append [of ?n ps p] h by simp
    have "distinct (map rp_request_id (q # (qs @ [p])))" using dp new q by auto
    then have "map_of (AList.delete (rp_request_id q) ?upd) = map_of (by_request (qs @ [p]))"
      unfolding map_of_delete upd q using map_of_by_request_tl [of q "qs @ [p]"] by simp
    moreover have "map_of ?upd (rp_request_id q) \<noteq> None"
      unfolding map_of_None_keys upd [THEN fun_cong] keys_by_request by (simp add: q)
    ultimately show ?thesis using True q ne ig lat app tot
      by (auto simp: record_completed_request_def Let_def keeps_def)
  next
    case False
    have lat: "latest ?n (ps @ [p]) = ?h @ [p]" using False latest_append [of ?n ps p] h by auto
    with False ig app tot upd show ?thesis
      by (auto simp: record_completed_request_def Let_def keeps_def)
  qed
qed

lemma record_failure:
  assumes "record_completed_request collect p rg = (rg', Inl e)" "keeps ps rg" "distinct (map rp_request_id (ps @ [p]))"
    "\<And>c p. collect c p \<noteq> Some KeyError"
  shows "e \<noteq> KeyError"
proof -
  obtain ag r where i: "ingest (rp_points p) (rg_aggregator rg) = (ag, r)" by fastforce
  show ?thesis
  proof (cases r)
    case (Inl x)
    with i assms(1) show ?thesis using ingest_no_key_error by (auto simp: record_completed_request_def)
  next
    case (Inr u)
    with keeps_record [OF assms(2,3), of ag collect] i assms(1) have "notify collect (rg_collectors rg) p = Inl e" by simp
    with notify_raises assms(4) show ?thesis by blast
  qed
qed

lemma registry_run_keeps:
  assumes "registry_run collect ps rg = (rg', res)" "keeps qs rg" "distinct (map rp_request_id (qs @ ps))"
    "\<And>c p. collect c p \<noteq> Some KeyError"
  shows "case res of Inr _ \<Rightarrow> keeps (qs @ ps) rg' \<and> rg_max_request_history rg' = rg_max_request_history rg | Inl e \<Rightarrow> e \<noteq> KeyError"
  using assms(1-3)
proof (induction ps arbitrary: rg qs)
  case (Cons p ps)
  obtain rg1 r where r: "record_completed_request collect p rg = (rg1, r)" by fastforce
  have d: "distinct (map rp_request_id (qs @ [p]))" using Cons.prems(3) by auto
  show ?case
  proof (cases r)
    case (Inl e)
    with r Cons.prems(1) record_failure [OF _ Cons.prems(2) d assms(4)] show ?thesis by auto
  next
    case (Inr u)
    obtain ag where "ingest (rp_points p) (rg_aggregator rg) = (ag, Inr ())"
      using r Inr by (auto simp: record_completed_request_def split: prod.splits sum.splits)
    from keeps_record [OF Cons.prems(2) d this, of collect] r
    have k: "keeps (qs @ [p]) rg1" "rg_max_request_history rg1 = rg_max_request_history rg" by simp_all
    have "registry_run collect ps rg1 = (rg', res)" using Cons.prems(1) r Inr by simp
    from Cons.IH [OF this k(1)] Cons.prems(3) k(2) show ?thesis by (auto split: sum.splits)
  qed
qed auto

text \<open>
  Recording requests with different identifiers never fails over the bounded history: the registry
  keeps exactly the latest \<open>max_request_history\<close> profiles in order (all of them for 0), finds exactly these
  by their identifiers, and counts every request.
\<close>

theorem registry_keeps_latest:
  assumes "distinct (map rp_request_id ps)" "\<And>c p. collect c p \<noteq> Some KeyError"
    and "registry_run collect ps (perf_registry_new n) = (rg, res)"
  shows "case res of
      Inl e \<Rightarrow> e \<noteq> KeyError
    | Inr _ \<Rightarrow> rg_history rg = latest n ps \<and> rg_total rg = length ps \<and> (n \<noteq> 0 \<longrightarrow> length (rg_history rg) \<le> n)
        \<and> (\<forall>p \<in> set ps. get_request (rp_request_id p) rg = (if p \<in> set (latest n ps) then Some p else None))"
proof (cases res)
  case (Inl e)
  have "keeps [] (perf_registry_new n)" by (simp add: keeps_def perf_registry_new_def latest_def)
  from registry_run_keeps [OF assms(3) this _ assms(2)] assms(1) Inl show ?thesis by simp
next
  case (Inr u)
  have "keeps [] (perf_registry_new n)" by (simp add: keeps_def perf_registry_new_def latest_def)
  from registry_run_keeps [OF assms(3) this _ assms(2)] assms(1) Inr
  have k: "keeps ps rg" "rg_max_request_history rg = n" by (simp_all add: perf_registry_new_def)
  have h: "rg_history rg = latest n ps" and t: "rg_total rg = length ps"
    and ids: "\<And>i. map_of (rg_by_id rg) i = map_of (by_request (latest n ps)) i" using k by (auto simp: keeps_def)
  have "get_request (rp_request_id p) rg = (if p \<in> set (latest n ps) then Some p else None)" if p: "p \<in> set ps" for p
  proof (cases "p \<in> set (latest n ps)")
    case True
    have "distinct (keys (by_request (latest n ps)))"
      unfolding keys_by_request by (rule latest_distinct [OF assms(1)])
    then have "map_of (by_request (latest n ps)) (rp_request_id p) = Some p"
      by (rule map_of_is_SomeI) (use True in simp)
    with True ids show ?thesis by (simp add: get_request_def)
  next
    case False
    have "rp_request_id p \<notin> set (map rp_request_id (latest n ps))"
    proof
      assume "rp_request_id p \<in> set (map rp_request_id (latest n ps))"
      then obtain q where q: "q \<in> set (latest n ps)" "rp_request_id q = rp_request_id p" by auto
      have "inj_on rp_request_id (set ps)" using assms(1) unfolding distinct_map by blast
      moreover have "q \<in> set ps" by (rule subsetD [OF latest_subset q(1)])
      ultimately have "q = p" using q(2) p by (blast dest: inj_onD)
      with q(1) False show False by simp
    qed
    then have "map_of (by_request (latest n ps)) (rp_request_id p) = None" unfolding map_of_None_keys keys_by_request .
    with False ids show ?thesis by (simp add: get_request_def)
  qed
  moreover have "n \<noteq> 0 \<longrightarrow> length (rg_history rg) \<le> n" unfolding h by (auto simp: latest_def)
  ultimately show ?thesis unfolding Inr sum.case using h t by blast
qed

definition profile_of :: "string \<Rightarrow> metric_point list \<Rightarrow> request_profile" where
  "profile_of i ps = \<lparr>rp_request_id = i, rp_trace = trace_new, rp_points = ps, rp_tags = [], rp_started_ns = 0,
     rp_finished_ns = 5, rp_duration_ns = 5, rp_status = ''ok'', rp_error = None\<rparr>"

theorem registry_keeps_latest_witness:
  "\<exists>rg. registry_run (\<lambda>_ _. None) [profile_of ''a'' [], profile_of ''b'' [], profile_of ''c'' []] (perf_registry_new 2) = (rg, Inr ())
     \<and> rg_history rg = [profile_of ''b'' [], profile_of ''c'' []]"
proof -
  let ?ps = "[profile_of ''a'' [], profile_of ''b'' [], profile_of ''c'' []]"
  have "snd (registry_run (\<lambda>_ _. None) ?ps (perf_registry_new 2)) = Inr ()"
    by (simp add: profile_of_def record_completed_request_def perf_registry_new_def deque_append_def Let_def)
  then obtain rg where r: "registry_run (\<lambda>_ _. None) ?ps (perf_registry_new 2) = (rg, Inr ())" by (metis prod.collapse)
  have "rg_history rg = latest 2 ?ps"
    using registry_keeps_latest [OF _ _ r] unfolding sum.case by (simp add: profile_of_def)
  with r show ?thesis by (auto simp: latest_def)
qed

text \<open>Two requests with one identifier in a full history: the third record raises \<open>KeyError\<close>.\<close>

lemma repeated_identifier_raises:
  "snd (registry_run (\<lambda>_ _. None) [profile_of ''a'' [], profile_of ''a'' [], profile_of ''b'' [], profile_of ''c'' []]
     (perf_registry_new 2)) = Inl KeyError"
  by (simp add: profile_of_def record_completed_request_def perf_registry_new_def deque_append_def Let_def)

section \<open>Counter deltas\<close>

fun export_all :: "metric_key \<Rightarrow> rat list \<Rightarrow> (metric_key, rat) odict \<Rightarrow> rat" where
  "export_all k [] known = 0"
| "export_all k (v # vs) known =
     (case export_counter k v known of (known', d) \<Rightarrow> (case d of None \<Rightarrow> 0 | Some x \<Rightarrow> x) + export_all k vs known')"

text \<open>Exports of a counter that only grows add up to its last value.\<close>

lemma export_counter_adds_up:
  assumes "sorted (v # vs)" "(case map_of known k of None \<Rightarrow> 0 | Some x \<Rightarrow> x) \<le> v"
  shows "export_all k (v # vs) known = last (v # vs) - (case map_of known k of None \<Rightarrow> 0 | Some x \<Rightarrow> x)"
  using assms
proof (induction vs arbitrary: v known)
  case Nil
  then show ?case by (auto simp: export_counter_def Let_def)
next
  case (Cons w vs)
  let ?known = "AList.update k v known"
  have "export_all k (w # vs) ?known = last (w # vs) - v"
    using Cons.IH [of w ?known] Cons.prems by (simp add: map_of_update)
  moreover have "export_all k (v # w # vs) known
      = (v - (case map_of known k of None \<Rightarrow> 0 | Some x \<Rightarrow> x)) + export_all k (w # vs) ?known"
    using Cons.prems(2) by (auto simp: export_counter_def Let_def simp del: export_all.simps(2) intro: export_all.simps(2) [THEN trans])
  ultimately show ?case by simp
qed

end
