(* ===== verification/Sqlite_Store.thy ===== *)
theory Sqlite_Store
  imports Prelude Regex "HOL-Library.Sublist"
begin

text \<open>
  \<open>src/core/db/adapters/sqlite.py\<close> and the connection handling of \<open>src/core/storage/service_db.py\<close>: what
  a statement on one pooled connection does to the file that all connections share.  SQLite itself is the
  argument \<open>engine\<close>; Python's \<open>sqlite3\<close> module opens a transaction before the first data-modifying statement
  and leaves it open, whether the statement succeeds or not, until \<open>commit\<close> or \<open>rollback\<close>, and SQLite admits
  one write transaction at a time.
\<close>

section \<open>The shared file\<close>

text \<open>A statement that does not compile raises before a transaction is opened.\<close>

datatype engine_error = Prepare_Error py_exc | Step_Error py_exc

fun error_of :: "engine_error \<Rightarrow> py_exc" where
  "error_of (Prepare_Error e) = e"
| "error_of (Step_Error e) = e"

record 'v cursor =
  cu_rows :: "(string \<times> 'v) list list"
  cu_lastrowid :: "int option"
  cu_rowcount :: int

type_synonym ('v, 'd) engine = "string \<Rightarrow> 'v list \<Rightarrow> 'd \<Rightarrow> engine_error + 'd \<times> 'v cursor"

text \<open>The committed contents, and the connection with the open write transaction with what it sees.\<close>

record 'd sqlite_file =
  sf_data :: 'd
  sf_writer :: "(nat \<times> 'd) option"

definition starts_with_word :: "string list \<Rightarrow> string \<Rightarrow> bool" where
  "starts_with_word ws sql \<longleftrightarrow> (\<exists>w \<in> set ws. prefix w (upper (strip sql)))"

definition is_dml :: "string \<Rightarrow> bool" where
  "is_dml sql \<longleftrightarrow> starts_with_word [''INSERT'', ''UPDATE'', ''DELETE'', ''REPLACE''] sql"

definition database_locked :: py_exc where
  "database_locked = OtherError ''OperationalError: database is locked''"

text \<open>\<open>cursor.execute\<close> on connection \<open>c\<close>; outside a transaction a statement that is no DML commits itself.\<close>

definition run_statement :: "('v, 'd) engine \<Rightarrow> nat \<Rightarrow> string \<Rightarrow> 'v list \<Rightarrow> 'd sqlite_file \<Rightarrow> 'd sqlite_file \<times> 'v cursor result" where
  "run_statement engine c sql params f =
     (let own = (case sf_writer f of Some (c', _) \<Rightarrow> c' = c | None \<Rightarrow> False);
          seen = (case sf_writer f of Some (c', w) \<Rightarrow> if c' = c then w else sf_data f | None \<Rightarrow> sf_data f)
      in case engine sql params seen of
           Inl (Prepare_Error e) \<Rightarrow> (f, Inl e)
         | Inl (Step_Error e) \<Rightarrow>
             if is_dml sql \<and> sf_writer f \<noteq> None \<and> \<not> own then (f, Inl database_locked)
             else (if is_dml sql then f\<lparr>sf_writer := Some (c, seen)\<rparr> else f, Inl e)
         | Inr (d, cu) \<Rightarrow>
             if is_dml sql then
               (if sf_writer f \<noteq> None \<and> \<not> own then (f, Inl database_locked)
                else (f\<lparr>sf_writer := Some (c, d)\<rparr>, Inr cu))
             else if own then (f\<lparr>sf_writer := Some (c, d)\<rparr>, Inr cu)
             else if d = sf_data f then (f, Inr cu)
             else if sf_writer f \<noteq> None then (f, Inl database_locked)
             else (f\<lparr>sf_data := d\<rparr>, Inr cu))"

definition commit :: "nat \<Rightarrow> 'd sqlite_file \<Rightarrow> 'd sqlite_file" where
  "commit c f = (case sf_writer f of
     Some (c', w) \<Rightarrow> if c' = c then f\<lparr>sf_data := w, sf_writer := None\<rparr> else f | None \<Rightarrow> f)"

definition rollback :: "nat \<Rightarrow> 'd sqlite_file \<Rightarrow> 'd sqlite_file" where
  "rollback c f = (case sf_writer f of
     Some (c', w) \<Rightarrow> if c' = c then f\<lparr>sf_writer := None\<rparr> else f | None \<Rightarrow> f)"

section \<open>The adapter\<close>

definition not_connected :: py_exc where
  "not_connected = RuntimeError ''Not connected to database''"

text \<open>\<open>conn\<close> is the connection of the adapter, if it has one.\<close>

definition sqlite_execute :: "('v, 'd) engine \<Rightarrow> nat option \<Rightarrow> string \<Rightarrow> 'v list \<Rightarrow> 'd sqlite_file \<Rightarrow> 'd sqlite_file \<times> 'v cursor result" where
  "sqlite_execute engine conn sql params f =
     (case conn of None \<Rightarrow> (f, Inl not_connected) | Some c \<Rightarrow> run_statement engine c sql params f)"

fun run_many :: "('v, 'd) engine \<Rightarrow> nat \<Rightarrow> string \<Rightarrow> 'v list list \<Rightarrow> 'd sqlite_file \<Rightarrow> 'd sqlite_file \<times> unit result" where
  "run_many engine c sql [] f = (f, Inr ())"
| "run_many engine c sql (p # ps) f =
     (case run_statement engine c sql p f of (f', Inl e) \<Rightarrow> (f', Inl e) | (f', Inr _) \<Rightarrow> run_many engine c sql ps f')"

text \<open>Only \<open>sqlite3.Error\<close> rolls back; \<open>is_sqlite\<close> says which exceptions are.\<close>

definition sqlite_execute_many ::
  "(py_exc \<Rightarrow> bool) \<Rightarrow> ('v, 'd) engine \<Rightarrow> nat option \<Rightarrow> string \<Rightarrow> 'v list list \<Rightarrow> 'd sqlite_file \<Rightarrow> 'd sqlite_file \<times> unit result" where
  "sqlite_execute_many is_sqlite engine conn sql ps f =
     (case conn of None \<Rightarrow> (f, Inl not_connected)
      | Some c \<Rightarrow>
          (case run_many engine c sql ps f of
             (f', Inl e) \<Rightarrow> (if is_sqlite e then rollback c f' else f', Inl e)
           | (f', Inr _) \<Rightarrow> (commit c f', Inr ())))"

definition sqlite_fetch_one :: "('v, 'd) engine \<Rightarrow> nat option \<Rightarrow> string \<Rightarrow> 'v list \<Rightarrow> 'd sqlite_file
    \<Rightarrow> 'd sqlite_file \<times> (string \<times> 'v) list option result" where
  "sqlite_fetch_one engine conn sql params f =
     (case sqlite_execute engine conn sql params f of
        (f', Inl e) \<Rightarrow> (f', Inl e)
      | (f', Inr cu) \<Rightarrow> (f', Inr (case cu_rows cu of [] \<Rightarrow> None | r # _ \<Rightarrow> Some r)))"

definition sqlite_fetch_all :: "('v, 'd) engine \<Rightarrow> nat option \<Rightarrow> string \<Rightarrow> 'v list \<Rightarrow> 'd sqlite_file
    \<Rightarrow> 'd sqlite_file \<times> (string \<times> 'v) list list result" where
  "sqlite_fetch_all engine conn sql params f =
     (case sqlite_execute engine conn sql params f of (f', Inl e) \<Rightarrow> (f', Inl e) | (f', Inr cu) \<Rightarrow> (f', Inr (cu_rows cu)))"

fun comma_joined :: "string list \<Rightarrow> string" where
  "comma_joined [] = []"
| "comma_joined [s] = s"
| "comma_joined (s # ss) = s @ '', '' @ comma_joined ss"

definition insert_sql :: "string \<Rightarrow> string list \<Rightarrow> string" where
  "insert_sql table columns =
     ''INSERT INTO '' @ table @ '' ('' @ comma_joined columns @ '') VALUES ('' @ comma_joined (map (\<lambda>_. ''?'') columns) @ '')''"

definition update_sql :: "string \<Rightarrow> string list \<Rightarrow> string \<Rightarrow> string" where
  "update_sql table columns where_clause =
     ''UPDATE '' @ table @ '' SET '' @ comma_joined (map (\<lambda>k. k @ '' = ?'') columns)
     @ (if where_clause = [] then [] else '' WHERE '' @ where_clause)"

definition delete_sql :: "string \<Rightarrow> string \<Rightarrow> string" where
  "delete_sql table where_clause =
     ''DELETE FROM '' @ table @ (if where_clause = [] then [] else '' WHERE '' @ where_clause)"

definition execute_and_commit :: "('v, 'd) engine \<Rightarrow> nat option \<Rightarrow> string \<Rightarrow> 'v list \<Rightarrow> ('v cursor \<Rightarrow> int) \<Rightarrow> 'd sqlite_file
    \<Rightarrow> 'd sqlite_file \<times> int result" where
  "execute_and_commit engine conn sql params answer f =
     (case sqlite_execute engine conn sql params f of
        (f', Inl e) \<Rightarrow> (f', Inl e)
      | (f', Inr cu) \<Rightarrow> ((case conn of None \<Rightarrow> f' | Some c \<Rightarrow> commit c f'), Inr (answer cu)))"

definition sqlite_insert :: "('v, 'd) engine \<Rightarrow> nat option \<Rightarrow> string \<Rightarrow> (string, 'v) odict \<Rightarrow> 'd sqlite_file \<Rightarrow> 'd sqlite_file \<times> int result" where
  "sqlite_insert engine conn table data =
     execute_and_commit engine conn (insert_sql table (keys data)) (map snd data) (\<lambda>cu. py_or_int (cu_lastrowid cu) 0)"

definition sqlite_update :: "('v, 'd) engine \<Rightarrow> nat option \<Rightarrow> string \<Rightarrow> (string, 'v) odict \<Rightarrow> string \<Rightarrow> 'v list \<Rightarrow> 'd sqlite_file
    \<Rightarrow> 'd sqlite_file \<times> int result" where
  "sqlite_update engine conn table data where_clause params =
     execute_and_commit engine conn (update_sql table (keys data) where_clause) (map snd data @ params) cu_rowcount"

definition sqlite_delete :: "('v, 'd) engine \<Rightarrow> nat option \<Rightarrow> string \<Rightarrow> string \<Rightarrow> 'v list \<Rightarrow> 'd sqlite_file \<Rightarrow> 'd sqlite_file \<times> int result" where
  "sqlite_delete engine conn table where_clause params =
     execute_and_commit engine conn (delete_sql table where_clause) params cu_rowcount"

definition sqlite_vacuum :: "('v, 'd) engine \<Rightarrow> nat option \<Rightarrow> 'd sqlite_file \<Rightarrow> 'd sqlite_file \<times> unit result" where
  "sqlite_vacuum engine conn f =
     (case sqlite_execute engine conn ''VACUUM'' [] f of
        (f', Inl e) \<Rightarrow> (f', Inl e)
      | (f', Inr _) \<Rightarrow> ((case conn of None \<Rightarrow> f' | Some c \<Rightarrow> commit c f'), Inr ()))"

definition quoted :: "string \<Rightarrow> string" where
  "quoted s = CHR 0x27 # s @ [CHR 0x27]"

definition sqlite_get_tables :: "('v, 'd) engine \<Rightarrow> nat option \<Rightarrow> 'd sqlite_file \<Rightarrow> 'd sqlite_file \<times> 'v list result" where
  "sqlite_get_tables engine conn f =
     (case sqlite_fetch_all engine conn
             (''SELECT name FROM sqlite_master WHERE type='' @ quoted ''table'' @ '' AND name NOT LIKE '' @ quoted ''sqlite_%'') [] f of
        (f', Inl e) \<Rightarrow> (f', Inl e)
      | (f', Inr rows) \<Rightarrow>
          (f', if \<exists>r \<in> set rows. map_of r ''name'' = None then Inl KeyError else Inr (map (\<lambda>r. the (map_of r ''name'')) rows)))"

definition sqlite_get_schema :: "('v, 'd) engine \<Rightarrow> nat option \<Rightarrow> string \<Rightarrow> 'd sqlite_file \<Rightarrow> 'd sqlite_file \<times> (string \<times> 'v) list list result" where
  "sqlite_get_schema engine conn table = sqlite_fetch_all engine conn (''PRAGMA table_info('' @ table @ '')'') []"

section \<open>The service database\<close>

text \<open>
  \<open>_acquire\<close>: \<open>acq\<close> is what the pool gives, a connection or an exception.  The connection goes back to the
  pool however the body ends, as it is: neither committed nor rolled back, and never marked broken.
\<close>

definition with_connection :: "nat result \<Rightarrow> (nat \<Rightarrow> 'd sqlite_file \<Rightarrow> 'd sqlite_file \<times> 'a result) \<Rightarrow> 'd sqlite_file \<Rightarrow> 'd sqlite_file \<times> 'a result" where
  "with_connection acq body f = (case acq of Inl e \<Rightarrow> (f, Inl e) | Inr c \<Rightarrow> body c f)"

record execute_result =
  er_lastrowid :: "int option"
  er_rowcount :: int

definition is_select :: "string \<Rightarrow> bool" where
  "is_select sql \<longleftrightarrow> prefix ''SELECT'' (upper (strip sql))"

definition execute_on :: "('v, 'd) engine \<Rightarrow> nat \<Rightarrow> string \<Rightarrow> 'v list \<Rightarrow> 'd sqlite_file \<Rightarrow> 'd sqlite_file \<times> execute_result result" where
  "execute_on engine c sql params f =
     (case sqlite_execute engine (Some c) sql params f of
        (f', Inl e) \<Rightarrow> (f', Inl e)
      | (f', Inr cu) \<Rightarrow> (f', Inr \<lparr>er_lastrowid = cu_lastrowid cu, er_rowcount = cu_rowcount cu\<rparr>))"

definition fetch_one_on :: "('v, 'd) engine \<Rightarrow> nat \<Rightarrow> string \<Rightarrow> 'v list \<Rightarrow> 'd sqlite_file \<Rightarrow> 'd sqlite_file \<times> (string \<times> 'v) list option result" where
  "fetch_one_on engine c sql params f =
     (case sqlite_execute engine (Some c) sql params f of
        (f', Inl e) \<Rightarrow> (f', Inl e)
      | (f', Inr cu) \<Rightarrow> (f', Inr (case cu_rows cu of [] \<Rightarrow> None | r # _ \<Rightarrow> Some r)))"

text \<open>\<open>commit_error\<close> is what the commit raises, if it does; then the transaction stays open.\<close>

definition service_execute :: "('v, 'd) engine \<Rightarrow> nat result \<Rightarrow> py_exc option \<Rightarrow> string \<Rightarrow> 'v list \<Rightarrow> 'd sqlite_file
    \<Rightarrow> 'd sqlite_file \<times> execute_result result" where
  "service_execute engine acq commit_error sql params =
     with_connection acq (\<lambda>c f.
       case sqlite_execute engine (Some c) sql params f of
         (f', Inl e) \<Rightarrow> (f', Inl e)
       | (f', Inr cu) \<Rightarrow>
           (let answer = \<lparr>er_lastrowid = cu_lastrowid cu, er_rowcount = cu_rowcount cu\<rparr> in
            if is_select sql then (f', Inr answer)
            else (case commit_error of Some e \<Rightarrow> (f', Inl e) | None \<Rightarrow> (commit c f', Inr answer))))"

definition service_fetch_one :: "('v, 'd) engine \<Rightarrow> nat result \<Rightarrow> string \<Rightarrow> 'v list \<Rightarrow> 'd sqlite_file
    \<Rightarrow> 'd sqlite_file \<times> (string \<times> 'v) list option result" where
  "service_fetch_one engine acq sql params = with_connection acq (\<lambda>c. fetch_one_on engine c sql params)"

definition service_fetch_all :: "('v, 'd) engine \<Rightarrow> nat result \<Rightarrow> string \<Rightarrow> 'v list \<Rightarrow> 'd sqlite_file
    \<Rightarrow> 'd sqlite_file \<times> (string \<times> 'v) list list result" where
  "service_fetch_all engine acq sql params =
     with_connection acq (\<lambda>c f. case sqlite_execute engine (Some c) sql params f of
        (f', Inl e) \<Rightarrow> (f', Inl e) | (f', Inr cu) \<Rightarrow> (f', Inr (cu_rows cu)))"

definition service_transaction :: "nat result \<Rightarrow> py_exc option \<Rightarrow> bool \<Rightarrow> (nat \<Rightarrow> 'd sqlite_file \<Rightarrow> 'd sqlite_file \<times> 'a result)
    \<Rightarrow> 'd sqlite_file \<Rightarrow> 'd sqlite_file \<times> 'a result" where
  "service_transaction acq commit_error rollback_fails body =
     with_connection acq (\<lambda>c f.
       let undo = (\<lambda>f'. if rollback_fails then f' else rollback c f') in
       case body c f of
         (f', Inl e) \<Rightarrow> (undo f', Inl e)
       | (f', Inr x) \<Rightarrow> (case commit_error of Some e \<Rightarrow> (undo f', Inl e) | None \<Rightarrow> (commit c f', Inr x)))"

section \<open>One write\<close>

text \<open>Nothing uncommitted: there is no open transaction, or one in which nothing has changed.\<close>

definition settled :: "'d sqlite_file \<Rightarrow> bool" where
  "settled f \<longleftrightarrow> (case sf_writer f of None \<Rightarrow> True | Some (_, w) \<Rightarrow> w = sf_data f)"

definition locked_for :: "nat \<Rightarrow> 'd sqlite_file \<Rightarrow> bool" where
  "locked_for c f \<longleftrightarrow> (case sf_writer f of None \<Rightarrow> False | Some (c', _) \<Rightarrow> c' \<noteq> c)"

lemma run_statement_settled:
  assumes "settled f" "run_statement engine c sql params f = (f', Inr cu)"
  shows "settled (commit c f') \<and> engine sql params (sf_data f) = Inr (sf_data (commit c f'), cu)
    \<and> (sf_writer (commit c f') = sf_writer f \<or> sf_writer (commit c f') = None)"
  using assms
  by (cases "sf_writer f") (auto simp: run_statement_def settled_def commit_def Let_def
      split: if_splits sum.splits engine_error.splits prod.splits)

lemma run_statement_failed:
  assumes "settled f" "run_statement engine c sql params f = (f', Inl e)"
  shows "settled f' \<and> sf_data f' = sf_data f"
  using assms
  by (cases "sf_writer f") (auto simp: run_statement_def settled_def Let_def
      split: if_splits sum.splits engine_error.splits prod.splits)

lemma service_execute_returned:
  assumes "settled f" "\<not> is_select sql" "service_execute engine acq None sql params f = (f', Inr r)"
  shows "settled f' \<and> (\<exists>cu. engine sql params (sf_data f) = Inr (sf_data f', cu))"
proof -
  obtain c where c: "acq = Inr c" using assms(3) by (auto simp: service_execute_def with_connection_def split: sum.splits)
  obtain f1 cu where r: "run_statement engine c sql params f = (f1, Inr cu)" and f': "f' = commit c f1"
    using assms(2,3) by (auto simp: c service_execute_def with_connection_def sqlite_execute_def Let_def split: prod.splits sum.splits)
  from run_statement_settled [OF assms(1) r] f' show ?thesis by auto
qed

lemma service_execute_raised:
  assumes "settled f" "service_execute engine acq None sql params f = (f', Inl e)"
  shows "settled f' \<and> sf_data f' = sf_data f"
proof (cases acq)
  case (Inr c)
  then have "run_statement engine c sql params f = (f', Inl e)"
    using assms(2) by (auto simp: service_execute_def with_connection_def sqlite_execute_def Let_def split: prod.splits sum.splits if_splits)
  with run_statement_failed assms(1) show ?thesis by blast
qed (use assms in \<open>simp add: service_execute_def with_connection_def\<close>)

section \<open>Sequences of writes\<close>

type_synonym 'v write_call = "nat result \<times> string \<times> 'v list"

fun execute_all :: "('v, 'd) engine \<Rightarrow> 'v write_call list \<Rightarrow> 'd sqlite_file \<Rightarrow> 'd sqlite_file \<times> execute_result result list" where
  "execute_all engine [] f = (f, [])"
| "execute_all engine ((acq, sql, params) # cs) f =
     (case service_execute engine acq None sql params f of (f1, r) \<Rightarrow>
        (case execute_all engine cs f1 of (f2, rs) \<Rightarrow> (f2, r # rs)))"

text \<open>The effect of the calls that returned, one after the other.\<close>

fun effect_of :: "('v, 'd) engine \<Rightarrow> ('v write_call \<times> execute_result result) list \<Rightarrow> 'd \<Rightarrow> 'd" where
  "effect_of engine [] d = d"
| "effect_of engine (((acq, sql, params), r) # cs) d =
     effect_of engine cs (case r of Inl _ \<Rightarrow> d | Inr _ \<Rightarrow> (case engine sql params d of Inl _ \<Rightarrow> d | Inr (d', _) \<Rightarrow> d'))"


text \<open>
  A write that SQLite refuses (a duplicate name, say) leaves its connection with the open write
  transaction when it goes back to the pool: from then on every write on another connection is refused and
  changes nothing, until the same connection is used for a write again.
\<close>

theorem refused_write_locks_the_others:
  assumes "sf_writer f = None" "is_dml sql" "engine sql params (sf_data f) = Inl (Step_Error e)"
    and "service_execute engine (Inr c) None sql params f = (f1, r)"
    and "c' \<noteq> c" "is_dml sql'" "\<And>d x. engine sql' params' d \<noteq> Inl (Prepare_Error x)"
  shows "r = Inl e \<and> sf_data f1 = sf_data f \<and> sf_writer f1 = Some (c, sf_data f)
     \<and> service_execute engine (Inr c') ce sql' params' f1 = (f1, Inl database_locked)"
proof -
  have 1: "r = Inl e" "f1 = f\<lparr>sf_writer := Some (c, sf_data f)\<rparr>"
    using assms(1-4) by (simp_all add: service_execute_def with_connection_def sqlite_execute_def run_statement_def)
  have "run_statement engine c' sql' params' f1 = (f1, Inl database_locked)"
    using assms(5-7) 1
    by (auto simp: run_statement_def Let_def split: sum.splits engine_error.splits)
  then show ?thesis using 1 by (simp add: service_execute_def with_connection_def sqlite_execute_def)
qed

text \<open>A transaction block leaves no open transaction, whatever its body does on its connection.\<close>

lemma transaction_releases_lock:
  assumes "\<not> locked_for c f" "\<And>f. \<not> locked_for c f \<Longrightarrow> \<not> locked_for c (fst (body c f))"
  shows "sf_writer (fst (service_transaction (Inr c) ce False body f)) = None"
proof -
  obtain f' r where b: "body c f = (f', r)" by fastforce
  then have n: "\<not> locked_for c f'" using assms by (metis fst_conv)
  have "sf_writer (commit c f') = None" "sf_writer (rollback c f') = None"
    using n by (auto simp: locked_for_def commit_def rollback_def split: option.splits prod.splits if_splits)
  then show ?thesis by (simp add: service_transaction_def with_connection_def b Let_def split: sum.split option.split)
qed

text \<open>A tiny database: a list of distinct names.\<close>

definition names_engine :: "(string, string list) engine" where
  "names_engine sql params d =
     (let cu = \<lparr>cu_rows = [], cu_lastrowid = None, cu_rowcount = 1\<rparr> in
      case params of
        [] \<Rightarrow> Inr (d, cu)
      | p # _ \<Rightarrow> if p \<in> set d then Inl (Step_Error (OtherError ''IntegrityError'')) else Inr (d @ [p], cu))"

definition names_file :: "string list sqlite_file" where
  "names_file = \<lparr>sf_data = [''ann''], sf_writer = None\<rparr>"

definition insert_name :: string where
  "insert_name = ''INSERT INTO users (username) VALUES (?)''"

lemma insert_name_kind: "is_dml insert_name" "\<not> is_select insert_name"
  by code_simp+


theorem refused_write_locks_the_others_witness:
  "service_execute names_engine (Inr 1) None insert_name [''eve''] (fst (service_execute names_engine (Inr 0) None insert_name [''ann''] names_file))
   = (fst (service_execute names_engine (Inr 0) None insert_name [''ann''] names_file), Inl database_locked)"
proof -
  obtain f1 r where 1: "service_execute names_engine (Inr 0) None insert_name [''ann''] names_file = (f1, r)" by fastforce
  have "names_engine insert_name [''ann''] (sf_data names_file) = Inl (Step_Error (OtherError ''IntegrityError''))"
    by (simp add: names_engine_def names_file_def Let_def)
  moreover have "names_engine insert_name [''eve''] d \<noteq> Inl (Prepare_Error x)" for d x by (simp add: names_engine_def Let_def)
  moreover have "sf_writer names_file = None" by (simp add: names_file_def)
  ultimately show ?thesis
    using refused_write_locks_the_others [OF _ insert_name_kind(1) _ 1, of _ 1] insert_name_kind(1) 1 by simp
qed

end
