(* ===== verification/Warehouse_Adapters.thy ===== *)
theory Warehouse_Adapters
  imports Sqlite_Store Session
begin

text \<open>
  \<open>src/core/db/adapters/duckdb.py\<close> and \<open>postgresql.py\<close>: the adapters of the warehouse over a connection of
  their driver.  The drivers are arguments: what executing a statement does to the connection and returns.
  Opening and closing a connection, CSV export and import included as statements, are calls into the driver.
\<close>

section \<open>DuckDB\<close>

text \<open>A fetched row: a tuple, or already a dictionary.\<close>

datatype 'v fetched = Tuple "'v list" | Dict "(string \<times> 'v) list"

text \<open>The \<open>description\<close> attribute of a result may be missing, \<open>None\<close>, or the list of column descriptions.\<close>

datatype description = Missing | Null_Description | Columns "string list"

record 'v duck_result =
  dr_rows :: "'v fetched list result"
  dr_description :: description
  dr_rowcount :: "int option"

type_synonym ('v, 'c) duck_driver = "string \<Rightarrow> 'v list option \<Rightarrow> 'c \<Rightarrow> 'c \<times> 'v duck_result result"

text \<open>\<open>if params:\<close> an absent and an empty list are both sent as a statement without parameters.\<close>

definition given :: "'v list option \<Rightarrow> 'v list option" where
  "given params = (case params of None \<Rightarrow> None | Some ps \<Rightarrow> if ps = [] then None else Some ps)"

text \<open>\<open>dict(zip(columns, row))\<close>\<close>

definition as_dict :: "string list \<Rightarrow> 'v list \<Rightarrow> (string \<times> 'v) list" where
  "as_dict columns row = fold (\<lambda>(k, v). AList.update k v) (zip columns row) []"

definition duck_execute_query :: "('v, 'c) duck_driver \<Rightarrow> bool \<Rightarrow> string \<Rightarrow> 'v list option \<Rightarrow> 'c \<Rightarrow> 'c \<times> 'v duck_result result" where
  "duck_execute_query drv has_conn sql params c =
     (if \<not> has_conn then (c, Inl not_connected) else drv sql (given params) c)"

definition duck_execute :: "('v, 'c) duck_driver \<Rightarrow> bool \<Rightarrow> string \<Rightarrow> 'v list option \<Rightarrow> 'c \<Rightarrow> 'c \<times> 'v fetched list result" where
  "duck_execute drv has_conn sql params c =
     (if \<not> has_conn then (c, Inl not_connected)
      else (case drv sql (given params) c of (c', Inl e) \<Rightarrow> (c', Inl e) | (c', Inr r) \<Rightarrow> (c', dr_rows r)))"

text \<open>Iterating over \<open>None\<close> raises.\<close>

definition column_names :: "'v duck_result \<Rightarrow> string list result" where
  "column_names r =
     (case dr_description r of
        Missing \<Rightarrow> Inr [] | Null_Description \<Rightarrow> Inl (TypeError ''NoneType is not iterable'') | Columns cs \<Rightarrow> Inr cs)"

definition duck_fetch_one :: "('v, 'c) duck_driver \<Rightarrow> bool \<Rightarrow> string \<Rightarrow> 'v list option \<Rightarrow> 'c \<Rightarrow> 'c \<times> (string \<times> 'v) list option result" where
  "duck_fetch_one drv has_conn sql params c =
     (case duck_execute_query drv has_conn sql params c of
        (c1, Inl e) \<Rightarrow> (c1, Inl e)
      | (c1, Inr r) \<Rightarrow>
          (case dr_rows r of
             Inl e \<Rightarrow> (c1, Inl e)
           | Inr [] \<Rightarrow> (c1, Inr None)
           | Inr (Dict d # _) \<Rightarrow> (c1, Inr (Some d))
           | Inr (Tuple row # _) \<Rightarrow>
               (case duck_execute_query drv has_conn sql params c1 of
                  (c2, Inl e) \<Rightarrow> (c2, Inl e)
                | (c2, Inr r2) \<Rightarrow>
                    (case column_names r2 of
                       Inl e \<Rightarrow> (c2, Inl e)
                     | Inr columns \<Rightarrow> (c2, Inr (if columns = [] then None else Some (as_dict columns row)))))))"

definition row_dict :: "string list \<Rightarrow> 'v fetched \<Rightarrow> 'v fetched" where
  "row_dict columns row = (case row of Tuple vs \<Rightarrow> Dict (as_dict columns vs) | Dict d \<Rightarrow> Dict d)"

definition duck_fetch_all :: "('v, 'c) duck_driver \<Rightarrow> bool \<Rightarrow> string \<Rightarrow> 'v list option \<Rightarrow> 'c \<Rightarrow> 'c \<times> 'v fetched list result" where
  "duck_fetch_all drv has_conn sql params c =
     (case duck_execute_query drv has_conn sql params c of
        (c1, Inl e) \<Rightarrow> (c1, Inl e)
      | (c1, Inr r) \<Rightarrow>
          (case dr_rows r of
             Inl e \<Rightarrow> (c1, Inl e)
           | Inr [] \<Rightarrow> (c1, Inr [])
           | Inr (Dict d # rows) \<Rightarrow> (c1, Inr (Dict d # rows))
           | Inr (Tuple row # rows) \<Rightarrow>
               (case column_names r of
                  Inl e \<Rightarrow> (c1, Inl e)
                | Inr columns \<Rightarrow>
                    (c1, Inr (if columns = [] then Tuple row # rows else map (row_dict columns) (Tuple row # rows))))))"

text \<open>The answer of a write is the row count of the result, or a default when it has none.\<close>

definition duck_write :: "int \<Rightarrow> ('v, 'c) duck_driver \<Rightarrow> bool \<Rightarrow> string \<Rightarrow> 'v list option \<Rightarrow> 'c \<Rightarrow> 'c \<times> int result" where
  "duck_write n0 drv has_conn sql params c =
     (case duck_execute_query drv has_conn sql params c of
        (c1, Inl e) \<Rightarrow> (c1, Inl e)
      | (c1, Inr r) \<Rightarrow> (c1, Inr (case dr_rowcount r of None \<Rightarrow> n0 | Some n \<Rightarrow> n)))"

definition duck_insert :: "('v, 'c) duck_driver \<Rightarrow> bool \<Rightarrow> string \<Rightarrow> (string, 'v) odict \<Rightarrow> 'c \<Rightarrow> 'c \<times> int result" where
  "duck_insert drv has_conn table data =
     duck_write 1 drv has_conn (insert_sql table (keys data)) (Some (map snd data))"

text \<open>Parameters without a \<open>WHERE\<close> clause are dropped.\<close>

definition duck_update :: "('v, 'c) duck_driver \<Rightarrow> bool \<Rightarrow> string \<Rightarrow> (string, 'v) odict \<Rightarrow> string \<Rightarrow> 'v list option \<Rightarrow> 'c \<Rightarrow> 'c \<times> int result" where
  "duck_update drv has_conn table data where_clause params =
     duck_write 0 drv has_conn (update_sql table (keys data) where_clause)
       (Some (map snd data @ (if where_clause = [] then [] else (case params of None \<Rightarrow> [] | Some ps \<Rightarrow> ps))))"

definition duck_delete :: "('v, 'c) duck_driver \<Rightarrow> bool \<Rightarrow> string \<Rightarrow> string \<Rightarrow> 'v list option \<Rightarrow> 'c \<Rightarrow> 'c \<times> int result" where
  "duck_delete drv has_conn table where_clause params =
     duck_write 0 drv has_conn (delete_sql table where_clause) (Some (case params of None \<Rightarrow> [] | Some ps \<Rightarrow> ps))"

text \<open>\<open>row["table_name"]\<close> on a tuple is a \<open>TypeError\<close>.\<close>

fun column_of :: "string \<Rightarrow> 'v fetched list \<Rightarrow> 'v list result" where
  "column_of k [] = Inr []"
| "column_of k (Tuple _ # rows) = Inl (TypeError ''tuple indices must be integers or slices, not str'')"
| "column_of k (Dict d # rows) =
     (case map_of d k of
        None \<Rightarrow> Inl KeyError
      | Some v \<Rightarrow> (case column_of k rows of Inl e \<Rightarrow> Inl e | Inr vs \<Rightarrow> Inr (v # vs)))"

definition duck_get_tables :: "('v, 'c) duck_driver \<Rightarrow> bool \<Rightarrow> 'c \<Rightarrow> 'c \<times> 'v list result" where
  "duck_get_tables drv has_conn c =
     (case duck_fetch_all drv has_conn
             (''SELECT table_name FROM information_schema.tables WHERE table_schema = '' @ quoted ''main'') None c of
        (c1, Inl e) \<Rightarrow> (c1, Inl e) | (c1, Inr rows) \<Rightarrow> (c1, column_of ''table_name'' rows))"

definition duck_get_schema :: "('v, 'c) duck_driver \<Rightarrow> bool \<Rightarrow> string \<Rightarrow> 'c \<Rightarrow> 'c \<times> 'v fetched list result" where
  "duck_get_schema drv has_conn table = duck_fetch_all drv has_conn (''PRAGMA table_info('' @ table @ '')'') None"

text \<open>A statement whose result is not read.\<close>

definition duck_run :: "('v, 'c) duck_driver \<Rightarrow> bool \<Rightarrow> string \<Rightarrow> 'c \<Rightarrow> 'c \<times> unit result" where
  "duck_run drv has_conn sql c =
     (case duck_execute_query drv has_conn sql None c of (c1, Inl e) \<Rightarrow> (c1, Inl e) | (c1, Inr _) \<Rightarrow> (c1, Inr ()))"

definition duck_create_table :: "('v, 'c) duck_driver \<Rightarrow> bool \<Rightarrow> string \<Rightarrow> 'c \<Rightarrow> 'c \<times> unit result" where
  "duck_create_table = duck_run"

definition duck_drop_table :: "('v, 'c) duck_driver \<Rightarrow> bool \<Rightarrow> string \<Rightarrow> bool \<Rightarrow> 'c \<Rightarrow> 'c \<times> unit result" where
  "duck_drop_table drv has_conn table if_exists =
     duck_run drv has_conn (''DROP TABLE '' @ (if if_exists then ''IF EXISTS'' else []) @ '' '' @ table)"

definition duck_export_to_csv :: "('v, 'c) duck_driver \<Rightarrow> bool \<Rightarrow> string \<Rightarrow> string \<Rightarrow> 'c \<Rightarrow> 'c \<times> unit result" where
  "duck_export_to_csv drv has_conn table path =
     duck_run drv has_conn (''COPY (SELECT * FROM '' @ table @ '') TO '' @ quoted path @ '' (FORMAT CSV, HEADER)'')"

definition duck_import_from_csv :: "('v, 'c) duck_driver \<Rightarrow> bool \<Rightarrow> string \<Rightarrow> string \<Rightarrow> string option \<Rightarrow> 'c \<Rightarrow> 'c \<times> unit result" where
  "duck_import_from_csv drv has_conn table path options =
     duck_run drv has_conn (''COPY '' @ table @ '' FROM '' @ quoted path @ '' (FORMAT CSV, HEADER)''
       @ (if py_or_str options [] = [] then [] else '' ('' @ py_or_str options [] @ '')''))"

section \<open>PostgreSQL\<close>

text \<open>A cursor by what reading it gives: all rows, or the first one, if any.\<close>

record 'v pg_cursor =
  pg_all :: "(string \<times> 'v) list list result"
  pg_one :: "(string \<times> 'v) list option result"

record ('v, 'c) pg_driver =
  pg_run :: "string \<Rightarrow> 'v list option \<Rightarrow> 'c \<Rightarrow> 'c \<times> 'v pg_cursor result"
  pg_commit :: "'c \<Rightarrow> 'c \<times> unit result"
  pg_rollback :: "'c \<Rightarrow> 'c \<times> unit result"

text \<open>\<open>except Exception: self.connection.rollback(); raise\<close>: a rollback that fails replaces the error.\<close>

definition pg_undo :: "('v, 'c) pg_driver \<Rightarrow> py_exc \<Rightarrow> 'c \<Rightarrow> 'c \<times> 'a result" where
  "pg_undo drv e c = (case pg_rollback drv c of (c', Inl e') \<Rightarrow> (c', Inl e') | (c', Inr _) \<Rightarrow> (c', Inl e))"

definition pg_execute :: "('v, 'c) pg_driver \<Rightarrow> bool \<Rightarrow> string \<Rightarrow> 'v list option \<Rightarrow> 'c \<Rightarrow> 'c \<times> (string \<times> 'v) list list result" where
  "pg_execute drv has_conn sql params c =
     (if \<not> has_conn then (c, Inl not_connected)
      else (case pg_run drv sql params c of
              (c1, Inl e) \<Rightarrow> pg_undo drv e c1
            | (c1, Inr cu) \<Rightarrow>
                (case pg_commit drv c1 of
                   (c2, Inl e) \<Rightarrow> pg_undo drv e c2
                 | (c2, Inr _) \<Rightarrow> (case pg_all cu of Inl e \<Rightarrow> pg_undo drv e c2 | Inr rows \<Rightarrow> (c2, Inr rows)))))"

definition pg_fetch_all :: "('v, 'c) pg_driver \<Rightarrow> bool \<Rightarrow> string \<Rightarrow> 'v list option \<Rightarrow> 'c \<Rightarrow> 'c \<times> (string \<times> 'v) list list result" where
  "pg_fetch_all drv has_conn sql params c =
     (if \<not> has_conn then (c, Inl not_connected)
      else (case pg_run drv sql params c of (c1, Inl e) \<Rightarrow> (c1, Inl e) | (c1, Inr cu) \<Rightarrow> (c1, pg_all cu)))"

text \<open>\<open>dict(row) if row else None\<close>: a row without columns is falsy.\<close>

definition pg_fetch_one :: "('v, 'c) pg_driver \<Rightarrow> bool \<Rightarrow> string \<Rightarrow> 'v list option \<Rightarrow> 'c \<Rightarrow> 'c \<times> (string \<times> 'v) list option result" where
  "pg_fetch_one drv has_conn sql params c =
     (if \<not> has_conn then (c, Inl not_connected)
      else (case pg_run drv sql params c of
              (c1, Inl e) \<Rightarrow> (c1, Inl e)
            | (c1, Inr cu) \<Rightarrow>
                (c1, (case pg_one cu of
                        Inl e \<Rightarrow> Inl e | Inr None \<Rightarrow> Inr None | Inr (Some r) \<Rightarrow> Inr (if r = [] then None else Some r)))))"

text \<open>The catalog statements, with their blanks squeezed.\<close>

definition pg_get_tables :: "('v, 'c) pg_driver \<Rightarrow> bool \<Rightarrow> 'c \<Rightarrow> 'c \<times> 'v list result" where
  "pg_get_tables drv has_conn c =
     (case pg_fetch_all drv has_conn
             (''SELECT table_name FROM information_schema.tables WHERE table_schema = '' @ quoted ''public'' @ '' ORDER BY table_name'') None c of
        (c1, Inl e) \<Rightarrow> (c1, Inl e)
      | (c1, Inr rows) \<Rightarrow> (c1, column_of ''table_name'' (map Dict rows)))"

definition pg_get_schema :: "(string \<Rightarrow> 'v) \<Rightarrow> ('v, 'c) pg_driver \<Rightarrow> bool \<Rightarrow> string \<Rightarrow> 'c \<Rightarrow> 'c \<times> (string \<times> 'v) list list result" where
  "pg_get_schema text drv has_conn table =
     pg_fetch_all drv has_conn
       (''SELECT column_name as name, data_type as type, is_nullable, column_default as default_value''
        @ '' FROM information_schema.columns WHERE table_name = %s ORDER BY ordinal_position'') (Some [text table])"

definition pg_ddl :: "('v, 'c) pg_driver \<Rightarrow> bool \<Rightarrow> string \<Rightarrow> 'c \<Rightarrow> 'c \<times> unit result" where
  "pg_ddl drv has_conn sql c =
     (if \<not> has_conn then (c, Inl not_connected)
      else (case pg_run drv sql None c of
              (c1, Inl e) \<Rightarrow> pg_undo drv e c1
            | (c1, Inr _) \<Rightarrow> (case pg_commit drv c1 of (c2, Inl e) \<Rightarrow> pg_undo drv e c2 | (c2, Inr _) \<Rightarrow> (c2, Inr ()))))"

definition pg_create_table :: "('v, 'c) pg_driver \<Rightarrow> bool \<Rightarrow> string \<Rightarrow> (string, string) odict \<Rightarrow> bool \<Rightarrow> 'c \<Rightarrow> 'c \<times> unit result" where
  "pg_create_table drv has_conn table columns if_not_exists =
     pg_ddl drv has_conn (''CREATE TABLE '' @ (if if_not_exists then ''IF NOT EXISTS'' else []) @ '' '' @ table
       @ '' ('' @ comma_joined (map (\<lambda>(n, t). n @ '' '' @ t) columns) @ '')'')"

definition pg_drop_table :: "('v, 'c) pg_driver \<Rightarrow> bool \<Rightarrow> string \<Rightarrow> bool \<Rightarrow> 'c \<Rightarrow> 'c \<times> unit result" where
  "pg_drop_table drv has_conn table if_exists =
     pg_ddl drv has_conn (''DROP TABLE '' @ (if if_exists then ''IF EXISTS'' else []) @ '' '' @ table)"

section \<open>Rows as dictionaries\<close>

lemma fold_update_new:
  "distinct (keys acc @ keys kvs) \<Longrightarrow> fold (\<lambda>(k, v). AList.update k v) kvs acc = acc @ kvs"
proof (induction kvs arbitrary: acc)
  case (Cons kv kvs)
  obtain k v where kv: "kv = (k, v)" by (cases kv)
  have "AList.update k v acc = acc @ [(k, v)]" using Cons.prems by (intro update_new) (auto simp: kv)
  with Cons.IH [of "acc @ [(k, v)]"] Cons.prems show ?case by (simp add: kv)
qed simp

lemma as_dict_distinct: "distinct columns \<Longrightarrow> length row = length columns \<Longrightarrow> as_dict columns row = zip columns row"
  unfolding as_dict_def using fold_update_new [of "[]" "zip columns row"] by simp

text \<open>Two columns of one name: the row keeps the first place and the last value.\<close>

lemma duplicate_columns_lose_values: "as_dict [''id'', ''n'', ''id''] [1, 2, 3 :: int] = [(''id'', 3), (''n'', 2)]"
  by (simp add: as_dict_def)

section \<open>Properties\<close>

text \<open>
  A statement that leaves the DuckDB connection as it is, and returns rows of differently named
  columns, reads the same through both calls: \<open>fetch_all\<close> gives one dictionary of exactly the columns and
  values per row, and \<open>fetch_one\<close> the first of them.
\<close>

theorem fetch_one_is_first_of_fetch_all:
  assumes "drv sql (given params) c = (c, Inr r)" "dr_rows r = Inr (map Tuple rows)"
    and "dr_description r = Columns columns" "distinct columns" "columns \<noteq> []"
    and "\<forall>row \<in> set rows. length row = length columns"
  shows "duck_fetch_all drv True sql params c = (c, Inr (map (Dict \<circ> zip columns) rows))
    \<and> duck_fetch_one drv True sql params c
        = (c, Inr (case rows of [] \<Rightarrow> None | row # _ \<Rightarrow> Some (zip columns row)))"
proof -
  have d: "row_dict columns (Tuple row) = Dict (zip columns row)" "as_dict columns row = zip columns row"
    if "row \<in> set rows" for row
    using as_dict_distinct [OF assms(4)] bspec [OF assms(6) that] by (simp_all add: row_dict_def)
  then have "map (row_dict columns \<circ> Tuple) rows = map (Dict \<circ> zip columns) rows" by simp
  with d show ?thesis using assms(1-3,5)
    by (cases rows) (simp_all add: duck_fetch_all_def duck_fetch_one_def duck_execute_query_def column_names_def)
qed

text \<open>A statement that changes the database and returns a row is executed twice.\<close>

lemma fetch_one_executes_twice:
  assumes "drv sql (given params) c = (c1, Inr r)" "dr_rows r = Inr (Tuple row # rows)"
    and "drv sql (given params) c1 = (c2, Inr r2)"
  shows "fst (duck_fetch_one drv True sql params c) = c2"
  using assms by (simp add: duck_fetch_one_def duck_execute_query_def split: sum.split)

text \<open>
  A PostgreSQL statement without a result set (an \<open>INSERT\<close>, say) raises through both calls: \<open>execute\<close>
  has committed it by then, and reports a failure of what is stored; \<open>fetch_all\<close>, which the query route
  uses, never commits it.
\<close>

theorem postgres_write_raises_either_way:
  assumes "pg_run drv sql params c = (c1, Inr cu)" "pg_all cu = Inl e" "pg_commit drv c1 = (c2, Inr ())"
    and "\<And>c c' r. pg_run drv sql params c = (c', r) \<Longrightarrow> stored c' = stored c"
    and "\<And>c c' r. pg_rollback drv c = (c', r) \<Longrightarrow> r = Inr () \<and> stored c' = stored c"
  shows "snd (pg_execute drv True sql params c) = Inl e \<and> stored (fst (pg_execute drv True sql params c)) = stored c2
    \<and> snd (pg_fetch_all drv True sql params c) = Inl e \<and> stored (fst (pg_fetch_all drv True sql params c)) = stored c"
proof -
  obtain c3 r where r: "pg_rollback drv c2 = (c3, r)" by fastforce
  have "r = Inr ()" "stored c3 = stored c2" using assms(5) [OF r] by auto
  moreover have "stored c1 = stored c" by (rule assms(4) [OF assms(1)])
  ultimately show ?thesis using assms(1-3) r by (simp add: pg_execute_def pg_fetch_all_def pg_undo_def)
qed

text \<open>What the pool's transaction sees of a PostgreSQL connection: every statement goes through \<open>execute\<close>.\<close>

definition pg_raises :: "(py_exc \<Rightarrow> raised) \<Rightarrow> ('v, 'c) pg_driver \<Rightarrow> 'c \<Rightarrow> string list \<Rightarrow> string \<Rightarrow> raised option" where
  "pg_raises raised drv c h s =
     (case snd (pg_execute drv True s None (fold (\<lambda>s c. fst (pg_execute drv True s None c)) h c)) of
        Inl e \<Rightarrow> Some (raised e) | Inr _ \<Rightarrow> None)"

text \<open>\<open>BEGIN\<close> has no result set, so \<open>execute\<close> raises on it and no transaction ever runs its body.\<close>

lemma postgres_transactions_never_run:
  assumes "\<And>c sql. sql \<in> {''BEGIN'', ''ROLLBACK''} \<Longrightarrow> \<exists>c' cu. pg_run drv sql None c = (c', Inr cu) \<and> pg_all cu = Inl e"
    and "\<And>c. \<exists>c'. pg_commit drv c = (c', Inr ())" "\<And>c. \<exists>c'. pg_rollback drv c = (c', Inr ())"
    and "rz_exception (raised e)"
  shows "transaction (pg_raises raised drv c) True stmts body = ([''BEGIN'', ''ROLLBACK''], Some (raised e), False)"
proof -
  have "snd (pg_execute drv True sql None c') = Inl e" if sql: "sql \<in> {''BEGIN'', ''ROLLBACK''}" for sql c'
  proof -
    obtain c1 cu where 1: "pg_run drv sql None c' = (c1, Inr cu)" "pg_all cu = Inl e" using assms(1) [OF sql] by blast
    obtain c2 where 2: "pg_commit drv c1 = (c2, Inr ())" using assms(2) by blast
    obtain c3 where "pg_rollback drv c2 = (c3, Inr ())" using assms(3) by blast
    with 1 2 show ?thesis by (simp add: pg_execute_def pg_undo_def)
  qed
  then have "pg_raises raised drv c h sql = Some (raised e)" if "sql \<in> {''BEGIN'', ''ROLLBACK''}" for h sql
    using that by (simp add: pg_raises_def)
  then show ?thesis using assms(4) by (simp add: transaction_def Let_def)
qed

text \<open>A table of numbers, read whole; and a store of numbers with a working copy.\<close>

definition numbers_driver :: "(int, int list) duck_driver" where
  "numbers_driver sql params c =
     (case params of
        None \<Rightarrow> (c, Inr \<lparr>dr_rows = Inr (map (\<lambda>n. Tuple [n, n * n]) c), dr_description = Columns [''n'', ''square''],
                     dr_rowcount = None\<rparr>)
      | Some ps \<Rightarrow> (c @ ps, Inr \<lparr>dr_rows = Inr (map (\<lambda>n. Tuple [n]) ps), dr_description = Columns [''n''], dr_rowcount = None\<rparr>))"

theorem fetch_one_is_first_of_fetch_all_witness:
  "duck_fetch_all numbers_driver True ''SELECT'' None [2, 3]
     = ([2, 3], Inr [Dict [(''n'', 2), (''square'', 4)], Dict [(''n'', 3), (''square'', 9)]])
   \<and> duck_fetch_one numbers_driver True ''SELECT'' None [2, 3] = ([2, 3], Inr (Some [(''n'', 2), (''square'', 4)]))"
  using fetch_one_is_first_of_fetch_all [of numbers_driver "''SELECT''" None "[2, 3]" _ "[[2, 4], [3, 9]]" "[''n'', ''square'']"]
  by (simp add: numbers_driver_def given_def)

lemma fetch_one_inserts_twice: "fst (duck_fetch_one numbers_driver True ''INSERT'' (Some [7]) []) = [7, 7]"
  by (simp add: duck_fetch_one_def duck_execute_query_def numbers_driver_def given_def column_names_def)

definition store_driver :: "(int, int list \<times> int list) pg_driver" where
  "store_driver =
     \<lparr>pg_run = (\<lambda>sql params (s, w). ((s, w @ (case params of None \<Rightarrow> [] | Some ps \<Rightarrow> ps)),
                 Inr \<lparr>pg_all = Inl (OtherError ''no results to fetch''), pg_one = Inl (OtherError ''no results to fetch'')\<rparr>)),
      pg_commit = (\<lambda>(s, w). ((w, w), Inr ())), pg_rollback = (\<lambda>(s, w). ((s, s), Inr ()))\<rparr>"

lemma store_driver_laws:
  "pg_run store_driver sql params c = (c', r) \<Longrightarrow> fst c' = fst c"
  "pg_rollback store_driver c = (c', u) \<Longrightarrow> u = Inr () \<and> fst c' = fst c"
  by (auto simp: store_driver_def split: prod.splits)

theorem postgres_write_raises_either_way_witness:
  "snd (pg_execute store_driver True ''INSERT'' (Some [7]) ([], [])) = Inl (OtherError ''no results to fetch'')
   \<and> fst (fst (pg_execute store_driver True ''INSERT'' (Some [7]) ([], []))) = [7]
   \<and> fst (fst (pg_fetch_all store_driver True ''INSERT'' (Some [7]) ([], []))) = []"
proof -
  let ?e = "OtherError ''no results to fetch''"
  have 1: "pg_run store_driver ''INSERT'' (Some [7]) ([], []) = (([], [7]), Inr \<lparr>pg_all = Inl ?e, pg_one = Inl ?e\<rparr>)"
    "pg_commit store_driver ([], [7]) = (([7], [7]), Inr ())" by (simp_all add: store_driver_def)
  show ?thesis
    using postgres_write_raises_either_way [where stored = fst, OF 1(1) _ 1(2) store_driver_laws] by simp
qed

end
