(* ===== verification/Executors.thy ===== *)
theory Executors
  imports Prelude
begin

text \<open>
  \<open>src/core/concurrency/executors.py\<close>: the tracked thread pools for blocking calls.  Every \<open>resize\<close> makes a
  new pool and leaves the jobs of the old one to finish; pools are listed in the order they were made, the
  last one takes new jobs.  A caller is a coroutine in \<open>run\<close>: it counts as active while it awaits its job.
\<close>

section \<open>Operations\<close>

record worker_pool =
  wp_max :: nat
  wp_queue :: "nat list"
  wp_running :: "nat list"
  wp_stopped :: bool

record tracked =
  tk_name :: string
  tk_max_workers :: int
  tk_pools :: "worker_pool list"
  tk_active :: int

text \<open>The constructor of \<open>ThreadPoolExecutor\<close> refuses a number of workers that is not positive.\<close>

definition thread_pool :: "int \<Rightarrow> worker_pool result" where
  "thread_pool n =
     (if n \<le> 0 then Inl (ValueError ''max_workers must be greater than 0'')
      else Inr \<lparr>wp_max = nat n, wp_queue = [], wp_running = [], wp_stopped = False\<rparr>)"

definition tracked_new :: "string \<Rightarrow> int \<Rightarrow> tracked result" where
  "tracked_new name n =
     (case thread_pool n of
        Inl e \<Rightarrow> Inl e
      | Inr p \<Rightarrow> Inr \<lparr>tk_name = name, tk_max_workers = n, tk_pools = [p], tk_active = 0\<rparr>)"

definition resize :: "int \<Rightarrow> tracked \<Rightarrow> tracked \<times> unit result" where
  "resize n t =
     (let t1 = t\<lparr>tk_max_workers := n\<rparr> in
      case thread_pool n of Inl e \<Rightarrow> (t1, Inl e) | Inr p \<Rightarrow> (t1\<lparr>tk_pools := tk_pools t @ [p]\<rparr>, Inr ()))"

text \<open>\<open>run\<close> up to its \<open>await\<close>: submitting to a pool that was shut down raises, and the \<open>finally\<close> block counts back.\<close>

definition run_begin :: "nat \<Rightarrow> tracked \<Rightarrow> tracked \<times> unit result" where
  "run_begin k t =
     (let t1 = t\<lparr>tk_active := tk_active t + 1\<rparr>; p = last (tk_pools t1) in
      if wp_stopped p
      then (t1\<lparr>tk_active := tk_active t1 - 1\<rparr>, Inl (RuntimeError ''cannot schedule new futures after shutdown''))
      else (t1\<lparr>tk_pools := butlast (tk_pools t1) @ [p\<lparr>wp_queue := wp_queue p @ [k]\<rparr>]\<rparr>, Inr ()))"

text \<open>The \<open>finally\<close> block of \<open>run\<close>.\<close>

definition run_end :: "tracked \<Rightarrow> tracked" where
  "run_end t = t\<lparr>tk_active := tk_active t - 1\<rparr>"

text \<open>A worker of pool \<open>i\<close> takes the oldest job; one whose caller was cancelled is dropped.\<close>

definition worker_take :: "(nat \<Rightarrow> bool) \<Rightarrow> nat \<Rightarrow> tracked \<Rightarrow> (tracked \<times> nat) option" where
  "worker_take cancelled i t =
     (if length (tk_pools t) \<le> i then None
      else (let p = tk_pools t ! i in
        case wp_queue p of
          [] \<Rightarrow> None
        | k # q \<Rightarrow>
            if wp_max p \<le> length (wp_running p) then None
            else Some (t\<lparr>tk_pools := (tk_pools t)[i := p\<lparr>wp_queue := q,
                   wp_running := (if cancelled k then wp_running p else wp_running p @ [k])\<rparr>]\<rparr>, k)))"

definition worker_end :: "nat \<Rightarrow> nat \<Rightarrow> tracked \<Rightarrow> tracked option" where
  "worker_end i k t =
     (if length (tk_pools t) \<le> i \<or> k \<notin> set (wp_running (tk_pools t ! i)) then None
      else Some (t\<lparr>tk_pools := (tk_pools t)[i := (tk_pools t ! i)\<lparr>wp_running := remove1 k (wp_running (tk_pools t ! i))\<rparr>]\<rparr>))"

text \<open>\<open>shutdown\<close>, as far as it goes before it waits for the workers: only the current pool is told to stop.\<close>

definition shutdown_executor :: "tracked \<Rightarrow> tracked" where
  "shutdown_executor t =
     t\<lparr>tk_pools := butlast (tk_pools t) @ [(last (tk_pools t))\<lparr>wp_stopped := True\<rparr>]\<rparr>"

record exec_metrics =
  em_name :: string
  em_max_workers :: int
  em_active :: int
  em_approx_queue_depth :: nat

definition executor_metrics_of :: "tracked \<Rightarrow> exec_metrics" where
  "executor_metrics_of t =
     \<lparr>em_name = tk_name t, em_max_workers = tk_max_workers t, em_active = tk_active t,
      em_approx_queue_depth = length (wp_queue (last (tk_pools t)))\<rparr>"

text \<open>The three executors of the process.\<close>

record executors =
  ex_db :: tracked
  ex_service :: tracked
  ex_background :: tracked

definition resize_if :: "int option \<Rightarrow> tracked \<Rightarrow> tracked \<times> unit result" where
  "resize_if n t = (case n of None \<Rightarrow> (t, Inr ()) | Some n \<Rightarrow> resize n t)"

definition configure_executors :: "int option \<Rightarrow> int option \<Rightarrow> int option \<Rightarrow> executors \<Rightarrow> executors \<times> unit result" where
  "configure_executors db_workers service_workers background_workers x =
     (case resize_if db_workers (ex_db x) of
        (d, Inl e) \<Rightarrow> (x\<lparr>ex_db := d\<rparr>, Inl e)
      | (d, Inr _) \<Rightarrow>
          (case resize_if service_workers (ex_service x) of
             (s, Inl e) \<Rightarrow> (x\<lparr>ex_db := d, ex_service := s\<rparr>, Inl e)
           | (s, Inr _) \<Rightarrow>
               (case resize_if background_workers (ex_background x) of
                  (b, r) \<Rightarrow> (x\<lparr>ex_db := d, ex_service := s, ex_background := b\<rparr>, r))))"

definition all_executor_metrics :: "executors \<Rightarrow> (string \<times> exec_metrics) list" where
  "all_executor_metrics x =
     [(''db'', executor_metrics_of (ex_db x)), (''service'', executor_metrics_of (ex_service x)),
      (''background'', executor_metrics_of (ex_background x))]"

definition shutdown_all_executors :: "executors \<Rightarrow> executors" where
  "shutdown_all_executors x =
     \<lparr>ex_db = shutdown_executor (ex_db x), ex_service = shutdown_executor (ex_service x),
      ex_background = shutdown_executor (ex_background x)\<rparr>"

text \<open>\<open>fire_and_forget\<close>: the set keeps a task referenced until it ends; what it raised, unless cancelled, is logged.\<close>

definition fire_and_forget :: "nat \<Rightarrow> nat set \<Rightarrow> nat set" where
  "fire_and_forget k bg = insert k bg"

datatype task_end = Task_Done | Task_Raised py_exc | Task_Cancelled

definition on_done :: "nat \<Rightarrow> task_end \<Rightarrow> nat set \<Rightarrow> nat set \<times> py_exc list" where
  "on_done k how bg = (bg - {k}, (case how of Task_Raised e \<Rightarrow> [e] | _ \<Rightarrow> []))"

section \<open>Callers, workers and their interleavings\<close>

datatype call_state = Not_Called | Awaiting | Returned | Cancelled | Refused

text \<open>\<open>es_accepted i\<close> and \<open>es_taken i\<close> record, in order, the jobs pool \<open>i\<close> accepted and its workers took.\<close>

record exec_sys =
  es_exec :: tracked
  es_calls :: "nat \<Rightarrow> call_state"
  es_ended :: "nat set"
  es_accepted :: "nat \<Rightarrow> nat list"
  es_taken :: "nat \<Rightarrow> nat list"

definition exec_init :: "tracked \<Rightarrow> exec_sys" where
  "exec_init t = \<lparr>es_exec = t, es_calls = (\<lambda>_. Not_Called), es_ended = {}, es_accepted = (\<lambda>_. []), es_taken = (\<lambda>_. [])\<rparr>"

definition current :: "tracked \<Rightarrow> nat" where
  "current t = length (tk_pools t) - 1"

inductive exec_step :: "exec_sys \<Rightarrow> exec_sys \<Rightarrow> bool" where
  call: "es_calls s k = Not_Called \<Longrightarrow> run_begin k (es_exec s) = (t, Inr u) \<Longrightarrow>
    exec_step s (s\<lparr>es_exec := t, es_calls := (es_calls s)(k := Awaiting),
      es_accepted := (es_accepted s)(current (es_exec s) := es_accepted s (current (es_exec s)) @ [k])\<rparr>)"
| refused: "es_calls s k = Not_Called \<Longrightarrow> run_begin k (es_exec s) = (t, Inl e) \<Longrightarrow>
    exec_step s (s\<lparr>es_exec := t, es_calls := (es_calls s)(k := Refused)\<rparr>)"
| take: "worker_take (\<lambda>k. es_calls s k = Cancelled) i (es_exec s) = Some (t, k) \<Longrightarrow>
    exec_step s (s\<lparr>es_exec := t, es_taken := (es_taken s)(i := es_taken s i @ [k])\<rparr>)"
| finish: "worker_end i k (es_exec s) = Some t \<Longrightarrow>
    exec_step s (s\<lparr>es_exec := t, es_ended := insert k (es_ended s)\<rparr>)"
| resume: "es_calls s k = Awaiting \<Longrightarrow> k \<in> es_ended s \<Longrightarrow>
    exec_step s (s\<lparr>es_exec := run_end (es_exec s), es_calls := (es_calls s)(k := Returned)\<rparr>)"
| cancel: "es_calls s k = Awaiting \<Longrightarrow>
    exec_step s (s\<lparr>es_exec := run_end (es_exec s), es_calls := (es_calls s)(k := Cancelled)\<rparr>)"
| resize: "resize n (es_exec s) = (t, r) \<Longrightarrow> exec_step s (s\<lparr>es_exec := t\<rparr>)"
| stop: "exec_step s (s\<lparr>es_exec := shutdown_executor (es_exec s)\<rparr>)"

inductive exec_reachable :: "exec_sys \<Rightarrow> bool" where
  start: "tracked_new name n = Inr t \<Longrightarrow> exec_reachable (exec_init t)"
| step: "exec_reachable s \<Longrightarrow> exec_step s s' \<Longrightarrow> exec_reachable s'"

section \<open>What the operations do to queues and workers\<close>

definition queue_of :: "tracked \<Rightarrow> nat \<Rightarrow> nat list" where
  "queue_of t i = (if i < length (tk_pools t) then wp_queue (tk_pools t ! i) else [])"

definition running_of :: "tracked \<Rightarrow> nat \<Rightarrow> nat list" where
  "running_of t i = (if i < length (tk_pools t) then wp_running (tk_pools t ! i) else [])"

definition within_bounds :: "tracked \<Rightarrow> bool" where
  "within_bounds t \<longleftrightarrow> tk_pools t \<noteq> [] \<and> (\<forall>p \<in> set (tk_pools t). length (wp_running p) \<le> wp_max p)"

lemma butlast_snoc_update: "xs \<noteq> [] \<Longrightarrow> butlast xs @ [x] = xs[length xs - 1 := x]"
  by (induction xs rule: rev_induct) auto

lemma within_bounds_update:
  assumes "within_bounds t" "length (wp_running p) \<le> wp_max p" "tk_pools t' = (tk_pools t)[i := p]"
  shows "within_bounds t'"
  using assms set_update_subset_insert [of "tk_pools t" i p] by (auto simp: within_bounds_def)

lemma last_is_nth: "xs \<noteq> [] \<Longrightarrow> last xs = xs ! (length xs - 1)"
  by (rule last_conv_nth)

lemma run_begin_effect:
  assumes "within_bounds t" "run_begin k t = (t', Inr u)"
  shows "queue_of t' = (queue_of t)(current t := queue_of t (current t) @ [k])" "running_of t' = running_of t"
    "tk_active t' = tk_active t + 1" "within_bounds t'"
proof -
  let ?n = "current t" and ?p = "last (tk_pools t)"
  have ne: "tk_pools t \<noteq> []" and b: "\<forall>p \<in> set (tk_pools t). length (wp_running p) \<le> wp_max p"
    using assms(1) by (auto simp: within_bounds_def)
  have lt: "?n < length (tk_pools t)" using ne by (simp add: current_def)
  have l: "?p = tk_pools t ! ?n" using ne by (simp add: current_def last_is_nth)
  have t': "tk_pools t' = (tk_pools t)[?n := ?p\<lparr>wp_queue := wp_queue ?p @ [k]\<rparr>]" "tk_active t' = tk_active t + 1"
    using assms(2) butlast_snoc_update [OF ne] by (auto simp: run_begin_def Let_def current_def split: if_splits)
  show "queue_of t' = (queue_of t)(?n := queue_of t ?n @ [k])" "running_of t' = running_of t"
    using lt by (auto simp: fun_eq_iff queue_of_def running_of_def t' l nth_list_update)
  show "tk_active t' = tk_active t + 1" by (rule t')
  have "length (wp_running ?p) \<le> wp_max ?p" using b ne by simp
  then show "within_bounds t'" by (intro within_bounds_update [OF assms(1) _ t'(1)]) simp
qed

lemma run_begin_refused: "run_begin k t = (t', Inl e) \<Longrightarrow> t' = t"
  by (auto simp: run_begin_def Let_def split: if_splits)

lemma worker_take_effect:
  assumes "within_bounds t" "worker_take cancelled i t = Some (t', k)"
  shows "queue_of t i = k # queue_of t' i" "queue_of t' = (queue_of t)(i := tl (queue_of t i))"
    "running_of t' = (running_of t)(i := running_of t i @ (if cancelled k then [] else [k]))"
    "tk_active t' = tk_active t" "within_bounds t'"
proof -
  let ?p = "tk_pools t ! i"
  have lt: "i < length (tk_pools t)" using assms(2) by (auto simp: worker_take_def split: if_splits)
  obtain q where q: "wp_queue ?p = k # q" "length (wp_running ?p) < wp_max ?p"
    "t' = t\<lparr>tk_pools := (tk_pools t)[i := ?p\<lparr>wp_queue := q,
       wp_running := (if cancelled k then wp_running ?p else wp_running ?p @ [k])\<rparr>]\<rparr>"
    using assms(2) lt by (auto simp: worker_take_def Let_def split: list.splits if_splits)
  show "queue_of t i = k # queue_of t' i" "queue_of t' = (queue_of t)(i := tl (queue_of t i))"
    "running_of t' = (running_of t)(i := running_of t i @ (if cancelled k then [] else [k]))"
    "tk_active t' = tk_active t"
    using lt q by (auto simp: fun_eq_iff queue_of_def running_of_def nth_list_update)
  show "within_bounds t'"
    by (rule within_bounds_update [OF assms(1), of _ _ i]) (use q(2) in \<open>simp_all add: q(3)\<close>)
qed

lemma worker_end_effect:
  assumes "within_bounds t" "worker_end i k t = Some t'"
  shows "k \<in> set (running_of t i)" "queue_of t' = queue_of t" "running_of t' = (running_of t)(i := remove1 k (running_of t i))"
    "tk_active t' = tk_active t" "within_bounds t'"
proof -
  let ?p = "tk_pools t ! i"
  have lt: "i < length (tk_pools t)" and k: "k \<in> set (wp_running ?p)"
    and t': "t' = t\<lparr>tk_pools := (tk_pools t)[i := ?p\<lparr>wp_running := remove1 k (wp_running ?p)\<rparr>]\<rparr>"
    using assms(2) by (auto simp: worker_end_def split: if_splits)
  show "k \<in> set (running_of t i)" "queue_of t' = queue_of t" "running_of t' = (running_of t)(i := remove1 k (running_of t i))"
    "tk_active t' = tk_active t"
    using lt k by (auto simp: fun_eq_iff queue_of_def running_of_def nth_list_update t')
  have "length (remove1 k (wp_running ?p)) \<le> wp_max ?p"
    using assms(1) lt by (auto simp: within_bounds_def length_remove1 dest!: bspec [OF _ nth_mem])
  then show "within_bounds t'" by (intro within_bounds_update [OF assms(1), of _ _ i]) (simp_all add: t')
qed

lemma resize_effect:
  assumes "within_bounds t" "resize n t = (t', r)"
  shows "queue_of t' = queue_of t" "running_of t' = running_of t" "tk_active t' = tk_active t" "within_bounds t'"
  using assms by (auto simp: resize_def thread_pool_def Let_def queue_of_def running_of_def within_bounds_def fun_eq_iff
      nth_append split: if_splits)

lemma shutdown_effect:
  assumes "within_bounds t"
  shows "queue_of (shutdown_executor t) = queue_of t" "running_of (shutdown_executor t) = running_of t"
    "tk_active (shutdown_executor t) = tk_active t" "within_bounds (shutdown_executor t)"
proof -
  have ne: "tk_pools t \<noteq> []" using assms by (simp add: within_bounds_def)
  have t': "tk_pools (shutdown_executor t) = (tk_pools t)[length (tk_pools t) - 1 := (last (tk_pools t))\<lparr>wp_stopped := True\<rparr>]"
    using butlast_snoc_update [OF ne] by (simp add: shutdown_executor_def)
  show "queue_of (shutdown_executor t) = queue_of t" "running_of (shutdown_executor t) = running_of t"
    using ne by (auto simp: fun_eq_iff queue_of_def running_of_def t' last_is_nth nth_list_update)
  show "tk_active (shutdown_executor t) = tk_active t" by (simp add: shutdown_executor_def)
  have "length (wp_running (last (tk_pools t))) \<le> wp_max (last (tk_pools t))" using assms ne by (simp add: within_bounds_def)
  then show "within_bounds (shutdown_executor t)" by (intro within_bounds_update [OF assms _ t']) simp
qed

section \<open>Invariants\<close>

definition awaiting :: "exec_sys \<Rightarrow> nat set" where
  "awaiting s = {k. es_calls s k = Awaiting}"

definition active_inv :: "exec_sys \<Rightarrow> bool" where
  "active_inv s \<longleftrightarrow> finite (awaiting s) \<and> tk_active (es_exec s) = int (card (awaiting s))"

text \<open>A job is accepted by one pool, once, and only from a caller.\<close>

definition accept_inv :: "exec_sys \<Rightarrow> bool" where
  "accept_inv s \<longleftrightarrow> (\<forall>i. distinct (es_accepted s i)) \<and> (\<forall>i j. i \<noteq> j \<longrightarrow> set (es_accepted s i) \<inter> set (es_accepted s j) = {})
     \<and> (\<forall>i. \<forall>k \<in> set (es_accepted s i). es_calls s k \<noteq> Not_Called \<and> es_calls s k \<noteq> Refused)"

definition order_inv :: "exec_sys \<Rightarrow> bool" where
  "order_inv s \<longleftrightarrow> (\<forall>i. es_accepted s i = es_taken s i @ queue_of (es_exec s) i)"

definition await_inv :: "exec_sys \<Rightarrow> bool" where
  "await_inv s \<longleftrightarrow> (\<forall>k. es_calls s k = Awaiting \<longrightarrow>
     k \<in> es_ended s \<or> (\<exists>i. k \<in> set (queue_of (es_exec s) i) \<union> set (running_of (es_exec s) i)))"

definition exec_inv :: "exec_sys \<Rightarrow> bool" where
  "exec_inv s \<longleftrightarrow> within_bounds (es_exec s) \<and> active_inv s \<and> accept_inv s \<and> order_inv s \<and> await_inv s"

lemma exec_invD:
  assumes "exec_inv s"
  shows "within_bounds (es_exec s)" "active_inv s" "accept_inv s" "order_inv s" "await_inv s"
  using assms by (simp_all add: exec_inv_def)

lemma accept_inv_call:
  assumes "accept_inv s" "es_calls s k = Not_Called" "c \<noteq> Not_Called" "c \<noteq> Refused"
  shows "accept_inv (s\<lparr>es_exec := t, es_calls := (es_calls s)(k := c), es_accepted := (es_accepted s)(i := es_accepted s i @ [k])\<rparr>)"
proof -
  have "k \<notin> set (es_accepted s j)" for j using assms(1,2) by (auto simp: accept_inv_def)
  with assms show ?thesis by (auto simp: accept_inv_def)
qed

lemma accept_inv_state:
  assumes "accept_inv s" "es_accepted s' = es_accepted s"
    "\<And>k. es_calls s' k \<noteq> es_calls s k \<Longrightarrow> es_calls s' k \<notin> {Not_Called, Refused} \<or> es_calls s k = Not_Called"
  shows "accept_inv s'"
proof -
  have "es_calls s' k \<noteq> Not_Called \<and> es_calls s' k \<noteq> Refused" if "k \<in> set (es_accepted s i)" for i k
  proof -
    have "es_calls s k \<noteq> Not_Called \<and> es_calls s k \<noteq> Refused" using assms(1) that by (auto simp: accept_inv_def)
    with assms(3) [of k] show ?thesis by auto
  qed
  with assms(1,2) show ?thesis by (simp add: accept_inv_def)
qed

lemma awaiting_insert: "es_calls s k = Not_Called \<Longrightarrow> k \<notin> awaiting s"
  by (simp add: awaiting_def)

lemma active_inv_leave:
  assumes "active_inv s" "es_calls s k = Awaiting" "c \<noteq> Awaiting"
  shows "active_inv (s\<lparr>es_exec := run_end (es_exec s), es_calls := (es_calls s)(k := c)\<rparr>)"
proof -
  let ?s' = "s\<lparr>es_exec := run_end (es_exec s), es_calls := (es_calls s)(k := c)\<rparr>"
  have w: "awaiting ?s' = awaiting s - {k}" and k: "k \<in> awaiting s" using assms by (auto simp: awaiting_def)
  have f: "finite (awaiting s)" and n: "tk_active (es_exec s) = int (card (awaiting s))" using assms(1) by (auto simp: active_inv_def)
  have "0 < card (awaiting s)" using k f card_gt_0_iff by blast
  then show ?thesis unfolding active_inv_def w using f n k by (simp add: run_end_def of_nat_diff)
qed

lemma leave_inv:
  assumes "exec_inv s" "es_calls s k = Awaiting" "c \<in> {Returned, Cancelled}"
  shows "exec_inv (s\<lparr>es_exec := run_end (es_exec s), es_calls := (es_calls s)(k := c)\<rparr>)"
proof -
  let ?s' = "s\<lparr>es_exec := run_end (es_exec s), es_calls := (es_calls s)(k := c)\<rparr>"
  note inv = exec_invD [OF assms(1)]
  have v: "queue_of (run_end (es_exec s)) = queue_of (es_exec s)" "running_of (run_end (es_exec s)) = running_of (es_exec s)"
    by (simp_all add: run_end_def queue_of_def running_of_def fun_eq_iff)
  have "within_bounds (es_exec ?s')" using inv(1) by (simp add: within_bounds_def run_end_def)
  moreover have "active_inv ?s'" by (rule active_inv_leave [OF inv(2) assms(2)]) (use assms(3) in auto)
  moreover have "accept_inv ?s'" by (rule accept_inv_state [OF inv(3)]) (use assms(3) in \<open>auto split: if_splits\<close>)
  moreover have "order_inv ?s'" using inv(4) by (simp add: order_inv_def v)
  moreover have "await_inv ?s'" using inv(5) assms(3) by (auto simp: await_inv_def v)
  ultimately show ?thesis by (simp add: exec_inv_def)
qed

lemma exec_step_inv: "exec_step s s' \<Longrightarrow> exec_inv s \<Longrightarrow> exec_inv s'"
proof (induction rule: exec_step.induct)
  case (call s k t u)
  let ?c = "current (es_exec s)"
  let ?s' = "s\<lparr>es_exec := t, es_calls := (es_calls s)(k := Awaiting), es_accepted := (es_accepted s)(?c := es_accepted s ?c @ [k])\<rparr>"
  note inv = exec_invD [OF call(3)]
  note eff = run_begin_effect [OF inv(1) call(2)]
  have w: "awaiting ?s' = insert k (awaiting s)" by (auto simp: awaiting_def)
  have "active_inv ?s'" using inv(2) awaiting_insert [OF call(1)] by (simp add: active_inv_def w eff)
  moreover have "accept_inv ?s'" by (rule accept_inv_call [OF inv(3) call(1)]) simp_all
  moreover have "order_inv ?s'" using inv(4) by (simp add: order_inv_def eff)
  moreover have "await_inv ?s'"
    unfolding await_inv_def
  proof (intro allI impI)
    fix j assume j: "es_calls ?s' j = Awaiting"
    show "j \<in> es_ended ?s' \<or> (\<exists>i. j \<in> set (queue_of (es_exec ?s') i) \<union> set (running_of (es_exec ?s') i))"
    proof (cases "j = k")
      case True
      then have "j \<in> set (queue_of (es_exec ?s') ?c)" by (simp add: eff)
      then show ?thesis by blast
    next
      case False
      then have "j \<in> es_ended s \<or> (\<exists>i. j \<in> set (queue_of (es_exec s) i) \<union> set (running_of (es_exec s) i))"
        using j inv(5) by (simp add: await_inv_def)
      moreover have "set (queue_of (es_exec s) i) \<subseteq> set (queue_of t i)" for i by (auto simp: eff)
      ultimately show ?thesis by (auto simp: eff(2))
    qed
  qed
  ultimately show ?case using eff(4) by (simp add: exec_inv_def)
next
  case (refused s k t e)
  note inv = exec_invD [OF refused(3)]
  have t: "t = es_exec s" using run_begin_refused [OF refused(2)] .
  let ?s' = "s\<lparr>es_exec := t, es_calls := (es_calls s)(k := Refused)\<rparr>"
  have "awaiting ?s' = awaiting s" using refused(1) by (auto simp: awaiting_def)
  then have "active_inv ?s'" using inv(2) by (simp add: active_inv_def t)
  moreover have "accept_inv ?s'"
  proof -
    have "k \<notin> set (es_accepted s i)" for i using inv(3) refused(1) by (auto simp: accept_inv_def)
    with inv(3) show ?thesis by (auto simp: accept_inv_def)
  qed
  moreover have "order_inv ?s'" "await_inv ?s'" using inv(4,5) by (auto simp: order_inv_def await_inv_def t)
  ultimately show ?case using inv(1) by (simp add: exec_inv_def t)
next
  case (take s i t k)
  note inv = exec_invD [OF take(2)]
  note eff = worker_take_effect [OF inv(1) take(1)]
  let ?s' = "s\<lparr>es_exec := t, es_taken := (es_taken s)(i := es_taken s i @ [k])\<rparr>"
  have "active_inv ?s'" using inv(2) by (simp add: active_inv_def awaiting_def eff(4))
  moreover have "accept_inv ?s'" by (rule accept_inv_state [OF inv(3)]) simp_all
  moreover have "order_inv ?s'" using inv(4) eff(1) by (auto simp: order_inv_def eff(2))
  moreover have "await_inv ?s'"
    unfolding await_inv_def
  proof (intro allI impI)
    fix j assume j: "es_calls ?s' j = Awaiting"
    then have "j \<in> es_ended s \<or> (\<exists>i. j \<in> set (queue_of (es_exec s) i) \<union> set (running_of (es_exec s) i))"
      using inv(5) by (simp add: await_inv_def)
    moreover have "j \<in> set (queue_of t l) \<union> set (running_of t l)"
      if "j \<in> set (queue_of (es_exec s) l) \<union> set (running_of (es_exec s) l)" for l
    proof (cases "l = i")
      case True
      have "queue_of (es_exec s) i = k # queue_of t i" by (rule eff(1))
      with that True j show ?thesis by (auto simp: eff(3))
    next
      case False
      with that show ?thesis by (simp add: eff(2,3))
    qed
    ultimately show "j \<in> es_ended ?s' \<or> (\<exists>i. j \<in> set (queue_of (es_exec ?s') i) \<union> set (running_of (es_exec ?s') i))"
      by fastforce
  qed
  ultimately show ?case using eff(5) by (simp add: exec_inv_def)
next
  case (finish i k s t)
  note inv = exec_invD [OF finish(2)]
  note eff = worker_end_effect [OF inv(1) finish(1)]
  let ?s' = "s\<lparr>es_exec := t, es_ended := insert k (es_ended s)\<rparr>"
  have "active_inv ?s'" using inv(2) by (simp add: active_inv_def awaiting_def eff(4))
  moreover have "accept_inv ?s'" by (rule accept_inv_state [OF inv(3)]) simp_all
  moreover have "order_inv ?s'" using inv(4) by (simp add: order_inv_def eff(2))
  moreover have "await_inv ?s'"
    unfolding await_inv_def
  proof (intro allI impI)
    fix j assume "es_calls ?s' j = Awaiting"
    then have "j \<in> es_ended s \<or> (\<exists>i. j \<in> set (queue_of (es_exec s) i) \<union> set (running_of (es_exec s) i))"
      using inv(5) by (simp add: await_inv_def)
    moreover have "j = k \<or> j \<in> set (running_of t l)" if "j \<in> set (running_of (es_exec s) l)" for l
      using that by (cases "j = k") (auto simp: eff(3) in_set_remove1)
    ultimately show "j \<in> es_ended ?s' \<or> (\<exists>i. j \<in> set (queue_of (es_exec ?s') i) \<union> set (running_of (es_exec ?s') i))"
      by (fastforce simp: eff(2))
  qed
  ultimately show ?case using eff(5) by (simp add: exec_inv_def)
next
  case (resume s k)
  show ?case by (rule leave_inv [OF resume(3,1)]) simp
next
  case (cancel s k)
  show ?case by (rule leave_inv [OF cancel(2,1)]) simp
next
  case (resize n s t r)
  note inv = exec_invD [OF resize(2)]
  note eff = resize_effect [OF inv(1) resize(1)]
  show ?case using inv eff
    by (simp add: exec_inv_def active_inv_def awaiting_def accept_inv_def order_inv_def await_inv_def)
next
  case (stop s)
  note inv = exec_invD [OF stop]
  note eff = shutdown_effect [OF inv(1)]
  show ?case using inv eff
    by (simp add: exec_inv_def active_inv_def awaiting_def accept_inv_def order_inv_def await_inv_def)
qed

lemma exec_reachable_inv: "exec_reachable s \<Longrightarrow> exec_inv s"
proof (induction rule: exec_reachable.induct)
  case (start name n t)
  obtain p where p: "t = \<lparr>tk_name = name, tk_max_workers = n, tk_pools = [p], tk_active = 0\<rparr>" "wp_queue p = []" "wp_running p = []"
    using start by (auto simp: tracked_new_def thread_pool_def split: sum.splits if_splits)
  then have "queue_of t i = []" for i by (simp add: queue_of_def)
  with p show ?case
    by (simp add: exec_init_def exec_inv_def within_bounds_def active_inv_def awaiting_def accept_inv_def order_inv_def await_inv_def)
next
  case (step s s')
  then show ?case using exec_step_inv by blast
qed

section \<open>Properties\<close>


text \<open>One caller, its job taken by a worker.\<close>

definition busy :: exec_sys where
  "busy = \<lparr>es_exec = \<lparr>tk_name = ''db'', tk_max_workers = 1,
             tk_pools = [\<lparr>wp_max = 1, wp_queue = [], wp_running = [0], wp_stopped = False\<rparr>], tk_active = 1\<rparr>,
     es_calls = (\<lambda>_. Not_Called)(0 := Awaiting), es_ended = {}, es_accepted = (\<lambda>_. [])(0 := [0]),
     es_taken = (\<lambda>_. [])(0 := [0])\<rparr>"

lemma busy_reachable: "exec_reachable busy"
proof -
  let ?p = "\<lparr>wp_max = 1, wp_queue = [], wp_running = [], wp_stopped = False\<rparr>"
  let ?t = "\<lparr>tk_name = ''db'', tk_max_workers = 1, tk_pools = [?p], tk_active = 0\<rparr>"
  let ?t1 = "\<lparr>tk_name = ''db'', tk_max_workers = 1, tk_pools = [?p\<lparr>wp_queue := [0]\<rparr>], tk_active = 1\<rparr>"
  let ?s1 = "(exec_init ?t)\<lparr>es_exec := ?t1, es_calls := (\<lambda>_. Not_Called)(0 := Awaiting), es_accepted := (\<lambda>_. [])(0 := [0])\<rparr>"
  have "exec_reachable (exec_init ?t)" by (rule exec_reachable.start [of "''db''" 1]) (simp add: tracked_new_def thread_pool_def)
  moreover have "exec_step (exec_init ?t) ?s1"
    using exec_step.call [of "exec_init ?t" 0 ?t1 "()"] by (simp add: exec_init_def run_begin_def current_def)
  moreover have "exec_step ?s1 busy"
    using exec_step.take [of ?s1 0 "es_exec busy" 0] by (simp add: exec_init_def worker_take_def busy_def)
  ultimately show ?thesis using exec_reachable.step by blast
qed


text \<open>
  A caller that gives up (a query that times out) is no longer counted, while its job keeps the worker: the
  executor reports nothing active, and nothing else can run on it.
\<close>

lemma abandoned_job_keeps_worker:
  "\<exists>s. exec_reachable s \<and> em_active (executor_metrics_of (es_exec s)) = 0 \<and> running_of (es_exec s) 0 = [0]
     \<and> worker_take c 0 (es_exec s) = None"
proof (intro exI conjI)
  let ?s = "busy\<lparr>es_exec := run_end (es_exec busy), es_calls := (es_calls busy)(0 := Cancelled)\<rparr>"
  have "exec_step busy ?s" by (rule exec_step.cancel) (simp add: busy_def)
  then show "exec_reachable ?s" by (rule exec_reachable.step [OF busy_reachable])
qed (simp_all add: busy_def run_end_def executor_metrics_of_def running_of_def worker_take_def)

text \<open>After a resize the jobs of the old pool still run beside those of the new one.\<close>

lemma resize_adds_workers:
  "0 < n \<Longrightarrow> running_of (fst (resize n (es_exec busy))) 0 = [0] \<and> tk_max_workers (fst (resize n (es_exec busy))) = n
     \<and> length (tk_pools (fst (resize n (es_exec busy)))) = 2"
  by (simp add: resize_def thread_pool_def busy_def running_of_def Let_def)

text \<open>A refused resize leaves the old pool in place but reports the refused size.\<close>

lemma refused_resize_reported:
  "n \<le> 0 \<Longrightarrow> tk_pools (fst (resize n t)) = tk_pools t \<and> em_max_workers (executor_metrics_of (fst (resize n t))) = n"
  by (simp add: resize_def thread_pool_def Let_def executor_metrics_of_def)

end
