(* ===== verification/Request_Stack.thy ===== *)
theory Request_Stack
  imports Query_Routes Observability Metrics_Registry
begin

text \<open>
  The layers around every route, as \<open>src/core/app/api/app.py\<close> stacks them: profiling outside, then
  authentication, then observability, then the route; and the routes of the debug dashboard
  (\<open>src/core/performance/dashboard/fastapi.py\<close>) behind them.
\<close>

section \<open>Authentication and observability around a route\<close>

text \<open>What authentication leaves in \<open>request.state\<close> for the layers inside it.\<close>

definition attach :: "auth_outcome \<Rightarrow> req_state \<Rightarrow> req_state" where
  "attach r st =
     (case r of
        PassAs w \<Rightarrow> st\<lparr>rs_user_id := Some (id_user_id w), rs_username := Some (id_username w), rs_session_id := Some (id_session_id w)\<rparr>
      | _ \<Rightarrow> st)"

record 'w server =
  srv_auth :: auth_state
  srv_obs :: obs_app
  srv_app :: 'w

text \<open>The routes, told who calls, over the authentication state and the rest of the application.\<close>

type_synonym 'w routes = "auth_outcome \<Rightarrow> auth_state \<times> 'w \<Rightarrow> (auth_state \<times> 'w) \<times> outcome"

record api_call =
  cl_key_fails :: bool
  cl_user_fails :: bool
  cl_monotonic :: seconds
  cl_now :: seconds
  cl_request :: request
  cl_seen :: seen_request
  cl_emit :: emit_env
  cl_process_time :: rat

definition dispatch :: "auth_env \<Rightarrow> 'w routes \<Rightarrow> api_call \<Rightarrow> 'w server \<Rightarrow> 'w server \<times> outcome" where
  "dispatch env route cl s =
     (case enforce_auth env (cl_key_fails cl) (cl_user_fails cl) (cl_monotonic cl) (cl_now cl) (cl_request cl) (srv_auth s) of
        (a, Unauthorized) \<Rightarrow> (s\<lparr>srv_auth := a\<rparr>, Inr 401)
      | (a, r) \<Rightarrow>
          (case route r (a, srv_app s) of ((a', w), out) \<Rightarrow>
             (case record_observability (cl_emit cl) (cl_process_time cl)
                     ((cl_seen cl)\<lparr>sr_state := attach r (sr_state (cl_seen cl))\<rparr>) out (srv_obs s) of
                (obs, out') \<Rightarrow> (s\<lparr>srv_auth := a', srv_obs := obs, srv_app := w\<rparr>, out'))))"

section \<open>Profiling around them\<close>

text \<open>
  What a profiled request draws and reads: the sampler's clocks and draws, the identifier, the clock before
  and after the stage, for the completion and for the report.  \<open>work\<close> is what the request does with its
  profiler; it may leave stages open.
\<close>

record profiling =
  pr_sampler_clocks :: "seconds \<times> seconds \<times> seconds"
  pr_draw :: rat
  pr_dice :: int
  pr_config :: performance_config
  pr_id :: string
  pr_method :: string
  pr_route :: string
  pr_started :: "int \<times> int \<times> int"
  pr_left :: "int \<times> int"
  pr_clock :: "nat \<Rightarrow> int"
  pr_duration :: seconds
  pr_reported :: seconds
  pr_work :: "profiler \<Rightarrow> profiler"
  pr_collect :: "string \<Rightarrow> request_profile \<Rightarrow> py_exc option"
  pr_text :: "nat \<Rightarrow> string"
  pr_exc_text :: "py_exc \<Rightarrow> string"

definition response_status :: "outcome \<Rightarrow> nat option" where
  "response_status out = (case out of Inl _ \<Rightarrow> None | Inr st \<Rightarrow> Some (nat st))"

definition raised_of :: "outcome \<Rightarrow> (py_exc \<times> string) option" where
  "raised_of out = (case out of Inl x \<Rightarrow> Some x | Inr _ \<Rightarrow> None)"

definition profile_request ::
  "profiling \<Rightarrow> ('s \<Rightarrow> 's \<times> outcome) \<Rightarrow> 's \<Rightarrow> registry \<Rightarrow> sampler option \<Rightarrow> ('s \<times> registry \<times> sampler option \<times> dispatched) option" where
  "profile_request pr call_next s rg sm =
     (case sampling_decision (pr_sampler_clocks pr) (pr_draw pr) (pr_dice pr) (pr_config pr) sm of
        (sm1, False) \<Rightarrow>
          (case call_next s of (s', out) \<Rightarrow>
             Some (s', rg, report_outcome (response_status out) (pr_duration pr) (pr_reported pr) sm1,
               (case out of Inl x \<Rightarrow> Inl x | Inr st \<Rightarrow> Inr (nat st))))
      | (sm1, True) \<Rightarrow>
          (case pr_started pr of (t1, t2, t3) \<Rightarrow>
             (let p0 = profiler_new (pr_id pr) [(''method'', pr_method pr)] t1 t2;
                  finish = (\<lambda>s' response raised p. map_option (\<lambda>(rg', sm', out'). (s', rg', sm', out'))
                    (finish_request (pr_collect pr) (pr_text pr) (pr_clock pr) (pr_route pr) (pr_duration pr)
                       (pr_reported pr) response raised p rg sm1))
              in case start_stage RESPONSE ''dispatch'' [] t3 p0 of
                   Inl e \<Rightarrow> finish s None (Some (e, pr_exc_text pr e)) p0
                 | Inr (p1, _) \<Rightarrow>
                     (case call_next s of (s', out) \<Rightarrow>
                        (case finish_stage (fst (pr_left pr)) (snd (pr_left pr)) (pr_work pr p1) of
                           Inl e \<Rightarrow> finish s' (response_status out) (Some (e, pr_exc_text pr e)) (pr_work pr p1)
                         | Inr p2 \<Rightarrow> finish s' (response_status out) (raised_of out) p2)))))"

definition handle_request ::
  "auth_env \<Rightarrow> profiling \<Rightarrow> 'w routes \<Rightarrow> api_call \<Rightarrow> 'w server \<Rightarrow> registry \<Rightarrow> sampler option
     \<Rightarrow> ('w server \<times> registry \<times> sampler option \<times> dispatched) option" where
  "handle_request env pr route cl = profile_request pr (dispatch env route cl)"

section \<open>The dashboard\<close>

text \<open>\<open>GET /debug/performance\<close> and \<open>GET /debug/request/{id}\<close>, as far as they depend on the caller.\<close>

definition require_admin_user :: "identity \<Rightarrow> unit result" where
  "require_admin_user who = (if is_admin who then Inr () else Inl (HTTPException 403 ''Admin privileges required''))"

definition get_performance_summary :: "auth_outcome \<Rightarrow> int \<Rightarrow> registry \<Rightarrow> performance_summary result" where
  "get_performance_summary r recent_limit rg =
     (case require_admin_user (get_current_user r) of
        Inl e \<Rightarrow> Inl e | Inr _ \<Rightarrow> Inr (build_performance_summary recent_limit rg))"

definition get_request_detail :: "auth_outcome \<Rightarrow> string \<Rightarrow> registry \<Rightarrow> request_profile result" where
  "get_request_detail r i rg =
     (case require_admin_user (get_current_user r) of
        Inl e \<Rightarrow> Inl e
      | Inr _ \<Rightarrow> (case get_request i rg of
          None \<Rightarrow> Inl (HTTPException 404 (''no retained request with id '' @ [CHR 0x27] @ i @ [CHR 0x27])) | Some p \<Rightarrow> Inr p))"

section \<open>Who a request is recorded under\<close>

definition status_to_record :: "outcome \<Rightarrow> int option" where
  "status_to_record out = (case out of Inr st \<Rightarrow> Some st | Inl (e, m) \<Rightarrow> if e = CancelledError then None else Some 500)"

definition under_user :: "string \<Rightarrow> int \<Rightarrow> obs_record \<Rightarrow> bool" where
  "under_user u st r \<longleftrightarrow> lp_status_code (rec_log r) = st \<and> sp_user_id (rec_trace_start r) = u \<and> ap_user_id (rec_audit r) = u
     \<and> (u \<noteq> [] \<longrightarrow> lp_user_id (rec_log r) = u)"

lemma py_or_str_self: "py_or_str (Some u) u = u" "py_or_str (Some u) [] = u"
  by (cases u; simp)+

lemma emit_under_user:
  assumes "oa_queue app = Some rs" "rs_user_id (sr_state q) = Some u"
  shows "\<exists>r. fst (emit_request_observability ee q st d error (Some u) operation app) = app\<lparr>oa_queue := Some (rs @ [r])\<rparr>
     \<and> under_user u st r"
  using assms by (auto simp: emit_request_observability_def build_request_context_def make_record_def under_user_def
      py_or_str_self Let_def)

lemma record_under_user:
  assumes "oa_manager app" "oa_queue app = Some rs" "rs_user_id (sr_state q) = Some u"
  shows "snd (record_observability ee d q out app) = out
     \<and> (case status_to_record out of
          None \<Rightarrow> fst (record_observability ee d q out app) = app
        | Some st \<Rightarrow> \<exists>r. oa_queue (fst (record_observability ee d q out app)) = Some (rs @ [r]) \<and> under_user u st r)"
proof (cases out)
  case (Inl x)
  obtain e m where x: "x = (e, m)" by (cases x)
  with Inl emit_under_user [OF assms(2,3), of ee 500 "Some (d * 1000)" "Some m" "''http.request''"] show ?thesis
    by (auto simp: record_observability_def status_to_record_def assms)
next
  case (Inr st)
  with emit_under_user [OF assms(2,3), of ee st "Some (d * 1000)" None "''http.request''"] show ?thesis
    by (auto simp: record_observability_def status_to_record_def assms)
qed

lemma dispatch_split:
  assumes "enforce_auth env (cl_key_fails cl) (cl_user_fails cl) (cl_monotonic cl) (cl_now cl) (cl_request cl) (srv_auth s) = (a, PassAs w)"
    and "route (PassAs w) (a, srv_app s) = ((a', x), out)"
    and "record_observability (cl_emit cl) (cl_process_time cl)
           ((cl_seen cl)\<lparr>sr_state := attach (PassAs w) (sr_state (cl_seen cl))\<rparr>) out (srv_obs s) = (obs, out')"
  shows "dispatch env route cl s = (s\<lparr>srv_auth := a', srv_obs := obs, srv_app := x\<rparr>, out')"
  using assms by (simp add: dispatch_def)


section \<open>Profiling is transparent\<close>

definition reply_of :: "outcome \<Rightarrow> dispatched" where
  "reply_of out = (case out of Inl x \<Rightarrow> Inl x | Inr st \<Rightarrow> Inr (nat st))"

lemma complete_returns_inv:
  assumes "trace_inv t (pf_trace p)" "\<not> pf_completed p" "\<And>i. t \<le> clk i" "\<And>i j. i \<le> j \<Longrightarrow> clk i \<le> clk j"
  shows "\<exists>p' prof. profiler_complete status error clk p = Some (Inr (p', prof))"
proof -
  obtain tr k t' where "finish_all clk 0 (pf_trace p) = Some (Inr (tr, k))"
    by (rule finish_all_returns [OF assms(1,3,4)])
  with assms(2) show ?thesis by (simp add: profiler_complete_def)
qed

text \<open>The \<open>finally\<close> block returns what it was given unless recording the profile raises.\<close>

lemma finish_request_returns:
  assumes "trace_inv t (pf_trace p)" "\<not> pf_completed p" "\<And>i. t \<le> clk i" "\<And>i j. i \<le> j \<Longrightarrow> clk i \<le> clk j"
    and "raised = None \<Longrightarrow> response = Some st"
  shows "\<exists>rg' sm' out'. finish_request collect show_st clk route d now response raised p rg sm = Some (rg', sm', out')
     \<and> (out' = (case raised of Some x \<Rightarrow> Inl x | None \<Rightarrow> Inr st)
        \<or> (\<exists>e prof. out' = Inl (e, []) \<and> snd (record_completed_request collect prof rg) = Inl e))"
proof -
  let ?tagged = "p\<lparr>pf_tags := (case response of
      Some st \<Rightarrow> AList.update ''status_code'' (show_st st) (AList.update ''route'' route (pf_tags p))
    | None \<Rightarrow> AList.update ''route'' route (pf_tags p))\<rparr>"
  let ?status = "case raised of None \<Rightarrow> ''ok'' | Some _ \<Rightarrow> ''error''"
  let ?error = "case raised of None \<Rightarrow> None | Some (e, m) \<Rightarrow> Some (if e = CancelledError then ''cancelled'' else m)"
  have "trace_inv t (pf_trace ?tagged)" "\<not> pf_completed ?tagged" using assms(1,2) by simp_all
  from complete_returns_inv [where clk = clk and status = ?status and error = ?error, OF this assms(3,4)]
  obtain p' prof where c: "profiler_complete ?status ?error clk ?tagged = Some (Inr (p', prof))" by blast
  obtain rg' r where r: "record_completed_request collect prof rg = (rg', r)" by fastforce
  have f: "finish_request collect show_st clk route d now response raised p rg sm
      = (case r of Inl e \<Rightarrow> Some (rg', sm, Inl (e, []))
         | Inr _ \<Rightarrow> Some (rg', report_outcome response d now sm,
             (case raised of Some x \<Rightarrow> Inl x | None \<Rightarrow> (case response of Some st \<Rightarrow> Inr st
                | None \<Rightarrow> Inl (OtherError ''AssertionError'', [])))))"
    unfolding finish_request_def Let_def c by (simp add: r split: sum.split)
  show ?thesis
  proof (cases r)
    case (Inl e)
    with r have "snd (record_completed_request collect prof rg) = Inl e" by simp
    with Inl f show ?thesis by auto
  next
    case (Inr u)
    with f assms(5) show ?thesis by (cases raised) auto
  qed
qed

lemma start_dispatch_stage:
  "\<exists>p n. start_stage RESPONSE ''dispatch'' [] t3 (profiler_new rid tags t1 t2) = Inr (p, n)"
  by (simp add: start_stage_def profiler_new_def trace_start_def trace_new_def add_child_def node_new_def Let_def)

definition profile_raises :: "profiling \<Rightarrow> registry \<Rightarrow> py_exc \<Rightarrow> bool" where
  "profile_raises pr rg e \<longleftrightarrow> (\<exists>p. finish_stage (fst (pr_left pr)) (snd (pr_left pr)) p = Inl e)
     \<or> (\<exists>prof. snd (record_completed_request (pr_collect pr) prof rg) = Inl e)"

text \<open>The clock readings are ordered, and the request uses its profiler between them.\<close>

definition profiling_ok :: "profiling \<Rightarrow> bool" where
  "profiling_ok pr \<longleftrightarrow> (case pr_started pr of (t1, t2, t3) \<Rightarrow> t1 \<le> t2 \<and> t2 \<le> t3
       \<and> (\<forall>p. profiled t3 p \<longrightarrow> profiled (fst (pr_left pr)) (pr_work pr p)))
     \<and> fst (pr_left pr) \<le> snd (pr_left pr) \<and> (\<forall>i. snd (pr_left pr) \<le> pr_clock pr i)
     \<and> (\<forall>i j. i \<le> j \<longrightarrow> pr_clock pr i \<le> pr_clock pr j)"

lemma profile_request_returns:
  assumes "profiling_ok pr" "call_next s = (s', out)"
  shows "\<exists>rg' sm' out'. profile_request pr call_next s rg sm = Some (s', rg', sm', out')
     \<and> (out' = reply_of out \<or> (\<exists>e m. out' = Inl (e, m) \<and> profile_raises pr rg e))"
proof -
  obtain sm1 sampled where d: "sampling_decision (pr_sampler_clocks pr) (pr_draw pr) (pr_dice pr) (pr_config pr) sm = (sm1, sampled)"
    by fastforce
  obtain t1 t2 t3 where t: "pr_started pr = (t1, t2, t3)" by (cases "pr_started pr") auto
  let ?t4 = "fst (pr_left pr)" and ?t5 = "snd (pr_left pr)"
  let ?p0 = "profiler_new (pr_id pr) [(''method'', pr_method pr)] t1 t2"
  let ?finish = "\<lambda>response raised p. finish_request (pr_collect pr) (pr_text pr) (pr_clock pr) (pr_route pr)
      (pr_duration pr) (pr_reported pr) response raised p rg sm1"
  have ok: "t1 \<le> t2" "t2 \<le> t3" "\<And>p. profiled t3 p \<Longrightarrow> profiled ?t4 (pr_work pr p)" "?t4 \<le> ?t5"
    "\<And>i. ?t5 \<le> pr_clock pr i" "\<And>i j. i \<le> j \<Longrightarrow> pr_clock pr i \<le> pr_clock pr j"
    using assms(1) by (auto simp: profiling_ok_def t)
  have clk: "?t4 \<le> pr_clock pr i" for i using ok(4) ok(5) [of i] by linarith
  show ?thesis
  proof (cases sampled)
    case False
    then show ?thesis using d assms(2) by (auto simp: profile_request_def reply_of_def)
  next
    case True
    obtain p1 n where p1: "start_stage RESPONSE ''dispatch'' [] t3 ?p0 = Inr (p1, n)" using start_dispatch_stage by blast
    have "profiled t3 p1" by (rule profiled.open_stage [OF profiled.new [OF ok(1)] ok(2) p1])
    then have w: "profiled ?t4 (pr_work pr p1)" by (rule ok(3))
    have run: "profile_request pr call_next s rg sm
        = map_option (\<lambda>(rg', sm', out'). (s', rg', sm', out'))
            (case finish_stage ?t4 ?t5 (pr_work pr p1) of
               Inl e \<Rightarrow> ?finish (response_status out) (Some (e, pr_exc_text pr e)) (pr_work pr p1)
             | Inr p2 \<Rightarrow> ?finish (response_status out) (raised_of out) p2)"
      using True d p1 assms(2) by (simp add: profile_request_def t Let_def split: sum.split)
    show ?thesis
    proof (cases "finish_stage ?t4 ?t5 (pr_work pr p1)")
      case (Inl e)
      have "trace_inv ?t4 (pf_trace (pr_work pr p1))" "\<not> pf_completed (pr_work pr p1)" using profiled_inv [OF w] by blast+
      note fin = finish_request_returns [where raised = "Some (e, pr_exc_text pr e)" and response = "response_status out" and st = 0
          and collect = "pr_collect pr" and show_st = "pr_text pr" and clk = "pr_clock pr"
          and route = "pr_route pr" and d = "pr_duration pr" and now = "pr_reported pr"
          and rg = rg and sm = sm1, OF this clk ok(6), simplified]
      obtain rg' sm' out' where f: "?finish (response_status out) (Some (e, pr_exc_text pr e)) (pr_work pr p1) = Some (rg', sm', out')"
        "out' = Inl (e, pr_exc_text pr e) \<or> (\<exists>e prof. out' = Inl (e, []) \<and> snd (record_completed_request (pr_collect pr) prof rg) = Inl e)"
        using fin by blast
      have "profile_raises pr rg e" using Inl by (auto simp: profile_raises_def)
      with f(2) have "\<exists>e m. out' = Inl (e, m) \<and> profile_raises pr rg e" by (auto simp: profile_raises_def)
      with run Inl f(1) show ?thesis by simp
    next
      case (Inr p2)
      have "profiled ?t5 p2" by (rule profiled.leave_stage [OF w order_refl ok(4) Inr])
      then have inv: "trace_inv ?t5 (pf_trace p2)" "\<not> pf_completed p2" using profiled_inv by blast+
      have "raised_of out = None \<Longrightarrow> response_status out = Some (nat (projr out))"
        by (cases out) (simp_all add: raised_of_def response_status_def)
      from finish_request_returns [where collect = "pr_collect pr" and show_st = "pr_text pr" and clk = "pr_clock pr"
          and route = "pr_route pr" and d = "pr_duration pr" and now = "pr_reported pr"
          and rg = rg and sm = sm1, OF inv ok(5,6) this]
      obtain rg' sm' out' where f: "?finish (response_status out) (raised_of out) p2 = Some (rg', sm', out')"
        "out' = (case raised_of out of Some x \<Rightarrow> Inl x | None \<Rightarrow> Inr (nat (projr out)))
          \<or> (\<exists>e prof. out' = Inl (e, []) \<and> snd (record_completed_request (pr_collect pr) prof rg) = Inl e)"
        by blast
      have "(case raised_of out of Some x \<Rightarrow> Inl x | None \<Rightarrow> Inr (nat (projr out))) = reply_of out"
        by (cases out) (simp_all add: raised_of_def reply_of_def)
      with f(2) have "out' = reply_of out \<or> (\<exists>e m. out' = Inl (e, m) \<and> profile_raises pr rg e)"
        by (auto simp: profile_raises_def)
      with run Inr f(1) show ?thesis by simp
    qed
  qed
qed


section \<open>Instances\<close>

text \<open>A call with the key of \<open>u1\<close> that claims to come from somebody else.\<close>

definition demo_call :: api_call where
  "demo_call = \<lparr>cl_key_fails = False, cl_user_fails = False, cl_monotonic = 1, cl_now = 10, cl_request = demo_request,
     cl_seen = (plain_request ''r'')\<lparr>sr_header := (\<lambda>k. if k = ''x-username'' then Some ''root'' else None)\<rparr>,
     cl_emit = some_env, cl_process_time = 1\<rparr>"

definition demo_server :: "nat server" where
  "demo_server = \<lparr>srv_auth = demo_state, srv_obs = \<lparr>oa_manager = True, oa_queue = Some [], oa_tables = no_tables\<rparr>, srv_app = 0\<rparr>"

definition counting_routes :: "nat routes" where
  "counting_routes r s = (case s of (a, n) \<Rightarrow> ((a, Suc n), Inr 200))"


definition demo_profiling :: profiling where
  "demo_profiling = \<lparr>pr_sampler_clocks = (0, 0, 0), pr_draw = 0, pr_dice = 1,
     pr_config = default_performance_config\<lparr>pc_enabled := True\<rparr>, pr_id = ''r'', pr_method = ''GET'', pr_route = ''/'',
     pr_started = (0, 1, 2), pr_left = (3, 4), pr_clock = (\<lambda>k. 5 + int k), pr_duration = 1, pr_reported = 1,
     pr_work = (\<lambda>p. emit_event ''seen'' [] 3 p), pr_collect = (\<lambda>_ _. None), pr_text = (\<lambda>_. []), pr_exc_text = (\<lambda>_. [])\<rparr>"

lemma demo_profiling_ok: "profiling_ok demo_profiling"
  using profiled.event [of 2 _ 3] by (simp add: profiling_ok_def demo_profiling_def)


text \<open>The data of the dashboard is for administrators, whatever path the request came by.\<close>

lemma dashboard_data_for_admins:
  "get_performance_summary r n rg = Inr x \<Longrightarrow> \<exists>w. r = PassAs w \<and> id_role w = ''admin''"
  "get_request_detail r i rg = Inr p \<Longrightarrow> \<exists>w. r = PassAs w \<and> id_role w = ''admin''"
  by (auto simp: get_performance_summary_def get_request_detail_def require_admin_user_def is_admin_def get_current_user_def
      split: auth_outcome.splits if_splits sum.splits)

end
