(* ===== verification/Collectors.thy ===== *)
theory Collectors
  imports Metrics_Registry Lifespan
begin

text \<open>
  \<open>src/core/performance/collectors\<close>: the collectors that sample the process, and the scheduler that feeds
  their gauges to the registry.  What the interpreter and the operating system report is an argument; a
  source that is missing or raises is \<open>None\<close>.
\<close>

section \<open>Readings\<close>

record readings =
  rd_clock :: "string \<Rightarrow> tags \<Rightarrow> int"
  rd_windows :: bool
  rd_working_set :: "(nat \<times> nat) option"
  rd_maxrss :: "nat option"
  rd_darwin :: bool
  rd_proc_status :: "string option"
  rd_traced :: "(nat \<times> nat) option"
  rd_gc_count :: "nat list"
  rd_gc_stats :: "(string, nat) odict list"
  rd_daemon :: "bool list"
  rd_times :: "rat \<times> rat"
  rd_cpu_count :: "nat option"
  rd_tasks_done :: "bool list option"
  rd_pid :: nat
  rd_open_fds :: "nat option"
  rd_max_fds :: "int option"

definition gauge_point :: "readings \<Rightarrow> string \<Rightarrow> rat \<Rightarrow> metric_unit \<Rightarrow> tags \<Rightarrow> metric_point" where
  "gauge_point r name v unit tags =
     \<lparr>mp_name = name, mp_type = GAUGE, mp_value = v, mp_timestamp_ns = rd_clock r name tags, mp_unit = unit, mp_tags = tags\<rparr>"

section \<open>Memory\<close>

definition windows_rss_points :: "readings \<Rightarrow> metric_point list" where
  "windows_rss_points r =
     (case rd_working_set r of
        None \<Rightarrow> []
      | Some (current, peak) \<Rightarrow>
          [gauge_point r ''process_memory_current_rss_bytes'' (of_nat current) BYTES [],
           gauge_point r ''process_memory_peak_rss_bytes'' (of_nat peak) BYTES []])"

definition peak_rss_point :: "readings \<Rightarrow> metric_point list" where
  "peak_rss_point r =
     (case rd_maxrss r of
        None \<Rightarrow> []
      | Some raw \<Rightarrow> [gauge_point r ''process_memory_peak_rss_bytes'' (of_nat (raw * (if rd_darwin r then 1 else 1024))) BYTES []])"

text \<open>The line boundaries of \<open>str.splitlines\<close> among the ASCII characters; \<open>\r\n\<close> is one boundary.\<close>

definition ends_line :: "char \<Rightarrow> bool" where
  "ends_line c \<longleftrightarrow> c \<in> {CHR 0x0A, CHR 0x0B, CHR 0x0C, CHR 0x0D, CHR 0x1C, CHR 0x1D, CHR 0x1E}"

fun splitlines_from :: "string \<Rightarrow> string \<Rightarrow> string list" where
  "splitlines_from acc [] = (if acc = [] then [] else [acc])"
| "splitlines_from acc [c] = (if ends_line c then [acc] else [acc @ [c]])"
| "splitlines_from acc (c # d # cs) =
     (if c = CHR 0x0D \<and> d = CHR 0x0A then acc # splitlines_from [] cs
      else if ends_line c then acc # splitlines_from [] (d # cs)
      else splitlines_from (acc @ [c]) (d # cs))"

text \<open>The number of kibibytes of the first well-formed \<open>VmRSS\<close> line.\<close>

fun vm_rss :: "string list \<Rightarrow> int option" where
  "vm_rss [] = None"
| "vm_rss (line # ls) =
     (if starts_with ''VmRSS:'' line
      then (case py_split line of
              _ # n # _ \<Rightarrow> if list_all is_digit n then dec_digits 0 n else vm_rss ls
            | _ \<Rightarrow> vm_rss ls)
      else vm_rss ls)"

definition current_rss_point :: "readings \<Rightarrow> metric_point list" where
  "current_rss_point r =
     (case rd_proc_status r of
        None \<Rightarrow> []
      | Some s \<Rightarrow>
          (case vm_rss (splitlines_from [] s) of
             None \<Rightarrow> []
           | Some n \<Rightarrow> [gauge_point r ''process_memory_current_rss_bytes'' (of_int (n * 1024)) BYTES []]))"

definition tracemalloc_points :: "readings \<Rightarrow> metric_point list" where
  "tracemalloc_points r =
     (case rd_traced r of
        None \<Rightarrow> []
      | Some (current, peak) \<Rightarrow>
          [gauge_point r ''process_memory_tracemalloc_current_bytes'' (of_nat current) BYTES [],
           gauge_point r ''process_memory_tracemalloc_peak_bytes'' (of_nat peak) BYTES []])"

definition collect_memory :: "readings \<Rightarrow> metric_point list" where
  "collect_memory r =
     (if rd_windows r then windows_rss_points r else peak_rss_point r @ current_rss_point r) @ tracemalloc_points r"

section \<open>The other collectors\<close>

definition generation :: "nat \<Rightarrow> tags" where
  "generation i = [(''generation'', string_of_nat i)]"

definition gc_fields :: "string list" where
  "gc_fields = [''collections'', ''collected'', ''uncollectable'']"

definition collect_gc :: "readings \<Rightarrow> metric_point list" where
  "collect_gc r =
     map (\<lambda>(i, n). gauge_point r ''gc_object_count'' (of_nat n) COUNT (generation i)) (enumerate 0 (rd_gc_count r))
     @ concat (map (\<lambda>(i, stats). concat (map (\<lambda>field. case map_of stats field of
            None \<Rightarrow> []
          | Some v \<Rightarrow> [gauge_point r (''gc_'' @ field @ ''_total'') (of_nat v) COUNT (generation i)]) gc_fields))
        (enumerate 0 (rd_gc_stats r)))"

definition collect_threads :: "readings \<Rightarrow> metric_point list" where
  "collect_threads r =
     (let n = length (rd_daemon r); d = length (filter id (rd_daemon r)) in
      [gauge_point r ''thread_count_total'' (of_nat n) COUNT [], gauge_point r ''thread_count_daemon'' (of_nat d) COUNT [],
       gauge_point r ''thread_count_non_daemon'' (of_nat (n - d)) COUNT []])"

definition collect_cpu :: "readings \<Rightarrow> metric_point list" where
  "collect_cpu r =
     [gauge_point r ''process_cpu_user_seconds_total'' (fst (rd_times r)) SECONDS [],
      gauge_point r ''process_cpu_system_seconds_total'' (snd (rd_times r)) SECONDS []]
     @ (case rd_cpu_count r of None \<Rightarrow> [] | Some n \<Rightarrow> [gauge_point r ''cpu_logical_count'' (of_nat n) COUNT []])"

definition collect_asyncio :: "readings \<Rightarrow> metric_point list" where
  "collect_asyncio r =
     (case rd_tasks_done r of
        None \<Rightarrow> []
      | Some ts \<Rightarrow>
          [gauge_point r ''asyncio_task_count_total'' (of_nat (length ts)) COUNT [],
           gauge_point r ''asyncio_task_count_pending'' (of_nat (length (filter Not ts))) COUNT []])"

definition collect_process :: "readings \<Rightarrow> metric_point list" where
  "collect_process r =
     gauge_point r ''process_id'' (of_nat (rd_pid r)) COUNT []
     # (case rd_open_fds r of None \<Rightarrow> [] | Some n \<Rightarrow> [gauge_point r ''process_open_fds'' (of_nat n) COUNT []])
     @ (case rd_max_fds r of None \<Rightarrow> [] | Some n \<Rightarrow> [gauge_point r ''process_max_fds'' (of_int n) COUNT []])"

fun collect :: "readings \<Rightarrow> collector \<Rightarrow> metric_point list" where
  "collect r Memory_Collector = collect_memory r"
| "collect r GC_Collector = collect_gc r"
| "collect r Thread_Collector = collect_threads r"
| "collect r CPU_Collector = collect_cpu r"
| "collect r Asyncio_Collector = collect_asyncio r"
| "collect r Process_Collector = collect_process r"

definition collect_all :: "readings \<Rightarrow> collector list \<Rightarrow> metric_point list" where
  "collect_all r cs = concat (map (collect r) cs)"

section \<open>The scheduler\<close>

datatype sampling_task = Task_Running | Task_Failed py_exc

record scheduler =
  sc_collectors :: "collector list"
  sc_task :: "sampling_task option"

definition scheduler_is_running :: "scheduler \<Rightarrow> bool" where
  "scheduler_is_running s \<longleftrightarrow> sc_task s = Some Task_Running"

definition scheduler_start :: "scheduler \<Rightarrow> scheduler" where
  "scheduler_start s = (if scheduler_is_running s then s else s\<lparr>sc_task := Some Task_Running\<rparr>)"

text \<open>Awaiting the cancelled task raises \<open>CancelledError\<close>, which is suppressed, or what the task had raised.\<close>

definition scheduler_stop :: "scheduler \<Rightarrow> scheduler \<times> unit result" where
  "scheduler_stop s =
     (case sc_task s of
        None \<Rightarrow> (s, Inr ())
      | Some Task_Running \<Rightarrow> (s\<lparr>sc_task := None\<rparr>, Inr ())
      | Some (Task_Failed e) \<Rightarrow> (s, Inl e))"

definition collect_once :: "readings \<Rightarrow> scheduler \<Rightarrow> registry \<Rightarrow> registry \<times> metric_point list result" where
  "collect_once r s rg =
     (let points = collect_all r (sc_collectors s) in
      case ingest points (rg_aggregator rg) of
        (ag, Inl e) \<Rightarrow> (rg\<lparr>rg_aggregator := ag\<rparr>, Inl e)
      | (ag, Inr _) \<Rightarrow> (rg\<lparr>rg_aggregator := ag\<rparr>, Inr points))"

text \<open>One turn of the loop of \<open>_run\<close>, up to its sleep.\<close>

definition run_turn :: "readings \<Rightarrow> scheduler \<times> registry \<Rightarrow> scheduler \<times> registry" where
  "run_turn r x =
     (case x of (s, rg) \<Rightarrow>
        if \<not> scheduler_is_running s then x
        else (case collect_once r s rg of
                (rg', Inl e) \<Rightarrow> (s\<lparr>sc_task := Some (Task_Failed e)\<rparr>, rg')
              | (rg', Inr _) \<Rightarrow> (s, rg')))"

section \<open>What collectors report\<close>

definition collector_names :: "string list" where
  "collector_names =
     [''process_memory_current_rss_bytes'', ''process_memory_peak_rss_bytes'', ''process_memory_tracemalloc_current_bytes'',
      ''process_memory_tracemalloc_peak_bytes'', ''gc_object_count'', ''gc_collections_total'', ''gc_collected_total'',
      ''gc_uncollectable_total'', ''thread_count_total'', ''thread_count_daemon'', ''thread_count_non_daemon'',
      ''process_cpu_user_seconds_total'', ''process_cpu_system_seconds_total'', ''cpu_logical_count'',
      ''asyncio_task_count_total'', ''asyncio_task_count_pending'', ''process_id'', ''process_open_fds'', ''process_max_fds'']"

definition plain_gauge :: "metric_point \<Rightarrow> bool" where
  "plain_gauge p \<longleftrightarrow> mp_type p = GAUGE \<and> mp_name p \<in> set collector_names"

lemma plain_gauge_point [simp]: "plain_gauge (gauge_point r name v u tg) \<longleftrightarrow> name \<in> set collector_names"
  by (simp add: plain_gauge_def gauge_point_def)

lemma collects_plain_gauges: "list_all plain_gauge (collect r c)"
proof (cases c)
  case GC_Collector
  have "list_all plain_gauge (collect_gc r)"
    by (auto simp: collect_gc_def gc_fields_def list_all_iff collector_names_def split: option.splits)
  with GC_Collector show ?thesis by simp
qed (auto simp: collect_memory_def windows_rss_points_def peak_rss_point_def current_rss_point_def tracemalloc_points_def
    collect_threads_def collect_cpu_def collect_asyncio_def collect_process_def collector_names_def Let_def split: option.splits)

lemma collect_all_plain: "p \<in> set (collect_all r cs) \<Longrightarrow> plain_gauge p"
  using collects_plain_gauges by (auto simp: collect_all_def list_all_iff)

text \<open>The threads are counted once.\<close>

lemma threads_add_up:
  "map mp_value (collect_threads r) = [t, d, n] \<Longrightarrow> t = d + n"
  by (auto simp: collect_threads_def gauge_point_def Let_def simp flip: of_nat_add)

lemma vm_rss_example: "vm_rss (splitlines_from [] (''VmPeak: 9 kB'' @ [CHR 0x0A] @ ''VmRSS:   123 kB'' @ [CHR 0x0A])) = Some 123"
  by code_simp

section \<open>Sampling never stops by itself\<close>

text \<open>No collector name is in use for anything but a gauge.\<close>

definition names_free :: "aggregator \<Rightarrow> bool" where
  "names_free a \<longleftrightarrow> (\<forall>n \<in> set collector_names. map_of (ag_types a) n \<in> {None, Some GAUGE})"

definition well_named :: "metric_point \<Rightarrow> bool" where
  "well_named p \<longleftrightarrow> (mp_name p \<in> set collector_names \<longrightarrow> mp_type p = GAUGE)"

lemma plain_is_well_named: "plain_gauge p \<Longrightarrow> well_named p"
  by (simp add: plain_gauge_def well_named_def)

lemma ingest_one_types:
  assumes "ingest_one p a = (b, x)"
  shows "ag_types b = ag_types a \<or> ag_types b = AList.update (mp_name p) (mp_type p) (ag_types a)"
  using assms by (cases "mp_type p") (auto simp: ingest_one_def Let_def split: if_splits sum.splits)

lemma ingest_one_names_free:
  assumes "names_free a" "well_named p" "ingest_one p a = (b, x)"
  shows "names_free b"
  unfolding names_free_def
proof
  fix n assume n: "n \<in> set collector_names"
  then have "map_of (ag_types a) n \<in> {None, Some GAUGE}" using assms(1) unfolding names_free_def by (rule bspec [rotated])
  with ingest_one_types [OF assms(3)] assms(2) n show "map_of (ag_types b) n \<in> {None, Some GAUGE}"
    by (cases "n = mp_name p") (auto simp: well_named_def map_of_update)
qed

lemma ingest_names_free: "names_free a \<Longrightarrow> list_all well_named ps \<Longrightarrow> ingest ps a = (b, x) \<Longrightarrow> names_free b"
proof (induction ps arbitrary: a)
  case (Cons p ps)
  obtain a1 x1 where 1: "ingest_one p a = (a1, x1)" by fastforce
  have "names_free a1" using ingest_one_names_free [OF Cons.prems(1) _ 1] Cons.prems(2) by simp
  with Cons 1 show ?case by (cases x1) auto
qed simp

lemma ingest_gauges_returns:
  "names_free a \<Longrightarrow> list_all plain_gauge ps \<Longrightarrow> \<exists>b. ingest ps a = (b, Inr ())"
proof (induction ps arbitrary: a)
  case (Cons p ps)
  have g: "plain_gauge p" using Cons.prems(2) by simp
  then have "mp_type p = GAUGE" "map_of (ag_types a) (mp_name p) \<in> {None, Some GAUGE}"
    using Cons.prems(1) by (auto simp: plain_gauge_def names_free_def)
  then obtain a1 where 1: "ingest_one p a = (a1, Inr ())" by (auto simp: ingest_one_def Let_def)
  have "names_free a1" by (rule ingest_one_names_free [OF Cons.prems(1) plain_is_well_named [OF g] 1])
  with Cons.IH Cons.prems(2) 1 show ?case by simp
qed simp

text \<open>Turns of the scheduler between the requests that complete; what recording a request raises hits that request.\<close>

datatype event = Turn readings | Completed request_profile

fun sampling_run :: "(string \<Rightarrow> request_profile \<Rightarrow> py_exc option) \<Rightarrow> event list \<Rightarrow> scheduler \<times> registry \<Rightarrow> scheduler \<times> registry" where
  "sampling_run col [] x = x"
| "sampling_run col (Turn r # es) x = sampling_run col es (run_turn r x)"
| "sampling_run col (Completed p # es) (s, rg) = sampling_run col es (s, fst (record_completed_request col p rg))"

definition sampling :: "collector list \<Rightarrow> scheduler \<times> registry \<Rightarrow> bool" where
  "sampling cs x \<longleftrightarrow> scheduler_is_running (fst x) \<and> sc_collectors (fst x) = cs \<and> names_free (rg_aggregator (snd x))"

lemma run_turn_samples:
  assumes "sampling cs x"
  shows "sampling cs (run_turn r x)
    \<and> ingest (collect_all r cs) (rg_aggregator (snd x)) = (rg_aggregator (snd (run_turn r x)), Inr ())"
proof -
  obtain s rg where x: "x = (s, rg)" by (cases x)
  have s: "scheduler_is_running s" "sc_collectors s = cs" "names_free (rg_aggregator rg)" using assms by (simp_all add: sampling_def x)
  have plain: "list_all plain_gauge (collect_all r cs)" using collect_all_plain by (auto simp: list_all_iff)
  then have named: "list_all well_named (collect_all r cs)" using plain_is_well_named by (auto simp: list_all_iff)
  obtain b where b: "ingest (collect_all r cs) (rg_aggregator rg) = (b, Inr ())"
    using ingest_gauges_returns [OF s(3) plain] by blast
  have "names_free b" by (rule ingest_names_free [OF s(3) named b])
  with b s show ?thesis by (simp add: x run_turn_def collect_once_def Let_def sampling_def)
qed

lemma record_keeps_sampling:
  assumes "sampling cs (s, rg)" "list_all well_named (rp_points p)"
  shows "sampling cs (s, fst (record_completed_request col p rg))"
proof -
  obtain ag res where i: "ingest (rp_points p) (rg_aggregator rg) = (ag, res)" by fastforce
  have "names_free ag" using ingest_names_free [OF _ assms(2) i] assms(1) by (simp add: sampling_def)
  moreover have "rg_aggregator (fst (record_completed_request col p rg)) = ag"
    by (cases res) (auto simp: record_completed_request_def i Let_def split: option.split)
  ultimately show ?thesis using assms(1) by (simp add: sampling_def)
qed

lemma sampling_run_keeps:
  "sampling cs x \<Longrightarrow> (\<forall>p. Completed p \<in> set es \<longrightarrow> list_all well_named (rp_points p)) \<Longrightarrow> sampling cs (sampling_run col es x)"
proof (induction es arbitrary: x)
  case (Cons e es)
  show ?case
  proof (cases e)
    case (Turn r)
    with Cons run_turn_samples show ?thesis by simp
  next
    case (Completed p)
    obtain s rg where x: "x = (s, rg)" by (cases x)
    have "sampling cs (s, fst (record_completed_request col p rg))"
      using record_keeps_sampling Cons.prems Completed x by simp
    with Cons.IH Cons.prems(2) Completed x show ?thesis by simp
  qed
qed simp

lemma sampling_run_append: "sampling_run col (es @ fs) x = sampling_run col fs (sampling_run col es x)"
  by (induction col es x rule: sampling_run.induct) auto

text \<open>
  As long as requests use the collectors' metric names for gauges only, the scheduler never stops by
  itself, whatever sources are missing and whatever recording the requests raises; and after each turn every
  gauge of a collector has the value just read.
\<close>

theorem sampling_never_stops:
  assumes "sampling cs x" "\<And>p. Completed p \<in> set es \<Longrightarrow> list_all well_named (rp_points p)"
    and "(s', rg') = sampling_run col (es @ [Turn r]) x"
  shows "scheduler_is_running s'
    \<and> (\<forall>p \<in> set (collect_all r cs). gauge_value (rg_aggregator rg') (point_key p)
         = Some (mp_value (last (points_of {GAUGE} (point_key p) (collect_all r cs)))))"
proof -
  let ?x = "sampling_run col es x"
  have "sampling cs ?x" by (rule sampling_run_keeps) (use assms(1,2) in blast)+
  from run_turn_samples [OF this, of r]
  have run: "sampling cs (s', rg')" "ingest (collect_all r cs) (rg_aggregator (snd ?x)) = (rg_aggregator rg', Inr ())"
    using assms(3) by (metis sampling_run_append sampling_run.simps(1,2) snd_conv)+
  have "points_of {GAUGE} (point_key p) (collect_all r cs) \<noteq> []" if "p \<in> set (collect_all r cs)" for p
    using collect_all_plain [OF that] that by (auto simp: points_of_def filter_empty_conv plain_gauge_def)
  with ingest_values(2) [OF run(2)] have "\<forall>p \<in> set (collect_all r cs). gauge_value (rg_aggregator rg') (point_key p)
      = Some (mp_value (last (points_of {GAUGE} (point_key p) (collect_all r cs))))" by simp
  with run(1) show ?thesis by (simp add: sampling_def)
qed

definition bare_host :: readings where
  "bare_host = \<lparr>rd_clock = (\<lambda>_ _. 0), rd_windows = False, rd_working_set = None, rd_maxrss = None, rd_darwin = False,
     rd_proc_status = None, rd_traced = None, rd_gc_count = [], rd_gc_stats = [], rd_daemon = [True, False], rd_times = (1, 2),
     rd_cpu_count = None, rd_tasks_done = None, rd_pid = 7, rd_open_fds = None, rd_max_fds = None\<rparr>"

theorem sampling_never_stops_witness:
  "\<exists>s' rg'. (s', rg') = sampling_run (\<lambda>_ _. None) ([Completed (profile_of ''a'' [])] @ [Turn bare_host])
        (\<lparr>sc_collectors = [Process_Collector], sc_task = Some Task_Running\<rparr>, perf_registry_new 2)
     \<and> scheduler_is_running s' \<and> gauge_value (rg_aggregator rg') (''process_id'', []) = Some 7"
proof -
  let ?x = "(\<lparr>sc_collectors = [Process_Collector], sc_task = Some Task_Running\<rparr>, perf_registry_new 2)"
  obtain s' rg' where e: "(s', rg') = sampling_run (\<lambda>_ _. None) ([Completed (profile_of ''a'' [])] @ [Turn bare_host]) ?x"
    by (metis surj_pair)
  have x: "sampling [Process_Collector] ?x"
    by (simp add: sampling_def scheduler_is_running_def names_free_def perf_registry_new_def aggregator_new_def)
  have c: "collect_all bare_host [Process_Collector] = [gauge_point bare_host ''process_id'' 7 COUNT []]"
    by (simp add: collect_all_def collect_process_def bare_host_def)
  have "point_key (gauge_point bare_host ''process_id'' 7 COUNT []) = (''process_id'', [])"
    by (simp add: gauge_point_def metric_key_def)
  with sampling_never_stops [OF x _ e] e show ?thesis
    by (auto simp: c profile_of_def points_of_def gauge_point_def)
qed

text \<open>One request that counts under such a name ends the sampling for good, and \<open>stop()\<close> raises instead of stopping.\<close>

lemma misnamed_counter_ends_sampling:
  "case run_turn bare_host (\<lparr>sc_collectors = [Process_Collector], sc_task = Some Task_Running\<rparr>,
      fst (record_completed_request (\<lambda>_ _. None) (profile_of ''a'' [point ''process_id'' COUNTER 1]) (perf_registry_new 2))) of
     (s, rg) \<Rightarrow> \<not> scheduler_is_running s \<and> (\<exists>e. scheduler_stop s = (s, Inl (MetricStateError e)))"
  by (simp add: run_turn_def collect_once_def collect_all_def collect_process_def bare_host_def gauge_point_def scheduler_is_running_def
      scheduler_stop_def record_completed_request_def profile_of_def point_def ingest_one_def perf_registry_new_def aggregator_new_def
      counter_for_def counter_increment_def metric_key_def Let_def)

end
