(* ===== verification/Service_Cleanup.thy ===== *)
theory Service_Cleanup
  imports Observability Result_Cache Service_Db
begin

text \<open>
  \<open>src/core/service_registry.py\<close>: the periodic cleanup of the service database and its statistics, over the
  tables of \<open>Service_Db\<close>, \<open>Observability\<close> and \<open>Result_Cache\<close>.
\<close>

record tables =
  tb_users :: service_db
  tb_obs :: obs_tables
  tb_results :: result_table

text \<open>The three readings of the clock, and which of the four statements raises.\<close>

record cleanup_env =
  ce_now_cache :: int
  ce_now_logs :: int
  ce_now_traces :: int
  ce_raises :: "nat \<Rightarrow> bool"

definition thirty_days :: int where "thirty_days = 30 * 24 * 60 * 60"

definition seven_days :: int where "seven_days = 7 * 24 * 60 * 60"

definition delete_old_logs :: "int \<Rightarrow> tables \<Rightarrow> tables" where
  "delete_old_logs now s =
     s\<lparr>tb_obs := (tb_obs s)\<lparr>logs := filter (\<lambda>r. \<not> l_timestamp r < now - thirty_days) (logs (tb_obs s))\<rparr>\<rparr>"

definition delete_old_traces :: "int \<Rightarrow> tables \<Rightarrow> tables" where
  "delete_old_traces now s =
     s\<lparr>tb_obs := (tb_obs s)\<lparr>traces := filter (\<lambda>r. \<not> t_start_time r < (now - seven_days) * 1000000) (traces (tb_obs s))\<rparr>\<rparr>"

text \<open>Every statement commits by itself; the first that raises ends the cleanup, and \<open>VACUUM\<close> changes no row.\<close>

definition cleanup :: "cleanup_env \<Rightarrow> tables \<Rightarrow> tables" where
  "cleanup e s =
     (if ce_raises e 0 then s
      else (let s1 = s\<lparr>tb_results := fst (cleanup_expired_cache (ce_now_cache e) (tb_results s))\<rparr> in
        if ce_raises e 1 then s1
        else (let s2 = delete_old_logs (ce_now_logs e) s1 in
          if ce_raises e 2 then s2 else delete_old_traces (ce_now_traces e) s2)))"

text \<open>The statistics: one count per table, and the size of the file, 0 when it cannot be read.\<close>

definition database_stats :: "nat option \<Rightarrow> tables \<Rightarrow> (string \<times> nat) list" where
  "database_stats file_size s =
     [(''api_keys_count'', length (api_keys (tb_users s))), (''users_count'', length (users (tb_users s))),
      (''logs_count'', length (logs (tb_obs s))), (''traces_count'', length (traces (tb_obs s))),
      (''query_cache_count'', length (tb_results s)), (''audit_log_count'', length (audit_log (tb_obs s))),
      (''db_size_bytes'', (case file_size of None \<Rightarrow> 0 | Some n \<Rightarrow> n))]"

definition service_stats :: "nat option \<Rightarrow> bool \<Rightarrow> int \<Rightarrow> tables \<Rightarrow> (string \<times> nat) list \<times> result_cache_stats option" where
  "service_stats file_size fails now s = (database_stats file_size s, get_cache_stats fails now (tb_results s))"

section \<open>What readers see\<close>

lemma find_filter: "(\<And>x. P x \<Longrightarrow> Q x) \<Longrightarrow> find P (filter Q xs) = find P xs"
  by (induction xs) auto

lemma filter_filter_implied: "(\<And>x. P x \<Longrightarrow> Q x) \<Longrightarrow> filter P (filter Q xs) = filter P xs"
  by (induction xs) auto

lemma cleanup_cases:
  obtains
    "cleanup e s = s"
  | "cleanup e s = s\<lparr>tb_results := fst (cleanup_expired_cache (ce_now_cache e) (tb_results s))\<rparr>"
  | "cleanup e s = delete_old_logs (ce_now_logs e) (s\<lparr>tb_results := fst (cleanup_expired_cache (ce_now_cache e) (tb_results s))\<rparr>)"
  | "cleanup e s = delete_old_traces (ce_now_traces e)
       (delete_old_logs (ce_now_logs e) (s\<lparr>tb_results := fst (cleanup_expired_cache (ce_now_cache e) (tb_results s))\<rparr>))"
  by (cases "ce_raises e 0"; cases "ce_raises e 1"; cases "ce_raises e 2") (auto simp: cleanup_def Let_def)

lemma expired_never_read:
  "now \<le> later \<Longrightarrow> get_cached_result fails key later (fst (cleanup_expired_cache now t)) = get_cached_result fails key later t"
  unfolding get_cached_result_def cleanup_expired_cache_def Let_def fst_conv
  by (subst find_filter) (auto simp: row_live_def split: option.splits)

lemma old_logs_never_read:
  "now - thirty_days \<le> lf_start_time f \<Longrightarrow> lf_start_time f \<noteq> 0
     \<Longrightarrow> get_logs fails limit offset f (tb_obs (delete_old_logs now s)) = get_logs fails limit offset f (tb_obs s)"
proof -
  assume f: "now - thirty_days \<le> lf_start_time f" "lf_start_time f \<noteq> 0"
  have "filter (log_matches f) (filter (\<lambda>r. \<not> l_timestamp r < now - thirty_days) (logs (tb_obs s)))
      = filter (log_matches f) (logs (tb_obs s))"
    by (rule filter_filter_implied) (use f in \<open>auto simp: log_matches_def since_def\<close>)
  then show ?thesis by (simp add: get_logs_def delete_old_logs_def)
qed

lemma old_traces_never_read:
  "now - seven_days \<le> tf_start_time f \<Longrightarrow> tf_start_time f \<noteq> 0
     \<Longrightarrow> get_traces fails limit offset f (tb_obs (delete_old_traces now s)) = get_traces fails limit offset f (tb_obs s)"
proof -
  assume f: "now - seven_days \<le> tf_start_time f" "tf_start_time f \<noteq> 0"
  have "filter (trace_matches f) (filter (\<lambda>r. \<not> t_start_time r < (now - seven_days) * 1000000) (traces (tb_obs s)))
      = filter (trace_matches f) (traces (tb_obs s))"
    by (rule filter_filter_implied) (use f in \<open>auto simp: trace_matches_def since_def\<close>)
  then show ?thesis by (simp add: get_traces_def delete_old_traces_def)
qed

lemma untouched [simp]:
  "tb_users (delete_old_logs now s) = tb_users s" "tb_users (delete_old_traces now s) = tb_users s"
  "tb_results (delete_old_logs now s) = tb_results s" "tb_results (delete_old_traces now s) = tb_results s"
  "audit_log (tb_obs (delete_old_logs now s)) = audit_log (tb_obs s)"
  "audit_log (tb_obs (delete_old_traces now s)) = audit_log (tb_obs s)"
  "get_logs fails limit offset f (tb_obs (delete_old_traces now s)) = get_logs fails limit offset f (tb_obs s)"
  "get_traces fails limit offset g (tb_obs (delete_old_logs now s)) = get_traces fails limit offset g (tb_obs s)"
  by (simp_all add: delete_old_logs_def delete_old_traces_def get_logs_def get_traces_def)

text \<open>
  C37.  Wherever the cleanup stops, nobody sees it who asks for what is kept: a cached result reads the same
  from the time of the cleanup on, a page of the log of the last thirty days and a page of the traces of the
  last seven days are the same, and the audit trail, users and keys are untouched.
\<close>

theorem cleanup_keeps_what_is_read:
  assumes "ce_now_cache e \<le> later"
    and "ce_now_logs e - thirty_days \<le> lf_start_time f" "lf_start_time f \<noteq> 0"
    and "ce_now_traces e - seven_days \<le> tf_start_time g" "tf_start_time g \<noteq> 0"
  shows "get_cached_result fails key later (tb_results (cleanup e s)) = get_cached_result fails key later (tb_results s)
    \<and> get_logs fails limit offset f (tb_obs (cleanup e s)) = get_logs fails limit offset f (tb_obs s)
    \<and> get_traces fails limit offset g (tb_obs (cleanup e s)) = get_traces fails limit offset g (tb_obs s)
    \<and> audit_log (tb_obs (cleanup e s)) = audit_log (tb_obs s) \<and> tb_users (cleanup e s) = tb_users s"
  using expired_never_read [OF assms(1)] old_logs_never_read [OF assms(2,3)] old_traces_never_read [OF assms(4,5)]
  by (cases rule: cleanup_cases [of e s]) simp_all

definition some_tables :: tables where
  "some_tables = \<lparr>tb_users = \<lparr>users = [], api_keys = []\<rparr>,
     tb_obs = \<lparr>logs = [], traces = [], audit_log = [], last_log_id = 0, last_audit_id = 0\<rparr>,
     tb_results = [\<lparr>rr_cache_key = ''k'', rr_query_hash = [], rr_query_sql = [], rr_result_data = [], rr_result_count = 0,
       rr_created_at = 0, rr_expires_at = Some 5, rr_last_accessed_at = None, rr_access_count = 0, rr_user_id = [],
       rr_session_id = [], rr_execution_time_ms = 0, rr_result_size_bytes = 0\<rparr>]\<rparr>"

definition all_raise_but_first :: cleanup_env where
  "all_raise_but_first = \<lparr>ce_now_cache = 7, ce_now_logs = 8, ce_now_traces = 9, ce_raises = (\<lambda>n. n \<noteq> 0)\<rparr>"

theorem cleanup_keeps_what_is_read_witness:
  "tb_results (cleanup all_raise_but_first some_tables) = []
   \<and> get_cached_result False ''k'' 7 (tb_results (cleanup all_raise_but_first some_tables))
       = get_cached_result False ''k'' 7 (tb_results some_tables)"
proof -
  let ?f = "\<lparr>lf_level = [], lf_user_id = [], lf_request_id = [], lf_start_time = 8, lf_end_time = 0\<rparr>"
  let ?g = "\<lparr>tf_service_name = [], tf_operation_name = [], tf_user_id = [], tf_request_id = [], tf_start_time = 9,
      tf_end_time = 0, tf_status = []\<rparr>"
  have "tb_results (cleanup all_raise_but_first some_tables) = []"
    by (simp add: cleanup_def all_raise_but_first_def some_tables_def cleanup_expired_cache_def)
  moreover have "get_cached_result False ''k'' 7 (tb_results (cleanup all_raise_but_first some_tables))
      = get_cached_result False ''k'' 7 (tb_results some_tables)"
    by (rule conjunct1 [OF cleanup_keeps_what_is_read [of all_raise_but_first 7 ?f ?g]])
      (simp_all add: all_raise_but_first_def thirty_days_def seven_days_def)
  ultimately show ?thesis by blast
qed

end
