(* ===== verification/Auth_Models.thy ===== *)
theory Auth_Models
  imports Auth
begin

text \<open>
  \<open>src/core/auth/models.py\<close>: the bodies of the authentication routes.  A body that does not validate is
  answered with 422 before the route runs; only the text of the message is left out.
\<close>

section \<open>Bodies\<close>

record api_key_create =
  akc_owner_id :: string
  akc_scopes :: "string option"
  akc_expires_at :: "int option"

definition expires_at_must_be_future :: "seconds \<Rightarrow> int option \<Rightarrow> int option result" where
  "expires_at_must_be_future now v =
     (case v of
        None \<Rightarrow> Inr v
      | Some n \<Rightarrow> if n \<le> \<lfloor>now\<rfloor> then Inl (ValueError ''expires_at must be a future Unix timestamp'') else Inr v)"

definition api_key_create_validated :: "seconds \<Rightarrow> api_key_create \<Rightarrow> api_key_create result" where
  "api_key_create_validated now b =
     (case expires_at_must_be_future now (akc_expires_at b) of Inl e \<Rightarrow> Inl e | Inr _ \<Rightarrow> Inr b)"

record user_create =
  uc_username :: string
  uc_email :: string
  uc_password :: string
  uc_role :: string

definition user_create_validated :: "user_create \<Rightarrow> user_create result" where
  "user_create_validated b =
     (if length (uc_password b) < 8 then Inl (ValueError ''String should have at least 8 characters'') else Inr b)"

record user_role_update =
  uru_role :: string

definition role_must_be_known :: "string \<Rightarrow> string result" where
  "role_must_be_known v = (if v \<notin> {''user'', ''admin''} then Inl (ValueError ''role must be one of admin, user'') else Inr v)"

record user_login =
  ul_username :: string
  ul_password :: string

text \<open>Answers.\<close>

record api_key_response =
  akr_key_id :: string
  akr_api_key :: string
  akr_owner_id :: string
  akr_created_at :: int
  akr_expires_at :: "int option"
  akr_scopes :: "string option"
  akr_is_active :: bool

record api_key_list_response =
  akl_keys :: "key_info list"
  akl_count :: nat

record key_status_response =
  aks_key_id :: string
  aks_message :: string

record user_list_response =
  ulr_users :: "user_response list"
  ulr_count :: nat

record auth_response =
  ar_success :: bool
  ar_user :: "user_response option"
  ar_token :: "string option"
  ar_message :: string

section \<open>Routes behind their bodies\<close>

definition unprocessable :: py_exc where
  "unprocessable = HTTPException 422 []"

definition post_key ::
  "auth_env \<Rightarrow> bool \<Rightarrow> seconds \<Rightarrow> identity \<Rightarrow> string \<Rightarrow> string \<Rightarrow> int \<Rightarrow> api_key_create \<Rightarrow> auth_state \<Rightarrow> auth_state \<times> api_key_response result" where
  "post_key env fails now who key key_id created b s =
     (case api_key_create_validated now b of
        Inl _ \<Rightarrow> (s, Inl unprocessable)
      | Inr b \<Rightarrow>
          (case route_create_key env fails who key key_id created (akc_owner_id b) (akc_scopes b) (akc_expires_at b) s of
             (s', Inl e) \<Rightarrow> (s', Inl e)
           | (s', Inr (i, raw)) \<Rightarrow>
               (s', Inr \<lparr>akr_key_id = ki_key_id i, akr_api_key = raw, akr_owner_id = ki_owner_id i, akr_created_at = ki_created_at i,
                  akr_expires_at = ki_expires_at i, akr_scopes = ki_scopes i, akr_is_active = ki_is_active i\<rparr>)))"

definition post_user ::
  "auth_env \<Rightarrow> bool \<Rightarrow> string \<Rightarrow> seconds \<Rightarrow> string \<Rightarrow> string \<Rightarrow> int \<Rightarrow> user_create \<Rightarrow> auth_state \<Rightarrow> auth_state \<times> user_response result" where
  "post_user env fails ip mt salt user_id now b s =
     (case user_create_validated b of
        Inl _ \<Rightarrow> (s, Inl unprocessable)
      | Inr b \<Rightarrow> route_register env fails ip mt salt user_id now (uc_username b) (uc_email b) (uc_password b) s)"

definition put_role ::
  "bool \<Rightarrow> bool \<Rightarrow> bool \<Rightarrow> bool \<Rightarrow> identity \<Rightarrow> string \<Rightarrow> user_role_update \<Rightarrow> seconds \<Rightarrow> auth_state \<Rightarrow> auth_state \<times> user_response result" where
  "put_role f1 f2 f3 f4 who uid b now s =
     (case role_must_be_known (uru_role b) of
        Inl _ \<Rightarrow> (s, Inl unprocessable) | Inr role \<Rightarrow> route_update_role f1 f2 f3 f4 who uid role now s)"

section \<open>What the bodies guarantee\<close>

text \<open>A key that was handed out is not expired at its creation; whoever registers is a plain user.\<close>

lemma posted_key_is_live:
  assumes "post_key env fails now who key key_id created b s = (s', Inr r)"
  shows "akr_expires_at r = None \<or> (\<exists>e. akr_expires_at r = Some e \<and> \<lfloor>now\<rfloor> < e)"
  using assms
  by (cases "akc_expires_at b")
    (auto simp: post_key_def api_key_create_validated_def expires_at_must_be_future_def route_create_key_def create_api_key_def
      split: sum.splits prod.splits if_splits)

lemma posted_user_is_plain:
  assumes "post_user env fails ip mt salt user_id now b s = (s', Inr r)"
  shows "ur_role r = ''user'' \<and> 8 \<le> length (uc_password b)"
  using assms
  by (auto simp: post_user_def user_create_validated_def route_register_def split: if_splits sum.splits prod.splits bool.splits)

lemma unknown_role_changes_nothing:
  "uru_role b \<notin> {''user'', ''admin''} \<Longrightarrow> put_role f1 f2 f3 f4 who uid b now s = (s, Inl unprocessable)"
  by (simp add: put_role_def role_must_be_known_def)

end
