(* ===== verification/Bootstrap_Admin.thy ===== *)
theory Bootstrap_Admin
  imports Auth_Models App_Settings
begin

text \<open>
  \<open>src/bootstrap_admin.py\<close>: the command that gives a deployment its first administrator and the first API
  key, on the rows of \<open>Service_Db\<close>.  The parsed command line is a record; what the process reads, draws and
  measures, the hash functions and the database calls that fail are another.
\<close>

section \<open>The command\<close>

record bootstrap_args =
  ba_username :: string
  ba_email :: string
  ba_password :: "string option"
  ba_promote_existing :: bool
  ba_skip_api_key :: bool
  ba_scopes :: "string option"

record bootstrap_env =
  be_environment :: environment
  be_prompts :: "string \<times> string"     \<comment> \<open>the password and its confirmation\<close>
  be_id_time :: int
  be_user_time :: int
  be_key_time :: int
  be_token :: string
  be_salt :: string
  be_key :: string
  be_key_id :: string
  be_sha :: "string \<Rightarrow> string"
  be_pbkdf2 :: "string \<Rightarrow> string \<Rightarrow> string"
  be_get_fails :: bool
  be_update_fails :: bool
  be_create_fails :: bool
  be_key_fails :: bool

text \<open>The script ends with status 1 after a message, or normally, having printed a key unless told not to.\<close>

datatype bootstrap_end = Exit1 string | Finished "string option"

text \<open>\<open>_read_password\<close>: an empty option or variable counts as none.\<close>

definition read_password :: "string option \<Rightarrow> environment \<Rightarrow> string \<times> string \<Rightarrow> string + string" where
  "read_password cli_password env prompts =
     (if cli_password \<notin> {None, Some []} then Inr (py_or_str cli_password [])
      else if env ''ADMIN_BOOTSTRAP_PASSWORD'' \<notin> {None, Some []}
        then Inr (py_or_str (env ''ADMIN_BOOTSTRAP_PASSWORD'') [])
      else if fst prompts \<noteq> snd prompts then Inl ''Error: passwords do not match.''
      else Inr (fst prompts))"

text \<open>The inner \<open>issue_api_key\<close>: the key that creation returns is printed, stored or not.\<close>

definition issue_api_key :: "bootstrap_env \<Rightarrow> bootstrap_args \<Rightarrow> string \<Rightarrow> service_db \<Rightarrow> service_db \<times> string option" where
  "issue_api_key be ba owner db =
     (if ba_skip_api_key ba then (db, None)
      else (case create_api_key (be_sha be) (be_key_fails be) (be_key be) (be_key_id be) (be_key_time be) owner
                   (ba_scopes ba) None db of
              (db', _, raw) \<Rightarrow> (db', Some raw)))"

definition bootstrap_user_id :: "bootstrap_env \<Rightarrow> string" where
  "bootstrap_user_id be = ''user_'' @ string_of_int (be_id_time be) @ ''_'' @ be_token be"

text \<open>What \<open>main\<close> does with a validated body on the connected database; a refused salt raises.\<close>

definition bootstrap_validated :: "bootstrap_env \<Rightarrow> bootstrap_args \<Rightarrow> user_create \<Rightarrow> service_db \<Rightarrow> service_db \<times> bootstrap_end result" where
  "bootstrap_validated be ba v db =
     (case get_user_by_username (be_get_fails be) (uc_username v) db of
        Some existing \<Rightarrow>
          if \<not> ba_promote_existing ba then (db, Inr (Exit1 ''Error: user already exists.''))
          else (case update_user_role_row (be_update_fails be) (u_user_id existing) ''admin'' (be_user_time be) db of
                  (db1, False) \<Rightarrow> (db1, Inr (Exit1 ''Error: failed to update role.''))
                | (db1, True) \<Rightarrow>
                    (case issue_api_key be ba (u_user_id existing) db1 of (db2, k) \<Rightarrow> (db2, Inr (Finished k))))
      | None \<Rightarrow>
          (case hash_password (be_pbkdf2 be) (be_salt be) (uc_password v) None of
             Inl e \<Rightarrow> (db, Inl e)
           | Inr h \<Rightarrow>
               (case create_user_row (be_create_fails be) (bootstrap_user_id be) (uc_username v) (uc_email v) h
                       ''admin'' (be_user_time be) db of
                  (db1, False) \<Rightarrow> (db1, Inr (Exit1 ''Error: failed to create user.''))
                | (db1, True) \<Rightarrow>
                    (case issue_api_key be ba (bootstrap_user_id be) db1 of (db2, k) \<Rightarrow> (db2, Inr (Finished k))))))"

definition bootstrap :: "bootstrap_env \<Rightarrow> bootstrap_args \<Rightarrow> service_db \<Rightarrow> service_db \<times> bootstrap_end result" where
  "bootstrap be ba db =
     (case read_password (ba_password ba) (be_environment be) (be_prompts be) of
        Inl message \<Rightarrow> (db, Inr (Exit1 message))
      | Inr password \<Rightarrow>
          (case user_create_validated \<lparr>uc_username = ba_username ba, uc_email = ba_email ba, uc_password = password,
                  uc_role = ''admin''\<rparr> of
             Inl e \<Rightarrow> (db, Inr (Exit1 ''Error: invalid input''))
           | Inr v \<Rightarrow> bootstrap_validated be ba v db))"

section \<open>What it changes\<close>

text \<open>The rows of a run that finishes: the account made or promoted, and the key.\<close>

definition promoted :: "bootstrap_env \<Rightarrow> user_row \<Rightarrow> user_row" where
  "promoted be u = u\<lparr>u_roles := ''admin'', u_updated_at := be_user_time be\<rparr>"

definition bootstrap_key_row :: "bootstrap_env \<Rightarrow> bootstrap_args \<Rightarrow> string \<Rightarrow> key_row" where
  "bootstrap_key_row be ba owner = \<lparr>k_key_id = be_key_id be, k_api_key_hash = be_sha be (be_key be), k_owner_id = owner,
     k_created_at = be_key_time be, k_expires_at = None, k_scopes = ba_scopes ba, k_is_active = True,
     k_last_used_at = None, k_usage_count = 0\<rparr>"

lemma issue_api_key_effect:
  assumes "issue_api_key be ba owner db = (db', k)"
  shows "users db' = users db"
    "k = (if ba_skip_api_key ba then None else Some (be_key be))"
    "api_keys db' = (if ba_skip_api_key ba \<or> be_key_fails be \<or> (\<exists>r \<in> set (api_keys db). k_key_id r = be_key_id be)
       then api_keys db else api_keys db @ [bootstrap_key_row be ba owner])"
  using assms
  by (auto simp: issue_api_key_def create_api_key_def create_api_key_row_def bootstrap_key_row_def split: if_splits)

lemma update_role_effect:
  assumes "db_inv db" "u \<in> set (users db)"
  shows "set (users (fst (update_user_role_row False (u_user_id u) ''admin'' (be_user_time be) db)))
     = set (users db) - {u} \<union> {promoted be u}"
proof -
  have inj: "inj_on u_user_id (set (users db))" using assms(1) by (simp add: db_inv_def distinct_map)
  let ?f = "\<lambda>r. if u_user_id r = u_user_id u then promoted be r else r"
  have "?f ` set (users db) = ?f ` (set (users db) - {u}) \<union> {promoted be u}" using assms(2) by auto
  also have "?f ` (set (users db) - {u}) = id ` (set (users db) - {u})"
    using inj_onD [OF inj _ _ assms(2)] by (intro image_cong) auto
  finally show ?thesis by (simp add: update_user_role_row_def promoted_def)
qed

text \<open>How a run ends: it changes nothing, or it finishes with one account an administrator.\<close>

lemma bootstrap_cases:
  assumes "db_inv db" "bootstrap be ba db = (db', r)"
  obtains
    (nothing) "db' = db" "r \<notin> Inr ` range Finished"
  | (promotes) u k where "ba_promote_existing ba" "u \<in> set (users db)" "u_username u = ba_username ba"
      "set (users db') = set (users db) - {u} \<union> {promoted be u}"
      "issue_api_key be ba (u_user_id u) (fst (update_user_role_row False (u_user_id u) ''admin'' (be_user_time be) db)) = (db', k)"
      "r = Inr (Finished k)"
  | (creates) u k where "u \<notin> set (users db)" "u_username u = ba_username ba" "u_user_id u = bootstrap_user_id be"
      "u_roles u = ''admin''" "\<forall>w \<in> set (users db). u_username w \<noteq> ba_username ba"
      "users db' = users db @ [u]"
      "issue_api_key be ba (u_user_id u) (db\<lparr>users := users db @ [u]\<rparr>) = (db', k)" "r = Inr (Finished k)"
proof (cases "r \<in> Inr ` range Finished")
  case False
  then have "db' = db"
    using assms(2)
    by (auto simp: bootstrap_def bootstrap_validated_def update_user_role_row_def create_user_row_def
        split: sum.splits option.splits if_splits prod.splits bool.splits)
  then show ?thesis using False by (rule nothing)
next
  case True
  then obtain pw where b: "bootstrap_validated be ba \<lparr>uc_username = ba_username ba, uc_email = ba_email ba,
      uc_password = pw, uc_role = ''admin''\<rparr> db = (db', r)"
    using assms(2) by (auto simp: bootstrap_def user_create_validated_def split: sum.splits if_splits)
  show ?thesis
  proof (cases "get_user_by_username (be_get_fails be) (ba_username ba) db")
    case (Some u)
    then have u: "u \<in> set (users db)" "u_username u = ba_username ba"
      by (auto simp: get_user_by_username_def find_Some_iff split: if_splits)
    from b Some True have p: "ba_promote_existing ba" "\<not> be_update_fails be"
      by (auto simp: bootstrap_validated_def update_user_role_row_def split: if_splits)
    let ?db1 = "fst (update_user_role_row False (u_user_id u) ''admin'' (be_user_time be) db)"
    obtain k where i: "issue_api_key be ba (u_user_id u) ?db1 = (db', k)" "r = Inr (Finished k)"
      using b Some p by (auto simp: bootstrap_validated_def update_user_role_row_def split: prod.splits)
    have "set (users db') = set (users db) - {u} \<union> {promoted be u}"
      using issue_api_key_effect(1) [OF i(1)] update_role_effect [OF assms(1) u(1)] by simp
    then show ?thesis using p u i by (intro promotes)
  next
    case None
    then obtain h where h: "hash_password (be_pbkdf2 be) (be_salt be) pw None = Inr h"
      using b True by (auto simp: bootstrap_validated_def split: sum.splits)
    define u where "u = \<lparr>u_user_id = bootstrap_user_id be, u_username = ba_username ba, u_email = ba_email ba,
      u_password_hash = h, u_roles = ''admin'', u_is_active = True, u_created_at = be_user_time be,
      u_updated_at = be_user_time be, u_last_login_at = None, u_login_count = 0\<rparr>"
    have new: "\<forall>w \<in> set (users db). u_username w \<noteq> ba_username ba \<and> u_user_id w \<noteq> bootstrap_user_id be"
      and i: "\<exists>k. issue_api_key be ba (u_user_id u) (db\<lparr>users := users db @ [u]\<rparr>) = (db', k) \<and> r = Inr (Finished k)"
      using b None h True
      by (auto simp: bootstrap_validated_def create_user_row_def u_def split: if_splits prod.splits)
    then obtain k where k: "issue_api_key be ba (u_user_id u) (db\<lparr>users := users db @ [u]\<rparr>) = (db', k)"
      "r = Inr (Finished k)" by blast
    show ?thesis
      using new k issue_api_key_effect(1) [OF k(1)] by (intro creates [of u k]) (auto simp: u_def)
  qed
qed

lemma bootstrap_inv [inv_intros]:
  assumes "db_inv db"
  shows "db_inv (fst (bootstrap be ba db))"
proof -
  have issue: "db_inv (fst (issue_api_key be ba owner d))" if "db_inv d" for owner d
    using db_inv_ops(1) [OF that] that by (auto simp: issue_api_key_def create_api_key_def)
  have user: "db_inv (fst (bootstrap_validated be ba v db))" for v
    using issue [OF db_inv_ops(4) [OF assms]] issue [OF db_inv_ops(5) [OF assms]] db_inv_ops(4,5) [OF assms] assms
    by (auto simp: bootstrap_validated_def split: option.splits sum.splits prod.splits bool.splits) (metis fst_conv)+
  then show ?thesis using assms by (auto simp: bootstrap_def split: sum.splits)
qed

lemma admin_role: "u_roles u = ''admin'' \<Longrightarrow> primary_role u = ''admin''"
  by (simp add: primary_role_def first_role_def)

text \<open>
  C21.  Every other account keeps its row and the named one its identity, email and password; no key is
  removed; a run that does not finish changes nothing, and one that finishes leaves exactly one more
  administrator at most, who is the named account.
\<close>

theorem bootstrap_touches_only_named_account:
  assumes "db_inv db" "bootstrap be ba db = (db', r)"
  shows "(\<forall>u \<in> set (users db). u_username u \<noteq> ba_username ba \<longrightarrow> u \<in> set (users db'))
    \<and> (\<forall>u \<in> set (users db). \<exists>u' \<in> set (users db'). u_user_id u' = u_user_id u \<and> u_username u' = u_username u
         \<and> u_email u' = u_email u \<and> u_password_hash u' = u_password_hash u)
    \<and> (\<forall>u' \<in> set (users db') - set (users db). u_username u' = ba_username ba \<and> u_roles u' = ''admin'')
    \<and> set (api_keys db) \<subseteq> set (api_keys db')
    \<and> (case r of Inr (Finished k) \<Rightarrow>
           \<exists>u. u \<in> set (users db') \<and> u_username u = ba_username ba \<and> u_roles u = ''admin'' \<and> admins db' = insert (u_user_id u) (admins db)
       | _ \<Rightarrow> db' = db)"
  using assms
proof (cases rule: bootstrap_cases)
  case nothing
  then show ?thesis by (auto split: sum.splits bootstrap_end.splits)
next
  case (promotes u k)
  note api = issue_api_key_effect(3) [OF promotes(5)]
  have keep: "u_user_id (promoted be u) = u_user_id u" "u_username (promoted be u) = u_username u"
    "u_email (promoted be u) = u_email u" "u_password_hash (promoted be u) = u_password_hash u"
    "u_roles (promoted be u) = ''admin''" by (simp_all add: promoted_def)
  have "admins db' = insert (u_user_id u) (admins db)"
  proof -
    let ?A = "{w \<in> set (users db). primary_role w = ''admin''}"
    have "admins db' = u_user_id ` (?A - {u} \<union> {promoted be u})"
      unfolding admins_def promotes(4) using admin_role [OF keep(5)] by auto
    also have "\<dots> = insert (u_user_id u) (u_user_id ` ?A)" using keep(1) by auto
    finally show ?thesis by (auto simp: admins_def)
  qed
  moreover have "set (api_keys db) \<subseteq> set (api_keys db')" using api by (auto simp: update_user_role_row_def)
  ultimately show ?thesis using promotes keep by auto
next
  case (creates u k)
  note api = issue_api_key_effect(3) [OF creates(7)]
  have "admins db' = insert (u_user_id u) (admins db)"
    unfolding admins_def creates(6) using creates(4) admin_role by auto
  moreover have "set (api_keys db) \<subseteq> set (api_keys db')" using api by auto
  ultimately show ?thesis using creates by auto
qed

definition demo_boot :: bootstrap_env where
  "demo_boot = \<lparr>be_environment = Map.empty(''ADMIN_BOOTSTRAP_PASSWORD'' \<mapsto> ''long enough''), be_prompts = ([], []),
     be_id_time = 7, be_user_time = 7, be_key_time = 7, be_token = ''ab'', be_salt = ''a1'', be_key = ''K'',
     be_key_id = ''key_7'', be_sha = id, be_pbkdf2 = (\<lambda>p s. p @ s), be_get_fails = False, be_update_fails = False,
     be_create_fails = False, be_key_fails = False\<rparr>"

definition demo_args :: bootstrap_args where
  "demo_args = \<lparr>ba_username = ''bob'', ba_email = ''b@x'', ba_password = None, ba_promote_existing = False,
     ba_skip_api_key = False, ba_scopes = None\<rparr>"

definition demo_bob :: user_row where
  "demo_bob = \<lparr>u_user_id = ''user_7_ab'', u_username = ''bob'', u_email = ''b@x'',
     u_password_hash = ''a1$long enougha1'', u_roles = ''admin'', u_is_active = True, u_created_at = 7, u_updated_at = 7,
     u_last_login_at = None, u_login_count = 0\<rparr>"

lemma demo_bootstrap:
  "bootstrap demo_boot demo_args (a_db demo_state)
   = (\<lparr>users = [demo_admin, demo_bob], api_keys = [demo_row, bootstrap_key_row demo_boot demo_args ''user_7_ab'']\<rparr>,
      Inr (Finished (Some ''K'')))"
  by code_simp

lemma demo_state_inv: "db_inv (a_db demo_state)"
  by (simp add: demo_state_def db_inv_def)

theorem bootstrap_touches_only_named_account_witness:
  "\<exists>u. u \<in> set (users (fst (bootstrap demo_boot demo_args (a_db demo_state)))) \<and> u_username u = ''bob''
     \<and> u_roles u = ''admin'' \<and> demo_admin \<in> set (users (fst (bootstrap demo_boot demo_args (a_db demo_state))))"
proof -
  have "demo_admin \<in> set (users (a_db demo_state))" "u_username demo_admin \<noteq> ba_username demo_args"
    by (simp_all add: demo_state_def demo_admin_def demo_args_def)
  with bootstrap_touches_only_named_account [OF demo_state_inv demo_bootstrap] show ?thesis
    unfolding demo_bootstrap by (auto simp: demo_args_def)
qed

section \<open>What the printed key opens\<close>

lemma fresh_key_validates:
  assumes "api_keys db = rs @ [r]" "\<forall>x \<in> set rs. k_api_key_hash x \<noteq> k_api_key_hash r" "k_is_active r" "k_expires_at r = None"
    and "map_of c (k_api_key_hash r) = None" "sha key = k_api_key_hash r"
  shows "validate_api_key sha False key mt now db c = (AList.update (sha key) (key_info_of r, mt + cache_ttl_seconds) c, Some (key_info_of r))"
proof -
  have "filter (\<lambda>x. k_api_key_hash x = k_api_key_hash r \<and> k_is_active x) (api_keys db) = [r]"
    using assms(1-3) by (auto simp: filter_empty_conv)
  then show ?thesis
    using assms(4-6) by (simp add: validate_api_key_def validate_cached_def validate_api_key_row_def validate_finish_def
        key_expired_def Let_def)
qed



text \<open>
  When the database refuses the key, the run still finishes and prints it; it opens nothing.  And against
  what the module says, a token from the login opens protected paths as a key does.
\<close>

lemma unstored_key_is_printed:
  "\<exists>db'. bootstrap (demo_boot\<lparr>be_key_fails := True\<rparr>) demo_args (a_db demo_state) = (db', Inr (Finished (Some ''K'')))
     \<and> (\<forall>f mt now. snd (validate_api_key id f ''K'' mt now db' []) = None)"
proof -
  have "bootstrap (demo_boot\<lparr>be_key_fails := True\<rparr>) demo_args (a_db demo_state)
      = (\<lparr>users = [demo_admin, demo_bob], api_keys = [demo_row]\<rparr>, Inr (Finished (Some ''K'')))" by code_simp
  moreover have "k_api_key_hash demo_row \<noteq> ''K''" by (simp add: demo_row_def)
  ultimately show ?thesis
    by (auto simp: validate_api_key_def validate_cached_def validate_api_key_row_def validate_finish_def Let_def)
qed

lemma login_token_opens_protected_path:
  "\<exists>w. snd (enforce_auth demo_env False False 1 10 (demo_request\<lparr>rq_x_api_key := None, rq_authorization := ''Bearer t''\<rparr>) demo_state)
     = PassAs w \<and> is_admin w"
proof -
  have "snd (enforce_auth demo_env False False 1 10 (demo_request\<lparr>rq_x_api_key := None, rq_authorization := ''Bearer t''\<rparr>) demo_state)
      = PassAs \<lparr>id_user_id = ''u1'', id_username = ''ann'', id_role = ''admin'', id_scopes = ''read,write'', id_session_id = ''jwt''\<rparr>"
    by code_simp
  then show ?thesis by (simp add: is_admin_def)
qed

end
