(* ===== verification/Run_Api.thy ===== *)
theory Run_Api
  imports Lifespan Executors Session
begin

text \<open>
  \<open>src/run_api.py\<close>: the sizes a server is launched with, from the host and the environment, what is built
  from them at import time, and the context that starts, warms and stops it.  The FastAPI and uvicorn objects
  are configuration of libraries.
\<close>

section \<open>At import time\<close>

record launched =
  la_default_workers :: int          \<comment> \<open>threads of the default executor\<close>
  la_pool :: pool_settings
  la_config :: database_config
  la_service_pool_min :: int
  la_service_pool_max :: int

text \<open>\<open>int(os.getenv(name, str(d)))\<close>\<close>

definition size_from_env :: "environment \<Rightarrow> string \<Rightarrow> int \<Rightarrow> int result" where
  "size_from_env env name d = py_int (getenv env name (string_of_int d))"

definition executor_sizes :: "environment \<Rightarrow> int \<Rightarrow> int \<Rightarrow> concurrency_sizing \<Rightarrow> (int \<times> int \<times> int) result" where
  "executor_sizes env pool_max service_pool_max z =
     and_then (size_from_env env ''DB_EXECUTOR_WORKERS'' (pool_max + 2)) (\<lambda>d.
     and_then (size_from_env env ''SERVICE_EXECUTOR_WORKERS'' (service_pool_max + 2)) (\<lambda>s.
     and_then (size_from_env env ''BACKGROUND_EXECUTOR_WORKERS'' (cz_background_executor_workers z)) (\<lambda>b.
     Inr (d, s, b))))"

definition launch_pool :: "int \<Rightarrow> int \<Rightarrow> pool_settings" where
  "launch_pool mn mx = default_pool_settings\<lparr>ps_min_size := mn, ps_max_size := mx, ps_timeout := 30\<rparr>"

definition launch_config :: "string \<Rightarrow> pool_settings \<Rightarrow> database_config" where
  "launch_config db_path ps = from_duckdb db_path None 10 False
     (Some (settings_post_init \<lparr>ds_cache = None, ds_pool = Some ps, ds_enable_metrics = True, ds_enable_tracing = False\<rparr>))"

definition launch_sizes :: "environment \<Rightarrow> string \<Rightarrow> concurrency_sizing \<Rightarrow> (launched \<times> int \<times> int \<times> int) result" where
  "launch_sizes env db_path z =
     and_then (size_from_env env ''DB_POOL_MIN_SIZE'' (cz_db_pool_min z)) (\<lambda>pool_min.
     and_then (size_from_env env ''DB_POOL_MAX_SIZE'' (cz_db_pool_max z)) (\<lambda>pool_max.
     and_then (size_from_env env ''SERVICE_DB_POOL_MIN_SIZE'' (cz_service_pool_min z)) (\<lambda>service_min.
     and_then (size_from_env env ''SERVICE_DB_POOL_MAX_SIZE'' (cz_service_pool_max z)) (\<lambda>service_max.
     and_then (executor_sizes env pool_max service_max z) (\<lambda>workers.
     Inr (\<lparr>la_default_workers = max 4 (cz_cpu_count z * 2), la_pool = launch_pool pool_min pool_max,
            la_config = launch_config db_path (launch_pool pool_min pool_max),
            la_service_pool_min = service_min, la_service_pool_max = service_max\<rparr>, workers))))))"

definition launch :: "environment \<Rightarrow> machine \<Rightarrow> string \<Rightarrow> executors \<Rightarrow> executors \<times> launched result" where
  "launch env mc db_path x =
     (case and_then (recommended_sizing None mc) (launch_sizes env db_path) of
        Inl e \<Rightarrow> (x, Inl e)
      | Inr (l, d, s, b) \<Rightarrow>
          (case configure_executors (Some d) (Some s) (Some b) x of
             (x', Inl e) \<Rightarrow> (x', Inl e)
           | (x', Inr _) \<Rightarrow> (x', Inr l)))"

section \<open>The lifespan of the server\<close>

text \<open>
  \<open>lifespan(app)\<close>: \<open>warm\<close> is what \<open>warmup_async\<close> raises, \<open>body\<close> what the serving application raises at the
  \<open>yield\<close>.  There is no \<open>try\<close>.
\<close>

definition server_lifespan :: "app_setup \<Rightarrow> faults \<Rightarrow> py_exc option \<Rightarrow> py_exc option \<Rightarrow> faults \<Rightarrow> app \<Rightarrow> app \<times> unit result" where
  "server_lifespan su fl warm body fl' a =
     (case startup su fl a of
        (a', Inl e) \<Rightarrow> (a', Inl e)
      | (a', Inr _) \<Rightarrow>
          (case (if ap_db_session a' then warm else None) of
             Some e \<Rightarrow> (a', Inl e)
           | None \<Rightarrow> (case body of Some e \<Rightarrow> (a', Inl e) | None \<Rightarrow> shutdown su fl' a')))"

text \<open>The warm-up of the pool that the launched configuration describes.\<close>

definition launch_warmup ::
  "seconds \<Rightarrow> seconds \<Rightarrow> seconds \<Rightarrow> clock3 \<Rightarrow> launched \<Rightarrow> streaming_histogram option \<Rightarrow> (raised + conn) list \<Rightarrow> async_pool \<times> (raised + nat)" where
  "launch_warmup start elapsed late t l hist news =
     (case pool_parameters (la_config l) of
        (mn, mx, _) \<Rightarrow> warmup_async start elapsed late t mx None news (pool_new mn mx hist))"

section \<open>Sizes\<close>

lemma launch_pool_parameters [simp]: "pool_parameters (launch_config p (launch_pool mn mx)) = (mn, mx, 30)"
  by (simp add: pool_parameters_def launch_config_def launch_pool_def from_duckdb_def settings_post_init_def Let_def)

lemma size_from_env_default: "env name = None \<Longrightarrow> size_from_env env name d = Inr d"
  by (simp add: size_from_env_def getenv_def)

lemma resize_ok: "resize n t = (t', Inr u) \<Longrightarrow>
    tk_max_workers t' = n \<and> 0 < n \<and> last (tk_pools t') = \<lparr>wp_max = nat n, wp_queue = [], wp_running = [], wp_stopped = False\<rparr>"
  by (auto simp: resize_def thread_pool_def Let_def split: if_splits)

lemma configure_ok:
  assumes "configure_executors (Some d) (Some s) (Some b) x = (x', Inr u)"
  shows "tk_max_workers (ex_db x') = d" "tk_max_workers (ex_service x') = s" "tk_max_workers (ex_background x') = b"
    "\<forall>t \<in> {ex_db x', ex_service x', ex_background x'}. 0 < tk_max_workers t
       \<and> wp_max (last (tk_pools t)) = nat (tk_max_workers t) \<and> \<not> wp_stopped (last (tk_pools t))"
  using assms
  by (auto simp: configure_executors_def resize_if_def split: prod.splits sum.splits dest!: resize_ok)

lemma launch_ok:
  assumes "launch env mc db_path x = (x', Inr l)"
  obtains z d s b mn mx where "recommended_sizing None mc = Inr z"
    "size_from_env env ''DB_POOL_MIN_SIZE'' (cz_db_pool_min z) = Inr mn"
    "size_from_env env ''DB_POOL_MAX_SIZE'' (cz_db_pool_max z) = Inr mx"
    "la_pool l = launch_pool mn mx" "la_config l = launch_config db_path (launch_pool mn mx)"
    "size_from_env env ''SERVICE_DB_POOL_MIN_SIZE'' (cz_service_pool_min z) = Inr (la_service_pool_min l)"
    "size_from_env env ''SERVICE_DB_POOL_MAX_SIZE'' (cz_service_pool_max z) = Inr (la_service_pool_max l)"
    "executor_sizes env mx (la_service_pool_max l) z = Inr (d, s, b)"
    "\<exists>u. configure_executors (Some d) (Some s) (Some b) x = (x', Inr u)"
  using assms
  by (auto simp: launch_def launch_sizes_def and_then_Inr split: sum.splits prod.splits)

lemma launch_pool_sel [simp]: "ps_min_size (launch_pool mn mx) = mn" "ps_max_size (launch_pool mn mx) = mx"
  by (simp_all add: launch_pool_def)

lemma launch_pool_valid: "pool_settings_validate (launch_pool mn mx) = Inr () \<longleftrightarrow> 0 < mn \<and> mn \<le> mx"
  by (auto simp: pool_settings_validate_def launch_pool_def default_pool_settings_def)

text \<open>Without overrides the pools are valid and large enough on every host.\<close>

lemma launch_defaults_valid:
  assumes "launch env mc db_path x = (x', Inr l)" "env ''DB_POOL_MIN_SIZE'' = None" "env ''DB_POOL_MAX_SIZE'' = None"
    and "env ''SERVICE_DB_POOL_MIN_SIZE'' = None" "env ''SERVICE_DB_POOL_MAX_SIZE'' = None"
  shows "pool_settings_validate (la_pool l) = Inr ()" "la_service_pool_min l \<le> la_service_pool_max l" "4 \<le> la_service_pool_max l"
proof -
  from assms(1) obtain z mn mx where z: "recommended_sizing None mc = Inr z" and mn: "mn = cz_db_pool_min z" and mx: "mx = cz_db_pool_max z"
    and p: "la_pool l = launch_pool mn mx" and s: "la_service_pool_min l = cz_service_pool_min z" "la_service_pool_max l = cz_service_pool_max z"
    by (elim launch_ok) (auto simp: size_from_env_default assms(2-5))
  obtain n where n: "z = sizing_for n" using z by (auto simp: recommended_sizing_def split: option.splits sum.splits)
  show "pool_settings_validate (la_pool l) = Inr ()" "la_service_pool_min l \<le> la_service_pool_max l" "4 \<le> la_service_pool_max l"
    by (auto simp: p launch_pool_valid mn mx s n sizing_for_def)
qed

lemma warmup_to_maximum:
  assumes "0 < n"
  shows "warmup_async start elapsed late t (int n) None news (pool_new mn (int n) hist)
    = warmup_async start elapsed late t (int n) (Some (int n)) news (pool_new mn (int n) hist)"
  using assms by (simp add: warmup_async_def warmup_def pool_new_def sizer_new_def Let_def)

text \<open>
  C38.  When the launched sizes are valid and the driver answers, the warm-up opens exactly the configured
  number of connections and leaves all of them idle; and as long as no executor size is overridden, the new
  jobs of the warehouse find two threads more than there are connections, those of the service database two
  more than its pool may open.
\<close>

theorem launch_matches_threads_to_connections:
  assumes "launch env mc db_path x = (x', Inr l)" "pool_settings_validate (la_pool l) = Inr ()"
    and "env ''DB_EXECUTOR_WORKERS'' = None" "env ''SERVICE_EXECUTOR_WORKERS'' = None"
    and "distinct cs" "int (length cs) = ps_max_size (la_pool l)"
  shows "(\<exists>q. launch_warmup start elapsed late t l hist (map Inr cs) = (q, Inr (length cs))
        \<and> async_idle q = set cs \<and> in_use q = [])
    \<and> wp_max (last (tk_pools (ex_db x'))) = length cs + 2 \<and> \<not> wp_stopped (last (tk_pools (ex_db x')))
    \<and> int (wp_max (last (tk_pools (ex_service x')))) = la_service_pool_max l + 2 \<and> \<not> wp_stopped (last (tk_pools (ex_service x')))"
proof -
  from assms(1) obtain z d s b mn mx where
    p: "la_pool l = launch_pool mn mx" "la_config l = launch_config db_path (launch_pool mn mx)"
    and e: "executor_sizes env mx (la_service_pool_max l) z = Inr (d, s, b)"
    and c: "\<exists>u. configure_executors (Some d) (Some s) (Some b) x = (x', Inr u)" by (elim launch_ok) blast
  have ds: "d = mx + 2" "s = la_service_pool_max l + 2"
    using e by (auto simp: executor_sizes_def and_then_Inr size_from_env_default assms(3,4))
  have mx: "mx = int (length cs)" "0 < mn" "mn \<le> mx" using assms(2,6) by (auto simp: p(1) launch_pool_valid)
  from c obtain u where cu: "configure_executors (Some d) (Some s) (Some b) x = (x', Inr u)" ..
  have t: "int (wp_max (last (tk_pools (ex_db x')))) = d" "int (wp_max (last (tk_pools (ex_service x')))) = s"
    "\<not> wp_stopped (last (tk_pools (ex_db x')))" "\<not> wp_stopped (last (tk_pools (ex_service x')))"
    using configure_ok [OF cu] by auto
  have n: "0 < length cs" using mx by auto
  have "launch_warmup start elapsed late t l hist (map Inr cs)
      = warmup_async start elapsed late t mx (Some (int (length cs))) (map Inr cs) (pool_new mn mx hist)"
    by (simp add: launch_warmup_def p(2) mx(1) warmup_to_maximum [OF n])
  moreover have "case warmup_async start elapsed late t mx (Some (int (length cs))) (map Inr cs) (pool_new mn mx hist) of
      (q, r) \<Rightarrow> r = Inr (length cs) \<and> async_idle q = set cs \<and> in_use q = [] \<and> sz_current (pool_sizer q) = max mn (int (length cs))"
    using warmup_fills_pool [of mn mx "length cs" cs] mx n assms(5) by auto
  ultimately show ?thesis using t ds mx(1) by (auto split: prod.splits)
qed

definition new_executor :: "string \<Rightarrow> tracked" where
  "new_executor name = \<lparr>tk_name = name, tk_max_workers = 1,
     tk_pools = [\<lparr>wp_max = 1, wp_queue = [], wp_running = [], wp_stopped = False\<rparr>], tk_active = 0\<rparr>"

definition new_executors :: executors where
  "new_executors = \<lparr>ex_db = new_executor ''db'', ex_service = new_executor ''service'', ex_background = new_executor ''background''\<rparr>"

text \<open>What a host with two processors launches when nothing is overridden.\<close>

definition small_launch :: launched where
  "small_launch = \<lparr>la_default_workers = 4, la_pool = launch_pool 2 4, la_config = launch_config ''w'' (launch_pool 2 4),
     la_service_pool_min = 2, la_service_pool_max = 4\<rparr>"

lemma small_launch_sizes: "snd (launch (\<lambda>_. None) quota_host ''w'' new_executors) = Inr small_launch"
proof -
  have z: "recommended_sizing None quota_host = Inr (sizing_for 2)" by code_simp
  show ?thesis
    by (simp add: launch_def launch_sizes_def executor_sizes_def z and_then_def size_from_env_default sizing_for_def small_launch_def
        configure_executors_def resize_if_def resize_def thread_pool_def Let_def)
qed

theorem launch_matches_threads_to_connections_witness:
  "snd (launch_warmup 0 1 9 (0, 0, 0) small_launch None (map Inr [5, 6, 7, 8])) = Inr 4
   \<and> wp_max (last (tk_pools (ex_db (fst (launch (\<lambda>_. None) quota_host ''w'' new_executors))))) = 6"
proof -
  have l: "launch (\<lambda>_. None) quota_host ''w'' new_executors
      = (fst (launch (\<lambda>_. None) quota_host ''w'' new_executors), Inr small_launch)"
    by (simp add: small_launch_sizes [symmetric])
  have v: "pool_settings_validate (la_pool small_launch) = Inr ()" "int (length [5, 6, 7, 8::nat]) = ps_max_size (la_pool small_launch)"
    by (simp_all add: small_launch_def launch_pool_valid)
  have d: "distinct [5, 6, 7, 8::nat]" by simp
  show ?thesis
    using launch_matches_threads_to_connections [OF l v(1) refl refl d v(2), of 0 1 9 "(0, 0, 0)" None]
    by (auto simp del: list.map)
qed

section \<open>What is not checked\<close>

text \<open>
  Nobody calls \<open>validate()\<close> on the settings.  With the maximum overridden below the derived minimum the server
  starts, and the pool opens more connections than its maximum.
\<close>

definition capped_env :: environment where
  "capped_env = Map.empty(''DB_POOL_MAX_SIZE'' \<mapsto> ''1'')"

lemma override_overruns_maximum:
  "\<exists>x l. launch capped_env quota_host ''w'' new_executors = (x, Inr l) \<and> ps_max_size (la_pool l) = 1
     \<and> pool_settings_validate (la_pool l) = Inl (ValueError ''min_size cannot exceed max_size'')
     \<and> (case pool_parameters (la_config l) of (mn, mx, _) \<Rightarrow>
          (case acquire_section 0 (0, 0, 0) (fst (acquire_section 0 (0, 0, 0) (pool_new mn mx None))) of
             (p, r) \<Rightarrow> r = Reserved 1 \<and> length (in_use p) = 2))"
proof -
  have z: "recommended_sizing None quota_host = Inr (sizing_for 2)" by code_simp
  have one: "py_int ''1'' = Inr 1" by code_simp
  have s: "size_from_env capped_env ''DB_POOL_MAX_SIZE'' d = Inr 1" for d
    by (simp add: size_from_env_def capped_env_def getenv_def one)
  have o: "size_from_env capped_env name d = Inr d" if "name \<noteq> ''DB_POOL_MAX_SIZE''" for name d
    using that by (simp add: size_from_env_default capped_env_def)
  have "snd (launch capped_env quota_host ''w'' new_executors)
      = Inr (small_launch\<lparr>la_pool := launch_pool 2 1, la_config := launch_config ''w'' (launch_pool 2 1)\<rparr>)"
    by (simp add: launch_def launch_sizes_def executor_sizes_def z and_then_def s o sizing_for_def small_launch_def
        configure_executors_def resize_if_def resize_def thread_pool_def Let_def)
  then have l: "launch capped_env quota_host ''w'' new_executors = (fst (launch capped_env quota_host ''w'' new_executors),
      Inr (small_launch\<lparr>la_pool := launch_pool 2 1, la_config := launch_config ''w'' (launch_pool 2 1)\<rparr>))"
    by (metis prod.collapse)
  show ?thesis
    by (intro exI conjI, rule l)
      (simp_all add: pool_settings_validate_def acquire_section_def pool_new_def sizer_new_def)
qed

text \<open>Without a failing warm-up the server is the context of \<open>Lifespan\<close>; after one it stops nothing that it started.\<close>

lemma server_is_lifespan_context: "server_lifespan su fl None body fl' a = lifespan_context su fl body fl' a"
  by (auto simp: server_lifespan_def lifespan_context_def split: prod.splits sum.splits)

lemma failed_warmup_stops_nothing:
  "(case server_lifespan full_setup (\<lambda>_. None) (Some e) None (\<lambda>_. None) new_app of
      (a, r) \<Rightarrow> r = Inl e \<and> ap_history a = start_plan full_setup \<and> ap_started a = all_steps)"
proof -
  obtain a r where l: "startup full_setup (\<lambda>_. None) new_app = (a, r)" by fastforce
  have "snd (startup full_setup (\<lambda>_. None) new_app) = Inr ()" "ap_db_session (fst (startup full_setup (\<lambda>_. None) new_app))"
    "ap_history (fst (startup full_setup (\<lambda>_. None) new_app)) = start_plan full_setup"
    "ap_started (fst (startup full_setup (\<lambda>_. None) new_app)) = all_steps"
    by code_simp+
  then show ?thesis by (simp add: server_lifespan_def l)
qed

end
