(* ===== verification/Instrumented_Adapters.thy ===== *)
theory Instrumented_Adapters
  imports Request_Trace Warehouse_Adapters Result_Cache Auth
begin

text \<open>
  \<open>src/core/performance/adapters/\<close>: wrappers that run each call of a database adapter, the service database,
  the result cache, the key service or a connection pool under a stage of the profiler bound to the current
  context, if there is one.  The wrapped calls are the operations modelled elsewhere.  Of the context
  variable only its value during the call counts: it stands beside the state of the wrapped object.
\<close>

section \<open>A timed call\<close>

text \<open>
  The clock at the start of the stage, twice at its end and at the two gauges that a pool emits, and what
  the rest of the request does with its profiler in the meantime.
\<close>

record moment =
  mo_enter :: int
  mo_leave :: "int \<times> int"
  mo_gauges :: "int \<times> int"
  mo_during :: "profiler \<Rightarrow> profiler"

text \<open>\<open>_timed\<close>: what leaving the stage raises replaces the outcome of the call.\<close>

fun timed :: "moment \<Rightarrow> stage \<Rightarrow> string \<Rightarrow> ('s \<Rightarrow> 's \<times> 'a result) \<Rightarrow> profiler option \<times> 's
    \<Rightarrow> (profiler option \<times> 's) \<times> 'a result" where
  "timed mo st name call (None, s) = (case call s of (s', r) \<Rightarrow> ((None, s'), r))"
| "timed mo st name call (Some p, s) =
     (case start_stage st name [] (mo_enter mo) p of
        Inl e \<Rightarrow> ((Some p, s), Inl e)
      | Inr (p1, _) \<Rightarrow>
          (case call s of (s', r) \<Rightarrow>
             (case finish_stage (fst (mo_leave mo)) (snd (mo_leave mo)) (mo_during mo p1) of
                Inl e \<Rightarrow> ((Some (mo_during mo p1), s'), Inl e)
              | Inr p2 \<Rightarrow> ((Some p2, s'), r))))"

section \<open>The wrappers\<close>

subsection \<open>SQL adapters of sessions\<close>

text \<open>What \<open>InstrumentedSQLAdapter\<close> asks of the adapter it wraps.\<close>

record ('v, 's, 'e, 'o, 'm) sql_adapter_like =
  sa_execute :: "string \<Rightarrow> 'v list option \<Rightarrow> 's \<Rightarrow> 's \<times> 'e result"
  sa_fetch_one :: "string \<Rightarrow> 'v list option \<Rightarrow> 's \<Rightarrow> 's \<times> 'o result"
  sa_fetch_all :: "string \<Rightarrow> 'v list option \<Rightarrow> 's \<Rightarrow> 's \<times> 'm result"

definition timed_sql_execute ::
  "moment \<Rightarrow> ('v, 's, 'e, 'o, 'm) sql_adapter_like \<Rightarrow> string \<Rightarrow> 'v list option \<Rightarrow> profiler option \<times> 's \<Rightarrow> (profiler option \<times> 's) \<times> 'e result" where
  "timed_sql_execute mo a sql params = timed mo SQL_EXECUTE ''sql_execute'' (sa_execute a sql params)"

definition timed_sql_fetch_one ::
  "moment \<Rightarrow> ('v, 's, 'e, 'o, 'm) sql_adapter_like \<Rightarrow> string \<Rightarrow> 'v list option \<Rightarrow> profiler option \<times> 's \<Rightarrow> (profiler option \<times> 's) \<times> 'o result" where
  "timed_sql_fetch_one mo a sql params = timed mo SQL_FETCH ''sql_fetch_one'' (sa_fetch_one a sql params)"

definition timed_sql_fetch_all ::
  "moment \<Rightarrow> ('v, 's, 'e, 'o, 'm) sql_adapter_like \<Rightarrow> string \<Rightarrow> 'v list option \<Rightarrow> profiler option \<times> 's \<Rightarrow> (profiler option \<times> 's) \<times> 'm result" where
  "timed_sql_fetch_all mo a sql params = timed mo SQL_FETCH ''sql_fetch_all'' (sa_fetch_all a sql params)"

definition duck_adapter :: "('v, 'c) duck_driver \<Rightarrow> bool \<Rightarrow>
    ('v, 'c, 'v fetched list, (string \<times> 'v) list option, 'v fetched list) sql_adapter_like" where
  "duck_adapter drv has_conn = \<lparr>sa_execute = duck_execute drv has_conn, sa_fetch_one = duck_fetch_one drv has_conn,
     sa_fetch_all = duck_fetch_all drv has_conn\<rparr>"

subsection \<open>The DuckDB adapter\<close>

definition timed_duck_execute where
  "timed_duck_execute mo drv has_conn sql params = timed mo SQL_EXECUTE ''duckdb_execute'' (duck_execute drv has_conn sql params)"

definition timed_duck_execute_query where
  "timed_duck_execute_query mo drv has_conn sql params =
     timed mo SQL_EXECUTE ''duckdb_execute_query'' (duck_execute_query drv has_conn sql params)"

definition timed_duck_fetch_one where
  "timed_duck_fetch_one mo drv has_conn sql params = timed mo SQL_FETCH ''duckdb_fetch_one'' (duck_fetch_one drv has_conn sql params)"

definition timed_duck_fetch_all where
  "timed_duck_fetch_all mo drv has_conn sql params = timed mo SQL_FETCH ''duckdb_fetch_all'' (duck_fetch_all drv has_conn sql params)"

definition timed_duck_insert where
  "timed_duck_insert mo drv has_conn table data = timed mo SQL_EXECUTE ''duckdb_insert'' (duck_insert drv has_conn table data)"

definition timed_duck_update where
  "timed_duck_update mo drv has_conn table data where_clause params =
     timed mo SQL_EXECUTE ''duckdb_update'' (duck_update drv has_conn table data where_clause params)"

definition timed_duck_delete where
  "timed_duck_delete mo drv has_conn table where_clause params =
     timed mo SQL_EXECUTE ''duckdb_delete'' (duck_delete drv has_conn table where_clause params)"

definition timed_duck_create_table where
  "timed_duck_create_table mo drv has_conn sql = timed mo SQL_EXECUTE ''duckdb_create_table'' (duck_create_table drv has_conn sql)"

definition timed_duck_drop_table where
  "timed_duck_drop_table mo drv has_conn table if_exists =
     timed mo SQL_EXECUTE ''duckdb_drop_table'' (duck_drop_table drv has_conn table if_exists)"

subsection \<open>The service database and the result cache\<close>

definition timed_service_execute where
  "timed_service_execute mo engine acq commit_error sql params =
     timed mo SQL_EXECUTE ''service_db_execute'' (service_execute engine acq commit_error sql params)"

definition timed_service_fetch_one where
  "timed_service_fetch_one mo engine acq sql params =
     timed mo SQL_FETCH ''service_db_fetch_one'' (service_fetch_one engine acq sql params)"

definition timed_service_fetch_all where
  "timed_service_fetch_all mo engine acq sql params =
     timed mo SQL_FETCH ''service_db_fetch_all'' (service_fetch_all engine acq sql params)"

definition timed_execute_on where
  "timed_execute_on mo engine c sql params = timed mo SQL_EXECUTE ''service_db_execute_on'' (execute_on engine c sql params)"

definition timed_fetch_one_on where
  "timed_fetch_one_on mo engine c sql params = timed mo SQL_FETCH ''service_db_fetch_one_on'' (fetch_one_on engine c sql params)"

definition timed_service_transaction where
  "timed_service_transaction mo acq commit_error rollback_fails body =
     timed mo TRANSACTION_COMMIT ''service_db_transaction'' (service_transaction acq commit_error rollback_fails body)"

definition timed_get_cached_result where
  "timed_get_cached_result mo fails key now =
     timed mo CACHE_LOOKUP ''query_cache_lookup'' (\<lambda>t. (t, Inr (get_cached_result fails key now t)))"

definition timed_cache_result where
  "timed_cache_result mo sha json_size fails now query_sql data params_text user session exec_ms ttl =
     timed mo CACHE_STORE ''query_cache_store''
       (cache_result sha json_size fails now query_sql data params_text user session exec_ms ttl)"

subsection \<open>Authentication\<close>

text \<open>The key service works on the database and its cache.\<close>

definition timed_validate_api_key where
  "timed_validate_api_key mo sha fails key mt now = timed mo API_KEY_LOOKUP ''api_key_validate''
     (\<lambda>(db, c). case validate_api_key sha fails key mt now db c of (c', r) \<Rightarrow> ((db, c'), Inr r))"

definition timed_create_api_key where
  "timed_create_api_key mo sha fails key key_id created owner scopes expires = timed mo CUSTOM ''api_key_create''
     (\<lambda>(db, c). case create_api_key sha fails key key_id created owner scopes expires db of (db', r) \<Rightarrow> ((db', c), Inr r))"

definition timed_list_api_keys where
  "timed_list_api_keys mo fails owner = timed mo CUSTOM ''api_key_list'' (\<lambda>(db, c). ((db, c), Inr (list_api_keys fails owner db)))"

definition timed_revoke_api_key where
  "timed_revoke_api_key mo fails key_id owner = timed mo CUSTOM ''api_key_revoke''
     (\<lambda>(db, c). case revoke_api_key fails key_id owner db c of (s', ok) \<Rightarrow> (s', Inr ok))"

definition timed_delete_api_key where
  "timed_delete_api_key mo fails key_id owner = timed mo CUSTOM ''api_key_delete''
     (\<lambda>(db, c). case delete_api_key fails key_id owner db c of (s', ok) \<Rightarrow> (s', Inr ok))"

definition instrumented_jwt_decode where
  "instrumented_jwt_decode mo decode token now = timed mo AUTHENTICATION ''jwt_decode''
     (\<lambda>s. (s, case decode token now of None \<Rightarrow> Inl (OtherError ''PyJWTError'') | Some c \<Rightarrow> Inr c))"

definition authorize :: "moment \<Rightarrow> string \<Rightarrow> ('s \<Rightarrow> 's \<times> bool result) \<Rightarrow> py_exc \<Rightarrow> profiler option \<times> 's \<Rightarrow> (profiler option \<times> 's) \<times> unit result" where
  "authorize mo name check on_denied w =
     (case timed mo AUTHORIZATION name check w of
        (w', Inl e) \<Rightarrow> (w', Inl e)
      | (w', Inr allowed) \<Rightarrow> (w', if allowed then Inr () else Inl on_denied))"

subsection \<open>Pools\<close>

definition emit_pool_gauges :: "int \<times> int \<Rightarrow> pool_metrics \<Rightarrow> profiler \<Rightarrow> profiler result" where
  "emit_pool_gauges now m p =
     (case emit_gauge ''pool_active_connections'' (of_nat (pm_active_connections m)) [] (fst now) p of
        Inl e \<Rightarrow> Inl e
      | Inr p1 \<Rightarrow> emit_gauge ''pool_idle_connections'' (of_nat (pm_idle_connections m)) [] (snd now) p1)"

text \<open>A call of the pool under its stage and, when it returned under a profiler, the gauges of \<open>metrics()\<close>.\<close>

definition gauged :: "moment \<Rightarrow> stage \<Rightarrow> string \<Rightarrow> ('p \<Rightarrow> 'p \<times> 'a result) \<Rightarrow> ('p \<Rightarrow> 'p \<times> pool_metrics)
    \<Rightarrow> profiler option \<times> 'p \<Rightarrow> (profiler option \<times> 'p) \<times> 'a result" where
  "gauged mo st name call read_metrics w =
     (case timed mo st name call w of
        ((Some pr, p), Inr x) \<Rightarrow>
          (case read_metrics p of
             (p', m) \<Rightarrow> (case emit_pool_gauges (mo_gauges mo) m pr of
                          Inl e \<Rightarrow> ((Some pr, p'), Inl e) | Inr pr' \<Rightarrow> ((Some pr', p'), Inr x)))
      | r \<Rightarrow> r)"

text \<open>A checkout while nobody else uses the pool, with its exceptions.\<close>

definition checked_out :: "'p \<times> taken \<Rightarrow> 'p \<times> conn result" where
  "checked_out r = (case r of (p, Took c) \<Rightarrow> (p, Inr c) | (p, Full) \<Rightarrow> (p, Inl MaxConnectionsExceeded)
     | (p, Failed e) \<Rightarrow> (p, Inl (OtherError (rz_type e))))"

definition async_timed_acquire ::
  "moment \<Rightarrow> seconds \<Rightarrow> seconds \<Rightarrow> seconds \<Rightarrow> clock3 \<Rightarrow> raised + conn \<Rightarrow> profiler option \<times> async_pool \<Rightarrow> (profiler option \<times> async_pool) \<times> conn result" where
  "async_timed_acquire mo start elapsed late t new =
     gauged mo POOL_ACQUIRE ''pool_acquire'' (\<lambda>p. checked_out (async_take start elapsed late t new p)) metrics"

definition async_timed_release ::
  "moment \<Rightarrow> conn \<Rightarrow> bool \<Rightarrow> profiler option \<times> async_pool \<Rightarrow> (profiler option \<times> async_pool) \<times> unit result" where
  "async_timed_release mo c broken = gauged mo POOL_RELEASE ''pool_release'' (\<lambda>p. (async_give c broken p, Inr ())) metrics"

definition sync_timed_acquire ::
  "moment \<Rightarrow> seconds \<Rightarrow> seconds \<Rightarrow> clocks \<Rightarrow> raised + conn \<Rightarrow> profiler option \<times> sync_pool \<Rightarrow> (profiler option \<times> sync_pool) \<times> conn result" where
  "sync_timed_acquire mo start elapsed t new =
     gauged mo POOL_ACQUIRE ''pool_acquire'' (\<lambda>p. checked_out (sync_take start elapsed t new p)) sync_metrics"

definition sync_timed_release ::
  "moment \<Rightarrow> conn \<Rightarrow> bool \<Rightarrow> profiler option \<times> sync_pool \<Rightarrow> (profiler option \<times> sync_pool) \<times> unit result" where
  "sync_timed_release mo c broken = gauged mo POOL_RELEASE ''pool_release'' (\<lambda>p. (sync_give c broken p, Inr ())) sync_metrics"

section \<open>Timing changes nothing\<close>

text \<open>
  The profiler of a request that is being served: some stage is open before the call and when it ends, and
  the clock does not run backwards.
\<close>

definition in_use_at :: "int \<Rightarrow> profiler \<Rightarrow> bool" where
  "in_use_at now p \<longleftrightarrow> (\<exists>t \<le> now. profiled t p) \<and> tr_current (pf_trace p) \<noteq> None"

definition usable :: "moment \<Rightarrow> stage \<Rightarrow> string \<Rightarrow> profiler \<Rightarrow> bool" where
  "usable mo st name p \<longleftrightarrow> in_use_at (mo_enter mo) p
     \<and> (\<forall>p1 n. start_stage st name [] (mo_enter mo) p = Inr (p1, n) \<longrightarrow> in_use_at (fst (mo_leave mo)) (mo_during mo p1))
     \<and> fst (mo_leave mo) \<le> snd (mo_leave mo) \<and> snd (mo_leave mo) \<le> fst (mo_gauges mo) \<and> fst (mo_gauges mo) \<le> snd (mo_gauges mo)"

definition usable_if_bound :: "moment \<Rightarrow> stage \<Rightarrow> string \<Rightarrow> profiler option \<Rightarrow> bool" where
  "usable_if_bound mo st name cp = (case cp of None \<Rightarrow> True | Some p \<Rightarrow> usable mo st name p)"

lemma start_stage_returns:
  assumes "profiled t p" "tr_current (pf_trace p) \<noteq> None"
  shows "\<exists>p1 n. start_stage st name tg now p = Inr (p1, n)"
proof -
  obtain c where c: "tr_current (pf_trace p) = Some c" using assms(2) by blast
  have i: "trace_inv t (pf_trace p)" "\<not> pf_completed p" using profiled_inv [OF assms(1)] by blast+
  then have "tr_root (pf_trace p) = Some 0" "c < tr_next (pf_trace p)"
    using c open_invD(1) by (auto simp: trace_inv_def tree_inv_def is_open_def)
  from trace_start_shape [OF this(1) c this(2)] show ?thesis using i(2) c by (simp add: start_stage_def)
qed

lemma finish_stage_returns:
  assumes "profiled t p" "t \<le> now1" "tr_current (pf_trace p) \<noteq> None"
  shows "\<exists>p2. finish_stage now1 now2 p = Inr p2"
proof -
  obtain c where c: "tr_current (pf_trace p) = Some c" using assms(3) by blast
  have "trace_inv t (pf_trace p)" using profiled_inv [OF assms(1)] by blast
  from trace_finish_shape [OF this c assms(2)] show ?thesis by (simp add: finish_stage_def)
qed

lemma timed_usable:
  assumes "usable mo st name p"
  shows "\<exists>p2. timed mo st name call (Some p, s) = ((Some p2, fst (call s)), snd (call s)) \<and> profiled (snd (mo_leave mo)) p2"
proof -
  obtain p1 n where p1: "start_stage st name [] (mo_enter mo) p = Inr (p1, n)"
    using start_stage_returns assms unfolding usable_def in_use_at_def by blast
  then obtain t where d: "profiled t (mo_during mo p1)" "t \<le> fst (mo_leave mo)" "tr_current (pf_trace (mo_during mo p1)) \<noteq> None"
    and le: "fst (mo_leave mo) \<le> snd (mo_leave mo)" using assms unfolding usable_def in_use_at_def by blast
  obtain p2 where p2: "finish_stage (fst (mo_leave mo)) (snd (mo_leave mo)) (mo_during mo p1) = Inr p2"
    using finish_stage_returns [OF d] by blast
  have "profiled (snd (mo_leave mo)) p2" by (rule profiled.leave_stage [OF d(1,2) le p2])
  then show ?thesis using p1 p2 by (simp split: prod.split)
qed


lemma gauges_emitted:
  assumes "profiled t p" "t \<le> fst now" "fst now \<le> snd now"
  shows "\<exists>p'. emit_pool_gauges now m p = Inr p' \<and> profiled (snd now) p'"
proof -
  let ?a = "of_nat (pm_active_connections m)" and ?i = "of_nat (pm_idle_connections m)"
  have "\<not> pf_completed p" using profiled_inv [OF assms(1)] by blast
  then obtain p1 where p1: "emit_point ''pool_active_connections'' GAUGE ?a [] (fst now) p = Inr p1" by (simp add: emit_point_def)
  have f1: "profiled (fst now) p1" by (rule profiled.emit [OF assms(1,2) p1])
  then have "\<not> pf_completed p1" using profiled_inv by blast
  then obtain p2 where p2: "emit_point ''pool_idle_connections'' GAUGE ?i [] (snd now) p1 = Inr p2" by (simp add: emit_point_def)
  have "profiled (snd now) p2" by (rule profiled.emit [OF f1 assms(3) p2])
  then show ?thesis using p1 p2 by (simp add: emit_pool_gauges_def emit_gauge_def)
qed

text \<open>The outcome of a gauged call that is the plain one but for the size of the pool, which stays in bounds.\<close>

definition up_to_size :: "('p \<Rightarrow> sizer) \<Rightarrow> (sizer \<Rightarrow> 'p \<Rightarrow> 'p) \<Rightarrow> profiler option \<Rightarrow> 'p \<times> 'a result
    \<Rightarrow> (profiler option \<times> 'p) \<times> 'a result \<Rightarrow> bool" where
  "up_to_size sizer_of set_sizer cp plain observed \<longleftrightarrow>
     (\<exists>cp' z. observed = ((cp', set_sizer z (fst plain)), snd plain) \<and> (cp = None \<longrightarrow> z = sizer_of (fst plain))
        \<and> (sizer_ok (sizer_of (fst plain)) \<longrightarrow> sizer_ok z))"

text \<open>A pool whose \<open>metrics()\<close> does nothing but adjust its size.\<close>

locale metered_pool =
  fixes read_metrics :: "'p \<Rightarrow> 'p \<times> pool_metrics"
    and sizer_of :: "'p \<Rightarrow> sizer"
    and set_sizer :: "sizer \<Rightarrow> 'p \<Rightarrow> 'p"
  assumes metrics_adjusts: "\<exists>w r. fst (read_metrics p) = set_sizer (adjust w r (sizer_of p)) p"
    and set_own_sizer: "set_sizer (sizer_of p) p = p"
begin

lemma gauged_up_to_size:
  assumes "usable_if_bound mo st name cp"
  shows "up_to_size sizer_of set_sizer cp (call p) (gauged mo st name call read_metrics (cp, p))"
proof (cases cp)
  case None
  then have "gauged mo st name call read_metrics (cp, p)
      = ((None, set_sizer (sizer_of (fst (call p))) (fst (call p))), snd (call p))"
    by (simp add: gauged_def set_own_sizer split: prod.split)
  then show ?thesis unfolding up_to_size_def by blast
next
  case (Some pr)
  then have u: "usable mo st name pr" using assms by (simp add: usable_if_bound_def)
  then obtain p2 where p2: "timed mo st name call (Some pr, p) = ((Some p2, fst (call p)), snd (call p))"
    "profiled (snd (mo_leave mo)) p2" using timed_usable [OF u, of call p] by auto
  have g: "snd (mo_leave mo) \<le> fst (mo_gauges mo)" "fst (mo_gauges mo) \<le> snd (mo_gauges mo)" using u unfolding usable_def by blast+
  show ?thesis
  proof (cases "snd (call p)")
    case (Inl e)
    then have "gauged mo st name call read_metrics (cp, p)
        = ((Some p2, set_sizer (sizer_of (fst (call p))) (fst (call p))), snd (call p))"
      using p2(1) Some by (simp add: gauged_def set_own_sizer)
    then show ?thesis unfolding up_to_size_def by blast
  next
    case (Inr x)
    obtain p' m where m: "read_metrics (fst (call p)) = (p', m)" by fastforce
    obtain p3 where p3: "emit_pool_gauges (mo_gauges mo) m p2 = Inr p3" using gauges_emitted [OF p2(2) g] by blast
    obtain w r where "p' = set_sizer (adjust w r (sizer_of (fst (call p)))) (fst (call p))"
      using metrics_adjusts [of "fst (call p)"] m by auto
    then have "gauged mo st name call read_metrics (cp, p)
        = ((Some p3, set_sizer (adjust w r (sizer_of (fst (call p)))) (fst (call p))), snd (call p))"
      using p2(1) Some Inr m p3 by (simp add: gauged_def)
    then show ?thesis unfolding up_to_size_def using adjust_ok Some by blast
  qed
qed

end

interpretation async_metered: metered_pool metrics pool_sizer "\<lambda>z p. p\<lparr>pool_sizer := z\<rparr>"
  by unfold_locales (auto simp: metrics_def Let_def)

interpretation sync_metered: metered_pool sync_metrics s_sizer "\<lambda>z p. p\<lparr>s_sizer := z\<rparr>"
  by unfold_locales (auto simp: sync_metrics_def Let_def)


section \<open>Instances\<close>

definition demo_moment :: moment where
  "demo_moment = \<lparr>mo_enter = 10, mo_leave = (20, 21), mo_gauges = (22, 23), mo_during = id\<rparr>"

definition demo_profiler :: profiler where
  "demo_profiler = profiler_new ''r'' [] 0 10"

lemma demo_in_use: "profiled 10 demo_profiler" "tr_current (pf_trace demo_profiler) \<noteq> None"
  unfolding demo_profiler_def
  by (rule profiled.new, simp) (simp add: profiler_new_def trace_start_def trace_new_def Let_def)

lemma demo_usable: "usable demo_moment st name demo_profiler"
proof -
  have "in_use_at 20 p1" if s: "start_stage st name [] 10 demo_profiler = Inr (p1, n)" for p1 n
  proof -
    have "profiled 10 p1" by (rule profiled.open_stage [OF demo_in_use(1) order_refl s])
    moreover have "tr_current (pf_trace p1) \<noteq> None"
      using s by (auto simp: start_stage_def trace_start_def Let_def split: if_splits sum.splits option.splits)
    moreover have "(10::int) \<le> 20" by simp
    ultimately show ?thesis unfolding in_use_at_def by blast
  qed
  moreover have "in_use_at 10 demo_profiler" using demo_in_use unfolding in_use_at_def by blast
  ultimately show ?thesis by (simp add: usable_def demo_moment_def)
qed



section \<open>What timing does change\<close>

text \<open>A profiled checkout from a quiet pool: against the documentation of the adapter it lowers the size.\<close>

definition quiet_pool :: async_pool where
  "quiet_pool = (pool_new 1 4 None)\<lparr>pool_sizer := \<lparr>sz_min = 1, sz_max = 4, sz_current = 3, idle_streak = 4\<rparr>\<rparr>"

lemma profiled_checkout_shrinks_pool:
  "sz_current (pool_sizer (snd (fst (async_timed_acquire demo_moment 0 1 2 (0, 0, 0) (Inr 7) (None, quiet_pool))))) = 3"
  "sz_current (pool_sizer (snd (fst (async_timed_acquire demo_moment 0 1 2 (0, 0, 0) (Inr 7) (Some demo_profiler, quiet_pool))))) = 2"
  by code_simp+

text \<open>A call that outlives its request: the profiler has completed, the call is refused without being made.\<close>

lemma completed_profiler_refuses_calls:
  "pf_completed p \<Longrightarrow> \<exists>e. timed mo st name call (Some p, s) = ((Some p, s), Inl e)"
  by (simp add: start_stage_def)

text \<open>
  When the profiler completes during a checkout, the pool has handed out a connection that nobody gets.
\<close>

definition completing :: moment where
  "completing = demo_moment\<lparr>mo_during := (\<lambda>p. p\<lparr>pf_completed := True, pf_trace := (pf_trace p)\<lparr>tr_current := None\<rparr>\<rparr>)\<rparr>"

lemma checkout_lost_to_completion:
  "(case async_timed_acquire completing 0 1 2 (0, 0, 0) (Inr 7) (Some demo_profiler, pool_new 1 4 None) of
      ((_, p), r) \<Rightarrow> (\<forall>c. r \<noteq> Inr c) \<and> keys (in_use p) = [ConnObj 7])"
proof -
  have "(case async_timed_acquire completing 0 1 2 (0, 0, 0) (Inr 7) (Some demo_profiler, pool_new 1 4 None) of
      ((_, p), r) \<Rightarrow> (case r of Inl _ \<Rightarrow> True | Inr _ \<Rightarrow> False) \<and> keys (in_use p) = [ConnObj 7])" by code_simp
  then show ?thesis by (auto split: prod.splits sum.splits)
qed

end
