(* ===== verification/Profile_Export.thy ===== *)
theory Profile_Export
  imports Metrics_Registry
begin

text \<open>
  The profile of a request as a nested dictionary: \<open>RequestProfile.to_dict\<close> and \<open>_node_to_dict\<close> in
  \<open>src/core/performance/request_profiler.py\<close>, without the free-form metadata.
\<close>

section \<open>Profiles as dictionaries\<close>

datatype node_dict = Node_Dict (nd_name: string) (nd_stage: stage) (nd_started_ns: int) (nd_finished_ns: "int option")
  (nd_duration_ns: "int option") (nd_exclusive_duration_ns: "int option") (nd_tags: tags) (nd_children: "node_dict list")

text \<open>The recursion of Python stops at its limit, here \<open>k\<close>: then \<open>RecursionError\<close>, \<open>None\<close>.\<close>

fun node_to_dict :: "nat \<Rightarrow> heap \<Rightarrow> nat \<Rightarrow> node_dict option" where
  "node_to_dict 0 h i = None"
| "node_to_dict (Suc k) h i =
     (case those (map (node_to_dict k h) (tn_children (h i))) of
        None \<Rightarrow> None
      | Some cs \<Rightarrow> Some (Node_Dict (tn_name (h i)) (tn_stage (h i)) (tn_started_ns (h i)) (tn_finished_ns (h i))
          (tn_duration_ns (h i)) (exclusive_duration_ns h i) (tn_tags (h i)) cs))"

record request_dict =
  rd_request_id :: string
  rd_status :: string
  rd_error :: "string option"
  rd_started_ns :: int
  rd_finished_ns :: int
  rd_duration_ns :: int
  rd_tags :: tags
  rd_trace :: "node_dict option"
  rd_metrics :: "(string \<times> metric_type \<times> rat \<times> metric_unit \<times> tags) list"

definition profile_to_dict :: "nat \<Rightarrow> request_profile \<Rightarrow> request_dict option" where
  "profile_to_dict k p =
     (case (case tr_root (rp_trace p) of None \<Rightarrow> Some None
            | Some r \<Rightarrow> map_option Some (node_to_dict k (tr_heap (rp_trace p)) r)) of
        None \<Rightarrow> None
      | Some t \<Rightarrow> Some \<lparr>rd_request_id = rp_request_id p, rd_status = rp_status p, rd_error = rp_error p,
          rd_started_ns = rp_started_ns p, rd_finished_ns = rp_finished_ns p, rd_duration_ns = rp_duration_ns p,
          rd_tags = rp_tags p, rd_trace = t,
          rd_metrics = map (\<lambda>m. (mp_name m, mp_type m, mp_value m, mp_unit m, mp_tags m)) (rp_points p)\<rparr>)"

subsection \<open>Every node once\<close>

text \<open>The values of a node, and the nodes of a dictionary in the order they are printed.\<close>

definition node_values :: "heap \<Rightarrow> nat \<Rightarrow> string \<times> stage \<times> int \<times> int option \<times> int option" where
  "node_values h i = (tn_name (h i), tn_stage (h i), tn_started_ns (h i), tn_duration_ns (h i), exclusive_duration_ns h i)"

fun listed :: "node_dict \<Rightarrow> (string \<times> stage \<times> int \<times> int option \<times> int option) list" where
  "listed (Node_Dict n s a f d x tg cs) = (n, s, a, d, x) # concat (map listed cs)"

definition child_of :: "trace \<Rightarrow> nat \<Rightarrow> nat \<Rightarrow> bool" where
  "child_of tr p i \<longleftrightarrow> i < tr_next tr \<and> tn_parent (tr_heap tr i) = Some p"

definition below :: "trace \<Rightarrow> nat \<Rightarrow> nat \<Rightarrow> bool" where
  "below tr = (child_of tr)\<^sup>*\<^sup>*"

lemma older_parent: "tree_inv tr \<Longrightarrow> 0 < i \<Longrightarrow> i < tr_next tr \<Longrightarrow> \<exists>p < i. tn_parent (tr_heap tr i) = Some p"
  by (simp add: tree_inv_def)

lemma child_older: "tree_inv tr \<Longrightarrow> child_of tr p i \<Longrightarrow> p < i"
proof -
  assume t: "tree_inv tr" and c: "child_of tr p i"
  have "0 < i" using t c by (cases i) (auto simp: tree_inv_def child_of_def)
  then obtain q where "q < i" "tn_parent (tr_heap tr i) = Some q" using older_parent [OF t] c unfolding child_of_def by blast
  with c show "p < i" by (simp add: child_of_def)
qed

lemma below_older: "below tr p i \<Longrightarrow> tree_inv tr \<Longrightarrow> p \<le> i"
  unfolding below_def by (induction rule: rtranclp_induct) (auto dest: child_older)

lemma below_children:
  "below tr p i \<longleftrightarrow> i = p \<or> (\<exists>c. child_of tr p c \<and> below tr c i)"
  unfolding below_def by (auto elim: converse_rtranclpE intro: converse_rtranclp_into_rtranclp)

text \<open>The ancestors of a node form a chain, so siblings have no common descendant.\<close>

lemma below_chain:
  "below tr a i \<Longrightarrow> below tr b i \<Longrightarrow> below tr a b \<or> below tr b a"
  unfolding below_def
proof (induction arbitrary: b rule: rtranclp_induct)
  case (step y z)
  from step.prems show ?case
  proof (cases rule: rtranclp.cases)
    case rtrancl_refl
    then show ?thesis using step.hyps by (auto intro: rtranclp.rtrancl_into_rtrancl)
  next
    case (rtrancl_into_rtrancl w)
    then have "w = y" using step.hyps(2) by (simp add: child_of_def)
    then show ?thesis using step.IH rtrancl_into_rtrancl by blast
  qed
qed simp

lemma siblings_apart:
  assumes "tree_inv tr" "child_of tr p c" "child_of tr p d" "below tr c i" "below tr d i"
  shows "c = d"
proof -
  have apart: "\<not> below tr a b" if ab: "child_of tr p a" "child_of tr p b" "a \<noteq> b" for a b
  proof
    assume "below tr a b"
    then obtain w where w: "below tr a w" "child_of tr w b"
      using ab(3) unfolding below_def by (auto elim: rtranclp.cases)
    then have "w = p" using ab(2) by (simp add: child_of_def)
    with w(1) ab(1) below_older [OF w(1) assms(1)] child_older [OF assms(1) ab(1)] show False by simp
  qed
  show ?thesis using below_chain [OF assms(4,5)] apart assms(2,3) by blast
qed

lemma those_Some: "\<forall>x \<in> set xs. f x = Some (g x) \<Longrightarrow> those (map f xs) = Some (map g xs)"
  by (induction xs) auto

lemma distinct_concat_map:
  assumes "distinct cs" "\<forall>c \<in> set cs. distinct (f c)" "\<forall>c \<in> set cs. \<forall>d \<in> set cs. c \<noteq> d \<longrightarrow> set (f c) \<inter> set (f d) = {}"
  shows "distinct (concat (map f cs))"
  using assms by (induction cs) auto

text \<open>What a dictionary of the subtree at \<open>i\<close> lists: its nodes, each once.\<close>

definition lists_subtree :: "trace \<Rightarrow> nat \<Rightarrow> node_dict \<Rightarrow> nat list \<Rightarrow> bool" where
  "lists_subtree tr i d is \<longleftrightarrow> listed d = map (node_values (tr_heap tr)) is \<and> distinct is
     \<and> set is = {j. j < tr_next tr \<and> below tr i j}"

lemma node_rendered:
  assumes t: "tree_inv tr"
  shows "i < tr_next tr \<Longrightarrow> tr_next tr - i \<le> k \<Longrightarrow> \<exists>d is. node_to_dict k (tr_heap tr) i = Some d \<and> lists_subtree tr i d is"
proof (induction k arbitrary: i)
  case (Suc k)
  let ?cs = "tn_children (tr_heap tr i)"
  have cs: "distinct ?cs" "set ?cs = {c. child_of tr i c}"
    using t Suc.prems(1) by (auto simp: tree_inv_def child_of_def)
  have "\<exists>d is. node_to_dict k (tr_heap tr) c = Some d \<and> lists_subtree tr c d is" if "c \<in> set ?cs" for c
  proof -
    have "child_of tr i c" using that cs(2) by blast
    then have "i < c" "c < tr_next tr" using child_older [OF t] by (auto simp: child_of_def)
    with Suc show ?thesis by simp
  qed
  then obtain d "is" where c: "\<And>c. c \<in> set ?cs \<Longrightarrow> node_to_dict k (tr_heap tr) c = Some (d c) \<and> lists_subtree tr c (d c) (is c)"
    by metis
  have run: "those (map (node_to_dict k (tr_heap tr)) ?cs) = Some (map d ?cs)" using c by (intro those_Some) blast
  have all: "set (concat (map is ?cs)) = {j. \<exists>c. child_of tr i c \<and> j < tr_next tr \<and> below tr c j}"
    using c cs(2) by (auto simp: lists_subtree_def)
  have dist: "distinct (concat (map is ?cs))"
    using cs c siblings_apart [OF t] by (intro distinct_concat_map) (auto simp: lists_subtree_def)
  have "i \<notin> set (concat (map is ?cs))" unfolding all using below_older [OF _ t] child_older [OF t] by fastforce
  moreover have "set (i # concat (map is ?cs)) = {j. j < tr_next tr \<and> below tr i j}"
    unfolding set_simps all using Suc.prems(1) below_children [of tr i] by blast
  moreover have "concat (map listed (map d ?cs)) = map (node_values (tr_heap tr)) (concat (map is ?cs))"
    using c by (simp add: lists_subtree_def map_concat comp_def cong: map_cong)
  ultimately show ?case using run dist by (intro exI [of _ "_ # _"] exI conjI) (auto simp: lists_subtree_def node_values_def)
qed simp

lemma all_below_root: "tree_inv tr \<Longrightarrow> i < tr_next tr \<Longrightarrow> below tr 0 i"
proof (induction i rule: less_induct)
  case (less i)
  show ?case
  proof (cases "i = 0")
    case False
    then obtain p where p: "p < i" "tn_parent (tr_heap tr i) = Some p" using older_parent less.prems by blast
    with less have "below tr 0 p" by simp
    moreover have "child_of tr p i" using p less.prems by (simp add: child_of_def)
    ultimately show ?thesis unfolding below_def by (rule rtranclp.rtrancl_into_rtrancl)
  qed (simp add: below_def)
qed

text \<open>
  C39.  Whatever stages a request opened and left, its completed profile renders, given as much recursion as the
  trace has nodes, and the rendered tree lists every node of the trace exactly once, each with its duration
  and its exclusive duration.
\<close>

theorem completed_profile_renders:
  assumes "profiled t p" "\<forall>i. t \<le> clk i" "\<forall>i j. i \<le> j \<longrightarrow> clk i \<le> clk j"
    and "profiler_complete status error clk p = Some (Inr (p', r))" "tr_next (rp_trace r) \<le> k"
  shows "\<exists>rd d is. profile_to_dict k r = Some rd \<and> rd_trace rd = Some d
     \<and> listed d = map (node_values (tr_heap (rp_trace r))) is \<and> distinct is \<and> set is = {i. i < tr_next (rp_trace r)}
     \<and> (\<forall>(n, s, a, dur, x) \<in> set (listed d). dur \<noteq> None \<and> x \<noteq> None)"
proof -
  obtain q r' t' where f: "profiler_complete status error clk p = Some (Inr (q, r'))" "trace_inv t' (rp_trace r')"
    "tr_current (rp_trace r') = None" using complete_returns [of t p clk] assms(1-3) by metis
  then have r: "r' = r" using assms(4) by simp
  have t: "tree_inv (rp_trace r)" "0 < tr_next (rp_trace r)" "tr_root (rp_trace r) = Some 0"
    using f(2) r by (simp_all add: trace_inv_def tree_inv_def)
  obtain d "is" where d: "node_to_dict k (tr_heap (rp_trace r)) 0 = Some d" "lists_subtree (rp_trace r) 0 d is"
    using node_rendered [OF t(1,2), of k] assms(5) by auto
  have v: "listed d = map (node_values (tr_heap (rp_trace r))) is" "distinct is" "set is = {i. i < tr_next (rp_trace r)}"
    using d(2) all_below_root [OF t(1)] by (auto simp: lists_subtree_def)
  have fin: "\<forall>i \<in> set is. tn_duration_ns (tr_heap (rp_trace r) i) \<noteq> None"
    using completed_nodes [OF f(2,3)] v(3) r by auto
  have "\<forall>(n, s, a, dur, x) \<in> set (listed d). dur \<noteq> None \<and> x \<noteq> None"
    using fin unfolding v(1) by (auto simp: node_values_def exclusive_duration_ns_def)
  moreover have "\<exists>rd. profile_to_dict k r = Some rd \<and> rd_trace rd = Some d" using d(1) t(3) by (simp add: profile_to_dict_def)
  ultimately show ?thesis using v by blast
qed

theorem completed_profile_renders_witness:
  "\<exists>p' r rd d. profiler_complete ''ok'' None steady_clock one_stage = Some (Inr (p', r)) \<and> profile_to_dict 2 r = Some rd
     \<and> rd_trace rd = Some d \<and> length (listed d) = 2"
proof -
  have clk: "20 \<le> steady_clock i" "i \<le> j \<Longrightarrow> steady_clock i \<le> steady_clock j" for i j by (simp_all add: steady_clock_def)
  obtain p' r and t' :: int where r: "profiler_complete ''ok'' None steady_clock one_stage = Some (Inr (p', r))"
    and sh: "same_shape (pf_trace one_stage) (rp_trace r)"
    by (rule complete_returns [OF one_stage_profiled clk])
  have "tr_next (pf_trace one_stage) = 2"
    by (simp add: one_stage_def start_stage_def profiler_new_def trace_start_def trace_new_def add_child_def node_new_def Let_def)
  then have n: "tr_next (rp_trace r) = 2" using sh by (simp add: same_shape_def)
  have c: "\<forall>i. 20 \<le> steady_clock i" "\<forall>i j. i \<le> j \<longrightarrow> steady_clock i \<le> steady_clock j" by (simp_all add: steady_clock_def)
  from completed_profile_renders [OF one_stage_profiled c r, of 2] n
  obtain rd d "is" where d: "profile_to_dict 2 r = Some rd" "rd_trace rd = Some d"
    "listed d = map (node_values (tr_heap (rp_trace r))) is" "distinct is" "set is = {i. i < 2}" by auto
  have "length is = card {i::nat. i < 2}" using distinct_card [OF d(4)] d(5) by simp
  then show ?thesis using r d(1-3) by auto
qed

end
