(* ===== verification/File_Exporters.thy ===== *)
theory File_Exporters
  imports Metrics_Registry
begin

text \<open>
  \<open>src/core/performance/exporters/csv_exporter.py\<close>, \<open>json_exporter.py\<close>, \<open>console_exporter.py\<close>: the flattened
  registry as CSV, JSON and text.  How numbers, dictionaries and JSON are printed is a parameter, and a write
  succeeds; the writer of Python's \<open>csv\<close> module is written out, and a reader of its format states what is
  recovered.  Whether a carriage return is quoted depends on the version of that module (\<open>cr\<close>).
\<close>

section \<open>CSV\<close>

definition histogram_fields :: "string list" where
  "histogram_fields = [''count'', ''sum'', ''mean'', ''min'', ''max'', ''p50'', ''p90'', ''p95'', ''p99'']"

definition fieldnames :: "string list" where
  "fieldnames = [''kind'', ''name'', ''tags'', ''value''] @ histogram_fields"

fun kind_text :: "snapshot_kind \<Rightarrow> string" where
  "kind_text Counter_Kind = ''counter''"
| "kind_text Gauge_Kind = ''gauge''"
| "kind_text Histogram_Kind = ''histogram''"

text \<open>\<open>_format_tags\<close>: the tags sorted by key.\<close>

definition format_tags :: "tags \<Rightarrow> string" where
  "format_tags tags = joined_with '';'' (map (\<lambda>(k, v). k @ ''='' @ v) (sort_key fst tags))"

text \<open>\<open>histogram.get(field)\<close> of the snapshot dictionary.\<close>

fun percentile_name :: "int \<Rightarrow> string" where
  "percentile_name n = ''p'' @ (if n < 0 then ''-'' else []) @ string_of_nat (nat \<bar>n\<bar>)"

definition histogram_field :: "snapshot \<Rightarrow> string \<Rightarrow> rat option" where
  "histogram_field s field =
     (case map_of [(''count'', Some (of_nat (sn_count s))), (''sum'', Some (sn_sum s)), (''mean'', sn_mean s),
           (''min'', sn_min s), (''max'', sn_max s)] field of
        Some v \<Rightarrow> v
      | None \<Rightarrow> (case map_of (map (\<lambda>(n, v). (percentile_name n, v)) (sn_percentiles s)) field of
            None \<Rightarrow> None | Some v \<Rightarrow> v))"

definition cell :: "(rat \<Rightarrow> string) \<Rightarrow> rat option \<Rightarrow> string" where
  "cell show_num v = (case v of None \<Rightarrow> [] | Some x \<Rightarrow> show_num x)"

definition snapshot_row :: "(rat \<Rightarrow> string) \<Rightarrow> metric_snapshot \<Rightarrow> string list" where
  "snapshot_row show_num s =
     [kind_text (ms_kind s), ms_name s, format_tags (ms_tags s), cell show_num (ms_value s)]
     @ map (\<lambda>f. cell show_num (case ms_histogram s of None \<Rightarrow> None | Some h \<Rightarrow> histogram_field h f)) histogram_fields"

text \<open>The writer: a field with a separator, a quote or a line feed is quoted, its quotes doubled.\<close>

definition comma :: char where "comma = CHR 0x2C"
definition quote :: char where "quote = CHR 0x22"
definition newline :: char where "newline = CHR 0x0A"
definition carriage_return :: char where "carriage_return = CHR 0x0D"

lemmas csv_chars = comma_def quote_def newline_def carriage_return_def

fun doubled :: "string \<Rightarrow> string" where
  "doubled [] = []"
| "doubled (c # s) = (if c = quote then [quote, quote] else [c]) @ doubled s"

definition csv_field :: "bool \<Rightarrow> string \<Rightarrow> string" where
  "csv_field cr s =
     (if (\<exists>c \<in> set s. c \<in> {comma, quote, newline} \<or> cr \<and> c = carriage_return) then quote # doubled s @ [quote] else s)"

fun csv_row :: "bool \<Rightarrow> string list \<Rightarrow> string" where
  "csv_row cr [] = [newline]"
| "csv_row cr [f] = csv_field cr f @ [newline]"
| "csv_row cr (f # fs) = csv_field cr f @ comma # csv_row cr fs"

definition render_csv :: "bool \<Rightarrow> (rat \<Rightarrow> string) \<Rightarrow> registry \<Rightarrow> string" where
  "render_csv cr show_num rg = concat (map (csv_row cr) (fieldnames # map (snapshot_row show_num) (build_snapshot rg)))"

text \<open>An exporter keeps what it rendered and writes it to its file, if it has one.\<close>

record file_exporter =
  fe_path :: "string option"
  fe_last_output :: "string option"

definition export_file :: "string \<Rightarrow> file_exporter \<times> (string \<Rightarrow> string option) \<Rightarrow> file_exporter \<times> (string \<Rightarrow> string option)" where
  "export_file text w =
     (case w of (x, files) \<Rightarrow>
        (x\<lparr>fe_last_output := Some text\<rparr>, case fe_path x of None \<Rightarrow> files | Some p \<Rightarrow> files(p \<mapsto> text)))"

definition csv_export where
  "csv_export cr show_num rg = export_file (render_csv cr show_num rg)"

section \<open>JSON and text\<close>

text \<open>The document before it is printed: three sections of names, tags and the value or the histogram.\<close>

datatype metric_json = Json_Number "rat option" | Json_Histogram "snapshot option"

record json_document =
  jd_counters :: "(string \<times> tags \<times> metric_json) list"
  jd_gauges :: "(string \<times> tags \<times> metric_json) list"
  jd_histograms :: "(string \<times> tags \<times> metric_json) list"

definition snapshot_dict :: "metric_snapshot \<Rightarrow> string \<times> tags \<times> metric_json" where
  "snapshot_dict s = (ms_name s, ms_tags s,
     if ms_kind s = Histogram_Kind then Json_Histogram (ms_histogram s) else Json_Number (ms_value s))"

definition of_kind :: "snapshot_kind \<Rightarrow> metric_snapshot list \<Rightarrow> metric_snapshot list" where
  "of_kind k = filter (\<lambda>s. ms_kind s = k)"

definition json_document_of :: "registry \<Rightarrow> json_document" where
  "json_document_of rg =
     (let ss = build_snapshot rg in
      \<lparr>jd_counters = map snapshot_dict (of_kind Counter_Kind ss), jd_gauges = map snapshot_dict (of_kind Gauge_Kind ss),
       jd_histograms = map snapshot_dict (of_kind Histogram_Kind ss)\<rparr>)"

definition json_export where
  "json_export dumps rg = export_file (dumps (json_document_of rg))"

definition console_section ::
  "(tags \<Rightarrow> string) \<Rightarrow> (rat option \<Rightarrow> string) \<Rightarrow> (snapshot option \<Rightarrow> string) \<Rightarrow> string \<Rightarrow> metric_snapshot list \<Rightarrow> snapshot_kind \<Rightarrow> string list" where
  "console_section show_tags show_value show_histogram title ss k =
     (let matching = of_kind k ss in
      [newline # title @ '':''] @
      (if matching = [] then [''  (none)'']
       else map (\<lambda>s. ''  '' @ ms_name s @ (if ms_tags s = [] then [] else '' '' @ show_tags (ms_tags s)) @ '': '' @
              (if k = Histogram_Kind then show_histogram (ms_histogram s) else show_value (ms_value s))) matching))"

definition render_console ::
  "(tags \<Rightarrow> string) \<Rightarrow> (rat option \<Rightarrow> string) \<Rightarrow> (snapshot option \<Rightarrow> string) \<Rightarrow> registry \<Rightarrow> string" where
  "render_console show_tags show_value show_histogram rg =
     (let ss = build_snapshot rg; sect = console_section show_tags show_value show_histogram in
      joined_with [newline] ([''Performance report'', replicate 18 (CHR ''='')]
        @ sect ''Counters'' ss Counter_Kind @ sect ''Gauges'' ss Gauge_Kind @ sect ''Histograms'' ss Histogram_Kind) @ [newline])"

text \<open>The console exporter appends its report to its stream.\<close>

definition console_export ::
  "(tags \<Rightarrow> string) \<Rightarrow> (rat option \<Rightarrow> string) \<Rightarrow> (snapshot option \<Rightarrow> string) \<Rightarrow> registry \<Rightarrow> string option \<times> string
     \<Rightarrow> string option \<times> string" where
  "console_export show_tags show_value show_histogram rg w =
     (let text = render_console show_tags show_value show_histogram rg in (Some text, snd w @ text))"

section \<open>A reader of the format\<close>

text \<open>After the opening quote; at a field; the fields of a row so far and the rest of the text.\<close>

fun quoted_rest :: "string \<Rightarrow> (string \<times> string) option" where
  "quoted_rest [] = None"
| "quoted_rest [c] = (if c = quote then Some ([], []) else None)"
| "quoted_rest (c # d # s) =
     (if c = quote then (if d = quote then map_option (\<lambda>(f, r). (quote # f, r)) (quoted_rest s) else Some ([], d # s))
      else map_option (\<lambda>(f, r). (c # f, r)) (quoted_rest (d # s)))"

definition ends_field :: "char \<Rightarrow> bool" where
  "ends_field c \<longleftrightarrow> c = comma \<or> c = newline"

definition read_field :: "string \<Rightarrow> (string \<times> string) option" where
  "read_field s =
     (if s \<noteq> [] \<and> hd s = quote then quoted_rest (tl s)
      else Some (takeWhile (Not \<circ> ends_field) s, dropWhile (Not \<circ> ends_field) s))"

lemma quoted_rest_length: "quoted_rest s = Some (f, r) \<Longrightarrow> length r \<le> length s"
  by (induction s arbitrary: f rule: quoted_rest.induct) (fastforce split: if_splits)+

lemma read_field_length: "read_field s = Some (f, r) \<Longrightarrow> length r \<le> length s"
  by (cases s) (auto simp: read_field_def length_dropWhile_le dest: quoted_rest_length split: if_splits intro: le_SucI)

function read_rows :: "string list \<Rightarrow> string \<Rightarrow> string list list option" where
  "read_rows row s =
     (case read_field s of
        Some (f, c # r) \<Rightarrow>
          if c = comma then read_rows (row @ [f]) r
          else if c \<noteq> newline then None
          else if r = [] then Some [row @ [f]]
          else map_option ((#) (row @ [f])) (read_rows [] r)
      | _ \<Rightarrow> None)"
  by pat_completeness auto
termination
  by (relation "measure (length \<circ> snd)") (auto dest!: read_field_length)

declare read_rows.simps [simp del]

subsection \<open>Reading what was written\<close>

lemma char_neq [simp]: "comma \<noteq> quote" "newline \<noteq> quote" "newline \<noteq> comma" "quote \<noteq> comma" "quote \<noteq> newline" "comma \<noteq> newline"
  by (simp_all add: csv_chars)

lemma quoted_rest_doubled: "c \<noteq> quote \<Longrightarrow> quoted_rest (doubled s @ quote # c # r) = Some (s, c # r)"
proof (induction s)
  case (Cons a s)
  then show ?case by (cases "doubled s @ quote # c # r") auto
qed simp

lemma read_field_written:
  assumes "ends_field c"
  shows "read_field (csv_field cr f @ c # r) = Some (f, c # r)"
proof (cases "\<exists>d \<in> set f. d \<in> {comma, quote, newline} \<or> cr \<and> d = carriage_return")
  case True
  moreover have "c \<noteq> quote" using assms by (auto simp: ends_field_def)
  ultimately show ?thesis using quoted_rest_doubled by (simp add: csv_field_def read_field_def)
next
  case False
  then have plain: "\<forall>d \<in> set f. (Not \<circ> ends_field) d \<and> d \<noteq> quote" by (auto simp: ends_field_def)
  then have "hd (f @ c # r) \<noteq> quote" using assms by (cases f) (auto simp: ends_field_def)
  then show ?thesis using False plain assms by (auto simp: csv_field_def read_field_def takeWhile_append dropWhile_append3)
qed

lemma read_row_written:
  "fs \<noteq> [] \<Longrightarrow> read_rows row (csv_row cr fs @ r)
     = (if r = [] then Some [row @ fs] else map_option ((#) (row @ fs)) (read_rows [] r))"
proof (induction cr fs arbitrary: row rule: csv_row.induct)
  case (2 cr f)
  show ?case by (subst read_rows.simps) (simp add: read_field_written ends_field_def)
next
  case (3 cr f g fs)
  then show ?case by (subst read_rows.simps) (simp add: read_field_written ends_field_def)
qed simp

lemma read_rows_written:
  "rows \<noteq> [] \<Longrightarrow> \<forall>fs \<in> set rows. fs \<noteq> [] \<Longrightarrow> read_rows [] (concat (map (csv_row cr) rows)) = Some rows"
proof (induction rows)
  case (Cons fs rows)
  have "csv_row cr gs \<noteq> []" for gs by (cases "(cr, gs)" rule: csv_row.cases) auto
  then show ?case using Cons read_row_written [of fs "[]" cr "[]"] by (cases rows) (simp_all add: read_row_written)
qed simp


definition quoted_registry :: registry where
  "quoted_registry = (perf_registry_new 4)
     \<lparr>rg_aggregator := fst (ingest [point ''say \"a,b\"'' COUNTER 1] aggregator_new)\<rparr>"


subsection \<open>What the other exporters keep, and what a cell of tags loses\<close>

text \<open>Every metric is in exactly one section, in the order of the snapshot.\<close>

lemma of_kind_snapshot:
  "of_kind Counter_Kind (build_snapshot rg) @ of_kind Gauge_Kind (build_snapshot rg) @ of_kind Histogram_Kind (build_snapshot rg)
     = build_snapshot rg"
  by (simp add: of_kind_def build_snapshot_def filter_map comp_def case_prod_unfold)

lemma json_sections:
  "jd_counters (json_document_of rg) @ jd_gauges (json_document_of rg) @ jd_histograms (json_document_of rg)
     = map snapshot_dict (build_snapshot rg)"
  unfolding json_document_of_def Let_def by (simp flip: map_append add: of_kind_snapshot)

lemma console_section_lines:
  "length (console_section st sv sh title ss k) = 1 + max 1 (length (of_kind k ss))"
  by (cases "of_kind k ss") (simp_all add: console_section_def Let_def)

text \<open>Keys and values are not escaped: two different sets of tags may share a cell.\<close>

lemma tags_cell_ambiguous:
  "format_tags [(''a'', ''1;b=2'')] = format_tags [(''a'', ''1''), (''b'', ''2'')]"
  by code_simp

end
