(* ===== verification/Db_Lifecycle.thy ===== *)
theory Db_Lifecycle
  imports Session
begin

text \<open>
  The life of a \<open>DatabaseSession\<close> (\<open>src/core/db/session.py\<close>): which connections it opens and when it lets
  them go.  The driver is the set of connections that are open; a connection attempt and a disconnection may
  raise.  The asynchronous and the synchronous face of a session differ in their pool only, which is a
  parameter here (\<open>pool_ops\<close>, with its laws in the locale \<open>closing_pool\<close>); each face keeps its own pool, the introspection adapter is
  whichever was set last.  A checkout runs while nobody waits, as in \<open>Session\<close>.
\<close>

section \<open>The driver\<close>

record driver =
  dv_open :: "conn set"
  dv_next :: conn

definition no_connections :: driver where
  "no_connections = \<lparr>dv_open = {}, dv_next = 0\<rparr>"

text \<open>\<open>adapter.connect()\<close> of a new adapter: \<open>refuses\<close> is what the attempt raises.\<close>

definition connect_adapter :: "(conn \<Rightarrow> raised option) \<Rightarrow> driver \<Rightarrow> driver \<times> (raised + conn)" where
  "connect_adapter refuses d =
     (let c = dv_next d; d1 = d\<lparr>dv_next := Suc c\<rparr> in
      case refuses c of Some e \<Rightarrow> (d1, Inl e) | None \<Rightarrow> (d1\<lparr>dv_open := insert c (dv_open d)\<rparr>, Inr c))"

text \<open>\<open>close()\<close> on each connection in turn, an \<open>Exception\<close> swallowed: \<open>stuck\<close> is what it raises.\<close>

fun close_conns :: "(conn \<Rightarrow> raised option) \<Rightarrow> conn list \<Rightarrow> driver \<Rightarrow> driver \<times> raised option" where
  "close_conns stuck [] d = (d, None)"
| "close_conns stuck (c # cs) d =
     (case stuck c of
        None \<Rightarrow> close_conns stuck cs (d\<lparr>dv_open := dv_open d - {c}\<rparr>)
      | Some e \<Rightarrow> if rz_exception e then close_conns stuck cs d else (d, Some e))"

section \<open>The session object\<close>

text \<open>
  The operations of a pool a session uses, and its name in errors: a checkout with clock readings \<open>'k\<close>, given what creating a
  connection would yield; whether it would create one; a release and \<open>close_all\<close> with the connections they
  close; and the two operations that only touch sizes and counters.
\<close>

record ('k, 'p) pool_ops =
  po_kind :: string
  po_acquire :: "'k \<Rightarrow> raised + conn \<Rightarrow> 'p \<Rightarrow> 'p \<times> taken"
  po_creates :: "'p \<Rightarrow> bool"
  po_release :: "conn \<Rightarrow> bool \<Rightarrow> 'p \<Rightarrow> 'p \<times> conn list"
  po_close_all :: "'p \<Rightarrow> 'p \<times> conn list"
  po_resize :: "int \<Rightarrow> 'p \<Rightarrow> 'p"
  po_metrics :: "'p \<Rightarrow> 'p"

definition async_ops :: "(seconds \<times> seconds \<times> seconds \<times> clock3, async_pool) pool_ops" where
  "async_ops = \<lparr>po_kind = ''Async'', po_acquire = \<lambda>(start, elapsed, late, t). async_take start elapsed late t,
     po_creates = \<lambda>p. available p = [] \<and> int (length (in_use p)) < sz_current (pool_sizer p),
     po_release = release, po_close_all = close_all,
     po_resize = \<lambda>n p. p\<lparr>pool_sizer := (pool_sizer p)\<lparr>sz_current := n\<rparr>\<rparr>, po_metrics = fst \<circ> metrics\<rparr>"

definition sync_ops :: "(seconds \<times> seconds \<times> clocks, sync_pool) pool_ops" where
  "sync_ops = \<lparr>po_kind = ''Sync'', po_acquire = \<lambda>(start, elapsed, t). sync_take start elapsed t,
     po_creates = \<lambda>p. s_available p = [] \<and> int (length (s_in_use p)) < sz_current (s_sizer p),
     po_release = \<lambda>c b p. (case sync_release c b p of (p1, cs, _) \<Rightarrow> (p1, cs)), po_close_all = sync_close_all,
     po_resize = \<lambda>n p. p\<lparr>s_sizer := (s_sizer p)\<lparr>sz_current := n\<rparr>\<rparr>, po_metrics = fst \<circ> sync_metrics\<rparr>"

text \<open>
  \<open>dbs_adapter\<close> is the introspection adapter, connected or not; \<open>dbs_pool\<close> the pool behind
  \<open>_async_pool_adapter\<close>, \<open>dbs_up\<close> whether \<open>_async_pool\<close> is that pool and not \<open>None\<close>.
\<close>

record 'p db_session =
  dbs_adapter :: "conn option option"
  dbs_pool :: "'p option"
  dbs_up :: bool

definition session_object :: "'p db_session" where
  "session_object = \<lparr>dbs_adapter = None, dbs_pool = None, dbs_up = False\<rparr>"

type_synonym 'p db_world = "'p db_session \<times> driver"

definition runtime_raised :: "string \<Rightarrow> raised" where
  "runtime_raised text = \<lparr>rz_type = ''RuntimeError'', rz_message = text, rz_exception = True\<rparr>"

definition not_initialized :: "('k, 'p) pool_ops \<Rightarrow> raised" where
  "not_initialized ops = runtime_raised (po_kind ops @ '' pool not initialized'')"

text \<open>\<open>_create_adapter\<close>, whose \<open>ValueError\<close> leaves every caller.\<close>

definition adapter_for :: "adapter_registry \<Rightarrow> database_config \<Rightarrow> (raised + adapter_class \<times> string \<times> bool)" where
  "adapter_for r c =
     (case create_adapter r c of
        Inl _ \<Rightarrow> Inl \<lparr>rz_type = ''ValueError'', rz_message = ''Unsupported database type configured'', rz_exception = True\<rparr>
      | Inr a \<Rightarrow> Inr a)"

text \<open>The nested \<open>create_session\<close>: an adapter and a connection of its own for each call.\<close>

definition create_session ::
  "adapter_registry \<Rightarrow> database_config \<Rightarrow> (conn \<Rightarrow> raised option) \<Rightarrow> driver \<Rightarrow> driver \<times> (raised + conn)" where
  "create_session r cfg refuses d =
     (case adapter_for r cfg of Inl e \<Rightarrow> (d, Inl e) | Inr _ \<Rightarrow> connect_adapter refuses d)"

definition initialize_session ::
  "'p \<Rightarrow> adapter_registry \<Rightarrow> database_config \<Rightarrow> (conn \<Rightarrow> raised option) \<Rightarrow> 'p db_world \<Rightarrow> 'p db_world \<times> raised option" where
  "initialize_session fresh r cfg refuses w =
     (case w of (s, d) \<Rightarrow>
       (case adapter_for r cfg of
          Inl e \<Rightarrow> ((s, d), Some e)
        | Inr _ \<Rightarrow>
            (case connect_adapter refuses d of
               (d1, Inl e) \<Rightarrow> ((s\<lparr>dbs_adapter := Some None\<rparr>, d1), Some e)
             | (d1, Inr c) \<Rightarrow> ((s\<lparr>dbs_adapter := Some (Some c), dbs_pool := Some fresh, dbs_up := True\<rparr>, d1), None))))"

definition async_fresh :: "streaming_histogram option \<Rightarrow> database_config \<Rightarrow> async_pool" where
  "async_fresh hist cfg = (case pool_parameters cfg of (mn, mx, _) \<Rightarrow> pool_new mn mx hist)"

definition sync_fresh :: "streaming_histogram option \<Rightarrow> database_config \<Rightarrow> sync_pool" where
  "sync_fresh hist cfg = (case pool_parameters cfg of (mn, mx, tmo) \<Rightarrow> sync_new mn mx (of_int tmo) hist)"

definition async_initialize where
  "async_initialize hist r cfg = initialize_session (async_fresh hist cfg) r cfg"

definition sync_initialize where
  "sync_initialize hist r cfg = initialize_session (sync_fresh hist cfg) r cfg"

text \<open>A checkout: the pool calls \<open>create_session\<close> if it has reserved a slot (\<open>po_creates\<close>), and only
  then (the other answer is not looked at).\<close>

definition check_out_session ::
  "('k, 'p) pool_ops \<Rightarrow> adapter_registry \<Rightarrow> database_config
     \<Rightarrow> (conn \<Rightarrow> raised option) \<Rightarrow> 'k \<Rightarrow> 'p \<Rightarrow> 'p db_world \<Rightarrow> 'p db_world \<times> (raised + conn)" where
  "check_out_session ops r cfg refuses k p w =
     (case w of (s, d) \<Rightarrow>
       (case (if po_creates ops p then create_session r cfg refuses d else (d, Inl max_connections_exceeded)) of
          (d1, new) \<Rightarrow>
            (case po_acquire ops k new p of
               (p1, Took c) \<Rightarrow> ((s\<lparr>dbs_pool := Some p1\<rparr>, d1), Inr c)
             | (p1, Full) \<Rightarrow> ((s\<lparr>dbs_pool := Some p1\<rparr>, d1), Inl max_connections_exceeded)
             | (p1, Failed e) \<Rightarrow> ((s\<lparr>dbs_pool := Some p1\<rparr>, d1), Inl e))))"

text \<open>Entering \<open>get_async_session()\<close> and \<open>get_async_transaction()\<close>: their guards look at different attributes.\<close>

definition enter_session where
  "enter_session ops r cfg refuses k w =
     (case dbs_pool (fst w) of
        Some p \<Rightarrow> if dbs_up (fst w) then check_out_session ops r cfg refuses k p w
                  else (w, Inl (not_initialized ops))
      | None \<Rightarrow> (w, Inl (not_initialized ops)))"

definition enter_transaction where
  "enter_transaction ops r cfg refuses k w =
     (case dbs_pool (fst w) of
        Some p \<Rightarrow> check_out_session ops r cfg refuses k p w
      | None \<Rightarrow> (w, Inl (not_initialized ops)))"

text \<open>Releasing a connection through the pool adapter, which closes it if it is broken.\<close>

definition give_session ::
  "('k, 'p) pool_ops \<Rightarrow> (conn \<Rightarrow> raised option) \<Rightarrow> conn \<Rightarrow> bool \<Rightarrow> 'p db_world \<Rightarrow> 'p db_world \<times> raised option" where
  "give_session ops stuck c broken w =
     (case w of (s, d) \<Rightarrow>
       (case dbs_pool s of
          None \<Rightarrow> (w, None)
        | Some p \<Rightarrow>
            (case po_release ops c broken p of (p1, let_go) \<Rightarrow>
              (case close_conns stuck let_go d of (d1, e) \<Rightarrow> ((s\<lparr>dbs_pool := Some p1\<rparr>, d1), e)))))"

text \<open>The end of a session's body (\<open>finish_body\<close>), and its release, which raises last.\<close>

definition leave_session where
  "leave_session ops stuck c body rb w =
     (let f = finish_body body rb in
      case give_session ops stuck c (fst f) w of (w1, e) \<Rightarrow> (w1, case e of Some x \<Rightarrow> Some x | None \<Rightarrow> snd (snd f)))"

text \<open>\<open>probe\<close> is how \<open>SELECT 1\<close> ends on a connection, \<open>rb\<close> how a rollback does.\<close>

definition check_health where
  "check_health ops r cfg refuses stuck probe rb k w =
     (case enter_session ops r cfg refuses k w of
        (w1, Inl e) \<Rightarrow> (w1, if rz_exception e then Inr False else Inl e)
      | (w1, Inr c) \<Rightarrow>
          (case leave_session ops stuck c (probe c) (rb c) w1 of
             (w2, None) \<Rightarrow> (w2, Inr True)
           | (w2, Some e) \<Rightarrow> (w2, if rz_exception e then Inr False else Inl e)))"

text \<open>\<open>get_tables\<close> and \<open>get_schema\<close>: \<open>ask\<close> is the adapter's answer, given its connection.\<close>

definition ask_adapter :: "(conn option \<Rightarrow> raised + 'a) \<Rightarrow> 'p db_world \<Rightarrow> raised + 'a" where
  "ask_adapter ask w =
     (case dbs_adapter (fst w) of None \<Rightarrow> Inl (runtime_raised ''Adapter not initialized'') | Some c \<Rightarrow> ask c)"

text \<open>\<open>close()\<close>: the pool, then the adapter, whose exception leaves the session up.\<close>

definition close_session ::
  "('k, 'p) pool_ops \<Rightarrow> (conn \<Rightarrow> raised option) \<Rightarrow> 'p db_world \<Rightarrow> 'p db_world \<times> raised option" where
  "close_session ops stuck w =
     (case w of (s, d) \<Rightarrow>
       (case (case dbs_pool s of
                Some p \<Rightarrow> if dbs_up s then (case po_close_all ops p of (p1, cs) \<Rightarrow> (s\<lparr>dbs_pool := Some p1\<rparr>, close_conns stuck cs d))
                          else (s, d, None)
              | None \<Rightarrow> (s, d, None)) of
          (s1, d1, Some e) \<Rightarrow> ((s1, d1), Some e)
        | (s1, d1, None) \<Rightarrow>
            (case dbs_adapter s1 of
               Some (Some c) \<Rightarrow>
                 (case stuck c of
                    Some e \<Rightarrow> ((s1, d1), Some e)
                  | None \<Rightarrow> ((s1\<lparr>dbs_up := False\<rparr>, d1\<lparr>dv_open := dv_open d1 - {c}\<rparr>), None))
             | _ \<Rightarrow> ((s1\<lparr>dbs_up := False\<rparr>, d1), None))))"

section \<open>Every order of these operations\<close>

text \<open>
  A step is one operation, with any clock readings, registry, refusals and answers; the pool may also be
  resized (the start of a warm-up) or asked for its metrics.
\<close>

inductive db_step for ops cfg stuck where
  enter: "db_step ops cfg stuck w (fst (enter_session ops r cfg refuses k w))"
| begin_tx: "db_step ops cfg stuck w (fst (enter_transaction ops r cfg refuses k w))"
| leave: "db_step ops cfg stuck w (fst (leave_session ops stuck c body rb w))"
| end_tx: "db_step ops cfg stuck w (fst (give_session ops stuck c False w))"
| warm: "db_step ops cfg stuck w (map_prod (dbs_pool_update (map_option (po_resize ops n))) id w)"
| look: "db_step ops cfg stuck w (map_prod (dbs_pool_update (map_option (po_metrics ops))) id w)"
| health: "db_step ops cfg stuck w
    (fst (check_health ops r cfg refuses stuck probe rb k w))"
| close: "db_step ops cfg stuck w (fst (close_session ops stuck w))"

inductive db_reach for fresh ops cfg stuck where
  start: "db_reach fresh ops cfg stuck
     (fst (initialize_session fresh r cfg refuses (session_object, no_connections)))"
| step: "db_reach fresh ops cfg stuck w \<Longrightarrow>
     db_step ops cfg stuck w w' \<Longrightarrow>
     db_reach fresh ops cfg stuck w'"

section \<open>What the session holds\<close>

definition pool_conns :: "('p \<Rightarrow> conn set) \<Rightarrow> 'p db_session \<Rightarrow> conn set" where
  "pool_conns held s = (case dbs_pool s of None \<Rightarrow> {} | Some p \<Rightarrow> held p)"

definition own_conn :: "'p db_session \<Rightarrow> conn set" where
  "own_conn s = (case dbs_adapter s of Some (Some a) \<Rightarrow> {a} | _ \<Rightarrow> {})"

lemmas conn_sets = pool_conns_def own_conn_def

definition accounts :: "('p \<Rightarrow> bool) \<Rightarrow> ('p \<Rightarrow> conn set) \<Rightarrow> (conn \<Rightarrow> raised option) \<Rightarrow> 'p db_session \<Rightarrow> driver \<Rightarrow> bool" where
  "accounts ok held stuck s d \<longleftrightarrow>
     (\<forall>p. dbs_pool s = Some p \<longrightarrow> ok p) \<and> pool_conns held s \<subseteq> dv_open d
   \<and> dv_open d \<union> own_conn s \<subseteq> {..<dv_next d} \<and> own_conn s \<inter> pool_conns held s = {}
   \<and> dv_open d \<subseteq> pool_conns held s \<union> own_conn s \<union> {c. stuck c \<noteq> None}
   \<and> (dbs_up s \<longrightarrow> dbs_pool s \<noteq> None \<and> own_conn s \<subseteq> dv_open d)"

lemma close_conns_closes:
  assumes "\<forall>c e. stuck c = Some e \<longrightarrow> rz_exception e"
  shows "close_conns stuck cs d = (d\<lparr>dv_open := dv_open d - {c \<in> set cs. stuck c = None}\<rparr>, None)"
proof (induction cs arbitrary: d)
  case (Cons c cs)
  then show ?case using assms by (cases "stuck c") (auto intro!: arg_cong [where f = "\<lambda>x. dv_open_update (\<lambda>_. x) d"])
qed simp

locale closing_pool =
  fixes ops :: "('k, 'p) pool_ops" and ok :: "'p \<Rightarrow> bool" and held :: "'p \<Rightarrow> conn set"
  assumes creates: "ok p \<Longrightarrow> po_creates ops p \<Longrightarrow> c \<notin> held p \<Longrightarrow>
      \<exists>p'. po_acquire ops k (Inr c) p = (p', Took c) \<and> ok p' \<and> held p' = insert c (held p)"
    and fails: "ok p \<Longrightarrow> po_creates ops p \<Longrightarrow>
      \<exists>p'. po_acquire ops k (Inl e) p = (p', Failed e) \<and> ok p' \<and> held p' = held p"
    and reuses: "ok p \<Longrightarrow> \<not> po_creates ops p \<Longrightarrow> po_acquire ops k new p = (p', r) \<Longrightarrow> ok p' \<and> held p' = held p"
    and releases: "ok p \<Longrightarrow> po_release ops c b p = (p', cs) \<Longrightarrow> ok p' \<and> set cs \<subseteq> held p \<and> held p' = held p - set cs"
    and closes: "ok p \<Longrightarrow> po_close_all ops p = (p', cs) \<Longrightarrow> ok p' \<and> set cs = held p \<and> held p' = {}"
    and resizes: "ok p \<Longrightarrow> ok (po_resize ops n p) \<and> held (po_resize ops n p) = held p"
    and observes: "ok p \<Longrightarrow> ok (po_metrics ops p) \<and> held (po_metrics ops p) = held p"
begin

lemma created_accounts:
  assumes "accounts ok held stuck s d" "dbs_pool s = Some p"
    and "check_out_session ops r cfg refuses k p (s, d) = ((s', d'), res)"
  shows "accounts ok held stuck s' d'"
proof (cases "po_creates ops p")
  case False
  obtain p' t where t: "po_acquire ops k (Inl max_connections_exceeded) p = (p', t)" by fastforce
  then have "ok p' \<and> held p' = held p" using reuses assms(1,2) False by (auto simp: accounts_def)
  then show ?thesis using assms t False
    by (cases t) (auto simp: check_out_session_def accounts_def conn_sets)
next
  case True
  obtain d1 new where n: "create_session r cfg refuses d = (d1, new)" by fastforce
  have p: "ok p" "held p \<subseteq> dv_open d" "dv_open d \<subseteq> {..<dv_next d}" "own_conn s \<subseteq> {..<dv_next d}"
    using assms(1,2) by (auto simp: accounts_def conn_sets)
  show ?thesis
  proof (cases new)
    case (Inl e)
    obtain p' where "po_acquire ops k (Inl e) p = (p', Failed e)" "ok p'" "held p' = held p" using fails [OF p(1) True] by blast
    moreover have "dv_open d1 = dv_open d" "dv_next d \<le> dv_next d1"
      using n Inl by (auto simp: create_session_def connect_adapter_def Let_def split: sum.splits option.splits)
    ultimately show ?thesis using assms n True Inl p by (auto simp: check_out_session_def accounts_def conn_sets)
  next
    case (Inr c)
    have c: "c = dv_next d" "d1 = d\<lparr>dv_next := Suc (dv_next d), dv_open := insert (dv_next d) (dv_open d)\<rparr>"
      using n Inr by (auto simp: create_session_def connect_adapter_def Let_def split: sum.splits option.splits)
    then have "c \<notin> held p" using p by auto
    then obtain p' where p': "po_acquire ops k (Inr c) p = (p', Took c)" "ok p'" "held p' = insert c (held p)"
      using creates [OF p(1) True] by blast
    then have s': "s' = s\<lparr>dbs_pool := Some p'\<rparr>" "d' = d1" using assms(3) n True Inr by (auto simp: check_out_session_def)
    have "own_conn s' = own_conn s" "pool_conns held s' = insert c (pool_conns held s)"
      using s' p' assms(2) by (simp_all add: conn_sets)
    then show ?thesis using assms(1,2) p p'(2) s' c by (auto simp: accounts_def)
  qed
qed

lemma given_accounts:
  assumes "accounts ok held stuck s d" "\<forall>c e. stuck c = Some e \<longrightarrow> rz_exception e"
    and "give_session ops stuck c b (s, d) = ((s', d'), e)"
  shows "accounts ok held stuck s' d' \<and> e = None"
proof (cases "dbs_pool s")
  case (Some p)
  obtain p' cs where r: "po_release ops c b p = (p', cs)" by fastforce
  have p: "ok p' \<and> set cs \<subseteq> held p \<and> held p' = held p - set cs" using releases r assms(1) Some by (auto simp: accounts_def)
  have s': "s' = s\<lparr>dbs_pool := Some p'\<rparr>" "d' = d\<lparr>dv_open := dv_open d - {c \<in> set cs. stuck c = None}\<rparr>" "e = None"
    using assms(3) Some r by (simp_all add: give_session_def close_conns_closes [OF assms(2)])
  have "own_conn s' = own_conn s" "pool_conns held s' = pool_conns held s - set cs" "set cs \<subseteq> pool_conns held s"
    using s' p Some by (simp_all add: conn_sets)
  then show ?thesis using assms(1) p s' Some by (auto simp: accounts_def)
qed (use assms in \<open>simp add: give_session_def\<close>)

lemma closed_accounts:
  assumes "accounts ok held stuck s d" "\<forall>c e. stuck c = Some e \<longrightarrow> rz_exception e"
    and "close_session ops stuck (s, d) = ((s', d'), e)"
  shows "accounts ok held stuck s' d' \<and> (dbs_up s \<and> e = None \<longrightarrow> \<not> dbs_up s' \<and> dv_open d' \<subseteq> {c. stuck c \<noteq> None})"
proof -
  obtain s1 d1 where m: "(case dbs_pool s of
       Some p \<Rightarrow> if dbs_up s then (case po_close_all ops p of (p1, cs) \<Rightarrow> (s\<lparr>dbs_pool := Some p1\<rparr>, close_conns stuck cs d)) else (s, d, None)
     | None \<Rightarrow> (s, d, None)) = (s1, d1, None)"
    and a: "accounts ok held stuck s1 d1" and same: "dbs_adapter s1 = dbs_adapter s"
    and none: "dbs_up s \<Longrightarrow> pool_conns held s1 = {}"
  proof (cases "dbs_pool s")
    case (Some p)
    obtain p' cs where r: "po_close_all ops p = (p', cs)" by fastforce
    have p: "ok p'" "set cs = held p" "held p' = {}" using closes r assms(1) Some by (auto simp: accounts_def)
    let ?s = "s\<lparr>dbs_pool := Some p'\<rparr>" and ?d = "d\<lparr>dv_open := dv_open d - {c \<in> set cs. stuck c = None}\<rparr>"
    have "own_conn ?s = own_conn s" "pool_conns held ?s = {}" "set cs = pool_conns held s" using p Some by (simp_all add: conn_sets)
    then have "accounts ok held stuck ?s ?d" using assms(1) p(1) by (auto simp: accounts_def)
    then show ?thesis using that [of ?s ?d] that [of s d] assms(1) r Some p(3)
      by (cases "dbs_up s") (simp_all add: close_conns_closes [OF assms(2)] conn_sets)
  next
    case None
    then show ?thesis using that [of s d] assms(1) by (simp add: conn_sets)
  qed
  show ?thesis
  proof (cases "own_conn s1 = {}")
    case True
    then have "s' = s1\<lparr>dbs_up := False\<rparr>" "d' = d1"
      using assms(3) m by (auto simp: close_session_def own_conn_def split: option.splits)
    then show ?thesis using a none True by (auto simp: accounts_def conn_sets)
  next
    case False
    then obtain c where c: "dbs_adapter s1 = Some (Some c)" "own_conn s1 = {c}" by (auto simp: own_conn_def split: option.splits)
    show ?thesis
    proof (cases "stuck c")
      case None
      then have s': "s' = s1\<lparr>dbs_up := False\<rparr>" "d' = d1\<lparr>dv_open := dv_open d1 - {c}\<rparr>"
        using assms(3) m c by (auto simp: close_session_def)
      have "own_conn s' = {c}" "pool_conns held s' = pool_conns held s1" using s' c by (simp_all add: conn_sets)
      then show ?thesis using a none s' c(2) by (auto simp: accounts_def)
    qed (use a assms(3) m c in \<open>auto simp: close_session_def\<close>)
  qed
qed

lemma entered_accounts:
  assumes "accounts ok held stuck s d"
  shows "enter_session ops r cfg refuses k (s, d) = ((s', d'), res) \<Longrightarrow> accounts ok held stuck s' d'"
    and "enter_transaction ops r cfg refuses k (s, d) = ((s', d'), res) \<Longrightarrow> accounts ok held stuck s' d'"
  using assms created_accounts [OF assms]
  by (auto simp: enter_session_def enter_transaction_def split: option.splits if_splits)

lemma left_accounts:
  assumes "accounts ok held stuck s d" "\<forall>c e. stuck c = Some e \<longrightarrow> rz_exception e"
    and "leave_session ops stuck c body rb (s, d) = ((s', d'), e)"
  shows "accounts ok held stuck s' d' \<and> e = snd (snd (finish_body body rb))"
proof -
  obtain s1 d1 e1 where g: "give_session ops stuck c (fst (finish_body body rb)) (s, d) = ((s1, d1), e1)" by (metis surj_pair)
  then show ?thesis using given_accounts [OF assms(1,2) g] assms(3) by (simp add: leave_session_def)
qed

lemma health_accounts:
  assumes "accounts ok held stuck s d" "\<forall>c e. stuck c = Some e \<longrightarrow> rz_exception e"
    and "check_health ops r cfg refuses stuck probe rb k (s, d) = ((s', d'), res)"
  shows "accounts ok held stuck s' d'"
proof -
  obtain s1 d1 en where n: "enter_session ops r cfg refuses k (s, d) = ((s1, d1), en)" by (metis surj_pair)
  note a = entered_accounts(1) [OF assms(1) n]
  show ?thesis
  proof (cases en)
    case (Inr c)
    obtain s2 d2 e where l: "leave_session ops stuck c (probe c) (rb c) (s1, d1) = ((s2, d2), e)" by (metis surj_pair)
    have "s' = s2 \<and> d' = d2" using assms(3) n Inr l by (auto simp: check_health_def split: option.splits)
    then show ?thesis using left_accounts [OF a assms(2) l] by simp
  qed (use a assms(3) n in \<open>simp add: check_health_def\<close>)
qed

lemma step_accounts:
  assumes "db_step ops cfg stuck w w'" "accounts ok held stuck (fst w) (snd w)" "\<forall>c e. stuck c = Some e \<longrightarrow> rz_exception e"
  shows "accounts ok held stuck (fst w') (snd w')"
proof -
  obtain s d where w: "w = (s, d)" by (cases w)
  have a: "accounts ok held stuck s d" using assms(2) w by simp
  have sized: "accounts ok held stuck (dbs_pool_update (map_option f) s) d"
    if "\<And>p. ok p \<Longrightarrow> ok (f p) \<and> held (f p) = held p" for f
    using a that by (cases s, cases "dbs_pool s") (auto simp: accounts_def conn_sets)
  from assms(1) show ?thesis
  proof cases
    case (enter r refuses k)
    then show ?thesis using entered_accounts(1) [OF a] w by (metis prod.collapse)
  next
    case (begin_tx r refuses k)
    then show ?thesis using entered_accounts(2) [OF a] w by (metis prod.collapse)
  next
    case (leave c body rb)
    then show ?thesis using left_accounts [OF a assms(3)] w by (metis prod.collapse)
  next
    case (end_tx c)
    then show ?thesis using given_accounts [OF a assms(3)] w by (metis prod.collapse)
  next
    case (warm n)
    then show ?thesis using sized [of "po_resize ops n"] resizes w by simp
  next
    case look
    then show ?thesis using sized [of "po_metrics ops"] observes w by simp
  next
    case (health r refuses probe rb k)
    then show ?thesis using health_accounts [OF a assms(3)] w by (metis prod.collapse)
  next
    case close
    then show ?thesis using closed_accounts [OF a assms(3)] w by (metis prod.collapse)
  qed
qed

lemma reach_accounts:
  assumes "db_reach fresh ops cfg stuck w" "ok fresh" "held fresh = {}" "\<forall>c e. stuck c = Some e \<longrightarrow> rz_exception e"
  shows "accounts ok held stuck (fst w) (snd w)"
  using assms(1)
proof induction
  case (start r refuses)
  then show ?case using assms(2,3)
    by (auto simp: initialize_session_def connect_adapter_def Let_def session_object_def no_connections_def accounts_def
        conn_sets split: sum.splits option.splits)
qed (use step_accounts assms(4) in blast)

text \<open>
  Up to its \<open>close()\<close> a session has open what its pool holds and the introspection connection; \<open>close()\<close>
  closes all of it, and later sessions and health checks are refused without a new connection.
\<close>

lemma close_leaves_nothing:
  assumes "db_reach fresh ops cfg stuck w" "ok fresh" "held fresh = {}" "\<forall>c e. stuck c = Some e \<longrightarrow> rz_exception e"
    and "dbs_up (fst w)" "close_session ops stuck w = (w', None)"
  shows "dv_open (snd w) \<subseteq> pool_conns held (fst w) \<union> own_conn (fst w) \<union> {c. stuck c \<noteq> None}
     \<and> pool_conns held (fst w) \<union> own_conn (fst w) \<subseteq> dv_open (snd w)
     \<and> dv_open (snd w') \<subseteq> {c. stuck c \<noteq> None}
     \<and> enter_session ops r cfg refuses k w' = (w', Inl (not_initialized ops))
     \<and> check_health ops r cfg refuses stuck probe rb k w' = (w', Inr False)"
proof -
  note a = reach_accounts [OF assms(1-4)]
  have c: "\<not> dbs_up (fst w') \<and> dv_open (snd w') \<subseteq> {c. stuck c \<noteq> None}"
    using closed_accounts [OF a assms(4)] assms(5,6) by (metis prod.collapse)
  then have "enter_session ops r cfg refuses k w' = (w', Inl (not_initialized ops))" for r cfg refuses k
    by (simp add: enter_session_def split: option.split)
  then show ?thesis using a assms(5) c by (simp add: accounts_def check_health_def not_initialized_def runtime_raised_def)
qed

end

section \<open>Both pools\<close>

lemma closed_entries:
  "distinct (keys m) \<Longrightarrow>
     set (map pc_connection (concat (map (\<lambda>(k, v). case v of None \<Rightarrow> [] | Some pc \<Rightarrow> [pc]) m)))
       = {pc_connection pc | k pc. map_of m k = Some (Some pc)}"
  by (auto split: option.splits intro!: imageI)

definition async_closable :: "async_pool \<Rightarrow> bool" where
  "async_closable p \<longleftrightarrow> async_ok p \<and> distinct (heap_conns (available p)) \<and> async_idle p \<inter> async_busy p = {}
     \<and> (\<forall>c pc. map_of (in_use p) (ConnObj c) = Some (Some pc) \<longrightarrow> pc_connection pc = c)
     \<and> (\<forall>k v. map_of (in_use p) (Placeholder k) = Some v \<longrightarrow> v = None)"

definition async_held :: "async_pool \<Rightarrow> conn set" where
  "async_held p = async_idle p \<union> async_busy p"

definition sync_closable :: "sync_pool \<Rightarrow> bool" where
  "sync_closable p \<longleftrightarrow> sync_ok p \<and> distinct (heap_conns (s_available p)) \<and> free_conns p \<inter> sync_busy p = {}
     \<and> (\<forall>c pc. map_of (s_in_use p) (OfConn c) = Some (Some pc) \<longrightarrow> pc_connection pc = c)
     \<and> (\<forall>k v. map_of (s_in_use p) (OfReservation k) = Some v \<longrightarrow> v = None)"

definition sync_held :: "sync_pool \<Rightarrow> conn set" where
  "sync_held p = free_conns p \<union> sync_busy p"

lemmas async_views = async_closable_def async_held_def async_idle_def async_busy_def async_ok_def
lemmas sync_views = sync_closable_def sync_held_def free_conns_def sync_busy_def sync_ok_def reserved_def

lemma async_take_waits:
  assumes "async_take start elapsed late t new p = (p', r)"
    "\<not> (available p = [] \<and> int (length (in_use p)) < sz_current (pool_sizer p))"
  obtains x rest pc where "available p = x # rest" "available p' = rest" "next_obj p' = next_obj p"
      "in_use p' = AList.update (ConnObj (snd (snd x))) (Some pc) (in_use p)" "pc_connection pc = snd (snd x)"
  | "available p = []" "available p' = []" "in_use p' = in_use p" "next_obj p' = Suc (next_obj p)"
proof -
  obtain p1 a where sec: "acquire_section start t (begin_acquire p) = (p1, a)" by fastforce
  then show thesis
  proof (cases rule: acquire_section_cases)
    case (reuse ts n c rest)
    then show thesis using that(1) [of "(ts, n, c)" rest "new_pool_connection (fst (snd t)) c (snd (snd t))"] assms(1) sec
      by (simp add: async_take_def new_pool_connection_def)
  next
    case reserve
    then show thesis using assms(2) by simp
  next
    case wait
    then show thesis using that(2) assms(1) sec by (auto simp: async_take_def acquire_timeout_def)
  qed
qed

lemma sync_take_waits:
  assumes "sync_take start elapsed t new p = (p', r)"
    "\<not> (s_available p = [] \<and> int (length (s_in_use p)) < sz_current (s_sizer p))"
  obtains x rest pc where "s_available p = x # rest" "s_available p' = rest" "s_next_key p' = s_next_key p"
      "s_in_use p' = AList.update (OfConn (snd (snd x))) (Some pc) (s_in_use p)" "pc_connection pc = snd (snd x)"
  | "s_available p = []" "s_available p' = []" "s_in_use p' = s_in_use p" "s_next_key p' = s_next_key p"
proof (cases "s_available p")
  case (Cons x rest)
  then show thesis using that(1) [of x rest] assms(1)
    by (cases x) (auto simp: sync_take_def Let_def sync_section_def new_pool_connection_def sync_check_out_def)
next
  case Nil
  then show thesis using that(2) assms
    by (auto simp: sync_take_def Let_def sync_section_def split: if_splits)
qed

lemma async_reuse_closable:
  assumes "async_closable p" "available p = x # rest" "available p' = rest" "next_obj p' = next_obj p"
    "in_use p' = AList.update (ConnObj (snd (snd x))) (Some pc) (in_use p)" "pc_connection pc = snd (snd x)"
  shows "async_closable p' \<and> async_held p' = async_held p"
  using assms by (auto simp: async_views map_of_update set_keys_update simp del: set_map)

lemma sync_reuse_closable:
  assumes "sync_closable p" "s_available p = x # rest" "s_available p' = rest" "s_next_key p' = s_next_key p"
    "s_in_use p' = AList.update (OfConn (snd (snd x))) (Some pc) (s_in_use p)" "pc_connection pc = snd (snd x)"
  shows "sync_closable p' \<and> sync_held p' = sync_held p"
  using assms by (auto simp: sync_views map_of_update set_keys_update simp del: set_map)

lemma async_create_closable:
  assumes "async_closable p" "po_creates async_ops p"
  shows "c \<notin> async_held p \<Longrightarrow>
      \<exists>p'. po_acquire async_ops k (Inr c) p = (p', Took c) \<and> async_closable p' \<and> async_held p' = insert c (async_held p)"
    and "\<exists>p'. po_acquire async_ops k (Inl e) p = (p', Failed e) \<and> async_closable p' \<and> async_held p' = async_held p"
proof -
  obtain start elapsed late t where k: "k = (start, elapsed, late, t)" by (rule prod_cases4)
  have free: "available p = []" "int (length (in_use p)) < sz_current (pool_sizer p)" "async_ok p"
    using assms by (simp_all add: async_ops_def async_closable_def)
  obtain q q' where q: "async_take start elapsed late t (Inr c) p = (q, Took c)" "async_take start elapsed late t (Inl e) p = (q', Failed e)"
      "available q = []" "available q' = []" "in_use q' = in_use p" "next_obj q = Suc (next_obj p)" "next_obj q' = Suc (next_obj p)"
      "in_use q = AList.update (ConnObj c) (Some (new_pool_connection (fst (snd t)) c (snd (snd t)))) (in_use p)"
    by (rule async_take_creates [OF free(3,1,2)])
  have "async_closable q'" "async_held q' = async_held p" using q assms(1) free by (auto simp: async_views less_Suc_eq)
  then show "\<exists>p'. po_acquire async_ops k (Inl e) p = (p', Failed e) \<and> async_closable p' \<and> async_held p' = async_held p"
    using q(2) k by (simp add: async_ops_def)
  assume "c \<notin> async_held p"
  then have "async_closable q" "async_held q = insert c (async_held p)"
    using q assms(1) free by (auto simp: async_views map_of_update set_keys_update new_pool_connection_def less_Suc_eq simp del: set_map)
  then show "\<exists>p'. po_acquire async_ops k (Inr c) p = (p', Took c) \<and> async_closable p' \<and> async_held p' = insert c (async_held p)"
    using q(1) k by (simp add: async_ops_def)
qed

lemma async_other_closable:
  assumes "async_closable p" "\<not> po_creates async_ops p" "po_acquire async_ops k new p = (p', r)"
  shows "async_closable p' \<and> async_held p' = async_held p"
proof -
  obtain start elapsed late t where k: "k = (start, elapsed, late, t)" by (rule prod_cases4)
  have "async_take start elapsed late t new p = (p', r)" using assms(3) k by (simp add: async_ops_def)
  then show ?thesis
  proof (rule async_take_waits)
    show "\<not> (available p = [] \<and> int (length (in_use p)) < sz_current (pool_sizer p))" using assms(2) by (simp add: async_ops_def)
    show ?thesis if "available p = []" "available p' = []" "in_use p' = in_use p" "next_obj p' = Suc (next_obj p)"
      using assms(1) that by (auto simp: async_views less_Suc_eq)
  qed (rule async_reuse_closable [OF assms(1)])
qed

lemma async_release_closable:
  assumes "async_closable p" "po_release async_ops c b p = (p', cs)"
  shows "async_closable p' \<and> set cs \<subseteq> async_held p \<and> async_held p' = async_held p - set cs"
proof -
  have r: "release c b p = (p', cs)" using assms(2) by (simp add: async_ops_def)
  show ?thesis
  proof (cases "map_of (in_use p) (ConnObj c)")
    case None
    then show ?thesis using r assms(1) by (auto simp: release_def Let_def async_views map_of_delete set_keys_delete simp del: set_map split: if_splits)
  next
    case (Some v)
    then obtain pc where "v = Some pc" using assms(1) by (cases v) (auto simp: async_views)
    then show ?thesis using r assms(1) Some
      by (cases b) (auto simp: release_def Let_def async_views map_of_delete set_keys_delete heap_push_conns
          intro!: heap_push_distinct simp del: set_map split: if_splits)
  qed
qed

lemma async_close_closable:
  assumes "async_closable p" "po_close_all async_ops p = (p', cs)"
  shows "async_closable p' \<and> set cs = async_held p \<and> async_held p' = {}"
proof -
  have d: "distinct (keys (in_use p))" using assms(1) by (simp add: async_views wf_odict_def)
  have "k \<in> range ConnObj" if "map_of (in_use p) k = Some (Some pc)" for k pc
    using assms(1) that by (cases k) (auto simp: async_views)
  then have e: "{pc_connection pc | k pc. map_of (in_use p) k = Some (Some pc)} = async_busy p"
    using assms(1) by (fastforce simp: async_views)
  have c: "cs = heap_conns (available p) @ map pc_connection (concat (map (\<lambda>(k, v). case v of None \<Rightarrow> [] | Some pc \<Rightarrow> [pc]) (in_use p)))"
      "p' = p\<lparr>available := [], in_use := []\<rparr>"
    using assms(2) by (simp_all add: async_ops_def close_all_def)
  have "set cs = async_held p" unfolding c(1) set_append closed_entries [OF d] e async_held_def async_idle_def ..
  then show ?thesis unfolding c(2) by (simp add: async_views)
qed

lemma sync_create_closable:
  assumes "sync_closable p" "po_creates sync_ops p"
  shows "c \<notin> sync_held p \<Longrightarrow>
      \<exists>p'. po_acquire sync_ops k (Inr c) p = (p', Took c) \<and> sync_closable p' \<and> sync_held p' = insert c (sync_held p)"
    and "\<exists>p'. po_acquire sync_ops k (Inl e) p = (p', Failed e) \<and> sync_closable p' \<and> sync_held p' = sync_held p"
proof -
  obtain start elapsed t where k: "k = (start, elapsed, t)" by (rule prod_cases3)
  have free: "s_available p = []" "int (length (s_in_use p)) < sz_current (s_sizer p)" "sync_ok p"
    using assms by (simp_all add: sync_ops_def sync_closable_def)
  obtain q q' where q: "sync_take start elapsed t (Inr c) p = (q, Took c)" "sync_take start elapsed t (Inl e) p = (q', Failed e)"
      "s_available q = []" "s_available q' = []" "s_in_use q' = s_in_use p" "s_next_key q = Suc (s_next_key p)" "s_next_key q' = Suc (s_next_key p)"
      "s_in_use q = AList.update (OfConn c) (Some (new_pool_connection (at_created t) c (at_checked_out t))) (s_in_use p)"
    by (rule sync_take_creates [OF free(3,1,2)])
  have "sync_closable q'" "sync_held q' = sync_held p" using q assms(1) free by (auto simp: sync_views less_Suc_eq)
  then show "\<exists>p'. po_acquire sync_ops k (Inl e) p = (p', Failed e) \<and> sync_closable p' \<and> sync_held p' = sync_held p"
    using q(2) k by (simp add: sync_ops_def)
  assume "c \<notin> sync_held p"
  then have "sync_closable q" "sync_held q = insert c (sync_held p)"
    using q assms(1) free by (auto simp: sync_views map_of_update set_keys_update new_pool_connection_def less_Suc_eq simp del: set_map)
  then show "\<exists>p'. po_acquire sync_ops k (Inr c) p = (p', Took c) \<and> sync_closable p' \<and> sync_held p' = insert c (sync_held p)"
    using q(1) k by (simp add: sync_ops_def)
qed

lemma sync_other_closable:
  assumes "sync_closable p" "\<not> po_creates sync_ops p" "po_acquire sync_ops k new p = (p', r)"
  shows "sync_closable p' \<and> sync_held p' = sync_held p"
proof -
  obtain start elapsed t where k: "k = (start, elapsed, t)" by (rule prod_cases3)
  have "sync_take start elapsed t new p = (p', r)" using assms(3) k by (simp add: sync_ops_def)
  then show ?thesis
  proof (rule sync_take_waits)
    show "\<not> (s_available p = [] \<and> int (length (s_in_use p)) < sz_current (s_sizer p))" using assms(2) by (simp add: sync_ops_def)
    show ?thesis if "s_available p = []" "s_available p' = []" "s_in_use p' = s_in_use p" "s_next_key p' = s_next_key p"
      using assms(1) that by (auto simp: sync_views less_Suc_eq)
  qed (rule sync_reuse_closable [OF assms(1)])
qed

lemma sync_release_closable:
  assumes "sync_closable p" "po_release sync_ops c b p = (p', cs)"
  shows "sync_closable p' \<and> set cs \<subseteq> sync_held p \<and> sync_held p' = sync_held p - set cs"
proof -
  have r: "\<exists>n. sync_release c b p = (p', cs, n)" using assms(2) by (auto simp: sync_ops_def split: prod.splits)
  show ?thesis
  proof (cases "map_of (s_in_use p) (OfConn c)")
    case None
    then show ?thesis using r assms(1) by (auto simp: sync_release_def Let_def sync_views map_of_delete set_keys_delete simp del: set_map split: if_splits)
  next
    case (Some v)
    then obtain pc where "v = Some pc" using assms(1) by (cases v) (auto simp: sync_views)
    then show ?thesis using r assms(1) Some
      by (cases b) (auto simp: sync_release_def Let_def sync_views map_of_delete set_keys_delete heap_push_conns
          intro!: heap_push_distinct simp del: set_map split: if_splits)
  qed
qed

lemma sync_close_closable:
  assumes "sync_closable p" "po_close_all sync_ops p = (p', cs)"
  shows "sync_closable p' \<and> set cs = sync_held p \<and> sync_held p' = {}"
proof -
  have d: "distinct (keys (s_in_use p))" using assms(1) by (simp add: sync_views wf_odict_def)
  have "k \<in> range OfConn" if "map_of (s_in_use p) k = Some (Some pc)" for k pc
    using assms(1) that by (cases k) (auto simp: sync_views)
  then have e: "{pc_connection pc | k pc. map_of (s_in_use p) k = Some (Some pc)} = sync_busy p"
    using assms(1) by (fastforce simp: sync_views)
  have c: "cs = heap_conns (s_available p) @ map pc_connection (concat (map (\<lambda>(k, v). case v of None \<Rightarrow> [] | Some pc \<Rightarrow> [pc]) (s_in_use p)))"
      "p' = p\<lparr>s_available := [], s_in_use := []\<rparr>"
    using assms(2) by (simp_all add: sync_ops_def sync_close_all_def)
  have "set cs = sync_held p" unfolding c(1) set_append closed_entries [OF d] e sync_held_def free_conns_def ..
  then show ?thesis unfolding c(2) by (simp add: sync_views)
qed

lemma async_sizes_closable:
  assumes "async_closable p"
  shows "async_closable (po_resize async_ops n p) \<and> async_held (po_resize async_ops n p) = async_held p"
    and "async_closable (po_metrics async_ops p) \<and> async_held (po_metrics async_ops p) = async_held p"
  using assms by (simp_all add: async_ops_def async_views)

interpretation async_closing: closing_pool async_ops async_closable async_held
  by (unfold_locales; elim async_create_closable async_other_closable async_release_closable async_close_closable async_sizes_closable; assumption)


lemma sync_sizes_closable:
  assumes "sync_closable p"
  shows "sync_closable (po_resize sync_ops n p) \<and> sync_held (po_resize sync_ops n p) = sync_held p"
    and "sync_closable (po_metrics sync_ops p) \<and> sync_held (po_metrics sync_ops p) = sync_held p"
  using assms by (simp_all add: sync_ops_def sync_views)

interpretation sync_closing: closing_pool sync_ops sync_closable sync_held
  by (unfold_locales; elim sync_create_closable sync_other_closable sync_release_closable sync_close_closable sync_sizes_closable; assumption)

section \<open>Properties\<close>

lemma fresh_pools:
  "async_closable (async_fresh hist cfg)" "async_held (async_fresh hist cfg) = {}"
  "sync_closable (sync_fresh hist cfg)" "sync_held (sync_fresh hist cfg) = {}"
  by (simp_all add: async_fresh_def sync_fresh_def pool_new_def sync_new_def async_views sync_views split: prod.splits)


text \<open>The same of the synchronous face.\<close>

theorem close_sync_closes_everything:
  assumes "db_reach (sync_fresh hist cfg) sync_ops cfg stuck w" "\<forall>c e. stuck c = Some e \<longrightarrow> rz_exception e"
    and "dbs_up (fst w)" "close_session sync_ops stuck w = (w', None)"
  shows "dv_open (snd w) \<subseteq> pool_conns sync_held (fst w) \<union> own_conn (fst w) \<union> {c. stuck c \<noteq> None}
     \<and> pool_conns sync_held (fst w) \<union> own_conn (fst w) \<subseteq> dv_open (snd w)
     \<and> dv_open (snd w') \<subseteq> {c. stuck c \<noteq> None}
     \<and> enter_session sync_ops r cfg refuses k w' = (w', Inl (not_initialized sync_ops))
     \<and> check_health sync_ops r cfg refuses stuck probe rb k w' = (w', Inr False)"
  by (rule sync_closing.close_leaves_nothing [OF assms(1) fresh_pools(3,4) assms(2-4)])

text \<open>A DuckDB session with its class registered, before and after one session is entered.\<close>

definition duck_registry :: adapter_registry where
  "duck_registry = \<lparr>reg_adapters = [(''duckdb'', 0)], reg_instances = []\<rparr>"

definition duck_config :: database_config where
  "duck_config = from_duckdb ''sales.db'' None 0 False None"

abbreviation at_zero :: "seconds \<times> seconds \<times> seconds \<times> clock3" where
  "at_zero \<equiv> (0, 0, 0, 0, 0, 0)"

definition session_started :: "async_pool db_world" where
  "session_started = fst (async_initialize None duck_registry duck_config (\<lambda>_. None) (session_object, no_connections))"

definition in_session :: "async_pool db_world" where
  "in_session = fst (enter_session async_ops duck_registry duck_config (\<lambda>_. None) at_zero session_started)"

definition finished :: "async_pool db_world" where
  "finished = fst (close_session async_ops (\<lambda>_. None) in_session)"

definition after_transaction :: "async_pool db_world" where
  "after_transaction = fst (enter_transaction async_ops duck_registry duck_config (\<lambda>_. None) at_zero finished)"

lemma one_session:
  "dbs_up (fst in_session)" "dv_open (snd in_session) = {0, 1}"
  "close_session async_ops (\<lambda>_. None) in_session = (finished, None)" "dv_open (snd finished) = {}"
  by code_simp+


subsection \<open>What is still possible after \<open>close()\<close>\<close>

text \<open>
  Only \<open>_async_pool\<close> is reset.  A transaction goes through \<open>_async_pool_adapter\<close>, opens a connection in the closed
  pool, and closing the session again leaves it open.
\<close>

lemma transaction_after_close_leaks:
  "enter_transaction async_ops duck_registry duck_config (\<lambda>_. None) at_zero finished = (after_transaction, Inr 2)"
  "dv_open (snd (fst (close_session async_ops (\<lambda>_. None) after_transaction))) = {2}"
  by code_simp+

text \<open>\<open>_adapter\<close> is not reset either: table queries reach the disconnected adapter.\<close>

lemma closed_adapter_is_asked:
  "close_session ops stuck w = (w', e) \<Longrightarrow> ask_adapter ask w' = ask_adapter ask w"
  by (cases w) (auto simp: close_session_def ask_adapter_def split: option.splits prod.splits if_splits)

text \<open>
  A connection whose creation was under way while \<open>close_all()\<close> ran is registered in the closed pool afterwards,
  and becomes idle there when it is given back.
\<close>

lemma late_connection_outlives_pool:
  assumes "p1 = create_done k c start elapsed t (fst (close_all p))"
  shows "c \<in> async_busy p1 \<and> c \<in> async_idle (fst (release c False p1)) \<and> c \<notin> set (snd (release c False p1))"
  by (simp add: assms create_done_def close_all_def async_busy_def async_idle_def release_def Let_def map_of_update
      heap_push_conns del: set_map)

end
