(* ===== verification/Measurement.thy ===== *)
theory Measurement
  imports Profile_Export
begin

text \<open>
  The scripts that measure the service: the results, statistics and reports shared by the benchmarks
  (\<open>src/benchmarks/_common.py\<close>) and the load test (\<open>src/load_test.py\<close>).  Clock readings, the benchmarked call and
  the answers of the service are arguments; how a report is printed is left out.
\<close>

section \<open>Benchmarks\<close>

record benchmark_result =
  br_name :: string
  br_iterations :: nat
  br_total_seconds :: rat
  br_errors :: nat
  br_durations_seconds :: "rat list"

definition throughput_per_second :: "benchmark_result \<Rightarrow> rat" where
  "throughput_per_second b =
     (if br_total_seconds b > 0 then of_nat (br_iterations b) / br_total_seconds b else 0)"

definition error_rate :: "benchmark_result \<Rightarrow> rat" where
  "error_rate b = (if br_iterations b \<noteq> 0 then of_nat (br_errors b) / of_nat (br_iterations b) else 0)"

text \<open>\<open>min(n - 1, max(0, round(q * (n - 1))))\<close>, the index of the nearest rank.\<close>

definition nearest_rank :: "rat \<Rightarrow> nat \<Rightarrow> nat" where
  "nearest_rank q n = nat (min (int n - 1) (max 0 \<lfloor>py_round 0 (q * (of_nat n - 1))\<rfloor>))"

definition bench_percentile :: "rat \<Rightarrow> benchmark_result \<Rightarrow> rat" where
  "bench_percentile pct b =
     (let ds = br_durations_seconds b in
      if ds = [] then 0 else sort ds ! nearest_rank (pct / 100) (length ds))"

definition mean_of :: "rat list \<Rightarrow> rat" where
  "mean_of xs = (if xs = [] then 0 else sum_list xs / of_nat (length xs))"

definition bench_percentiles :: "nat list" where
  "bench_percentiles = [50, 90, 95, 99]"

record bench_summary =
  bs_error_rate :: rat
  bs_throughput :: rat
  bs_mean_ms :: rat
  bs_min_ms :: rat
  bs_max_ms :: rat
  bs_percentiles_ms :: "(nat \<times> rat) list"

definition bench_to_dict :: "benchmark_result \<Rightarrow> bench_summary" where
  "bench_to_dict b =
     (let ds = br_durations_seconds b in
      \<lparr>bs_error_rate = error_rate b, bs_throughput = throughput_per_second b, bs_mean_ms = mean_of ds * 1000,
       bs_min_ms = (if ds = [] then 0 else Min (set ds)) * 1000, bs_max_ms = (if ds = [] then 0 else Max (set ds)) * 1000,
       bs_percentiles_ms = map (\<lambda>q. (q, bench_percentile (of_nat q) b * 1000)) bench_percentiles\<rparr>)"

text \<open>
  The loop of \<open>run_benchmark\<close>: call \<open>i\<close> reads the clock twice.  An \<open>Exception\<close> is counted; a cancellation, which
  is none, leaves the loop.
\<close>

fun bench_loop ::
  "(nat \<Rightarrow> rat) \<Rightarrow> ('s \<Rightarrow> 's \<times> unit result) \<Rightarrow> nat \<Rightarrow> nat \<Rightarrow> rat list \<Rightarrow> nat \<Rightarrow> 's \<Rightarrow> 's \<times> (rat list \<times> nat) result" where
  "bench_loop clk call 0 i ds errs s = (s, Inr (ds, errs))"
| "bench_loop clk call (Suc n) i ds errs s =
     (case call s of (s', r) \<Rightarrow>
        if r = Inl CancelledError then (s', Inl CancelledError)
        else bench_loop clk call n (Suc i) (ds @ [clk (2 * i + 2) - clk (2 * i + 1)])
               (case r of Inl _ \<Rightarrow> Suc errs | Inr _ \<Rightarrow> errs) s')"

definition run_benchmark ::
  "(nat \<Rightarrow> rat) \<Rightarrow> string \<Rightarrow> nat \<Rightarrow> ('s \<Rightarrow> 's \<times> unit result) \<Rightarrow> 's \<Rightarrow> 's \<times> benchmark_result result" where
  "run_benchmark clk name n call s =
     (case bench_loop clk call n 0 [] 0 s of
        (s', Inl e) \<Rightarrow> (s', Inl e)
      | (s', Inr (ds, errs)) \<Rightarrow>
          (s', Inr \<lparr>br_name = name, br_iterations = n, br_total_seconds = clk (2 * n + 1) - clk 0, br_errors = errs,
                    br_durations_seconds = ds\<rparr>))"

text \<open>The figures \<open>compare\<close> prints; \<open>None\<close> is \<open>n/a\<close>.\<close>

definition pct_change :: "rat \<Rightarrow> rat \<Rightarrow> rat option" where
  "pct_change old new = (if old = 0 then None else Some ((new - old) / old * 100))"

definition compare_runs :: "benchmark_result \<Rightarrow> benchmark_result \<Rightarrow> (rat \<times> rat \<times> rat option) list" where
  "compare_runs baseline candidate =
     (let row = (\<lambda>a b. (a, b, pct_change a b)) in
      row (throughput_per_second baseline) (throughput_per_second candidate)
      # map (\<lambda>q. row (bench_percentile (of_nat q) baseline * 1000) (bench_percentile (of_nat q) candidate * 1000)) bench_percentiles)"

subsection \<open>Stages of the retained requests\<close>

text \<open>\<open>samples[name].append(d)\<close> on a \<open>defaultdict(list)\<close>.\<close>

definition add_sample :: "string \<Rightarrow> int \<Rightarrow> (string, int list) odict \<Rightarrow> (string, int list) odict" where
  "add_sample name d samples =
     AList.update name ((case map_of samples name of None \<Rightarrow> [] | Some ds \<Rightarrow> ds) @ [d]) samples"

text \<open>The walk over a trace; \<open>None\<close> is the recursion limit.\<close>

fun collect_node_durations ::
  "nat \<Rightarrow> heap \<Rightarrow> nat \<Rightarrow> (string, int list) odict \<Rightarrow> (string, int list) odict option" where
  "collect_node_durations 0 h i samples = None"
| "collect_node_durations (Suc k) h i samples =
     fold (\<lambda>c acc. case acc of None \<Rightarrow> None | Some s \<Rightarrow> collect_node_durations k h c s) (tn_children (h i))
       (Some (case tn_duration_ns (h i) of None \<Rightarrow> samples | Some d \<Rightarrow> add_sample (tn_name (h i)) d samples))"

record stage_stats =
  ss_count :: nat
  ss_mean_ms :: rat
  ss_p95_ms :: rat

definition stats_of :: "int list \<Rightarrow> stage_stats" where
  "stats_of durations_ns =
     (let ms = map (\<lambda>d. of_int d / 1000000) durations_ns in
      \<lparr>ss_count = length ms, ss_mean_ms = mean_of ms, ss_p95_ms = sort ms ! nearest_rank (95 / 100) (length ms)\<rparr>)"

fun collect_history :: "nat \<Rightarrow> request_profile list \<Rightarrow> (string, int list) odict \<Rightarrow> (string, int list) odict option" where
  "collect_history k [] samples = Some samples"
| "collect_history k (p # ps) samples =
     (case tr_root (rp_trace p) of
        None \<Rightarrow> collect_history k ps samples
      | Some r \<Rightarrow>
          (case collect_node_durations k (tr_heap (rp_trace p)) r samples of
             None \<Rightarrow> None
           | Some s \<Rightarrow> collect_history k ps s))"

definition stage_breakdown :: "nat \<Rightarrow> registry \<Rightarrow> (string, stage_stats) odict option" where
  "stage_breakdown k rg =
     map_option (map (\<lambda>(name, ds). (name, stats_of ds))) (collect_history k (rg_history rg) [])"

section \<open>Load test\<close>

text \<open>The JSON body of an answer: a dictionary, of which only texts are looked at, or something else.\<close>

datatype answer_body = Dict_Body "(string, string) odict" | Other_Body string

record request_result =
  rr_status_code :: nat
  rr_elapsed_ms :: rat
  rr_error :: "string option"
  rr_body :: "answer_body option"

text \<open>The request either raised, with the text and the representation of the exception, or was answered.\<close>

definition run_one_query :: "rat \<Rightarrow> rat \<Rightarrow> (string \<times> string) + (nat \<times> answer_body option) \<Rightarrow> request_result" where
  "run_one_query start stop outcome =
     (let elapsed = (stop - start) * 1000 in
      case outcome of
        Inr (status, body) \<Rightarrow> \<lparr>rr_status_code = status, rr_elapsed_ms = elapsed, rr_error = None, rr_body = body\<rparr>
      | Inl (text, rep) \<Rightarrow>
          \<lparr>rr_status_code = 0, rr_elapsed_ms = elapsed, rr_error = Some (if text = [] then rep else text), rr_body = None\<rparr>)"

text \<open>\<open>percentile\<close>, linear between the two ranks; an index past the end raises.\<close>

definition interpolated :: "rat list \<Rightarrow> rat \<Rightarrow> rat" where
  "interpolated s k =
     (let f = nat \<lfloor>k\<rfloor>; c = min (f + 1) (length s - 1) in
      if f = c then s ! f else s ! f + (s ! c - s ! f) * (k - of_nat f))"

definition load_percentile :: "rat list \<Rightarrow> nat \<Rightarrow> rat result" where
  "load_percentile data pct =
     (if data = [] then Inr 0
      else (let k = (of_nat (length data) - 1) * (of_nat pct / 100) in
            if length data \<le> nat \<lfloor>k\<rfloor> then Inl (OtherError ''IndexError'') else Inr (interpolated (sort data) k)))"

definition succeeded_request :: "request_result \<Rightarrow> bool" where
  "succeeded_request r \<longleftrightarrow> rr_status_code r = 200 \<and> py_or_str (rr_error r) [] = []"

definition status_key :: "request_result \<Rightarrow> string" where
  "status_key r = (if rr_status_code r \<noteq> 0 then string_of_nat (rr_status_code r) else ''connection_error'')"

definition count_status :: "request_result \<Rightarrow> (string, nat) odict \<Rightarrow> (string, nat) odict" where
  "count_status r counts =
     AList.update (status_key r) ((case map_of counts (status_key r) of None \<Rightarrow> 0 | Some n \<Rightarrow> n) + 1) counts"

definition failure_detail :: "request_result \<Rightarrow> string option" where
  "failure_detail r =
     (if py_or_str (rr_error r) [] \<noteq> [] then rr_error r
      else case rr_body r of
          None \<Rightarrow> None
        | Some (Dict_Body d) \<Rightarrow> map_of d ''error''
        | Some (Other_Body t) \<Rightarrow> Some t)"

record load_report =
  lr_total_requests :: nat
  lr_wall_time_seconds :: rat
  lr_throughput :: rat
  lr_succeeded :: nat
  lr_failed :: nat
  lr_status_code_counts :: "(string, nat) odict"
  lr_min :: rat
  lr_avg :: rat
  lr_max :: rat
  lr_p50 :: rat
  lr_p95 :: rat
  lr_p99 :: rat
  lr_sample_failures :: "(nat \<times> string option) list"
  lr_raw_requests :: "(nat \<times> rat \<times> string option) list"

definition build_load_report :: "request_result list \<Rightarrow> rat \<Rightarrow> load_report result" where
  "build_load_report results wall =
     (let latencies = map rr_elapsed_ms results; ok = filter succeeded_request results;
          failed = filter (\<lambda>r. r \<notin> set ok) results
      in case (load_percentile latencies 50, load_percentile latencies 95, load_percentile latencies 99) of
           (Inr p50, Inr p95, Inr p99) \<Rightarrow>
             Inr \<lparr>lr_total_requests = length results, lr_wall_time_seconds = wall,
               lr_throughput = (if wall \<noteq> 0 then of_nat (length results) / wall else 0),
               lr_succeeded = length ok, lr_failed = length failed, lr_status_code_counts = fold count_status results [],
               lr_min = (if latencies = [] then 0 else Min (set latencies)), lr_avg = mean_of latencies,
               lr_max = (if latencies = [] then 0 else Max (set latencies)), lr_p50 = p50, lr_p95 = p95, lr_p99 = p99,
               lr_sample_failures = map (\<lambda>r. (rr_status_code r, failure_detail r)) (take 10 failed),
               lr_raw_requests = map (\<lambda>r. (rr_status_code r, rr_elapsed_ms r, rr_error r)) results\<rparr>
         | _ \<Rightarrow> Inl (OtherError ''IndexError''))"

section \<open>Smoke tests\<close>

text \<open>
  The requests of \<open>run_smoke_tests\<close>, and of an answer its status and what is read of its JSON body (\<open>None\<close> if
  \<open>json()\<close> raises); a request that raises gives its text.
\<close>

datatype smoke_request = Get_Health | Post_Query | Get_Tables | Get_Keys | Post_Query_Bad_Key | Post_Query_No_Key

record smoke_json =
  sj_status :: "string option"
  sj_success :: bool
  sj_cached :: bool
  sj_has_tables :: bool
  sj_count :: int

record smoke_answer =
  sa_status_code :: nat
  sa_json :: "smoke_json option"

record check_result =
  ck_name :: string
  ck_passed :: bool

definition check_answer :: "string \<Rightarrow> (smoke_answer \<Rightarrow> bool) \<Rightarrow> (string + smoke_answer) \<Rightarrow> check_result" where
  "check_answer name passes outcome =
     \<lparr>ck_name = name, ck_passed = (case outcome of Inl _ \<Rightarrow> False | Inr a \<Rightarrow> passes a)\<rparr>"

definition json_check :: "(smoke_json \<Rightarrow> bool) \<Rightarrow> smoke_answer \<Rightarrow> bool" where
  "json_check f a \<longleftrightarrow> sa_status_code a = 200 \<and> (case sa_json a of None \<Rightarrow> False | Some j \<Rightarrow> f j)"

text \<open>Five queries in a row; one that raises fails the check and ends it.\<close>

fun rapid_queries :: "(smoke_request \<Rightarrow> 's \<Rightarrow> 's \<times> (string + smoke_answer)) \<Rightarrow> nat \<Rightarrow> 's \<Rightarrow> 's \<times> bool" where
  "rapid_queries send 0 s = (s, True)"
| "rapid_queries send (Suc n) s =
     (case send Post_Query s of
        (s1, Inl _) \<Rightarrow> (s1, False)
      | (s1, Inr a) \<Rightarrow> (case rapid_queries send n s1 of (s2, ok) \<Rightarrow> (s2, sa_status_code a = 200 \<and> ok)))"

definition run_smoke_tests ::
  "(smoke_request \<Rightarrow> 's \<Rightarrow> 's \<times> (string + smoke_answer)) \<Rightarrow> 's \<Rightarrow> 's \<times> check_result list" where
  "run_smoke_tests send s0 =
     (let (s1, health) = send Get_Health s0; (s2, query) = send Post_Query s1; (s3, again) = send Post_Query s2;
          (s4, tables) = send Get_Tables s3; (s5, keys) = send Get_Keys s4; (s6, rapid) = rapid_queries send 5 s5;
          (s7, bad) = send Post_Query_Bad_Key s6; (s8, none) = send Post_Query_No_Key s7
      in (s8,
        [check_answer ''GET /api/health'' (json_check (\<lambda>j. sj_status j \<in> {Some ''healthy'', Some ''degraded''})) health,
         check_answer ''POST /api/query (SELECT 1)'' (json_check sj_success) query,
         check_answer ''POST /api/query (repeat -> cached)'' (json_check sj_cached) again,
         check_answer ''GET /api/tables'' (json_check sj_has_tables) tables,
         check_answer ''GET /api/auth/keys/{owner_id}'' (json_check (\<lambda>j. sj_count j \<ge> 1)) keys,
         \<lparr>ck_name = ''5x rapid requests, same key (validation cache)'', ck_passed = rapid\<rparr>,
         check_answer ''POST /api/query (bad key -> 401)'' (\<lambda>a. sa_status_code a = 401) bad,
         check_answer ''POST /api/query (no key -> 401)'' (\<lambda>a. sa_status_code a = 401) none]))"

text \<open>
  A request that raises fails its own checks and no other, and eight checks are reported in any case.
\<close>

lemma rapid_queries_pass:
  "(\<And>s. snd (send Post_Query s) = answer) \<Longrightarrow>
     snd (rapid_queries send (Suc n) s) = (case answer of Inl _ \<Rightarrow> False | Inr a \<Rightarrow> sa_status_code a = 200)"
proof (induction n arbitrary: s)
  case 0
  then show ?case using prod.collapse [of "send Post_Query s"] by (auto simp: split_def split: sum.splits)
next
  case (Suc n)
  obtain t where t: "send Post_Query s = (t, answer)" using Suc.prems by (metis prod.collapse)
  show ?case using Suc.IH [OF Suc.prems, of t] by (subst rapid_queries.simps) (auto simp: t split_def split: sum.splits)
qed

lemma smoke_checks_independent:
  assumes "\<And>q s. snd (send q s) = answer q"
  shows "map ck_passed (snd (run_smoke_tests send s)) =
     map (\<lambda>(q, f). case answer q of Inl _ \<Rightarrow> False | Inr a \<Rightarrow> f a)
       [(Get_Health, json_check (\<lambda>j. sj_status j \<in> {Some ''healthy'', Some ''degraded''})), (Post_Query, json_check sj_success),
        (Post_Query, json_check sj_cached), (Get_Tables, json_check sj_has_tables), (Get_Keys, json_check (\<lambda>j. sj_count j \<ge> 1)),
        (Post_Query, \<lambda>a. sa_status_code a = 200), (Post_Query_Bad_Key, \<lambda>a. sa_status_code a = 401),
        (Post_Query_No_Key, \<lambda>a. sa_status_code a = 401)]"
  using rapid_queries_pass [of send "answer Post_Query" 4, OF assms] assms
  by (simp add: run_smoke_tests_def split_def check_answer_def cong: sum.case_cong)

text \<open>\<open>fetch_dashboard_snapshot\<close>: the data, or why there is none.\<close>

datatype 'd dashboard_snapshot = Available 'd | Unavailable string

definition fetch_dashboard_snapshot :: "string + nat \<times> string \<times> (string + 'd) \<Rightarrow> 'd dashboard_snapshot" where
  "fetch_dashboard_snapshot outcome =
     (case outcome of
        Inl text \<Rightarrow> Unavailable text
      | Inr (status, body, json) \<Rightarrow>
          if status \<noteq> 200 then Unavailable (''status='' @ string_of_nat status @ '' body='' @ take 300 body)
          else (case json of Inl text \<Rightarrow> Unavailable text | Inr d \<Rightarrow> Available d))"

section \<open>A benchmark run\<close>

lemma bench_loop_durations:
  "bench_loop clk call n i ds errs s = (s', Inr (ds', errs')) \<Longrightarrow>
     ds' = ds @ map (\<lambda>j. clk (2 * j + 2) - clk (2 * j + 1)) [i..<i + n] \<and> errs \<le> errs' \<and> errs' \<le> errs + n"
proof (induction n arbitrary: i ds errs s)
  case (Suc n)
  obtain t r where c: "call s = (t, r)" by fastforce
  have r: "r \<noteq> Inl CancelledError" using Suc.prems c by auto
  let ?errs = "case r of Inl _ \<Rightarrow> Suc errs | Inr _ \<Rightarrow> errs"
  have "errs \<le> ?errs \<and> ?errs \<le> Suc errs" by (cases r) simp_all
  then show ?case using Suc.IH [of "Suc i" _ ?errs t] Suc.prems c r by (fastforce simp: upt_conv_Cons simp del: upt_Suc)
qed simp

lemma durations_fit:
  assumes "\<And>i j. i \<le> j \<Longrightarrow> clk i \<le> (clk j :: rat)"
  shows "(\<Sum>j\<leftarrow>[0..<n]. clk (2 * j + 2) - clk (2 * j + 1)) \<le> clk (2 * n) - clk 0"
proof (induction n)
  case (Suc n)
  have "clk (2 * n) \<le> clk (2 * n + 1)" by (rule assms) simp
  then show ?case using Suc by simp
qed simp

text \<open>Every call is timed once, errors are at most the calls, and the calls fit in the total time.\<close>

lemma benchmark_accounts:
  assumes "run_benchmark clk name n call s = (s', Inr b)" "\<And>i j. i \<le> j \<Longrightarrow> clk i \<le> clk j"
  shows "length (br_durations_seconds b) = n \<and> br_iterations b = n \<and> br_errors b \<le> n
     \<and> sum_list (br_durations_seconds b) \<le> br_total_seconds b \<and> 0 \<le> error_rate b \<and> error_rate b \<le> 1"
proof -
  obtain ds errs where l: "bench_loop clk call n 0 [] 0 s = (s', Inr (ds, errs))"
    and b: "b = \<lparr>br_name = name, br_iterations = n, br_total_seconds = clk (2 * n + 1) - clk 0, br_errors = errs, br_durations_seconds = ds\<rparr>"
    using assms(1) by (auto simp: run_benchmark_def split: prod.splits sum.splits)
  have "clk (2 * n) \<le> clk (2 * n + 1)" by (rule assms(2)) simp
  then show ?thesis using bench_loop_durations [OF l] durations_fit [where clk = clk and n = n, OF assms(2)] b by (auto simp: error_rate_def field_simps)
qed

section \<open>The report of the load test\<close>

lemma floor_index: "\<lfloor>k :: rat\<rfloor> < int n \<Longrightarrow> n \<noteq> 0 \<Longrightarrow> nat \<lfloor>k\<rfloor> < n"
  by linarith

lemma interpolated_between:
  assumes "sorted s" "0 \<le> k" "k \<le> of_nat (length s) - 1"
  shows "s ! nat \<lfloor>k\<rfloor> \<le> interpolated s k" "interpolated s k \<le> s ! min (nat \<lfloor>k\<rfloor> + 1) (length s - 1)"
proof -
  let ?f = "nat \<lfloor>k\<rfloor>" and ?c = "min (nat \<lfloor>k\<rfloor> + 1) (length s - 1)"
  have f: "of_nat ?f \<le> k" "k < of_nat ?f + 1" using assms(2) by (auto simp: of_nat_nat) linarith
  then have "of_nat ?f < (of_nat (length s) :: rat)" using assms(3) by linarith
  then have n: "?f < length s" by simp
  then have "?f \<le> ?c" "?c < length s" by auto
  then have le: "s ! ?f \<le> s ! ?c" using assms(1) by (intro sorted_nth_mono) simp_all
  have "0 \<le> (s ! ?c - s ! ?f) * (k - of_nat ?f)" using le f by simp
  moreover have "(s ! ?c - s ! ?f) * (k - of_nat ?f) \<le> (s ! ?c - s ! ?f) * 1" using le f by (intro mult_left_mono) auto
  ultimately show "s ! ?f \<le> interpolated s k" "interpolated s k \<le> s ! ?c"
    using le by (simp_all add: interpolated_def Let_def)
qed

lemma interpolated_mono:
  assumes "sorted s" "0 \<le> k" "k \<le> k'" "k' \<le> of_nat (length s) - 1"
  shows "interpolated s k \<le> interpolated s k'"
proof (cases "nat \<lfloor>k\<rfloor> = nat \<lfloor>k'\<rfloor>")
  case True
  let ?f = "nat \<lfloor>k\<rfloor>" and ?c = "min (nat \<lfloor>k\<rfloor> + 1) (length s - 1)"
  have "s ! ?f \<le> s ! ?c" using interpolated_between [OF assms(1,2)] assms(3,4) by force
  then show ?thesis using True assms(3) by (simp add: interpolated_def Let_def mult_left_mono)
next
  case False
  have "\<lfloor>k\<rfloor> \<le> \<lfloor>k'\<rfloor>" using assms(3) by (rule floor_mono)
  then have lt: "nat \<lfloor>k\<rfloor> < nat \<lfloor>k'\<rfloor>" using False assms(2) by linarith
  have "of_nat (nat \<lfloor>k'\<rfloor>) \<le> k'" using assms(2,3) by (simp add: of_nat_nat)
  then have "of_nat (nat \<lfloor>k'\<rfloor>) < (of_nat (length s) :: rat)" using assms(4) by linarith
  then have "nat \<lfloor>k'\<rfloor> < length s" by simp
  moreover have "min (nat \<lfloor>k\<rfloor> + 1) (length s - 1) \<le> nat \<lfloor>k'\<rfloor>" using lt by (intro min.coboundedI1) linarith
  ultimately have "s ! min (nat \<lfloor>k\<rfloor> + 1) (length s - 1) \<le> s ! nat \<lfloor>k'\<rfloor>" using assms(1) by (intro sorted_nth_mono) auto
  then show ?thesis
    using interpolated_between(2) [OF assms(1,2)] interpolated_between(1) [OF assms(1) _ assms(4)] assms(2-4) by force
qed

lemma load_percentile_returns:
  assumes "pct \<le> 100"
  shows "load_percentile data pct = Inr (if data = [] then 0 else interpolated (sort data) ((of_nat (length data) - 1) * (of_nat pct / 100)))"
proof (cases "data = []")
  case False
  let ?n = "of_nat (length data) - 1 :: rat"
  have n: "0 \<le> ?n" using False by (cases data) simp_all
  have "?n * (of_nat pct / 100) \<le> ?n * 1" using assms n by (intro mult_left_mono) simp_all
  then have "\<lfloor>?n * (of_nat pct / 100)\<rfloor> < int (length data)" using floor_less_iff by fastforce
  then have "nat \<lfloor>?n * (of_nat pct / 100)\<rfloor> < length data" using False by (intro floor_index) simp_all
  then show ?thesis using False by (simp add: load_percentile_def Let_def not_le del: times_divide_eq_right)
qed (simp add: load_percentile_def)

lemma percentiles_ordered:
  assumes "lo = (if l = [] then 0 else Min (set l))" "hi = (if l = [] then 0 else Max (set l))"
    and "load_percentile l 50 = Inr p50" "load_percentile l 95 = Inr p95" "load_percentile l 99 = Inr p99"
  shows "lo \<le> p50 \<and> p50 \<le> p95 \<and> p95 \<le> p99 \<and> p99 \<le> hi"
proof (cases "l = []")
  case False
  let ?s = "sort l" and ?n = "of_nat (length l) - 1 :: rat"
  have n: "0 \<le> ?n" using False by (cases l) simp_all
  have at: "x \<in> set ?s \<Longrightarrow> lo \<le> x \<and> x \<le> hi" for x using assms(1,2) False by auto
  have p: "p50 = interpolated ?s (?n * (50 / 100))" "p95 = interpolated ?s (?n * (95 / 100))" "p99 = interpolated ?s (?n * (99 / 100))"
    using assms(3-5) False by (simp_all add: load_percentile_returns)
  have k: "0 \<le> ?n * (50 / 100)" "?n * (50 / 100) \<le> ?n * (95 / 100)" "?n * (95 / 100) \<le> ?n * (99 / 100)"
      "?n * (99 / 100) \<le> of_nat (length ?s) - 1" using n by simp_all
  have "nat \<lfloor>?n * (50 / 100)\<rfloor> < length ?s"
  proof -
    have "\<lfloor>?n * (50 / 100)\<rfloor> < int (length ?s)" using k by (simp add: floor_less_iff)
    then show ?thesis using False by (intro floor_index) simp_all
  qed
  then have lo: "lo \<le> ?s ! nat \<lfloor>?n * (50 / 100)\<rfloor>" using at nth_mem by blast
  have "?s ! min (nat \<lfloor>?n * (99 / 100)\<rfloor> + 1) (length ?s - 1) \<in> set ?s" using False by (intro nth_mem) (cases l; simp)
  then have hi: "?s ! min (nat \<lfloor>?n * (99 / 100)\<rfloor> + 1) (length ?s - 1) \<le> hi" using at by blast
  have "lo \<le> p50" using lo interpolated_between(1) [OF sorted_sort k(1), of l] k unfolding p by linarith
  moreover have "p99 \<le> hi" using hi interpolated_between(2) [OF sorted_sort _ k(4)] k unfolding p by force
  moreover have "p50 \<le> p95" unfolding p by (rule interpolated_mono) (use k in auto)
  moreover have "p95 \<le> p99" unfolding p by (rule interpolated_mono) (use k in auto)
  ultimately show ?thesis by simp
qed (use assms in \<open>simp add: load_percentile_def\<close>)

definition entry_count :: "'k \<Rightarrow> ('k, nat) odict \<Rightarrow> nat" where
  "entry_count k m = (case map_of m k of None \<Rightarrow> 0 | Some n \<Rightarrow> n)"

lemma counted_statuses:
  "entry_count k (fold count_status rs m) = entry_count k m + length (filter (\<lambda>r. status_key r = k) rs)"
proof (induction rs arbitrary: m)
  case (Cons r rs)
  have "entry_count k (count_status r m) = entry_count k m + (if status_key r = k then 1 else 0)"
    by (simp add: entry_count_def count_status_def map_of_update)
  then show ?case using Cons.IH [of "count_status r m"] by simp
qed simp

lemma sum_update: "sum_list (map snd (AList.update k (entry_count k m + 1) m)) = Suc (sum_list (map snd m))"
  by (induction m) (auto simp: entry_count_def)

lemma sum_statuses: "sum_list (map snd (fold count_status rs m)) = sum_list (map snd m) + length rs"
proof (induction rs arbitrary: m)
  case (Cons r rs)
  have "count_status r m = AList.update (status_key r) (entry_count (status_key r) m + 1) m"
    by (simp add: count_status_def entry_count_def)
  then show ?case using Cons.IH sum_update by simp
qed simp

text \<open>
  The report of a load test always comes about and adds up: every request succeeded or failed, is counted
  under exactly one status, and the latency percentiles are ordered between the smallest and the largest latency.
\<close>

theorem load_report_adds_up:
  "\<exists>rep. build_load_report results wall = Inr rep \<and> lr_total_requests rep = length results
     \<and> lr_succeeded rep + lr_failed rep = length results \<and> lr_succeeded rep = length (filter succeeded_request results)
     \<and> sum_list (map snd (lr_status_code_counts rep)) = length results
     \<and> (\<forall>k. entry_count k (lr_status_code_counts rep) = length (filter (\<lambda>r. status_key r = k) results))
     \<and> lr_min rep \<le> lr_p50 rep \<and> lr_p50 rep \<le> lr_p95 rep \<and> lr_p95 rep \<le> lr_p99 rep \<and> lr_p99 rep \<le> lr_max rep
     \<and> length (lr_sample_failures rep) = min 10 (lr_failed rep)"
proof -
  let ?l = "map rr_elapsed_ms results" and ?ok = "filter succeeded_request results"
  have failed: "filter (\<lambda>r. r \<notin> set ?ok) results = filter (\<lambda>r. \<not> succeeded_request r) results" by (rule filter_cong) auto
  have len: "length ?ok + length (filter (\<lambda>r. \<not> succeeded_request r) results) = length results" by (rule sum_length_filter_compl)
  obtain p50 p95 p99 where p: "load_percentile ?l 50 = Inr p50" "load_percentile ?l 95 = Inr p95" "load_percentile ?l 99 = Inr p99"
    by (simp add: load_percentile_returns)
  show ?thesis unfolding build_load_report_def Let_def failed p using percentiles_ordered [OF refl refl p] len counted_statuses [of _ results "[]"]
      sum_statuses [of results "[]"] by (simp add: entry_count_def)
qed

section \<open>Stage durations of the retained requests\<close>

text \<open>Collecting the durations of a trace is listing its nodes (\<open>listed\<close>) and adding each finished one.\<close>

fun add_listed :: "string \<times> stage \<times> int \<times> int option \<times> int option \<Rightarrow> (string, int list) odict \<Rightarrow> (string, int list) odict" where
  "add_listed (n, s, a, d, x) samples = (case d of None \<Rightarrow> samples | Some t \<Rightarrow> add_sample n t samples)"

lemma collect_children:
  assumes "\<And>c nd s. c \<in> set cs \<Longrightarrow> f c = Some nd \<Longrightarrow> g c s = Some (fold add_listed (listed nd) s)"
    and "those (map f cs) = Some nds"
  shows "fold (\<lambda>c acc. case acc of None \<Rightarrow> None | Some s \<Rightarrow> g c s) cs (Some s) = Some (fold add_listed (concat (map listed nds)) s)"
  using assms
proof (induction cs arbitrary: nds s)
  case (Cons c cs)
  obtain nd nds' where n: "f c = Some nd" "those (map f cs) = Some nds'" "nds = nd # nds'"
    using Cons.prems(2) by (auto split: option.splits)
  have "g c s = Some (fold add_listed (listed nd) s)" using Cons.prems(1) n(1) by simp
  then show ?case using Cons.IH [OF _ n(2)] Cons.prems(1) n(3) by simp
qed simp

lemma collect_lists:
  "node_to_dict k h i = Some nd \<Longrightarrow> collect_node_durations k h i s = Some (fold add_listed (listed nd) s)"
proof (induction k arbitrary: i nd s)
  case (Suc k)
  then obtain nds where n: "those (map (node_to_dict k h) (tn_children (h i))) = Some nds"
      "nd = Node_Dict (tn_name (h i)) (tn_stage (h i)) (tn_started_ns (h i)) (tn_finished_ns (h i))
          (tn_duration_ns (h i)) (exclusive_duration_ns h i) (tn_tags (h i)) nds"
    by (auto split: option.splits)
  show ?case using collect_children [OF Suc.IH n(1)] n(2) by simp
qed simp

definition samples_named :: "string \<Rightarrow> (string, int list) odict \<Rightarrow> nat" where
  "samples_named n samples = (case map_of samples n of None \<Rightarrow> 0 | Some ds \<Rightarrow> length ds)"

lemma counted_listed:
  "samples_named n (fold add_listed xs s)
     = samples_named n s + length (filter (\<lambda>(m, _, _, d, _). m = n \<and> d \<noteq> None) xs)"
proof (induction xs arbitrary: s)
  case (Cons x xs)
  obtain m st a d e where x: "x = (m, st, a, d, e)" by (cases x)
  have "samples_named n (add_listed x s) = samples_named n s + (if m = n \<and> d \<noteq> None then 1 else 0)"
    by (cases d) (auto simp: x samples_named_def add_sample_def map_of_update split: option.splits)
  then show ?case using Cons.IH [of "add_listed x s"] x by auto
qed simp

text \<open>A profile that \<open>complete()\<close> returned, and how many of its nodes have a name.\<close>

definition completed_request :: "request_profile \<Rightarrow> bool" where
  "completed_request r \<longleftrightarrow> (\<exists>t p clk status error p'. profiled t p \<and> (\<forall>i. t \<le> clk i) \<and> (\<forall>i j. i \<le> j \<longrightarrow> clk i \<le> clk j)
     \<and> profiler_complete status error clk p = Some (Inr (p', r)))"

definition nodes_named :: "string \<Rightarrow> request_profile \<Rightarrow> nat" where
  "nodes_named n r = card {i. i < tr_next (rp_trace r) \<and> tn_name (tr_heap (rp_trace r) i) = n}"

lemma completed_trace:
  assumes "completed_request r"
  shows "tree_inv (rp_trace r) \<and> 0 < tr_next (rp_trace r) \<and> tr_root (rp_trace r) = Some 0
     \<and> (\<forall>i < tr_next (rp_trace r). tn_duration_ns (tr_heap (rp_trace r) i) \<noteq> None)"
proof -
  obtain t p clk status error p' where c: "profiled t p" "\<forall>i. t \<le> clk i" "\<forall>i j. i \<le> j \<longrightarrow> clk i \<le> clk j"
    "profiler_complete status error clk p = Some (Inr (p', r))" using assms by (auto simp: completed_request_def)
  obtain q r' t' where f: "profiler_complete status error clk p = Some (Inr (q, r'))" "trace_inv t' (rp_trace r')"
    "tr_current (rp_trace r') = None" using complete_returns [of t p clk] c(1-3) by metis
  then have "r' = r" using c(4) by simp
  then show ?thesis using f(2) completed_nodes [OF f(2,3)] by (auto simp: trace_inv_def tree_inv_def)
qed

lemma collected_profile:
  assumes "completed_request r" "tr_next (rp_trace r) \<le> k"
  shows "\<exists>s'. tr_root (rp_trace r) = Some 0 \<and> collect_node_durations k (tr_heap (rp_trace r)) 0 s = Some s'
     \<and> samples_named n s' = samples_named n s + nodes_named n r"
proof -
  let ?h = "tr_heap (rp_trace r)" and ?m = "tr_next (rp_trace r)"
  note t = completed_trace [OF assms(1)]
  obtain d "is" where d: "node_to_dict k ?h 0 = Some d" "lists_subtree (rp_trace r) 0 d is"
    using node_rendered [of "rp_trace r" 0 k] t assms(2) by auto
  then have l: "listed d = map (node_values ?h) is" "distinct is" "set is = {i. i < ?m}"
    using all_below_root [of "rp_trace r"] t by (auto simp: lists_subtree_def)
  have "length (filter (\<lambda>(m, _, _, d, _). m = n \<and> d \<noteq> None) (listed d))
      = length (filter (\<lambda>i. tn_name (?h i) = n \<and> tn_duration_ns (?h i) \<noteq> None) is)"
    unfolding l(1) filter_map length_map by (simp add: comp_def node_values_def)
  also have "\<dots> = card {i \<in> set is. tn_name (?h i) = n \<and> tn_duration_ns (?h i) \<noteq> None}"
    using distinct_card [OF distinct_filter [OF l(2)]] by (metis set_filter)
  also have "\<dots> = nodes_named n r" unfolding nodes_named_def by (rule arg_cong [where f = card]) (use l(3) t in auto)
  finally have "samples_named n (fold add_listed (listed d) s) = samples_named n s + nodes_named n r"
    unfolding counted_listed by (rule arg_cong)
  then show ?thesis using collect_lists [OF d(1), of s] t by blast
qed

lemma collected_history:
  "\<forall>r \<in> set rs. completed_request r \<and> tr_next (rp_trace r) \<le> k \<Longrightarrow>
     \<exists>s'. collect_history k rs s = Some s' \<and> (\<forall>n. samples_named n s' = samples_named n s + sum_list (map (nodes_named n) rs))"
proof (induction rs arbitrary: s)
  case (Cons r rs)
  have r: "completed_request r" "tr_next (rp_trace r) \<le> k" using Cons.prems by simp_all
  obtain s1 where s1: "tr_root (rp_trace r) = Some 0" "collect_node_durations k (tr_heap (rp_trace r)) 0 s = Some s1"
    using collected_profile [OF r, of s] by blast
  then have "samples_named n s1 = samples_named n s + nodes_named n r" for n using collected_profile [OF r, of s n] by simp
  then show ?case using Cons.IH [of s1] Cons.prems s1 by auto
qed simp

text \<open>
  The stage breakdown of a benchmark comes about, given as much recursion as the largest trace has nodes,
  and counts under every name exactly the nodes of that name in the retained requests, at any depth.
\<close>

theorem stage_breakdown_counts_nodes:
  assumes "\<forall>r \<in> set (rg_history rg). completed_request r \<and> tr_next (rp_trace r) \<le> k"
  shows "\<exists>bd. stage_breakdown k rg = Some bd
     \<and> (\<forall>n. (case map_of bd n of None \<Rightarrow> 0 | Some st \<Rightarrow> ss_count st) = sum_list (map (nodes_named n) (rg_history rg)))"
proof -
  obtain s where s: "collect_history k (rg_history rg) [] = Some s"
    "\<And>n. samples_named n s = sum_list (map (nodes_named n) (rg_history rg))"
    using collected_history [OF assms, of "[]"] by (auto simp: samples_named_def)
  have "(case map_of (map (\<lambda>(name, ds). (name, stats_of ds)) s) n of None \<Rightarrow> 0 | Some st \<Rightarrow> ss_count st) = samples_named n s" for n
    by (induction s) (auto simp: samples_named_def stats_of_def Let_def)
  then show ?thesis using s by (simp add: stage_breakdown_def)
qed

theorem stage_breakdown_counts_nodes_witness:
  "\<exists>p' r bd. profiler_complete ''ok'' None steady_clock one_stage = Some (Inr (p', r))
     \<and> stage_breakdown 2 ((perf_registry_new 1)\<lparr>rg_history := [r]\<rparr>) = Some bd
     \<and> (case map_of bd ''dispatch'' of None \<Rightarrow> 0 | Some st \<Rightarrow> ss_count st) = nodes_named ''dispatch'' r"
proof -
  have clk: "20 \<le> steady_clock i" "i \<le> j \<Longrightarrow> steady_clock i \<le> steady_clock j" for i j by (simp_all add: steady_clock_def)
  obtain p' r and t' :: int where r: "profiler_complete ''ok'' None steady_clock one_stage = Some (Inr (p', r))"
    and sh: "same_shape (pf_trace one_stage) (rp_trace r)"
    by (rule complete_returns [OF one_stage_profiled clk])
  have "tr_next (pf_trace one_stage) = 2"
    by (simp add: one_stage_def start_stage_def profiler_new_def trace_start_def trace_new_def add_child_def node_new_def Let_def)
  then have n: "tr_next (rp_trace r) = 2" using sh by (simp add: same_shape_def)
  have "completed_request r" unfolding completed_request_def using one_stage_profiled clk r by blast
  then show ?thesis
    using stage_breakdown_counts_nodes [of "(perf_registry_new 1)\<lparr>rg_history := [r]\<rparr>" 2] n r by auto
qed

end
