(* ===== verification/Telemetry.thy ===== *)
theory Telemetry
  imports Metrics_Registry
begin

text \<open>
  \<open>src/core/observability/registry.py\<close>, the pluggable health checks and metric collectors, and the manager of
  \<open>src/core/observability/otel.py\<close>: its initialization, traced calls and counters.  OpenTelemetry itself is
  what its constructors raise (an argument) and a log of finished spans; the text of an exception and of a
  number is a parameter.
\<close>

section \<open>Health checks\<close>

datatype health = Healthy | Degraded | Unhealthy

record check_entry =
  ce_status :: string
  ce_healthy :: bool
  ce_error :: "string option"

record health_result =
  hs_status :: health
  hs_timestamp :: rat
  hs_checks :: "(string, check_entry) odict"

text \<open>A check changes the state of the program and returns or raises; awaiting it is part of running it.\<close>

type_synonym 's check = "'s \<Rightarrow> 's \<times> bool result"

record 's health_registry =
  hg_checks :: "(string, 's check) odict"
  hg_last_check :: "health_result option"

definition register_check :: "string \<Rightarrow> 's check \<Rightarrow> 's health_registry \<Rightarrow> 's health_registry" where
  "register_check name check g = g\<lparr>hg_checks := AList.update name check (hg_checks g)\<rparr>"

text \<open>The loop: \<open>Inl\<close> is what leaves it, a cancellation.\<close>

fun run_each :: "(py_exc \<Rightarrow> string) \<Rightarrow> (string, 's check) odict \<Rightarrow> (string, check_entry) odict \<Rightarrow> bool \<Rightarrow> 's
     \<Rightarrow> 's \<times> ((string, check_entry) odict \<times> bool) result" where
  "run_each str [] entries ok s = (s, Inr (entries, ok))"
| "run_each str ((name, check) # checks) entries ok s =
     (case check s of
        (s', Inr b) \<Rightarrow> run_each str checks
            (AList.update name \<lparr>ce_status = (if b then ''ok'' else ''failed''), ce_healthy = b, ce_error = None\<rparr> entries) (ok \<and> b) s'
      | (s', Inl e) \<Rightarrow>
          if e = CancelledError then (s', Inl CancelledError)
          else run_each str checks (AList.update name \<lparr>ce_status = ''error'', ce_healthy = False, ce_error = Some (str e)\<rparr> entries) False s')"

definition run_checks :: "(py_exc \<Rightarrow> string) \<Rightarrow> rat \<Rightarrow> 's health_registry \<Rightarrow> 's \<Rightarrow> ('s health_registry \<times> 's) \<times> health_result result" where
  "run_checks str now g s =
     (case run_each str (hg_checks g) [] True s of
        (s', Inl e) \<Rightarrow> ((g, s'), Inl e)
      | (s', Inr (entries, ok)) \<Rightarrow>
          (let r = \<lparr>hs_status = (if ok then Healthy else Degraded), hs_timestamp = now, hs_checks = entries\<rparr>
           in ((g\<lparr>hg_last_check := Some r\<rparr>, s'), Inr r)))"

fun health_status_code :: "health \<Rightarrow> nat" where
  "health_status_code Healthy = 200"
| "health_status_code Degraded = 503"
| "health_status_code Unhealthy = 503"

section \<open>Collected metrics\<close>

datatype metric_value = Number rat | Other_Value
datatype metric_data = Fields "(string, metric_value) odict" | Other_Data

type_synonym 's metric_source = "'s \<Rightarrow> 's \<times> metric_data result"

record 's metrics_sources =
  mg_collectors :: "(string, 's metric_source) odict"
  mg_metrics :: "(string, metric_data) odict option"

definition register_source :: "string \<Rightarrow> 's metric_source \<Rightarrow> 's metrics_sources \<Rightarrow> 's metrics_sources" where
  "register_source name f g = g\<lparr>mg_collectors := AList.update name f (mg_collectors g)\<rparr>"

fun collect_each :: "(string, 's metric_source) odict \<Rightarrow> (string, metric_data) odict \<Rightarrow> 's \<Rightarrow> 's \<times> (string, metric_data) odict result" where
  "collect_each [] ms s = (s, Inr ms)"
| "collect_each ((name, f) # fs) ms s =
     (case f s of
        (s', Inr d) \<Rightarrow> collect_each fs (AList.update name d ms) s'
      | (s', Inl e) \<Rightarrow>
          if e = CancelledError then (s', Inl CancelledError)
          else collect_each fs (AList.update name (Fields [(''error'', Other_Value)]) ms) s')"

definition collect_metrics :: "'s metrics_sources \<Rightarrow> 's \<Rightarrow> ('s metrics_sources \<times> 's) \<times> (string, metric_data) odict result" where
  "collect_metrics g s =
     (case collect_each (mg_collectors g) [] s of
        (s', Inl e) \<Rightarrow> ((g, s'), Inl e)
      | (s', Inr ms) \<Rightarrow> ((g\<lparr>mg_metrics := Some ms\<rparr>, s'), Inr ms))"

definition source_lines :: "(rat \<Rightarrow> string) \<Rightarrow> string \<times> metric_data \<Rightarrow> string list" where
  "source_lines fmt m =
     (case m of
        (category, Fields d) \<Rightarrow>
          if map_of d ''error'' \<noteq> None then []
          else concat (map (\<lambda>(k, v). case v of Other_Value \<Rightarrow> []
                 | Number x \<Rightarrow> [''preparedata_'' @ category @ ''{label=\"'' @ k @ ''\"} '' @ fmt x]) d)
      | (category, Other_Data) \<Rightarrow> [])"

text \<open>The dictionary of a finished \<open>collect()\<close> is never empty: it has a time stamp.\<close>

definition prometheus_format :: "(rat \<Rightarrow> string) \<Rightarrow> 's metrics_sources \<Rightarrow> string" where
  "prometheus_format fmt g =
     (case mg_metrics g of
        None \<Rightarrow> ''# No metrics collected yet'' @ [CHR 0x0A]
      | Some ms \<Rightarrow> joined_with [CHR 0x0A]
          ([''# HELP preparedata_metrics Application metrics'', ''# TYPE preparedata_metrics gauge''] @ concat (map (source_lines fmt) ms))
          @ [CHR 0x0A])"

section \<open>The OpenTelemetry manager\<close>

type_synonym attributes = "(string, string) odict"

record otel_manager =
  om_enable_prometheus :: bool
  om_enable_otlp :: bool
  om_tracer_provider :: bool
  om_exports_spans :: bool
  om_tracer :: bool
  om_exports_metrics :: bool
  om_meter :: bool
  om_counters :: "(string, rat) odict"
  om_spans :: "(string \<times> attributes) list"

definition otel_manager_new :: otel_manager where
  "otel_manager_new = \<lparr>om_enable_prometheus = True, om_enable_otlp = True, om_tracer_provider = False, om_exports_spans = False,
     om_tracer = False, om_exports_metrics = False, om_meter = False, om_counters = [], om_spans = []\<rparr>"

text \<open>What the constructors of the library raise, in the order \<open>initialize\<close> calls them.\<close>

record otel_failures =
  of_resource :: "py_exc option"
  of_span_exporter :: "py_exc option"
  of_tracer :: "py_exc option"
  of_metric_exporter :: "py_exc option"
  of_meter :: "py_exc option"

definition initialize_otel :: "otel_failures \<Rightarrow> otel_manager \<Rightarrow> otel_manager \<times> unit result" where
  "initialize_otel f m =
     (case of_resource f of
        Some e \<Rightarrow> (m, Inl e)
      | None \<Rightarrow>
          (let m1 = m\<lparr>om_tracer_provider := True, om_exports_spans := om_enable_otlp m \<and> of_span_exporter f = None\<rparr> in
           case of_tracer f of
             Some e \<Rightarrow> (m1, Inl e)
           | None \<Rightarrow>
               (let m2 = m1\<lparr>om_tracer := True,
                      om_exports_metrics := om_enable_prometheus m \<and> om_enable_otlp m \<and> of_metric_exporter f = None\<rparr> in
                case of_meter f of
                  Some e \<Rightarrow> (m2, Inl e)
                | None \<Rightarrow> (m2\<lparr>om_meter := True\<rparr>, Inr ()))))"

text \<open>\<open>get_otel_manager\<close>: the global is assigned before it is initialized.\<close>

definition get_otel_manager :: "otel_failures \<Rightarrow> otel_manager option \<Rightarrow> otel_manager option \<times> otel_manager result" where
  "get_otel_manager f g =
     (case g of
        Some m \<Rightarrow> (Some m, Inr m)
      | None \<Rightarrow>
          (case initialize_otel f otel_manager_new of
             (m, Inl e) \<Rightarrow> (Some m, Inl e)
           | (m, Inr _) \<Rightarrow> (Some m, Inr m)))"

text \<open>
  The world of a traced function is the global manager and the state of the program.  Entering the span gives the
  body \<open>None\<close> when there is no tracer; the body returns the attributes it set on the span.
\<close>

type_synonym 's world = "otel_manager option \<times> 's"

definition end_span :: "string \<Rightarrow> attributes \<Rightarrow> otel_manager option \<Rightarrow> otel_manager option" where
  "end_span name attrs = map_option (\<lambda>m. m\<lparr>om_spans := om_spans m @ [(name, attrs)]\<rparr>)"

definition error_attributes :: "(py_exc \<Rightarrow> string \<times> string) \<Rightarrow> 'a result \<Rightarrow> attributes" where
  "error_attributes str r =
     (case r of
        Inl e \<Rightarrow> if e = CancelledError then []
                 else [(''error.type'', fst (str e)), (''error.message'', snd (str e)), (''error'', ''True'')]
      | Inr _ \<Rightarrow> [])"

definition trace_operation ::
  "(py_exc \<Rightarrow> string \<times> string) \<Rightarrow> string \<Rightarrow> attributes \<Rightarrow> (bool \<Rightarrow> 's world \<Rightarrow> 's world \<times> attributes \<times> 'a result)
     \<Rightarrow> otel_manager \<Rightarrow> 's world \<Rightarrow> 's world \<times> 'a result" where
  "trace_operation str name attrs body m w =
     (case body (om_tracer m) w of
        (w', set_on, r) \<Rightarrow>
          if om_tracer m then ((end_span name (attrs @ set_on @ error_attributes str r) (fst w'), snd w'), r) else (w', r))"

text \<open>
  The wrapper of \<open>traced_function\<close>.  \<open>set_attribute\<close> on \<open>None\<close> is an \<open>AttributeError\<close>, raised in the \<open>try\<close> and
  again in its handler.
\<close>

definition traced_body :: "string \<Rightarrow> ('s world \<Rightarrow> 's world \<times> 'a result) \<Rightarrow> bool \<Rightarrow> 's world \<Rightarrow> 's world \<times> attributes \<times> 'a result" where
  "traced_body elapsed f traced w =
     (case f w of
        (w', Inl CancelledError) \<Rightarrow> (w', [], Inl CancelledError)
      | (w', r) \<Rightarrow>
          if traced then (w', [(''duration_ms'', elapsed), (''status'', case r of Inl _ \<Rightarrow> ''error'' | Inr _ \<Rightarrow> ''success'')], r)
          else (w', [], Inl (OtherError ''AttributeError'')))"

definition traced_function ::
  "otel_failures \<Rightarrow> (py_exc \<Rightarrow> string \<times> string) \<Rightarrow> string \<Rightarrow> string \<Rightarrow> attributes \<Rightarrow> string
     \<Rightarrow> ('s world \<Rightarrow> 's world \<times> 'a result) \<Rightarrow> 's world \<Rightarrow> 's world \<times> 'a result" where
  "traced_function fl str modname fname args elapsed f w =
     (case get_otel_manager fl (fst w) of
        (g, Inl e) \<Rightarrow> ((g, snd w), Inl e)
      | (g, Inr m) \<Rightarrow> trace_operation str (modname @ ''.'' @ fname) ([(''function.name'', fname), (''function.module'', modname)] @ args)
            (traced_body elapsed f) m (g, snd w))"

text \<open>The arguments in the attributes: the first three, each cut to a hundred characters.\<close>

definition argument_attributes :: "string list \<Rightarrow> (string \<times> string) list \<Rightarrow> attributes" where
  "argument_attributes args kwargs =
     map (\<lambda>(i, a). (''arg_'' @ string_of_nat i, take 100 a)) (zip [0..<3] (take 3 args))
     @ map (\<lambda>(k, v). (''kwarg_'' @ k, take 100 v)) (take 3 kwargs)"

definition record_otel_metric :: "string \<Rightarrow> rat \<Rightarrow> otel_manager \<Rightarrow> otel_manager" where
  "record_otel_metric name v m =
     (if \<not> om_meter m then m
      else m\<lparr>om_counters := AList.update name ((case map_of (om_counters m) name of None \<Rightarrow> 0 | Some x \<Rightarrow> x) + v) (om_counters m)\<rparr>)"

text \<open>\<open>record_db_operation\<close>, with the operation in lower case and the texts of the numbers as arguments.\<close>

definition record_db_operation ::
  "otel_failures \<Rightarrow> (py_exc \<Rightarrow> string \<times> string) \<Rightarrow> string \<Rightarrow> string \<Rightarrow> string \<Rightarrow> string \<Rightarrow> rat \<Rightarrow> string \<Rightarrow> 's world \<Rightarrow> 's world \<times> unit result" where
  "record_db_operation fl str operation op_name table rows duration duration_text w =
     (case get_otel_manager fl (fst w) of
        (g, Inl e) \<Rightarrow> ((g, snd w), Inl e)
      | (g, Inr m) \<Rightarrow>
          trace_operation str (''db.'' @ op_name)
            [(''db.operation'', operation), (''db.table'', table), (''db.rows'', rows), (''db.duration_ms'', duration_text)]
            (\<lambda>_ v. ((map_option (record_otel_metric (''db.'' @ op_name @ ''.duration_ms'') duration) (fst v), snd v), [], Inr ())) m (g, snd w))"

section \<open>Checks are isolated\<close>

text \<open>The names in the order they are first met, as \<open>AList.update\<close> keeps them.\<close>

lemma run_each_entries:
  assumes "run_each str cs entries ok s = (s', Inr (entries', ok'))" "wf_odict cs" "set (keys cs) \<inter> set (keys entries) = {}"
  shows "keys entries' = keys entries @ keys cs \<and> s' = fold (\<lambda>(_, f) t. fst (f t)) cs s
     \<and> (ok' \<longleftrightarrow> ok \<and> (\<forall>n \<in> set (keys cs). \<exists>e. map_of entries' n = Some e \<and> ce_healthy e))
     \<and> (\<forall>n. n \<notin> set (keys cs) \<longrightarrow> map_of entries' n = map_of entries n)"
  using assms
proof (induction cs arbitrary: entries ok s)
  case (Cons c cs)
  obtain n f where c: "c = (n, f)" by (cases c)
  obtain t r where f: "f s = (t, r)" by fastforce
  have new: "n \<notin> set (keys entries)" "n \<notin> set (keys cs)" "wf_odict cs" using Cons.prems(2,3) c by (auto simp: wf_odict_def)
  define e where "e = (case r of Inr b \<Rightarrow> \<lparr>ce_status = (if b then ''ok'' else ''failed''), ce_healthy = b, ce_error = None\<rparr>
      | Inl x \<Rightarrow> \<lparr>ce_status = ''error'', ce_healthy = False, ce_error = Some (str x)\<rparr>)"
  define b where "b = (case r of Inr b \<Rightarrow> ok \<and> b | Inl _ \<Rightarrow> False)"
  have run: "run_each str cs (AList.update n e entries) b t = (s', Inr (entries', ok'))"
    using Cons.prems(1) f c by (auto simp: e_def b_def split: sum.splits if_splits)
  have keys: "keys (AList.update n e entries) = keys entries @ [n]" using update_new [OF new(1)] by simp
  then have "set (keys cs) \<inter> set (keys (AList.update n e entries)) = {}" using Cons.prems(3) new(2) c by auto
  from Cons.IH [OF run new(3) this] keys new c f show ?case
    by (auto simp: map_of_update b_def e_def split: sum.splits)
qed auto

text \<open>
  Every registered check runs once, in the order of registration, whichever of them fail or raise, and the result
  lists each; the status is healthy, with code 200, exactly if all of them are.
\<close>

theorem health_checks_isolated:
  assumes "run_checks str now g s = ((g', s'), Inr r)" "wf_odict (hg_checks g)"
  shows "keys (hs_checks r) = keys (hg_checks g) \<and> s' = fold (\<lambda>(_, f) t. fst (f t)) (hg_checks g) s \<and> hg_last_check g' = Some r
     \<and> (health_status_code (hs_status r) = 200
          \<longleftrightarrow> (\<forall>n \<in> set (keys (hg_checks g)). \<exists>e. map_of (hs_checks r) n = Some e \<and> ce_healthy e))"
proof -
  obtain entries ok where e: "run_each str (hg_checks g) [] True s = (s', Inr (entries, ok))"
    and r: "r = \<lparr>hs_status = (if ok then Healthy else Degraded), hs_timestamp = now, hs_checks = entries\<rparr>" "hg_last_check g' = Some r"
    using assms(1) by (auto simp: run_checks_def Let_def split: prod.splits sum.splits)
  then show ?thesis using run_each_entries [OF e assms(2)] by auto
qed

section \<open>Traced calls\<close>

lemma initialize_keeps_spans: "initialize_otel f m = (m', r) \<Longrightarrow> om_spans m' = om_spans m \<and> om_counters m' = om_counters m"
  by (auto simp: initialize_otel_def Let_def split: option.splits)

text \<open>
  With a tracer, a traced function returns or raises what the function does and leaves the state it leaves, and
  adds one span, whose status tells how it ended.
\<close>

theorem traced_function_is_function:
  assumes "fst w = Some m" "om_tracer m" "f w = ((Some m1, s1), r)"
  shows "\<exists>attrs. traced_function fl str modname fname args elapsed f w
       = ((Some (m1\<lparr>om_spans := om_spans m1 @ [(modname @ ''.'' @ fname, attrs)]\<rparr>), s1), r)
     \<and> (r \<noteq> Inl CancelledError \<longrightarrow> (''status'', case r of Inl _ \<Rightarrow> ''error'' | Inr _ \<Rightarrow> ''success'') \<in> set attrs)"
proof -
  have w: "(Some m, snd w) = w" using assms(1) by (cases w) simp
  show ?thesis
  proof (cases "r = Inl CancelledError")
    case True
    then show ?thesis using assms w
      by (auto simp: traced_function_def get_otel_manager_def trace_operation_def traced_body_def end_span_def)
  next
    case False
    have b: "traced_body elapsed f True w = ((Some m1, s1), [(''duration_ms'', elapsed), (''status'', case r of Inl _ \<Rightarrow> ''error'' | Inr _ \<Rightarrow> ''success'')], r)"
      using assms(3) False by (auto simp: traced_body_def split: sum.splits py_exc.splits)
    show ?thesis using assms(1,2) b w
      by (auto simp: traced_function_def get_otel_manager_def trace_operation_def end_span_def)
  qed
qed

text \<open>
  If initialization fails before there is a tracer, the first traced call raises that error, and every later one
  runs the function and then raises an \<open>AttributeError\<close> in place of its result.
\<close>

lemma traced_call_after_failed_start:
  assumes "of_resource fl = Some e"
  shows "traced_function fl str modname fname args elapsed f (None, s) = ((Some otel_manager_new, s), Inl e)"
    and "f (Some otel_manager_new, s) = ((g, s1), Inr x) \<Longrightarrow>
      traced_function fl str modname fname args elapsed f (Some otel_manager_new, s) = ((g, s1), Inl (OtherError ''AttributeError''))"
  using assms by (simp_all add: traced_function_def get_otel_manager_def initialize_otel_def trace_operation_def traced_body_def
      otel_manager_new_def)

text \<open>The durations of an operation add up in one counter: it grows with every call and is no duration.\<close>

lemma recorded_durations_add_up:
  assumes "om_meter m"
  shows "map_of (om_counters (fold (record_otel_metric name) ds m)) name
     = (if ds = [] then map_of (om_counters m) name
        else Some ((case map_of (om_counters m) name of None \<Rightarrow> 0 | Some x \<Rightarrow> x) + sum_list ds))"
  using assms
proof (induction ds arbitrary: m)
  case (Cons d ds)
  show ?case using Cons.IH [of "record_otel_metric name d m"] Cons.prems by (auto simp: record_otel_metric_def map_of_update)
qed simp

end
