(* ===== verification/Spec2Isabelle.thy ===== *)
theory Spec2Isabelle
  imports Histogram Sql_Policy Rate_Limiter Query_Cache Async_Pool Sync_Pool Session
    Query_Routes Lifespan Observability Metrics_Registry Sqlite_Store Warehouse_Adapters Executors
    Request_Stack Collectors Service_Cleanup Auth_Models Bootstrap_Admin Run_Api
    Instrumented_Adapters Profile_Export File_Exporters Db_Lifecycle Measurement Telemetry
begin

text \<open>
  A verification library for the sales-data API (\<open>src/core\<close>): an HTTP service that authenticates callers
  by API key or token, runs their SQL on an analytical warehouse through a connection pool and two caches,
  and keeps users, keys, cached results, logs, traces and an audit trail in a service database.

  \<^bold>\<open>How the parts interact.\<close>  A request passes the authentication middleware (\<open>Auth\<close>), which validates keys
  through the key service (\<open>Api_Keys\<close>) over the service database (\<open>Service_Db\<close>).  The query route
  (\<open>Query_Routes\<close>) calls the query service (\<open>Query_Service\<close>): it classifies the statement (\<open>Sql_Policy\<close>),
  checks the write scope, waits for a gate of the statement's cost class, asks the cache coordinator
  (\<open>Cache_Coordinator\<close>), which holds the in-process cache (\<open>Query_Cache\<close>), coalesces concurrent misses and
  hands results to the persistent cache (\<open>Result_Cache\<close>) through a job queue (\<open>Persistence_Queue\<close>), and
  runs misses in a session (\<open>Session\<close>) on a pooled connection (\<open>Async_Pool\<close>, \<open>Sync_Pool\<close>).  Around it the
  profiling middleware times the stages of sampled requests (\<open>Sampling\<close>, \<open>Request_Trace\<close>) and hands the
  profile to the metrics registry (\<open>Metrics_Registry\<close>), and the observability middleware queues a record of
  the request (\<open>Observability\<close>, \<open>Write_Queue\<close>).  \<open>Lifespan\<close> starts and stops all of it.

  \<^bold>\<open>Theories and sources.\<close>
  \<^item> \<open>Prelude\<close>: exceptions and fallible results (\<open>'a result\<close>, the left side an exception), dictionaries in
    insertion order as association lists, truthiness, rounding.
  \<^item> \<open>Regex\<close>, \<open>Sql_Policy\<close>: the part of Python's \<open>re\<close> the program uses, as a backtracking matcher, and
    \<open>db/sql_policy.py\<close>.
  \<^item> \<open>Rate_Limiter\<close>: \<open>auth/rate_limiter.py\<close>.
  \<^item> \<open>Query_Cache\<close>: \<open>db/cache.py\<close>, with a locale for the interface of a bounded cache that the LRU, TTL and
    hybrid caches interpret.
  \<^item> \<open>Histogram\<close>: \<open>performance/histogram.py\<close>.
  \<^item> \<open>Pool_Base\<close>, \<open>Async_Pool\<close>, \<open>Sync_Pool\<close>: \<open>db/pool\<close>.  The asynchronous pool is a step relation over
    the sections between two suspension points, the threaded one over the sections between lock operations.
  \<^item> \<open>Db_Settings\<close>, \<open>Session\<close>: \<open>db/settings.py\<close>, \<open>config.py\<close>, \<open>registry.py\<close>, \<open>session.py\<close>,
    \<open>transactions.py\<close>; the locale of a pool is interpreted on both pools.
  \<^item> \<open>Db_Lifecycle\<close>: a \<open>DatabaseSession\<close> from \<open>initialize()\<close> to \<open>close()\<close>, over the connections open at the
    driver; the locale of a pool that can be closed is interpreted on both pools.
  \<^item> \<open>Service_Db\<close>, \<open>Sqlite_Store\<close>: \<open>storage/service_db.py\<close> and \<open>db/adapters/sqlite.py\<close>, once as tables
    of rows with their queries, once as statements of several connections on one file.
  \<^item> \<open>Warehouse_Adapters\<close>: \<open>db/adapters/duckdb.py\<close> and \<open>postgresql.py\<close> over their drivers.
  \<^item> \<open>Executors\<close>: \<open>concurrency/executors.py\<close>, a step relation of callers and workers.
  \<^item> \<open>Api_Keys\<close>, \<open>Auth\<close>, \<open>Auth_Models\<close>: \<open>auth\<close> and \<open>app/api/routes/auth.py\<close>.
  \<^item> \<open>Persistence_Queue\<close>, \<open>Result_Cache\<close>, \<open>Cache_Coordinator\<close>: \<open>caching\<close>.
  \<^item> \<open>Query_Service\<close>, \<open>Query_Routes\<close>: \<open>services\<close>, \<open>app/api/routes/query.py\<close>, \<open>app/health.py\<close>.
  \<^item> \<open>App_Settings\<close>: \<open>app/settings.py\<close>, \<open>concurrency/cpu.py\<close>.
  \<^item> \<open>Alerts\<close>, \<open>Write_Queue\<close>, \<open>Observability\<close>: \<open>observability\<close>.
  \<^item> \<open>Sampling\<close>, \<open>Request_Trace\<close>, \<open>Metrics_Registry\<close>, \<open>Collectors\<close>: \<open>performance\<close>.
  \<^item> \<open>Request_Stack\<close>: \<open>app/api/app.py\<close>, the middlewares around a route, and the debug dashboard.
  \<^item> \<open>Service_Cleanup\<close>: \<open>service_registry.py\<close>.
  \<^item> \<open>Lifespan\<close>, \<open>Run_Api\<close>: \<open>app/lifespan.py\<close>, \<open>app/container.py\<close>, \<open>run_api.py\<close>.
  \<^item> \<open>Bootstrap_Admin\<close>: \<open>bootstrap_admin.py\<close>, on the rows of \<open>Service_Db\<close>.
  \<^item> \<open>Instrumented_Adapters\<close>: \<open>performance/adapters\<close>, each wrapper on the model of what it wraps; the locale of a
    pool whose metrics only adjust its size is interpreted on both pools.
  \<^item> \<open>Profile_Export\<close>, \<open>File_Exporters\<close>: \<open>RequestProfile.to_dict\<close> and \<open>performance/exporters\<close>, with a
    reader of the CSV format.
  \<^item> \<open>Telemetry\<close>: \<open>observability/registry.py\<close> and \<open>otel.py\<close>.
  \<^item> \<open>Measurement\<close>: the statistics and reports of \<open>benchmarks/_common.py\<close> and \<open>load_test.py\<close>.

  \<^bold>\<open>State and operations.\<close>  An object is a record of its attributes, a method a function from the object
  before to the object after and what it returns or raises.  Where tasks or threads interleave, the object
  is one component of a system state whose steps are the stretches of code that run without interruption,
  and the reachable states are an inductive predicate.  Clock readings, random draws, driver answers,
  injected failures, password hashing and signatures are arguments.

  \<^bold>\<open>What the lemmas show.\<close>
  \<^item> Callers: no protected path without a credential; an administrator always remains; a role change and a
    revocation take effect in spite of the caches; callers touch their own keys only; no change of the
    warehouse without the write scope; the bootstrap command adds the named administrator and nothing else.
  \<^item> Answers: the service with both caches answers like running every statement on the warehouse; a hit is
    the value last stored and still valid; invalidation drops every entry of the tables; a flight has one leader.
  \<^item> Concurrency: no connection has two holders, pools and gates keep their bounds, released connections go
    to the oldest waiter, jobs and records are neither lost nor duplicated.
  \<^item> Storage: what is committed is exactly what returned; transactions commit or roll back; cached results
    and settings read back as stored, exported metrics as rendered; a profile renders every stage once.
  \<^item> Measurement: buckets, estimates, counters, histories and exclusive times are exact or within bounds;
    counter alerts and load reports add up; a failing health check stops no other; sampling stays within and recovers; timing a call leaves its effect and its answer alone.
  \<^item> Launch: the pool and the executors of a launched server fit each other; what was started is stopped, and a closed
    session leaves no connection open.
  \<^item> Failures of the code that a lemma exhibits are next to the property they limit.

  \<^bold>\<open>Loops.\<close>  Loops over data are structural recursion; the regular-expression matcher is total, its
  repetitions bounded by the length of the rest of the text, which a repetition that consumes nothing
  cannot exceed.  \<open>finish_all\<close>, the walk from the current trace node to the root, is a partial function,
  and \<open>complete_finishes_every_node\<close> proves that it returns.  \<open>words_from\<close>
  (\<open>str.split\<close>) takes one more than the length of its text as fuel and uses one unit a word.
  \<open>node_to_dict\<close> and \<open>collect_node_durations\<close> take Python's recursion limit as fuel; as many units as the
  trace has nodes are enough.

  \<^bold>\<open>Bounds of the model.\<close>  Text is ASCII.  Floats are exact rationals, so rounding errors of clock
  arithmetic and averages are not seen; Python's integers are unbounded, as \<open>int\<close> or \<open>nat\<close>.

  \<^bold>\<open>Not modelled.\<close>  Log lines and the calls into metrics and tracing back ends (OpenTelemetry,
  Prometheus client); the HTML page of the live dashboard; opening and closing a connection inside a driver;
  CORS, OpenAPI and router configuration; the parsing of command lines; the script for a sample database; how
  the load test and the benchmarks call the service and print.  Drivers, password hashing, token signatures
  and SQLite itself are parameters.
\<close>

end
